(* ===== verification/Prelude.thy ===== *)
theory Prelude
  imports Main "HOL-Library.Word"
begin

unbundle bit_operations_syntax

section \<open>Shared vocabulary: bytes, C strings, fallible steps\<close>

text \<open>
  What every component uses: bytes and C strings, the sum-typed results in which a crash of the
  program (a failed \<open>assert\<close>, an uncaught exception, a bad pointer) is a value \<open>Inl f\<close>, runs of a
  fallible step over a list of inputs, the locale \<open>fallible_machine\<close> that lifts what one step keeps
  to whole runs, and lemmas on lists and maps that several components share.
\<close>

named_theorems cstr_simps \<open>facts on C strings\<close>
named_theorems fault_simps \<open>facts on fallible results\<close>

subsection \<open>Bytes and C strings\<close>

type_synonym byte = "8 word"
type_synonym bytes = "byte list"

text \<open>A string literal of the source as the bytes its pointer reaches, without the final NUL.\<close>

definition bytes_of :: "string \<Rightarrow> bytes" where
  "bytes_of s = map of_char s"

text \<open>
  What is left of a byte string once it has gone through a C string (\<open>c_str ()\<close> read back by a
  constructor from \<open>char *\<close>): everything before the first NUL.
\<close>

definition c_str :: "bytes \<Rightarrow> bytes" where
  "c_str s = takeWhile (\<lambda>c. c \<noteq> 0) s"

definition nul_free :: "bytes \<Rightarrow> bool" where
  "nul_free s \<longleftrightarrow> (0 :: byte) \<notin> set s"

lemma c_str_Nil [simp, cstr_simps]: "c_str [] = []"
  by (simp add: c_str_def)

lemma c_str_Cons [cstr_simps]: "c_str (x # s) = (if x = 0 then [] else x # c_str s)"
  by (simp add: c_str_def)

lemma nul_free_c_str [simp, intro]: "nul_free (c_str s)"
  by (auto simp: nul_free_def c_str_def dest: set_takeWhileD)

lemma c_str_nul_free [cstr_simps]: "nul_free s \<Longrightarrow> c_str s = s"
  by (auto simp: nul_free_def c_str_def takeWhile_eq_all_conv)

lemma c_str_idem [simp, cstr_simps]: "c_str (c_str s) = c_str s"
  by (rule c_str_nul_free) simp

lemma nul_free_Nil [simp]: "nul_free []"
  by (simp add: nul_free_def)

lemma nul_free_Cons [simp]: "nul_free (x # s) \<longleftrightarrow> x \<noteq> 0 \<and> nul_free s"
  by (auto simp: nul_free_def)

lemma length_c_str_le: "length (c_str s) \<le> length s"
  by (simp add: c_str_def length_takeWhile_le)

lemma length_c_str_eq_iff: "length (c_str s) = length s \<longleftrightarrow> nul_free s"
proof
  assume "length (c_str s) = length s"
  moreover have "s = c_str s @ dropWhile (\<lambda>c. c \<noteq> 0) s"
    by (simp add: c_str_def)
  ultimately have "s = c_str s"
    by (metis append_eq_append_conv append_Nil2)
  then show "nul_free s"
    by (metis nul_free_c_str)
qed (simp add: c_str_nul_free)

subsection \<open>Fallible results\<close>

text \<open>
  Sequencing of results: the first \<open>Inl\<close> ends the computation, as an abort or an uncaught
  exception ends the program.
\<close>

definition bindE :: "'f + 'a \<Rightarrow> ('a \<Rightarrow> 'f + 'b) \<Rightarrow> 'f + 'b" where
  "bindE r k = (case r of Inl f \<Rightarrow> Inl f | Inr x \<Rightarrow> k x)"

definition guardE :: "bool \<Rightarrow> 'f \<Rightarrow> 'f + unit" where
  "guardE p f = (if p then Inr () else Inl f)"

definition fetchE :: "'f \<Rightarrow> 'a option \<Rightarrow> 'f + 'a" where
  "fetchE f x = (case x of None \<Rightarrow> Inl f | Some y \<Rightarrow> Inr y)"

lemma bindE_simps [simp, fault_simps]:
  "bindE (Inl f) k = Inl f"
  "bindE (Inr x) k = k x"
  by (simp_all add: bindE_def)

lemma bindE_eq_Inr [fault_simps]: "bindE r k = Inr y \<longleftrightarrow> (\<exists>x. r = Inr x \<and> k x = Inr y)"
  by (cases r) simp_all

lemma bindE_eq_Inl [fault_simps]:
  "bindE r k = Inl f \<longleftrightarrow> r = Inl f \<or> (\<exists>x. r = Inr x \<and> k x = Inl f)"
  by (cases r) simp_all

lemma bindE_assoc: "bindE (bindE r k) l = bindE r (\<lambda>x. bindE (k x) l)"
  by (cases r) simp_all

lemma bindE_cong [fundef_cong]:
  "r = r' \<Longrightarrow> (\<And>x. r' = Inr x \<Longrightarrow> k x = k' x) \<Longrightarrow> bindE r k = bindE r' k'"
  by (cases r') simp_all

lemma bindE_result [simp]: "bindE r Inr = r"
  by (cases r) simp_all

lemma guardE_simps [simp, fault_simps]:
  "guardE True f = Inr ()"
  "guardE False f = Inl f"
  "guardE p f = Inr u \<longleftrightarrow> p"
  "guardE p f = Inl g \<longleftrightarrow> \<not> p \<and> g = f"
  by (auto simp: guardE_def)

lemma fetchE_simps [simp, fault_simps]:
  "fetchE f (Some x) = Inr x"
  "fetchE f None = Inl f"
  "fetchE f o1 = Inr y \<longleftrightarrow> o1 = Some y"
  "fetchE f o1 = Inl g \<longleftrightarrow> o1 = None \<and> g = f"
  by (auto simp: fetchE_def split: option.splits)

text \<open>A loop body run over the elements of a list, stopping at the first fault.\<close>

fun forE :: "('a \<Rightarrow> 's \<Rightarrow> 'f + 's) \<Rightarrow> 'a list \<Rightarrow> 's \<Rightarrow> 'f + 's" where
  "forE body [] s = Inr s"
| "forE body (x # xs) s = bindE (body x s) (forE body xs)"

lemma forE_nil [simp]: "forE body [] = Inr"
  by (rule ext) simp

lemma forE_append: "forE body (xs @ ys) s = bindE (forE body xs s) (forE body ys)"
  by (induction xs arbitrary: s) (simp_all add: bindE_assoc cong: bindE_cong)

text \<open>A computation applied to every element, collecting the results.\<close>

fun mapE :: "('a \<Rightarrow> 'f + 'b) \<Rightarrow> 'a list \<Rightarrow> 'f + 'b list" where
  "mapE g [] = Inr []"
| "mapE g (x # xs) = bindE (g x) (\<lambda>y. bindE (mapE g xs) (\<lambda>ys. Inr (y # ys)))"

lemma mapE_cong [fundef_cong]:
  "xs = ys \<Longrightarrow> (\<And>x. x \<in> set ys \<Longrightarrow> g x = h x) \<Longrightarrow> mapE g xs = mapE h ys"
  by (induction ys arbitrary: xs) (simp_all cong: bindE_cong)

lemma mapE_Inr_map: "(\<And>x. x \<in> set xs \<Longrightarrow> g x = Inr (h x)) \<Longrightarrow> mapE g xs = Inr (map h xs)"
  by (induction xs) simp_all

lemma mapE_length: "mapE g xs = Inr ys \<Longrightarrow> length ys = length xs"
  by (induction xs arbitrary: ys) (auto simp: bindE_eq_Inr)

lemma mapE_fault_iff: "(\<exists>f. mapE g xs = Inl f) \<longleftrightarrow> (\<exists>x \<in> set xs. \<exists>f. g x = Inl f)"
proof (induction xs)
  case (Cons x xs)
  then show ?case
    by (cases "g x"; cases "mapE g xs") auto
qed simp

lemma mapE_fault: "mapE g xs = Inl f \<Longrightarrow> \<exists>x \<in> set xs. g x = Inl f"
  by (induction xs) (auto simp: bindE_eq_Inl)

subsection \<open>Weakest preconditions of fallible results\<close>

text \<open>
  \<open>wpE bad Q r\<close>: the result \<open>r\<close> is none of the faults in \<open>bad\<close>, and if it is a value, \<open>Q\<close> holds of
  it. The equations push \<open>wpE\<close> through the sequencing of a definition.
\<close>

definition wpE :: "('f \<Rightarrow> bool) \<Rightarrow> ('a \<Rightarrow> bool) \<Rightarrow> 'f + 'a \<Rightarrow> bool" where
  "wpE bad Q r = (case r of Inl f \<Rightarrow> \<not> bad f | Inr x \<Rightarrow> Q x)"

lemma wpE_results [simp, fault_simps]:
  "wpE bad Q (Inl f) = (\<not> bad f)"
  "wpE bad Q (Inr x) = Q x"
  by (simp_all add: wpE_def)

lemma wpE_bindE [simp, fault_simps]: "wpE bad Q (bindE r k) = wpE bad (\<lambda>x. wpE bad Q (k x)) r"
  by (cases r) simp_all

lemma wpE_guardE [simp, fault_simps]: "wpE bad Q (guardE p f) = (if p then Q () else \<not> bad f)"
  by (simp add: guardE_def)

lemma wpE_fetchE [simp, fault_simps]:
  "wpE bad Q (fetchE f oa) = (case oa of None \<Rightarrow> \<not> bad f | Some x \<Rightarrow> Q x)"
  by (cases oa) simp_all

lemma wpE_mono: "wpE bad P r \<Longrightarrow> (\<And>x. r = Inr x \<Longrightarrow> P x \<Longrightarrow> Q x) \<Longrightarrow> wpE bad Q r"
  by (cases r) auto

lemma wpE_conj: "wpE bad (\<lambda>x. P x \<and> Q x) r \<longleftrightarrow> wpE bad P r \<and> wpE bad Q r"
  by (cases r) auto

lemma wpE_Inr: "wpE bad Q r \<Longrightarrow> r = Inr x \<Longrightarrow> Q x"
  by simp

lemma wpE_Inl: "wpE bad Q r \<Longrightarrow> r = Inl f \<Longrightarrow> \<not> bad f"
  by simp

lemma wpE_forE:
  assumes "I s" "\<And>x s. x \<in> set xs \<Longrightarrow> I s \<Longrightarrow> wpE bad I (body x s)"
  shows "wpE bad I (forE body xs s)"
  using assms
proof (induction xs arbitrary: s)
  case (Cons x xs)
  from Cons.prems have "wpE bad I (body x s)" by simp
  then show ?case
    using Cons.IH Cons.prems(2) by (auto elim!: wpE_mono)
qed simp

lemma wpE_mapE:
  assumes "\<And>x. x \<in> set xs \<Longrightarrow> wpE bad (\<lambda>y. y = h x) (g x)"
  shows "wpE bad (\<lambda>ys. ys = map h xs) (mapE g xs)"
  using assms
proof (induction xs)
  case (Cons x xs)
  then have "wpE bad (\<lambda>y. y = h x) (g x)" "wpE bad (\<lambda>ys. ys = map h xs) (mapE g xs)"
    by simp_all
  then show ?case by (auto elim!: wpE_mono)
qed simp

subsection \<open>Codecs\<close>

text \<open>
  The contract of a fallible encoder and decoder: on good values, decoding undoes encoding. It lifts
  from single values to lists of them.
\<close>

locale codec =
  fixes enc :: "'a \<Rightarrow> 'f + 'b"
    and dec :: "'b \<Rightarrow> 'f + 'a"
    and good :: "'a \<Rightarrow> bool"
  assumes dec_enc: "good x \<Longrightarrow> bindE (enc x) dec = Inr x"
begin

lemma enc_Inr: "good x \<Longrightarrow> \<exists>y. enc x = Inr y \<and> dec y = Inr x"
  using dec_enc [of x] by (simp add: bindE_eq_Inr)

lemma dec_enc_list: "(\<And>x. x \<in> set xs \<Longrightarrow> good x) \<Longrightarrow> bindE (mapE enc xs) (mapE dec) = Inr xs"
proof (induction xs)
  case (Cons x xs)
  from Cons.prems have "good x" by simp
  then obtain y where y: "enc x = Inr y" "dec y = Inr x"
    using enc_Inr by blast
  from Cons have "bindE (mapE enc xs) (mapE dec) = Inr xs" by simp
  then obtain ys where "mapE enc xs = Inr ys" "mapE dec ys = Inr xs"
    by (auto simp: bindE_eq_Inr)
  with y show ?case by simp
qed simp

lemma enc_inj: "good x \<Longrightarrow> good x' \<Longrightarrow> enc x = enc x' \<Longrightarrow> x = x'"
  by (drule enc_Inr, drule enc_Inr) auto

end

subsection \<open>Machines whose steps may fail\<close>

text \<open>
  The contract between a component and the loop that drives it: every step keeps the component's
  invariant, and a step from a good state never ends in one of the faults the component rules out.
  The lemmas lift both to the loop (\<open>forE\<close> over the list of inputs).
\<close>

locale fallible_machine =
  fixes step :: "'i \<Rightarrow> 's \<Rightarrow> 'f + 's"
    and inv :: "'s \<Rightarrow> bool"
    and excluded :: "'f \<Rightarrow> bool"
  assumes step_ok: "inv s \<Longrightarrow> wpE excluded inv (step i s)"
begin

lemma run_ok: "inv s \<Longrightarrow> wpE excluded inv (forE step is s)"
  by (rule wpE_forE) (auto intro: step_ok)

lemma run_inv: "inv s \<Longrightarrow> forE step is s = Inr t \<Longrightarrow> inv t"
  using run_ok by (rule wpE_Inr)

lemma run_excluded: "inv s \<Longrightarrow> forE step is s = Inl f \<Longrightarrow> \<not> excluded f"
  using run_ok by (rule wpE_Inl)

text \<open>A run that completes passes through good states only.\<close>

lemma run_prefix_inv: "inv s \<Longrightarrow> forE step (is @ js) s = Inr t \<Longrightarrow> \<exists>u. inv u \<and> forE step is s = Inr u"
  by (auto simp: forE_append bindE_eq_Inr intro: run_inv)

end

subsection \<open>Lists by position\<close>

text \<open>\<open>vector::erase (begin () + i)\<close> and \<open>list::erase\<close> at a valid position.\<close>

definition erase_at :: "nat \<Rightarrow> 'a list \<Rightarrow> 'a list" where
  "erase_at i xs = take i xs @ drop (Suc i) xs"

lemma length_erase_at: "i < length xs \<Longrightarrow> length (erase_at i xs) = length xs - 1"
  by (simp add: erase_at_def)

lemma set_erase_at_subset: "set (erase_at i xs) \<subseteq> set xs"
  by (auto simp: erase_at_def dest: in_set_takeD in_set_dropD)

lemma set_erase_at:
  assumes "i < length xs" "y \<in> set xs" "y \<noteq> xs ! i"
  shows "y \<in> set (erase_at i xs)"
proof -
  from arg_cong [OF id_take_nth_drop [OF assms(1)], of set]
  have "set xs = set (take i xs) \<union> insert (xs ! i) (set (drop (Suc i) xs))"
    by simp
  with assms(2,3) show ?thesis by (auto simp: erase_at_def)
qed

lemma length_concat_pairs: "length (concat (map (\<lambda>n. [f n, g n]) ns)) = 2 * length ns"
  by (induction ns) simp_all

lemma nth_concat_pairs:
  "i < length ns \<Longrightarrow> concat (map (\<lambda>n. [f n, g n]) ns) ! (2 * i) = f (ns ! i)"
  "i < length ns \<Longrightarrow> concat (map (\<lambda>n. [f n, g n]) ns) ! (2 * i + 1) = g (ns ! i)"
proof -
  show "i < length ns \<Longrightarrow> concat (map (\<lambda>n. [f n, g n]) ns) ! (2 * i) = f (ns ! i)"
  proof (induction ns arbitrary: i)
    case (Cons n ns)
    then show ?case by (cases i) simp_all
  qed simp
  show "i < length ns \<Longrightarrow> concat (map (\<lambda>n. [f n, g n]) ns) ! (2 * i + 1) = g (ns ! i)"
  proof (induction ns arbitrary: i)
    case (Cons n ns)
    then show ?case by (cases i) simp_all
  qed simp
qed

lemma erase_at_Cons [simp]:
  "erase_at 0 (x # xs) = xs"
  "erase_at (Suc i) (x # xs) = x # erase_at i xs"
  by (simp_all add: erase_at_def)

lemma map_erase_at: "map f (erase_at i xs) = erase_at i (map f xs)"
  by (simp add: erase_at_def take_map drop_map)

subsection \<open>Decimal text\<close>

text \<open>\<open>std::to_string\<close> of a number that is not negative.\<close>

fun decimal :: "nat \<Rightarrow> bytes" where
  "decimal n = (if n < 10 then [of_nat (48 + n)] else decimal (n div 10) @ [of_nat (48 + n mod 10)])"

declare decimal.simps [simp del]

lemma decimal_digits: "\<forall>c \<in> set (decimal n). \<exists>d < 10. c = of_nat (48 + d)"
proof (induction n rule: decimal.induct)
  case (1 n)
  then show ?case
    by (subst decimal.simps) (auto intro: exI [of _ n] exI [of _ "n mod 10"])
qed

lemma digit_inj: "of_nat (48 + a) = (of_nat (48 + b) :: byte) \<Longrightarrow> a < 10 \<Longrightarrow> b < 10 \<Longrightarrow> a = b"
  by (simp add: word_of_nat_eq_iff take_bit_nat_eq_self)

lemma decimal_inj: "decimal m = decimal n \<Longrightarrow> m = n"
proof (induction m arbitrary: n rule: decimal.induct)
  case (1 m)
  have ne: "decimal k \<noteq> []" for k by (subst decimal.simps) simp
  show ?case
  proof (cases "m < 10"; cases "n < 10")
    assume "m < 10" "n < 10"
    with "1.prems" show ?thesis
      by (simp add: decimal.simps [of m] decimal.simps [of n] digit_inj del: of_nat_add)
  next
    assume "m < 10" "\<not> n < 10"
    with "1.prems" ne [of "n div 10"] show ?thesis
      by (simp add: decimal.simps [of m] decimal.simps [of n])
  next
    assume "\<not> m < 10" "n < 10"
    with "1.prems" ne [of "m div 10"] show ?thesis
      by (simp add: decimal.simps [of m] decimal.simps [of n])
  next
    assume big: "\<not> m < 10" "\<not> n < 10"
    with "1.prems" have "decimal (m div 10) = decimal (n div 10)"
      and last: "of_nat (48 + m mod 10) = (of_nat (48 + n mod 10) :: byte)"
      by (simp_all add: decimal.simps [of m] decimal.simps [of n] del: of_nat_add)
    with "1.IH" big have "m div 10 = n div 10" by blast
    moreover have "m mod 10 = n mod 10" using last by (rule digit_inj) simp_all
    ultimately show ?thesis by (metis mult_div_mod_eq)
  qed
qed

lemma decimal_length: "n < 10 ^ Suc k \<Longrightarrow> length (decimal n) \<le> Suc k"
proof (induction k arbitrary: n)
  case 0
  then show ?case by (simp add: decimal.simps)
next
  case (Suc k)
  then have "n div 10 < 10 ^ Suc k" by (simp add: div_less_iff_less_mult)
  with Suc.IH [of "n div 10"] show ?case by (subst decimal.simps) simp
qed

end
