(* ===== verification/Zmsg.thy ===== *)
theory Zmsg
  imports Prelude
begin

section \<open>Multipart messages (zmsg.hpp)\<close>

text \<open>
  The class \<open>zmsg\<close> of \<open>Common/zmq/officialMajordomo/zmsg.hpp\<close>: a vector of byte strings, its queue
  and envelope operations, its UUID codec and its transfer from and to a ZeroMQ socket. The socket is
  libzmq's, so it appears only as data: what the successive \<open>recv\<close> calls of one message return
  (type \<open>incoming\<close>) and which frames are handed to \<open>socket.send\<close>, each with its \<open>ZMQ_SNDMORE\<close> flag.
  \<open>zmsg_send\<close> takes the index its loop starts from: this copy of the class starts at 1, the copy under
  \<open>Common/zmq/example\<close> at 0.
\<close>

subsection \<open>Data\<close>

text \<open>How the program can end early: an \<open>assert\<close>, an uncaught exception, an invalid pointer, or a
  receive that never returns.\<close>

datatype fault =
    AssertFail
  | OutOfRange
  | NullString
  | NullDeref
  | Dangling
  | Overrun
  | DivByZero
  | IntOverflow
  | Blocks

type_synonym zmsg = "bytes list"
type_synonym wire = "(bytes \<times> bool) list"

text \<open>The results of the \<open>recv\<close> calls of one multipart message, up to the call that ends the loop.\<close>

datatype incoming =
    LastFrame bytes
  | MoreFrame bytes incoming
  | RecvAgain
  | RecvError

fun deliver :: "bytes list \<Rightarrow> incoming" where
  "deliver [] = RecvAgain"
| "deliver [d] = LastFrame d"
| "deliver (d # ds) = MoreFrame d (deliver ds)"

subsection \<open>Vector operations\<close>

definition zmsg_new :: zmsg where
  "zmsg_new = []"

definition clear :: "zmsg \<Rightarrow> zmsg" where
  "clear m = []"

definition set_part :: "nat \<Rightarrow> bytes \<Rightarrow> zmsg \<Rightarrow> zmsg" where
  "set_part n data m = (if n < length m then m[n := c_str data] else m)"

definition parts :: "zmsg \<Rightarrow> nat" where
  "parts m = length m"

definition push_front :: "bytes \<Rightarrow> zmsg \<Rightarrow> zmsg" where
  "push_front part m = c_str part # m"

definition push_back :: "bytes \<Rightarrow> zmsg \<Rightarrow> zmsg" where
  "push_back part m = m @ [c_str part]"

definition append_part :: "bytes \<Rightarrow> zmsg \<Rightarrow> zmsg" where
  "append_part part m = push_back part m"

definition body_set :: "bytes \<Rightarrow> zmsg \<Rightarrow> zmsg" where
  "body_set body m = push_back body (if 0 < length m then butlast m else m)"

definition zmsg_of_body :: "bytes \<Rightarrow> zmsg" where
  "zmsg_of_body body = body_set body zmsg_new"

definition zmsg_copy :: "zmsg \<Rightarrow> zmsg" where
  "zmsg_copy m = m"

text \<open>\<open>vsnprintf\<close> is the C library's: \<open>formatted\<close> is the text it would produce without a limit.\<close>

definition body_fmt :: "bytes \<Rightarrow> zmsg \<Rightarrow> zmsg" where
  "body_fmt formatted m = body_set (take 254 formatted) m"

text \<open>\<open>body ()\<close> and \<open>address ()\<close> return a null pointer (\<open>None\<close>) on an empty message.\<close>

definition body_of :: "zmsg \<Rightarrow> bytes option" where
  "body_of m = (if 0 < length m then Some (c_str (m ! (length m - 1))) else None)"

definition address_of :: "zmsg \<Rightarrow> bytes option" where
  "address_of m = (if 0 < length m then Some (c_str (m ! 0)) else None)"

text \<open>\<open>pop_front ()\<close> on an empty message constructs a string from a null pointer.\<close>

fun pop_front :: "zmsg \<Rightarrow> fault + (bytes \<times> zmsg)" where
  "pop_front [] = Inl NullString"
| "pop_front (part # m) = Inr (part, m)"

definition wrap :: "bytes \<Rightarrow> bytes option \<Rightarrow> zmsg \<Rightarrow> zmsg" where
  "wrap address delim m =
     push_front address (case delim of None \<Rightarrow> m | Some d \<Rightarrow> push_front d m)"

definition unwrap :: "zmsg \<Rightarrow> fault + (bytes \<times> zmsg)" where
  "unwrap m =
     (if length m = 0 then Inl NullString
      else bindE (pop_front m) (\<lambda>(part, m1).
        let addr = c_str part
        in if address_of m1 = Some []
           then bindE (pop_front m1) (\<lambda>(_, m2). Inr (addr, m2))
           else Inr (addr, m1)))"

subsection \<open>The UUID codec\<close>

definition hex_char :: bytes where
  "hex_char = bytes_of ''0123456789ABCDEF''"

definition encode_uuid :: "bytes \<Rightarrow> fault + bytes" where
  "encode_uuid data =
     bindE (guardE (data ! 0 = 0) AssertFail) (\<lambda>_.
       Inr (of_char (CHR ''@'') #
         concat (map (\<lambda>n. [hex_char ! unat (drop_bit 4 (data ! (n + 1))),
                           hex_char ! unat (data ! (n + 1) AND 15)]) [0..<16])))"

text \<open>The table \<open>hex_to_bin\<close>; its entries \<open>-1\<close> are the byte 255.\<close>

definition hex_to_bin :: bytes where
  "hex_to_bin =
     replicate 48 255 @ [0, 1, 2, 3, 4, 5, 6, 7, 8, 9] @ replicate 6 255
     @ 255 # [10, 11, 12, 13, 14, 15] @ replicate 9 255
     @ replicate 16 255
     @ 255 # [10, 11, 12, 13, 14, 15] @ replicate 9 255
     @ replicate 16 255"

definition hex_value :: "byte \<Rightarrow> byte" where
  "hex_value c = hex_to_bin ! unat (c AND 127)"

definition decode_uuid :: "bytes \<Rightarrow> fault + bytes" where
  "decode_uuid uuidstr =
     bindE (guardE (length (c_str uuidstr) = 33) AssertFail) (\<lambda>_.
     bindE (guardE (uuidstr ! 0 = of_char (CHR ''@'')) AssertFail) (\<lambda>_.
       Inr (0 # map (\<lambda>n. push_bit 4 (hex_value (uuidstr ! (n * 2 + 1)))
                         + hex_value (uuidstr ! (n * 2 + 2))) [0..<16])))"

subsection \<open>Transfer\<close>

definition is_uuid_frame :: "bytes \<Rightarrow> bool" where
  "is_uuid_frame d \<longleftrightarrow> length d = 17 \<and> d ! 0 = 0"

definition is_uuid_part :: "bytes \<Rightarrow> bool" where
  "is_uuid_part d \<longleftrightarrow> length d = 33 \<and> d ! 0 = of_char (CHR ''@'')"

definition recv_part :: "bytes \<Rightarrow> fault + bytes" where
  "recv_part d = (if is_uuid_frame d then bindE (encode_uuid d) (\<lambda>s. Inr (c_str s)) else Inr d)"

fun recv_loop :: "incoming \<Rightarrow> zmsg \<Rightarrow> fault + (bool \<times> zmsg)" where
  "recv_loop RecvAgain m = Inr (False, m)"
| "recv_loop RecvError m = Inr (False, m)"
| "recv_loop (LastFrame d) m = bindE (recv_part d) (\<lambda>p. Inr (True, m @ [p]))"
| "recv_loop (MoreFrame d r) m = bindE (recv_part d) (\<lambda>p. recv_loop r (m @ [p]))"

definition zmsg_recv :: "incoming \<Rightarrow> zmsg \<Rightarrow> fault + (bool \<times> zmsg)" where
  "zmsg_recv r m = recv_loop r (clear m)"

definition send_part :: "bytes \<Rightarrow> fault + bytes" where
  "send_part d = (if is_uuid_part d then decode_uuid d else Inr d)"

text \<open>The frames one \<open>send\<close> hands to the socket, and the message it leaves (empty: \<open>clear ()\<close>).\<close>

definition zmsg_send :: "nat \<Rightarrow> zmsg \<Rightarrow> fault + (wire \<times> zmsg)" where
  "zmsg_send start m =
     bindE (mapE (\<lambda>n. bindE (send_part (m ! n)) (\<lambda>d. Inr (d, n < length m - 1)))
                 [start..<length m])
       (\<lambda>w. Inr (w, clear m))"

definition send_start :: nat where
  "send_start = 1"

definition send_start_example :: nat where
  "send_start_example = 0"

subsection \<open>The class's self-test\<close>

text \<open>
  \<open>zmsg::test\<close>. The two sockets and the transport between them are libzmq's: \<open>link\<close> is what arrives
  on the \<open>ROUTER\<close> side for the frames sent on the \<open>DEALER\<close> side. A \<open>recv\<close> for which nothing was sent
  does not return (\<open>Blocks\<close>).
\<close>

fun receive_over :: "(bytes list \<Rightarrow> bytes list) \<Rightarrow> wire \<Rightarrow> fault + zmsg" where
  "receive_over link [] = Inl Blocks"
| "receive_over link w =
     bindE (zmsg_recv (deliver (link (map fst w))) zmsg_new) (\<lambda>(_, m). Inr m)"

definition zmsg_test :: "nat \<Rightarrow> (bytes list \<Rightarrow> bytes list) \<Rightarrow> fault + unit" where
  "zmsg_test start link =
     (let zm = body_set (bytes_of ''Hello'') zmsg_new in
      bindE (guardE (body_of zm = Some (bytes_of ''Hello'')) AssertFail) (\<lambda>_.
      bindE (zmsg_send start zm) (\<lambda>(w, zm).
      bindE (guardE (parts zm = 0) AssertFail) (\<lambda>_.
      bindE (receive_over link w) (\<lambda>zm.
      bindE (guardE (parts zm = 2) AssertFail) (\<lambda>_.
      bindE (guardE (body_of zm = Some (bytes_of ''Hello'')) AssertFail) (\<lambda>_.
      let zm = wrap (bytes_of ''address2'') None
                 (wrap (bytes_of ''address1'') (Some [])
                   (body_set (bytes_of ''Hello'') (clear zm))) in
      bindE (guardE (parts zm = 4) AssertFail) (\<lambda>_.
      bindE (zmsg_send start zm) (\<lambda>(w, zm).
      bindE (receive_over link w) (\<lambda>zm.
      bindE (guardE (parts zm = 5) AssertFail) (\<lambda>_.
      bindE (guardE (map_option length (address_of zm) = Some 33) AssertFail) (\<lambda>_.
      bindE (unwrap zm) (\<lambda>(_, zm).
      bindE (guardE (address_of zm = Some (bytes_of ''address2'')) AssertFail) (\<lambda>_.
      bindE (zmsg_send start (body_fmt (bytes_of ''World'') zm)) (\<lambda>(w, zm).
      bindE (receive_over link w) (\<lambda>zm.
      bindE (unwrap zm) (\<lambda>(_, zm).
      bindE (guardE (parts zm = 4) AssertFail) (\<lambda>_.
      bindE (guardE (body_of zm = Some (bytes_of ''World'')) AssertFail) (\<lambda>_.
      bindE (unwrap zm) (\<lambda>(part, zm).
      bindE (guardE (part = bytes_of ''address2'') AssertFail) (\<lambda>_.
      bindE (unwrap zm) (\<lambda>(part, zm).
      bindE (guardE (part = bytes_of ''address1'') AssertFail) (\<lambda>_.
      bindE (guardE (parts zm = 1) AssertFail) (\<lambda>_.
      bindE (pop_front zm) (\<lambda>(part, zm).
      bindE (guardE (c_str part = bytes_of ''World'') AssertFail) (\<lambda>_.
      bindE (guardE (parts zm = 0) AssertFail) (\<lambda>_.
      let zm = append_part (bytes_of ''World!'') (append_part (bytes_of ''Hello'') zm) in
      bindE (guardE (parts zm = 2) AssertFail) (\<lambda>_.
      bindE (guardE (body_of zm = Some (bytes_of ''World!'')) AssertFail) (\<lambda>_.
      guardE (parts (clear zm) = 0) AssertFail)))))))))))))))))))))))))))))"

text \<open>Vocabulary of the statements: the \<open>ZMQ_SNDMORE\<close> flags of a whole message, and the text form
  of a UUID as \<open>encode_uuid\<close> writes it.\<close>

fun with_more :: "bytes list \<Rightarrow> wire" where
  "with_more [] = []"
| "with_more (d # ds) = (d, ds \<noteq> []) # with_more ds"

definition canonical_uuid_part :: "bytes \<Rightarrow> bool" where
  "canonical_uuid_part s \<longleftrightarrow> is_uuid_part s \<and> (\<forall>i \<in> set [1..<33]. s ! i \<in> set hex_char)"

subsection \<open>The UUID codec is a bijection\<close>

lemma hex_digit_table:
  "\<forall>n \<in> set [0..<16]. hex_value (hex_char ! n) = of_nat n \<and> hex_char ! n \<noteq> 0"
  by code_simp

lemma hex_digit:
  assumes "unat (c :: byte) < 16"
  shows "hex_value (hex_char ! unat c) = c" "hex_char ! unat c \<noteq> 0"
  using hex_digit_table assms by (auto dest: bspec [of _ _ "unat c"])

lemma unat_high_nibble: "unat (drop_bit 4 (b :: byte)) < 16"
proof -
  have "unat b < 2 ^ LENGTH(8)" by (rule unsigned_less)
  then show ?thesis
    by (simp only: unat_drop_bit_eq) (simp add: drop_bit_eq_div)
qed

lemma unat_low_nibble: "unat (b AND 15 :: byte) < 16"
proof -
  have "b AND 15 \<le> 15" by (rule word_and_le1)
  then show ?thesis by (simp add: word_le_nat_alt)
qed

lemma nibbles_join: "push_bit 4 (drop_bit 4 b) + (b AND 15) = (b :: byte)"
proof -
  have m: "(15 :: byte) = mask 4" by (simp add: mask_eq_exp_minus_1)
  have "push_bit 4 (drop_bit 4 b) + (b AND mask 4) = push_bit 4 (drop_bit 4 b) OR (b AND mask 4)"
    by (rule disjunctive_add) (auto simp: bit_simps)
  also have "\<dots> = b"
    by (rule bit_eqI) (auto simp: bit_simps)
  finally show ?thesis by (simp add: m)
qed

lemma encode_uuid_shape:
  assumes "is_uuid_frame d"
  obtains s where "encode_uuid d = Inr s" "is_uuid_part s" "nul_free s"
    "\<And>n. n < 16 \<Longrightarrow> s ! (n * 2 + 1) = hex_char ! unat (drop_bit 4 (d ! (n + 1)))"
    "\<And>n. n < 16 \<Longrightarrow> s ! (n * 2 + 2) = hex_char ! unat (d ! (n + 1) AND 15)"
proof -
  let ?p = "\<lambda>n. [hex_char ! unat (drop_bit 4 (d ! (n + 1))), hex_char ! unat (d ! (n + 1) AND 15)]"
  let ?s = "of_char (CHR ''@'') # concat (map ?p [0..<16])"
  have enc: "encode_uuid d = Inr ?s"
    using assms by (simp add: encode_uuid_def is_uuid_frame_def)
  have part: "is_uuid_part ?s"
    by (simp add: is_uuid_part_def length_concat_pairs)
  have nul: "nul_free ?s"
    using hex_digit(2) [OF unat_high_nibble] hex_digit(2) [OF unat_low_nibble]
    by (auto simp: nul_free_def)
  have "?s ! (n * 2 + 1) = hex_char ! unat (drop_bit 4 (d ! (n + 1)))"
       "?s ! (n * 2 + 2) = hex_char ! unat (d ! (n + 1) AND 15)" if "n < 16" for n
    using that nth_concat_pairs [of n "[0..<16]"] by (simp_all add: mult.commute)
  with enc part nul show thesis by (rule that)
qed

lemma encode_uuid_text:
  "is_uuid_frame d \<Longrightarrow> \<exists>s. encode_uuid d = Inr s \<and> is_uuid_part s \<and> nul_free s"
  using encode_uuid_shape by blast

lemma uuid_roundtrip:
  assumes "length d = 17" "d ! 0 = 0"
  shows "bindE (encode_uuid d) decode_uuid = Inr d"
proof -
  from assms have "is_uuid_frame d" by (simp add: is_uuid_frame_def)
  then obtain s where s: "encode_uuid d = Inr s" "is_uuid_part s" "nul_free s"
    and hi: "\<And>n. n < 16 \<Longrightarrow> s ! (n * 2 + 1) = hex_char ! unat (drop_bit 4 (d ! (n + 1)))"
    and lo: "\<And>n. n < 16 \<Longrightarrow> s ! (n * 2 + 2) = hex_char ! unat (d ! (n + 1) AND 15)"
    using encode_uuid_shape by blast
  have "decode_uuid s = Inr (0 # map (\<lambda>n. d ! (n + 1)) [0..<16])"
    using s(2,3) hi lo
    by (simp add: decode_uuid_def is_uuid_part_def c_str_nul_free hex_digit unat_high_nibble
        unat_low_nibble nibbles_join)
  also have "0 # map (\<lambda>n. d ! (n + 1)) [0..<16] = d"
    using assms by (intro nth_equalityI) (auto simp: nth_Cons')
  finally show ?thesis using s(1) by simp
qed

lemma hex_char_unique:
  "\<forall>c \<in> set hex_char. unat (hex_value c) < 16 \<and> hex_char ! unat (hex_value c) = c \<and> c \<noteq> 0"
  by code_simp

lemma nibbles_split:
  assumes "unat (h :: byte) < 16" "unat l < 16"
  shows "drop_bit 4 (push_bit 4 h + l) = h" "(push_bit 4 h + l) AND 15 = l"
proof -
  have "\<forall>i \<in> set [0..<16]. \<forall>j \<in> set [0..<16].
      drop_bit 4 (push_bit 4 (word_of_nat i) + word_of_nat j) = (word_of_nat i :: byte)
      \<and> (push_bit 4 (word_of_nat i) + word_of_nat j) AND 15 = (word_of_nat j :: byte)"
    by code_simp
  from bspec [OF bspec [OF this, of "unat h"], of "unat l"] assms
  show "drop_bit 4 (push_bit 4 h + l) = h" "(push_bit 4 h + l) AND 15 = l"
    by simp_all
qed

lemma uuid_decode_encode:
  assumes "canonical_uuid_part s"
  shows "bindE (decode_uuid s) encode_uuid = Inr s"
proof -
  from assms have len: "length s = 33" and at: "s ! 0 = of_char (CHR ''@'')"
    and dig: "\<And>i. 1 \<le> i \<Longrightarrow> i < 33 \<Longrightarrow> s ! i \<in> set hex_char"
    by (auto simp: canonical_uuid_part_def is_uuid_part_def)
  note dig' = bspec [OF hex_char_unique dig]
  have "s ! i \<noteq> 0" if "i < length s" for i
    using that len at dig' [of i] by (cases i) auto
  then have nul: "nul_free s"
    by (auto simp: nul_free_def in_set_conv_nth)
  let ?v = "\<lambda>i. hex_value (s ! i)"
  let ?d = "0 # map (\<lambda>n. push_bit 4 (?v (n * 2 + 1)) + ?v (n * 2 + 2)) [0..<16]"
  have dec: "decode_uuid s = Inr ?d"
    using len at nul by (simp add: decode_uuid_def c_str_nul_free)
  have "is_uuid_frame ?d" by (simp add: is_uuid_frame_def)
  then obtain t where t: "encode_uuid ?d = Inr t" "is_uuid_part t"
    and hi: "\<And>n. n < 16 \<Longrightarrow> t ! (n * 2 + 1) = hex_char ! unat (drop_bit 4 (?d ! (n + 1)))"
    and lo: "\<And>n. n < 16 \<Longrightarrow> t ! (n * 2 + 2) = hex_char ! unat (?d ! (n + 1) AND 15)"
    using encode_uuid_shape by blast
  have hi': "t ! (n * 2 + 1) = s ! (n * 2 + 1)" and lo': "t ! (n * 2 + 2) = s ! (n * 2 + 2)"
    if "n < 16" for n
    using that hi [OF that] lo [OF that] dig' [of "n * 2 + 1"] dig' [of "n * 2 + 2"]
    by (simp_all add: nibbles_split)
  have "t ! i = s ! i" if "i < 33" for i
  proof (cases "i = 0")
    case True
    then show ?thesis using t(2) at by (simp add: is_uuid_part_def)
  next
    case False
    then have "i = (i - 1) div 2 * 2 + 1 \<or> i = (i - 1) div 2 * 2 + 2" by arith
    moreover have "(i - 1) div 2 < 16" using that by arith
    ultimately show ?thesis using hi' lo' by metis
  qed
  then have "t = s"
    using t(2) len by (intro nth_equalityI) (auto simp: is_uuid_part_def)
  with dec t(1) show ?thesis by simp
qed

subsection \<open>Sending and receiving\<close>

lemma map_fst_with_more [simp]: "map fst (with_more ds) = ds"
  by (induction ds) simp_all

lemma length_with_more [simp]: "length (with_more ds) = length ds"
  by (induction ds) simp_all

lemma mapE_send_flags:
  "mapE (\<lambda>n. bindE (g (m ! n)) (\<lambda>d. Inr (d, n < length m - 1))) [k..<length m]
     = bindE (mapE g (drop k m)) (\<lambda>ds. Inr (with_more ds))"
proof (induction "length m - k" arbitrary: k)
  case 0
  then show ?case by simp
next
  case (Suc j)
  then have k: "k < length m" "[k..<length m] = k # [Suc k..<length m]"
    "drop k m = m ! k # drop (Suc k) m"
    by (simp_all add: upt_conv_Cons Cons_nth_drop_Suc)
  have more: "(k < length m - 1) = (ds \<noteq> [])" if "mapE g (drop (Suc k) m) = Inr ds" for ds
    using k(1) mapE_length [OF that] by (cases ds) auto
  have "bindE (mapE g (drop (Suc k) m)) (\<lambda>ds. Inr ((d, k < length m - 1) # with_more ds))
      = bindE (mapE g (drop (Suc k) m)) (\<lambda>ds. Inr (with_more (d # ds)))" for d
    using more by (intro bindE_cong refl) simp
  with Suc show ?case
    by (cases "g (m ! k)") (simp_all add: k bindE_assoc)
qed

lemma zmsg_send_eq:
  "zmsg_send k m = bindE (mapE send_part (drop k m)) (\<lambda>ds. Inr (with_more ds, []))"
  unfolding zmsg_send_def mapE_send_flags clear_def by (simp add: bindE_assoc)

lemma recv_part_Inr: "\<exists>p. recv_part d = Inr p"
  by (simp add: recv_part_def encode_uuid_def is_uuid_frame_def fault_simps)

lemma recv_loop_Inr: "\<exists>b m'. recv_loop r m = Inr (b, m')"
proof (induction r arbitrary: m)
  case (LastFrame d)
  then show ?case using recv_part_Inr [of d] by auto
next
  case (MoreFrame d r)
  then show ?case using recv_part_Inr [of d] by auto
qed auto

lemma recv_loop_deliver:
  "fs \<noteq> [] \<Longrightarrow> recv_loop (deliver fs) m = bindE (mapE recv_part fs) (\<lambda>ps. Inr (True, m @ ps))"
  by (induction fs arbitrary: m rule: deliver.induct) (simp_all add: bindE_assoc)

lemma recv_deliver:
  "fs \<noteq> [] \<Longrightarrow> zmsg_recv (deliver fs) m = bindE (mapE recv_part fs) (\<lambda>ps. Inr (True, ps))"
  by (simp add: zmsg_recv_def clear_def recv_loop_deliver)

text \<open>Messages that are the same inside and outside.\<close>

lemma mapE_id_iff: "mapE g xs = Inr xs \<longleftrightarrow> (\<forall>x \<in> set xs. g x = Inr x)"
  by (induction xs) (auto simp: bindE_eq_Inr)

lemma decode_uuid_length: "decode_uuid s = Inr d \<Longrightarrow> length d = 17"
  by (auto simp: decode_uuid_def bindE_eq_Inr)

lemma send_part_same: "send_part d = Inr d \<longleftrightarrow> \<not> is_uuid_part d"
  by (auto simp: send_part_def is_uuid_part_def dest: decode_uuid_length)

lemma recv_part_same: "recv_part d = Inr d \<longleftrightarrow> \<not> is_uuid_frame d"
  by (cases d) (auto simp: recv_part_def encode_uuid_def is_uuid_frame_def c_str_Cons fault_simps bindE_eq_Inr)

lemma recv_same: "m \<noteq> [] \<Longrightarrow> \<forall>d \<in> set m. \<not> is_uuid_frame d \<Longrightarrow> zmsg_recv (deliver m) zmsg_new = Inr (True, m)"
  by (simp add: recv_deliver mapE_id_iff recv_part_same bindE_eq_Inr)

lemma recv_part_send_part:
  assumes "\<not> is_uuid_part d"
  shows "bindE (recv_part d) send_part = Inr d"
proof (cases "is_uuid_frame d")
  case True
  then obtain s where s: "encode_uuid d = Inr s" "is_uuid_part s" "nul_free s"
    using encode_uuid_shape by blast
  moreover have "bindE (encode_uuid d) decode_uuid = Inr d"
    using True by (intro uuid_roundtrip) (simp_all add: is_uuid_frame_def)
  ultimately show ?thesis
    using True by (simp add: recv_part_def send_part_def c_str_nul_free)
next
  case False
  with assms show ?thesis by (simp add: recv_part_def send_part_def)
qed

lemma bytes_of_literals [simp]:
  "bytes_of ''Hello'' = [72, 101, 108, 108, 111]"
  "bytes_of ''World'' = [87, 111, 114, 108, 100]"
  "bytes_of ''World!'' = [87, 111, 114, 108, 100, 33]"
  "bytes_of ''address1'' = [97, 100, 100, 114, 101, 115, 115, 49]"
  "bytes_of ''address2'' = [97, 100, 100, 114, 101, 115, 115, 50]"
  by (simp_all add: bytes_of_def)

lemmas zmsg_defs = zmsg_new_def clear_def set_part_def parts_def push_front_def push_back_def
  append_part_def body_set_def body_fmt_def body_of_def address_of_def wrap_def unwrap_def

lemma unwrap_wrap: "unwrap (wrap a (Some []) m) = Inr (c_str a, m)"
  by (simp add: unwrap_def wrap_def push_front_def address_of_def Let_def)

lemma unwrap_fault_iff: "unwrap m = Inl f \<longleftrightarrow> m = [] \<and> f = NullString"
  by (cases m; cases "tl m") (auto simp: unwrap_def address_of_def Let_def)

text \<open>Receiving a frame and sending it again is a codec on the frames that do not look like a text
  UUID.\<close>

interpretation frame: codec recv_part send_part "\<lambda>d. \<not> is_uuid_part d"
  by unfold_locales (rule recv_part_send_part)

text \<open>
  C6. A message none of whose frames is 33 bytes long and starts with @ is received and sent again
  with the same frames, the ZMQ_SNDMORE flag on all but the last, and leaves the message object
  empty.
\<close>

theorem relay_transparent:
  assumes "fs \<noteq> []" "\<forall>d \<in> set fs. \<not> is_uuid_part d"
  shows "bindE (zmsg_recv (deliver fs) m) (\<lambda>(ok, msg). zmsg_send send_start_example msg)
           = Inr (with_more fs, [])"
proof -
  have "bindE (mapE recv_part fs) (mapE send_part) = Inr fs"
    using assms(2) by (intro frame.dec_enc_list) auto
  then show ?thesis
    using assms(1)
    by (auto simp: recv_deliver zmsg_send_eq send_start_example_def bindE_assoc bindE_eq_Inr)
qed

lemma send_part_fault_iff: "(\<exists>f. send_part d = Inl f) \<longleftrightarrow> is_uuid_part d \<and> \<not> nul_free d"
  using length_c_str_eq_iff [of d]
  by (auto simp: send_part_def decode_uuid_def is_uuid_part_def fault_simps)

lemma send_part_fault: "send_part d = Inl f \<Longrightarrow> f = AssertFail"
  by (auto simp: send_part_def decode_uuid_def fault_simps split: if_splits)

lemma zmsg_send_fault_iff:
  "zmsg_send k m = Inl f \<longleftrightarrow>
     f = AssertFail \<and> (\<exists>d \<in> set (drop k m). is_uuid_part d \<and> \<not> nul_free d)"
proof -
  have "(\<exists>f. zmsg_send k m = Inl f) \<longleftrightarrow> (\<exists>d \<in> set (drop k m). is_uuid_part d \<and> \<not> nul_free d)"
    by (simp add: zmsg_send_eq bindE_eq_Inl mapE_fault_iff send_part_fault_iff)
  moreover have "zmsg_send k m = Inl f \<Longrightarrow> f = AssertFail" for f
    by (auto simp: zmsg_send_eq bindE_eq_Inl dest!: mapE_fault dest: send_part_fault)
  ultimately show ?thesis by blast
qed

theorem send_aborts_iff:
  "zmsg_send k m = Inl f \<longleftrightarrow>
     f = AssertFail \<and> (\<exists>d \<in> set (drop k m). is_uuid_part d \<and> \<not> nul_free d)"
  by (rule zmsg_send_fault_iff)

lemma zmsg_send_nul_free:
  assumes "\<forall>d \<in> set m. nul_free d"
  obtains ws where "zmsg_send k m = Inr (ws, [])"
proof (cases "zmsg_send k m")
  case (Inl f)
  then show ?thesis using assms by (auto simp: zmsg_send_fault_iff dest: in_set_dropD)
next
  case (Inr r)
  then show ?thesis using that by (auto simp: zmsg_send_eq bindE_eq_Inr)
qed

lemma send_skips_first:
  "zmsg_send send_start m = zmsg_send send_start_example (tl m)"
  by (simp add: zmsg_send_eq send_start_def send_start_example_def drop_Suc)

lemma send_example_plain:
  "\<forall>d \<in> set m. \<not> is_uuid_part d \<Longrightarrow> zmsg_send send_start_example m = Inr (with_more m, [])"
  by (simp add: zmsg_send_eq send_start_example_def send_part_def mapE_Inr_map [of _ _ id])

lemma receive_over_router:
  assumes link: "\<And>fs. link fs = ident # fs" and s: "recv_part ident = Inr s"
    and ds: "ds \<noteq> []" "\<forall>d \<in> set ds. \<not> is_uuid_frame d"
  shows "receive_over link (with_more ds) = Inr (s # ds)"
proof -
  have "mapE recv_part ds = Inr (map id ds)"
    using ds(2) by (intro mapE_Inr_map) (simp add: recv_part_def)
  then have "zmsg_recv (deliver (ident # ds)) zmsg_new = Inr (True, s # ds)"
    using s by (simp add: recv_deliver del: deliver.simps)
  moreover obtain f w where "with_more ds = f # w"
    using ds(1) by (cases ds) simp_all
  moreover have "map fst (with_more ds) = ds" by simp
  ultimately show ?thesis by (simp add: link)
qed

lemma self_test_passes:
  assumes link: "\<And>fs. link fs = ident # fs" and ident: "length ident = 17" "ident ! 0 = 0"
  shows "zmsg_test send_start_example link = Inr ()"
proof -
  obtain s where s: "encode_uuid ident = Inr s" "is_uuid_part s" "nul_free s"
    using encode_uuid_text [of ident] ident by (auto simp: is_uuid_frame_def)
  then have s': "length s = 33" "c_str s = s"
    by (auto simp: is_uuid_part_def c_str_nul_free)
  have "recv_part ident = Inr s"
    using s(1) s'(2) ident by (simp add: recv_part_def is_uuid_frame_def)
  note r = receive_over_router [of link, OF link this]
  show ?thesis
    unfolding zmsg_test_def zmsg_defs Let_def
    by (simp add: send_example_plain r s' c_str_Cons is_uuid_frame_def is_uuid_part_def
        del: receive_over.simps with_more.simps)
qed

lemma self_test_blocks: "zmsg_test send_start link = Inl Blocks"
  by (simp add: zmsg_test_def zmsg_defs zmsg_send_eq send_start_def c_str_Cons Let_def)

text \<open>A frame that arrives and leaves unchanged: not the text form of a UUID.\<close>

definition relayed :: "bytes \<Rightarrow> bytes \<Rightarrow> bool" where
  "relayed d p \<longleftrightarrow> \<not> is_uuid_part d \<and> recv_part d = Inr p"

lemma relayed_send: "relayed d p \<Longrightarrow> send_part p = Inr d"
  using recv_part_send_part [of d] by (auto simp: relayed_def)

lemma relayed_short [simp]: "length d < 17 \<Longrightarrow> relayed d d"
  by (simp add: relayed_def is_uuid_part_def recv_part_def is_uuid_frame_def)

lemma mapE_relayed:
  "list_all2 relayed fs ps \<Longrightarrow> mapE recv_part fs = Inr ps"
  "list_all2 relayed fs ps \<Longrightarrow> mapE send_part ps = Inr fs"
  by (induction fs ps rule: list_all2_induct) (auto simp: relayed_send relayed_def)

lemma recv_relayed:
  assumes "list_all2 relayed fs ps" "fs \<noteq> []"
  shows "zmsg_recv (deliver fs) m = Inr (True, ps)"
  using mapE_relayed(1) [OF assms(1)] assms(2) by (simp add: recv_deliver)

lemma send_relayed:
  "list_all2 relayed fs ps \<Longrightarrow> zmsg_send send_start_example ps = Inr (with_more fs, [])"
  by (simp add: zmsg_send_eq send_start_example_def mapE_relayed)

subsection \<open>Properties of the class\<close>

text \<open>
  C5. A 17-byte frame that starts with 0 is recovered from its text form, and the text form (33
  characters, @ and 32 upper-case digits) is recovered from the frame it decodes to.
\<close>

theorem uuid_codec:
  shows "(is_uuid_frame d \<longrightarrow> bindE (encode_uuid d) decode_uuid = Inr d)
    \<and> (canonical_uuid_part s \<longrightarrow> bindE (decode_uuid s) encode_uuid = Inr s)"
  by (simp add: uuid_roundtrip uuid_decode_encode is_uuid_frame_def)

lemma uuid_codec_witness:
  "bindE (encode_uuid (0 # replicate 16 171)) decode_uuid = Inr (0 # replicate 16 171)
   \<and> bindE (decode_uuid (of_char (CHR ''@'') # replicate 32 65)) encode_uuid
       = Inr (of_char (CHR ''@'') # replicate 32 65)"
proof -
  have "is_uuid_frame (0 # replicate 16 171)" "canonical_uuid_part (of_char (CHR ''@'') # replicate 32 65)"
    by code_simp+
  with uuid_codec [of "0 # replicate 16 171" "of_char (CHR ''@'') # replicate 32 65"] show ?thesis by blast
qed

lemma relay_transparent_witness:
  "bindE (zmsg_recv (deliver [0 # replicate 16 171, [], [72, 0, 105]]) [])
      (\<lambda>(ok, msg). zmsg_send send_start_example msg)
    = Inr (with_more [0 # replicate 16 171, [], [72, 0, 105]], [])"
  by (rule relay_transparent) (simp_all add: is_uuid_part_def)

text \<open>The self-test between a \<open>DEALER\<close> and a \<open>ROUTER\<close> that puts a 17-byte identity in front: it passes
  with the send loop that starts at part 0 and hangs in its first \<open>recv\<close> with the one that starts at 1.\<close>

theorem self_test_outcome:
  assumes "\<And>fs. link fs = ident # fs" "length ident = 17" "ident ! 0 = 0"
  shows "zmsg_test send_start_example link = Inr () \<and> zmsg_test send_start link = Inl Blocks"
  by (intro conjI self_test_passes [OF assms] self_test_blocks)

lemma self_test_outcome_witness:
  "zmsg_test send_start_example (Cons (0 # replicate 16 7)) = Inr ()
   \<and> zmsg_test send_start (Cons (0 # replicate 16 7)) = Inl Blocks"
  by (rule self_test_outcome [of _ "0 # replicate 16 7"]) simp_all

subsection \<open>Messages that can be received and sent\<close>

text \<open>A part that can be sent, and messages that have one part at least, all of which can be sent.\<close>

definition sendable :: "bytes \<Rightarrow> bool" where
  "sendable d \<longleftrightarrow> \<not> (is_uuid_part d \<and> \<not> nul_free d)"

fun frames_in :: "incoming \<Rightarrow> bytes list" where
  "frames_in (LastFrame d) = [d]"
| "frames_in (MoreFrame d r) = d # frames_in r"
| "frames_in _ = []"

definition clean :: "incoming \<Rightarrow> bool" where
  "clean r \<longleftrightarrow> frames_in r \<noteq> [] \<and> (\<forall>d \<in> set (frames_in r). sendable d)"

lemma recv_part_sendable: "sendable d \<Longrightarrow> recv_part d = Inr p \<Longrightarrow> sendable p"
  using encode_uuid_text [of d] by (auto simp: recv_part_def sendable_def c_str_nul_free split: if_splits)

lemma recv_loop_sendable:
  assumes "recv_loop r m = Inr (b, ps)" "\<forall>d \<in> set (frames_in r). sendable d" "\<forall>d \<in> set m. sendable d"
  shows "(\<forall>p \<in> set ps. sendable p) \<and> (frames_in r \<noteq> [] \<longrightarrow> ps \<noteq> []) \<and> (m \<noteq> [] \<longrightarrow> ps \<noteq> [])"
  using assms
proof (induction r arbitrary: m)
  case (MoreFrame d r)
  then obtain p where p: "recv_part d = Inr p" "recv_loop r (m @ [p]) = Inr (b, ps)"
    by (auto simp: bindE_eq_Inr)
  with MoreFrame.IH [of "m @ [p]"] MoreFrame.prems recv_part_sendable [of d p] show ?case by auto
qed (auto simp: bindE_eq_Inr dest: recv_part_sendable)

lemma recv_clean:
  assumes "clean r"
  obtains b ps where "zmsg_recv r zmsg_new = Inr (b, ps)" "ps \<noteq> []" "\<forall>p \<in> set ps. sendable p"
  using recv_loop_Inr [of r "[]"] recv_loop_sendable [of r "[]"] assms
  by (fastforce simp: clean_def zmsg_recv_def clear_def)

lemma unwrap_clean:
  assumes "ps \<noteq> []" "\<forall>p \<in> set ps. sendable p"
  obtains w m where "unwrap ps = Inr (w, m)" "nul_free w" "\<forall>p \<in> set m. sendable p"
proof (cases ps)
  case (Cons p qs)
  have "unwrap ps = Inr (c_str p, if address_of qs = Some [] then tl qs else qs)"
    using Cons by (cases qs) (auto simp: unwrap_def address_of_def Let_def)
  then show thesis
  proof (rule that)
    show "\<forall>p \<in> set (if address_of qs = Some [] then tl qs else qs). sendable p"
      using assms(2) Cons by (cases qs) auto
  qed simp
qed (use assms(1) in simp)

lemma send_clean: "\<forall>p \<in> set m. sendable p \<Longrightarrow> \<exists>w. zmsg_send k m = Inr (w, [])"
proof (cases "zmsg_send k m")
  case (Inl f)
  moreover assume "\<forall>p \<in> set m. sendable p"
  ultimately show ?thesis by (auto simp: zmsg_send_fault_iff sendable_def dest: in_set_dropD)
qed (auto simp: zmsg_send_eq bindE_eq_Inr)

lemma nul_free_sendable [simp]: "nul_free d \<Longrightarrow> sendable d"
  by (simp add: sendable_def)

end
