(* ===== verification/Digits.thy ===== *)
theory Digits
  imports Prelude
begin

section \<open>Numbers as text\<close>

text \<open>
  Numbers as the programs print and read them: hexadecimal and padded text, what \<open>atoi\<close> makes of a text, and
  the round trip through the decimal text that \<open>sprintf\<close> and \<open>operator<<\<close> print.
\<close>

text \<open>\<open>atoi\<close>: white space, a sign, digits.\<close>

definition is_space :: "byte \<Rightarrow> bool" where
  "is_space c \<longleftrightarrow> c \<in> {32, 9, 10, 11, 12, 13}"

definition is_digit :: "byte \<Rightarrow> bool" where
  "is_digit c \<longleftrightarrow> 48 \<le> c \<and> c \<le> 57"

definition digits_value :: "bytes \<Rightarrow> int" where
  "digits_value ds = foldl (\<lambda>n c. 10 * n + (int (unat c) - 48)) 0 ds"

definition atoi :: "bytes \<Rightarrow> int" where
  "atoi s =
     (case dropWhile is_space s of
        c # cs \<Rightarrow>
          if c = 45 then - digits_value (takeWhile is_digit cs)
          else if c = 43 then digits_value (takeWhile is_digit cs)
          else digits_value (takeWhile is_digit (c # cs))
      | [] \<Rightarrow> 0)"

lemma digit_byte:
  assumes "d < 10"
  shows "is_digit (of_nat (48 + d))" "int (unat (of_nat (48 + d) :: byte)) = 48 + int d"
    "\<not> is_space (of_nat (48 + d))" "(of_nat (48 + d) :: byte) \<notin> {45, 43, 0}"
proof -
  have "d \<in> set [0..<10]" using assms by simp
  moreover have "\<forall>d \<in> set [0..<10]. is_digit (of_nat (48 + d)) \<and> int (unat (of_nat (48 + d) :: byte)) = 48 + int d
      \<and> \<not> is_space (of_nat (48 + d)) \<and> (of_nat (48 + d) :: byte) \<notin> {45, 43, 0}"
    by code_simp
  ultimately show "is_digit (of_nat (48 + d))" "int (unat (of_nat (48 + d) :: byte)) = 48 + int d"
    "\<not> is_space (of_nat (48 + d))" "(of_nat (48 + d) :: byte) \<notin> {45, 43, 0}" by blast+
qed

lemma decimal_is_digits: "\<forall>c \<in> set (decimal n). is_digit c \<and> \<not> is_space c \<and> c \<notin> {45, 43, 0}"
proof
  fix c assume "c \<in> set (decimal n)"
  then obtain d where d: "d < 10" "c = of_nat (48 + d)" using decimal_digits [of n] by blast
  show "is_digit c \<and> \<not> is_space c \<and> c \<notin> {45, 43, 0}"
    unfolding d(2) by (intro conjI digit_byte d(1))
qed

lemma takeWhile_decimal: "takeWhile is_digit (decimal n) = decimal n"
  using decimal_is_digits [of n] by (simp add: takeWhile_eq_all_conv)

lemma digits_value_decimal: "digits_value (decimal n) = int n"
proof (induction n rule: decimal.induct)
  case (1 n)
  show ?case
  proof (cases "n < 10")
    case True
    then show ?thesis
      using digit_byte [of n] by (simp add: digits_value_def decimal.simps [of n] del: of_nat_add)
  next
    case False
    then have dn: "decimal n = decimal (n div 10) @ [of_nat (48 + n mod 10)]" by (subst decimal.simps) simp
    have "digits_value (decimal n) = 10 * int (n div 10) + (int (unat (of_nat (48 + n mod 10) :: byte)) - 48)"
      using "1.IH" [OF False] unfolding digits_value_def by (subst dn) (simp only: foldl_append foldl.simps)
    also have "\<dots> = 10 * int (n div 10) + int (n mod 10)"
      using digit_byte(2) [of "n mod 10"] by (simp del: of_nat_add)
    also have "\<dots> = int n" by (simp add: zdiv_int zmod_int)
    finally show ?thesis .
  qed
qed

lemma decimal_no_space: "dropWhile is_space (decimal n @ t) = decimal n @ t" "decimal n \<noteq> []"
proof -
  show ne: "decimal n \<noteq> []" by (subst decimal.simps) simp
  show "dropWhile is_space (decimal n @ t) = decimal n @ t"
    using decimal_is_digits [of n] ne by (cases "decimal n") auto
qed

text \<open>Reading stops at the first character that is no digit.\<close>

lemma atoi_decimal_append:
  assumes "t \<noteq> [] \<Longrightarrow> \<not> is_digit (hd t)"
  shows "atoi (decimal n @ t) = int n"
proof -
  obtain c cs where n: "decimal n = c # cs"
    using decimal_no_space(2) [of n] by (auto simp: neq_Nil_conv)
  have run: "takeWhile is_digit (decimal n @ t) = decimal n"
    using decimal_is_digits [of n] assms by (cases t) (simp_all add: takeWhile_append2)
  have "c \<noteq> 45" "c \<noteq> 43" "is_digit c" using decimal_is_digits [of n] n by auto
  with run n show ?thesis
    using digits_value_decimal [of n] decimal_no_space(1) [of n t] by (simp add: atoi_def)
qed

lemma atoi_decimal: "atoi (c_str (decimal n)) = int n"
proof -
  have "c_str (decimal n) = decimal n"
    using decimal_is_digits [of n] by (auto simp: c_str_def takeWhile_eq_all_conv)
  then show ?thesis using atoi_decimal_append [of "[]" n] by simp
qed

lemma length_decimal: "length (decimal n) \<le> Suc k \<longleftrightarrow> n < 10 ^ Suc k"
proof (induction k arbitrary: n)
  case 0
  show ?case using decimal_no_space(2) [of "n div 10"] by (simp add: decimal.simps [of n])
next
  case (Suc k)
  show ?case
  proof (cases "n < 10")
    case True
    then have "n < 10 ^ Suc (Suc k)" by (rule less_le_trans) simp
    with True show ?thesis by (simp add: decimal.simps [of n])
  next
    case False
    then show ?thesis using Suc.IH [of "n div 10"] by (simp add: decimal.simps [of n] div_less_iff_less_mult)
  qed
qed

subsection \<open>Signed numbers and what streams read\<close>

text \<open>\<open>%d\<close>.\<close>

definition dec_text :: "int \<Rightarrow> bytes" where
  "dec_text i = (if i < 0 then 45 # decimal (nat (- i)) else decimal (nat i))"

text \<open>\<open>operator>>\<close> for a signed type: white space, a sign, digits. The result says whether it succeeded, which value is
  stored (none at the end of the stream, zero if there is no number, the nearest one if it does not fit), and what is
  left of the stream.\<close>

definition scan_int :: "int \<Rightarrow> int \<Rightarrow> bytes \<Rightarrow> bool \<times> int option \<times> bytes" where
  "scan_int lo hi s =
     (case dropWhile is_space s of
        [] \<Rightarrow> (False, None, [])
      | c # cs \<Rightarrow>
          let ds = (if c = 45 \<or> c = 43 then cs else c # cs);
              v = (if c = 45 then - digits_value (takeWhile is_digit ds) else digits_value (takeWhile is_digit ds))
          in (takeWhile is_digit ds \<noteq> [] \<and> lo \<le> v \<and> v \<le> hi,
              Some (max lo (min hi v)), dropWhile is_digit ds))"

lemma scan_space: "is_space c \<Longrightarrow> scan_int lo hi (c # s) = scan_int lo hi s"
  by (simp add: scan_int_def)

lemma run_of_digits:
  assumes "t \<noteq> [] \<Longrightarrow> \<not> is_digit (hd t)"
  shows "takeWhile is_digit (decimal n @ t) = decimal n" "dropWhile is_digit (decimal n @ t) = t"
  using decimal_is_digits [of n] assms by (cases t; simp add: takeWhile_append2 dropWhile_append2)+

lemma scan_dec_text:
  assumes "t \<noteq> [] \<Longrightarrow> \<not> is_digit (hd t)" "lo \<le> i" "i \<le> hi"
  shows "scan_int lo hi (dec_text i @ t) = (True, Some i, t)"
proof (cases "i < 0")
  case True
  then have "digits_value (decimal (nat (- i))) = - i" by (simp add: digits_value_decimal)
  with True assms run_of_digits [of t "nat (- i)"] decimal_no_space(2) [of "nat (- i)"] show ?thesis
    by (simp add: scan_int_def dec_text_def is_space_def)
next
  case False
  obtain c cs where n: "decimal (nat i) = c # cs"
    using decimal_no_space(2) [of "nat i"] by (auto simp: neq_Nil_conv)
  have c: "c \<noteq> 45" "c \<noteq> 43" using decimal_is_digits [of "nat i"] n by auto
  have "digits_value (decimal (nat i)) = i" using False by (simp add: digits_value_decimal)
  with False assms n c run_of_digits [of t "nat i"] decimal_no_space(1) [of "nat i" t] show ?thesis
    by (simp add: scan_int_def dec_text_def)
qed

lemma dec_text_nul_free: "0 \<notin> set (dec_text i)"
  using decimal_is_digits [of "nat i"] decimal_is_digits [of "nat (- i)"] by (auto simp: dec_text_def)

subsection \<open>Hexadecimal and padded text\<close>

text \<open>\<open>%x\<close>, \<open>%X\<close> and \<open>std::hex\<close>, with the characters of the digits as an argument; \<open>setw (k)\<close> and \<open>%0\<close> pad with
  zeros on the left and never cut.\<close>

fun hex_with :: "(nat \<Rightarrow> byte) \<Rightarrow> nat \<Rightarrow> bytes" where
  "hex_with g n = (if n < 16 then [g n] else hex_with g (n div 16) @ [g (n mod 16)])"

declare hex_with.simps [simp del]

definition zero_pad :: "nat \<Rightarrow> bytes \<Rightarrow> bytes" where
  "zero_pad k t = replicate (k - length t) 48 @ t"

text \<open>The digits of \<open>%x\<close> and \<open>std::hex\<close>.\<close>

definition hex_digit :: "nat \<Rightarrow> byte" where
  "hex_digit d = (if d < 10 then of_nat (48 + d) else of_nat (87 + d))"

lemma hex_digit_inj: "a < 16 \<Longrightarrow> b < 16 \<Longrightarrow> hex_digit a = hex_digit b \<Longrightarrow> a = b"
proof -
  let ?code = "\<lambda>c :: nat. if c < 10 then 48 + c else 87 + c"
  assume ab: "a < 16" "b < 16" "hex_digit a = hex_digit b"
  have "hex_digit c = word_of_nat (?code c)" for c by (simp add: hex_digit_def)
  with ab have "?code a = ?code b"
    by (simp add: word_of_nat_eq_iff take_bit_nat_eq_self del: of_nat_add of_nat_Suc)
  then show "a = b" using ab(1,2) by (simp split: if_splits)
qed

lemma hex_with_ne [simp]: "hex_with g n \<noteq> []" "[] \<noteq> hex_with g n"
  by (subst hex_with.simps, simp)+

lemma hex_with_digits: "set (hex_with g n) \<subseteq> g ` {..<16}"
proof (induction n rule: less_induct)
  case (less n)
  then show ?case
    by (cases "n < 16") (auto simp: hex_with.simps [of g n] dest!: subsetD [OF less.IH [of "n div 16"]])
qed

lemma hex_with_inj:
  assumes "inj_on g {..<16}"
  shows "hex_with g m = hex_with g n \<Longrightarrow> m = n"
proof (induction m arbitrary: n rule: less_induct)
  case (less m)
  note digit = inj_onD [OF assms]
  show ?case
  proof (cases "m < 16"; cases "n < 16")
    assume "m < 16" "n < 16"
    with less.prems show ?thesis by (simp add: hex_with.simps [of g m] hex_with.simps [of g n] digit)
  next
    assume "m < 16" "\<not> n < 16"
    with less.prems show ?thesis
      by (simp add: hex_with.simps [of g m] hex_with.simps [of g n])
  next
    assume "\<not> m < 16" "n < 16"
    with less.prems show ?thesis
      by (simp add: hex_with.simps [of g m] hex_with.simps [of g n])
  next
    assume big: "\<not> m < 16" "\<not> n < 16"
    with less.prems have "hex_with g (m div 16) = hex_with g (n div 16)" "g (m mod 16) = g (n mod 16)"
      by (simp_all add: hex_with.simps [of g m] hex_with.simps [of g n])
    with less.IH [of "m div 16" "n div 16"] big have "m div 16 = n div 16" "m mod 16 = n mod 16"
      by (simp_all add: digit)
    then show ?thesis by (metis mult_div_mod_eq)
  qed
qed

lemma hex_with_length: "n < 16 ^ Suc k \<Longrightarrow> length (hex_with g n) \<le> Suc k"
proof (induction k arbitrary: n)
  case 0
  then show ?case by (simp add: hex_with.simps)
next
  case (Suc k)
  then have "n div 16 < 16 ^ Suc k" by (simp add: div_less_iff_less_mult)
  with Suc.IH [of "n div 16"] show ?case by (subst hex_with.simps) simp
qed

text \<open>No number but zero begins with a zero, and so the padding can be taken off.\<close>

lemma hex_with_leading:
  assumes "inj_on g {..<16}" "g 0 = 48" "0 < n"
  shows "hd (hex_with g n) \<noteq> 48"
  using assms(3)
proof (induction n rule: less_induct)
  case (less n)
  show ?case
  proof (cases "n < 16")
    case True
    then have "g n \<noteq> g 0" using inj_onD [OF assms(1), of n 0] less.prems by auto
    with True assms(2) show ?thesis by (simp add: hex_with.simps [of g n])
  next
    case False
    then have "hd (hex_with g n) = hd (hex_with g (n div 16))" by (subst hex_with.simps) simp
    with less.IH [of "n div 16"] False show ?thesis by simp
  qed
qed

lemma unpad_hex:
  assumes "inj_on g {..<16}" "g 0 = 48"
  shows "dropWhile (\<lambda>b. b = 48) (zero_pad k (hex_with g n)) = (if n = 0 then [] else hex_with g n)"
proof -
  have "dropWhile (\<lambda>b. b = 48) (replicate j 48 @ t) = dropWhile (\<lambda>b. b = 48) t" for j and t :: bytes
    by (induction j) simp_all
  moreover have "dropWhile (\<lambda>b. b = 48) (hex_with g n) = hex_with g n" if "0 < n"
    using hex_with_leading [OF assms that] by (cases "hex_with g n") simp_all
  moreover have "hex_with g 0 = [48]" using assms(2) by (simp add: hex_with.simps)
  ultimately show ?thesis by (simp add: zero_pad_def)
qed

lemma padded_hex_inj:
  assumes "inj_on g {..<16}" "g 0 = 48" "zero_pad k (hex_with g m) = zero_pad k (hex_with g n)"
  shows "m = n"
proof -
  have "(if m = 0 then [] else hex_with g m) = (if n = 0 then [] else hex_with g n)"
    using unpad_hex [OF assms(1,2), of k m] unpad_hex [OF assms(1,2), of k n] assms(3) by simp
  then show ?thesis
    using hex_with_inj [OF assms(1), of m n] by (auto split: if_splits)
qed

lemma length_zero_pad: "length (zero_pad k t) = max k (length t)"
  by (simp add: zero_pad_def)

lemma digits_value_zero_pad: "digits_value (zero_pad k t) = digits_value t"
proof -
  have "foldl (\<lambda>n c. 10 * n + (int (unat c) - 48)) 0 (replicate j (48 :: byte)) = 0" for j
    by (induction j) simp_all
  then show ?thesis by (simp add: digits_value_def zero_pad_def)
qed

end
