(* ===== verification/Mdp.thy ===== *)
theory Mdp
  imports Zmsg Digits
begin

section \<open>Majordomo Protocol constants (mdp.h), clock and identities (zhelpers.hpp)\<close>

text \<open>
  The protocol headers and commands of \<open>mdp.h\<close>, as byte strings, and the clock of \<open>zhelpers.hpp\<close>.
  \<open>gettimeofday\<close> is the system's: a run is given the sequence of its readings, one for each call of
  \<open>s_clock\<close>, and nothing is assumed about their order. \<open>random\<close> is the system's too: a run is given
  what \<open>within (0x10000)\<close> returns, and \<open>set_id_text\<close> is the identity \<open>s_set_id\<close> makes of it.
\<close>

definition MDPC_CLIENT :: bytes where "MDPC_CLIENT = bytes_of ''MDPC01''"
definition MDPW_WORKER :: bytes where "MDPW_WORKER = bytes_of ''MDPW01''"
definition MDPW_READY :: bytes where "MDPW_READY = [1]"
definition MDPW_REQUEST :: bytes where "MDPW_REQUEST = [2]"
definition MDPW_REPLY :: bytes where "MDPW_REPLY = [3]"
definition MDPW_HEARTBEAT :: bytes where "MDPW_HEARTBEAT = [4]"
definition MDPW_DISCONNECT :: bytes where "MDPW_DISCONNECT = [5]"

lemma mdp_literals [simp]:
  "MDPC_CLIENT = [77, 68, 80, 67, 48, 49]"
  "MDPW_WORKER = [77, 68, 80, 87, 48, 49]"
  by (simp_all add: MDPC_CLIENT_def MDPW_WORKER_def bytes_of_def)

lemmas mdp_commands [simp] =
  MDPW_READY_def MDPW_REQUEST_def MDPW_REPLY_def MDPW_HEARTBEAT_def MDPW_DISCONNECT_def

text \<open>A \<open>struct timeval\<close>: seconds and microseconds since the epoch.\<close>

record timeval =
  tv_sec :: int
  tv_usec :: int

text \<open>\<open>s_clock\<close>: the milliseconds of one reading (C's division truncates; \<open>tv_usec\<close> is not negative).\<close>

definition s_clock :: "timeval \<Rightarrow> int" where
  "s_clock tv = tv_sec tv * 1000 + tv_usec tv div 1000"

lemma s_clock_mono:
  "tv_sec a < tv_sec b \<or> tv_sec a = tv_sec b \<and> tv_usec a \<le> tv_usec b \<Longrightarrow>
   0 \<le> tv_usec b \<Longrightarrow> tv_usec a < 1000000 \<Longrightarrow> s_clock a \<le> s_clock b"
  by (auto simp: s_clock_def intro: zdiv_mono1)

subsection \<open>Frames and identities of sockets\<close>

text \<open>\<open>s_recv\<close> takes the next frame, whatever message it belongs to; the frames are those that will arrive.\<close>

fun s_recv :: "bytes list \<Rightarrow> fault + (bytes \<times> bytes list)" where
  "s_recv [] = Inl Blocks"
| "s_recv (d # ds) = Inr (d, ds)"

text \<open>\<open>std::hex\<close>, \<open>std::uppercase\<close>, \<open>std::setw (4)\<close> and \<open>std::setfill ('0')\<close>.\<close>

definition hex4 :: "nat \<Rightarrow> bytes" where
  "hex4 n = zero_pad 4 (hex_with (nth hex_char) n)"

text \<open>The identity \<open>s_set_id\<close> gives a socket, from its two random numbers.\<close>

definition set_id_text :: "nat \<times> nat \<Rightarrow> bytes" where
  "set_id_text r = hex4 (fst r) @ [of_char (CHR ''-'')] @ hex4 (snd r)"

text \<open>The system around a client or a worker: clock readings, the random numbers of each connection, and
  the loop start of its \<open>zmsg::send\<close>. What the peer does to its socket is a trace of actions.\<close>

record peer_env =
  peer_clock :: "nat \<Rightarrow> timeval"
  peer_rand :: "nat \<Rightarrow> nat \<times> nat"
  peer_first :: nat

datatype action =
    ConnectTo bytes bytes
  | SendFrames wire
  | SleepFor int

text \<open>What a ROUTER socket delivers for the frames of the peer with a given identity, and to whom it sends which frames.\<close>

definition router_laws :: "(bytes \<Rightarrow> bytes list \<Rightarrow> bytes list) \<Rightarrow> (bytes list \<Rightarrow> bytes \<times> bytes list) \<Rightarrow> bool" where
  "router_laws link_in link_out \<longleftrightarrow>
     (\<forall>i fs. link_in i fs = i # fs) \<and> (\<forall>i fs. link_out (i # fs) = (i, fs))"

text \<open>The same for peers with REQ sockets, which add an empty frame to what they send and take it off what they get.\<close>

definition req_laws :: "(bytes \<Rightarrow> bytes list \<Rightarrow> bytes list) \<Rightarrow> (bytes list \<Rightarrow> bytes \<times> bytes list) \<Rightarrow> bool" where
  "req_laws link_in link_out \<longleftrightarrow>
     (\<forall>i fs. link_in i fs = i # [] # fs) \<and> (\<forall>i fs. link_out (i # [] # fs) = (i, fs))"

text \<open>Passing a message on part by part, as the simple brokers and proxies do: what is sent, and the frames that are left.\<close>

fun relay_parts :: "wire \<Rightarrow> fault + (wire \<times> wire)" where
  "relay_parts [] = Inl Blocks"
| "relay_parts ((d, more_parts) # w) =
     (if more_parts then bindE (relay_parts w) (\<lambda>(out, rest). Inr ((d, True) # out, rest))
      else Inr ([(d, False)], w))"

lemma relay_parts_message: "ps \<noteq> [] \<Longrightarrow> relay_parts (with_more ps @ w) = Inr (with_more ps, w)"
proof (induction ps)
  case (Cons p ps)
  then show ?case by (cases ps) simp_all
qed simp

lemma hex_char_inj: "inj_on (nth hex_char) {..<16}"
proof (rule inj_onI)
  fix i j :: nat
  have "\<forall>i \<in> set [0..<16]. \<forall>j \<in> set [0..<16]. hex_char ! i = hex_char ! j \<longrightarrow> i = j"
    by code_simp
  moreover assume "i \<in> {..<16}" "j \<in> {..<16}" "hex_char ! i = hex_char ! j"
  ultimately show "i = j" by simp
qed

lemma hex4_digits: "hex4 n \<noteq> []" "set (hex4 n) \<subseteq> set hex_char" "n < 65536 \<Longrightarrow> length (hex4 n) = 4"
proof -
  have "length hex_char = 16" by code_simp
  then have "nth hex_char ` {..<16} \<subseteq> set hex_char" by (auto intro: nth_mem)
  moreover have "(48 :: byte) \<in> set hex_char" by code_simp
  ultimately show "hex4 n \<noteq> []" "set (hex4 n) \<subseteq> set hex_char"
    using hex_with_digits [of "nth hex_char" n] by (auto simp: hex4_def zero_pad_def)
  show "n < 65536 \<Longrightarrow> length (hex4 n) = 4"
    using hex_with_length [of n 3 "nth hex_char"] by (simp add: hex4_def length_zero_pad)
qed

lemma hex4_inj: "hex4 m = hex4 n \<Longrightarrow> m = n"
  unfolding hex4_def by (rule padded_hex_inj [OF hex_char_inj]) code_simp

lemma set_id_text_shape: "nul_free (set_id_text r)" "set_id_text r \<noteq> []"
proof -
  have "\<forall>c \<in> set hex_char. c \<noteq> 0" by code_simp
  then show "nul_free (set_id_text r)" "set_id_text r \<noteq> []"
    using hex4_digits(2) [of "fst r"] hex4_digits(2) [of "snd r"]
    by (auto simp: set_id_text_def nul_free_def)
qed

text \<open>Two identities are the same only if all four numbers are.\<close>

lemma set_id_text_inj:
  assumes "set_id_text r = set_id_text s"
  shows "r = s"
proof -
  have "\<forall>c \<in> set hex_char. c \<noteq> 45" by code_simp
  then have dash: "\<forall>c \<in> set (hex4 n). c \<noteq> 45" for n
    using hex4_digits(2) [of n] by auto
  have "takeWhile (\<lambda>c. c \<noteq> 45) (set_id_text q) = hex4 (fst q)" "dropWhile (\<lambda>c. c \<noteq> 45) (set_id_text q) = 45 # hex4 (snd q)"
    for q using dash [of "fst q"] by (simp_all add: set_id_text_def takeWhile_append2 dropWhile_append2)
  with assms have "hex4 (fst r) = hex4 (fst s)" "hex4 (snd r) = hex4 (snd s)" by (metis, metis list.inject)
  then show ?thesis using hex4_inj by (metis prod.collapse)
qed

end
