(* ===== verification/Broker.thy ===== *)
theory Broker
  imports Mdp
begin

section \<open>The Majordomo broker (mdbroker.cpp)\<close>

text \<open>
  The class \<open>broker\<close> of \<open>Common/zmq/officialMajordomo/mdbroker.cpp\<close> with its structs \<open>worker\<close> and
  \<open>service\<close>: one definition per method, each taking the broker state and returning the new one or
  the fault that ends the process. A \<open>worker *\<close> is an address of the heap \<open>heap\<close>, where \<open>delete\<close>
  removes the entry, so a use of a deleted worker is the fault \<open>Dangling\<close>. A \<open>service *\<close> is the
  service's name: services are created once per name, stored in \<open>m_services\<close> and not deleted before the
  destructor. New addresses are handed out in increasing order and never twice, and \<open>std::set\<close>
  iterates in address order. The messages handed to the socket are appended to \<open>sent\<close>. Console
  output is not modelled.
\<close>

subsection \<open>State\<close>

definition HEARTBEAT_INTERVAL :: int where "HEARTBEAT_INTERVAL = 2500"
definition HEARTBEAT_LIVENESS :: int where "HEARTBEAT_LIVENESS = 3"
definition HEARTBEAT_EXPIRY :: int where
  "HEARTBEAT_EXPIRY = HEARTBEAT_INTERVAL * HEARTBEAT_LIVENESS"

type_synonym addr = nat

record worker =
  wrk_identity :: bytes
  wrk_service :: "bytes option"
  wrk_expiry :: int

record service =
  srv_name :: bytes
  srv_requests :: "zmsg list"
  srv_waiting :: "addr list"
  srv_workers :: "64 word"

record broker =
  m_services :: "bytes \<rightharpoonup> service"
  m_workers :: "bytes \<rightharpoonup> addr"
  m_waiting :: "addr list"
  heap :: "addr \<rightharpoonup> worker"
  next_addr :: addr
  ticks :: nat
  sent :: "wire list"

text \<open>
  What a run is given from outside: the clock readings in the order of the calls, the memory content
  a new service's uninitialised counter starts with, and the loop start of the \<open>zmsg::send\<close> the
  broker is compiled with.
\<close>

record env =
  clock :: "nat \<Rightarrow> timeval"
  junk :: "bytes \<Rightarrow> 64 word"
  first_part :: nat

definition new_worker :: "bytes \<Rightarrow> worker" where
  "new_worker identity = \<lparr>wrk_identity = identity, wrk_service = None, wrk_expiry = 0\<rparr>"

definition new_service :: "env \<Rightarrow> bytes \<Rightarrow> service" where
  "new_service E name =
     \<lparr>srv_name = name, srv_requests = [], srv_waiting = [], srv_workers = junk E name\<rparr>"

definition new_broker :: broker where
  "new_broker = \<lparr>m_services = Map.empty, m_workers = Map.empty, m_waiting = [],
                 heap = Map.empty, next_addr = 1, ticks = 0, sent = []\<rparr>"

text \<open>The destructor deletes every service with its queued requests, then every worker.\<close>

definition delete_broker :: "broker \<Rightarrow> broker" where
  "delete_broker b = b\<lparr>m_services := Map.empty, m_workers := Map.empty,
     heap := (\<lambda>a. if a \<in> ran (m_workers b) then None else heap b a)\<rparr>"

text \<open>Reading the clock uses up one reading.\<close>

definition read_clock :: "env \<Rightarrow> broker \<Rightarrow> int \<times> broker" where
  "read_clock E b = (s_clock (clock E (ticks b)), b\<lparr>ticks := Suc (ticks b)\<rparr>)"

definition set_insert :: "addr \<Rightarrow> addr list \<Rightarrow> addr list" where
  "set_insert a xs = (if a \<in> set xs then xs else insort a xs)"

definition upd_service :: "bytes \<Rightarrow> (service \<Rightarrow> service) \<Rightarrow> broker \<Rightarrow> broker" where
  "upd_service name g b =
     b\<lparr>m_services := (m_services b)(name := map_option g (m_services b name))\<rparr>"

definition upd_worker :: "addr \<Rightarrow> (worker \<Rightarrow> worker) \<Rightarrow> broker \<Rightarrow> broker" where
  "upd_worker a g b = b\<lparr>heap := (heap b)(a := map_option g (heap b a))\<rparr>"

definition socket_send :: "env \<Rightarrow> zmsg \<Rightarrow> broker \<Rightarrow> fault + broker" where
  "socket_send E m b =
     bindE (zmsg_send (first_part E) m) (\<lambda>(w, _). Inr (b\<lparr>sent := sent b @ [w]\<rparr>))"

subsection \<open>Workers\<close>

definition worker_send :: "env \<Rightarrow> addr \<Rightarrow> bytes \<Rightarrow> bytes \<Rightarrow> zmsg option \<Rightarrow> broker \<Rightarrow> fault + broker"
where
  "worker_send E a command option msg_p b =
     bindE (fetchE Dangling (heap b a)) (\<lambda>w.
       let msg = (case msg_p of None \<Rightarrow> zmsg_new | Some m \<Rightarrow> zmsg_copy m);
           msg = (if 0 < length option then push_front option msg else msg);
           msg = push_front MDPW_WORKER (push_front command msg);
           msg = wrap (wrk_identity w) (Some []) msg
       in socket_send E msg b)"

definition worker_delete :: "env \<Rightarrow> addr \<Rightarrow> bool \<Rightarrow> broker \<Rightarrow> fault + broker" where
  "worker_delete E a disconnect b =
     bindE (if disconnect then worker_send E a MDPW_DISCONNECT [] None b else Inr b) (\<lambda>b.
     bindE (fetchE Dangling (heap b a)) (\<lambda>w.
     bindE (case wrk_service w of
              None \<Rightarrow> Inr b
            | Some name \<Rightarrow>
                bindE (fetchE Dangling (m_services b name)) (\<lambda>_.
                  Inr (upd_service name (\<lambda>s. s\<lparr>srv_waiting := filter (\<lambda>x. x \<noteq> a) (srv_waiting s),
                                             srv_workers := srv_workers s - 1\<rparr>) b))) (\<lambda>b.
       Inr (b\<lparr>m_waiting := remove1 a (m_waiting b),
             m_workers := (m_workers b)(wrk_identity w := None),
             heap := (heap b)(a := None)\<rparr>))))"

text \<open>The expired workers are collected first and deleted afterwards.\<close>

definition expired :: "broker \<Rightarrow> int \<Rightarrow> addr \<Rightarrow> fault + bool" where
  "expired b now a = bindE (fetchE Dangling (heap b a)) (\<lambda>w. Inr (wrk_expiry w \<le> now))"

definition purge_workers :: "env \<Rightarrow> broker \<Rightarrow> fault + broker" where
  "purge_workers E b =
     (let (now, b) = read_clock E b in
      bindE (mapE (expired b now) (m_waiting b)) (\<lambda>flags.
        forE (\<lambda>a. worker_delete E a False) (map fst (filter snd (zip (m_waiting b) flags))) b))"

definition worker_require :: "bytes \<Rightarrow> broker \<Rightarrow> fault + (addr \<times> broker)" where
  "worker_require identity b =
     bindE (guardE (length identity \<noteq> 0) AssertFail) (\<lambda>_.
       case m_workers b identity of
         Some a \<Rightarrow> Inr (a, b)
       | None \<Rightarrow>
           let a = next_addr b
           in Inr (a, b\<lparr>heap := (heap b)(a \<mapsto> new_worker identity), next_addr := Suc a,
                        m_workers := (m_workers b)(identity \<mapsto> a)\<rparr>))"

subsection \<open>Services\<close>

definition service_require :: "env \<Rightarrow> bytes \<Rightarrow> broker \<Rightarrow> fault + (bytes \<times> broker)" where
  "service_require E name b =
     bindE (guardE (0 < length name) AssertFail) (\<lambda>_.
       case m_services b name of
         Some s \<Rightarrow> Inr (name, b)
       | None \<Rightarrow> Inr (name, b\<lparr>m_services := (m_services b)(name \<mapsto> new_service E name)\<rparr>))"

text \<open>
  The choice of the worker: \<open>best\<close> is the position and expiry of \<open>wrk\<close>, \<open>i\<close> the position of \<open>next\<close>.
\<close>

fun pick_worker :: "nat \<times> int \<Rightarrow> nat \<Rightarrow> int list \<Rightarrow> nat" where
  "pick_worker best i [] = fst best"
| "pick_worker best i (e # es) =
     pick_worker (if e > snd best then (i, e) else best) (Suc i) es"

definition choose_worker :: "int list \<Rightarrow> nat" where
  "choose_worker es = (case es of [] \<Rightarrow> 0 | e # es' \<Rightarrow> pick_worker (0, e) 1 es')"

definition expiry_of :: "broker \<Rightarrow> addr \<Rightarrow> fault + int" where
  "expiry_of b a = bindE (fetchE Dangling (heap b a)) (\<lambda>w. Inr (wrk_expiry w))"

text \<open>One turn of the dispatch loop: \<open>None\<close> when its condition fails.\<close>

definition dispatch_turn :: "env \<Rightarrow> bytes \<Rightarrow> broker \<Rightarrow> fault + broker option" where
  "dispatch_turn E name b =
     bindE (fetchE Dangling (m_services b name)) (\<lambda>s.
       if srv_waiting s = [] \<or> srv_requests s = [] then Inr None
       else
         bindE (mapE (expiry_of b) (srv_waiting s)) (\<lambda>es.
           let i = choose_worker es;
               a = srv_waiting s ! i;
               msg = hd (srv_requests s);
               b = upd_service name (\<lambda>s. s\<lparr>srv_requests := tl (srv_requests s)\<rparr>) b
           in bindE (worker_send E a MDPW_REQUEST [] (Some msg) b) (\<lambda>b.
                let b = b\<lparr>m_waiting := remove1 a (m_waiting b)\<rparr>
                in Inr (Some (upd_service name
                     (\<lambda>s. s\<lparr>srv_waiting := erase_at i (srv_waiting s)\<rparr>) b)))))"

definition pending :: "bytes \<Rightarrow> broker \<Rightarrow> nat" where
  "pending name b = (case m_services b name of None \<Rightarrow> 0 | Some s \<Rightarrow> length (srv_requests s))"

lemma worker_send_Inr:
  assumes "worker_send E a c opt m b = Inr b'"
  obtains w ws where "heap b a = Some w" "b' = b\<lparr>sent := sent b @ [ws]\<rparr>"
  using assms by (auto simp: worker_send_def socket_send_def Let_def bindE_eq_Inr)

lemma dispatch_turn_pending:
  "dispatch_turn E name b = Inr (Some b') \<Longrightarrow> pending name b' < pending name b"
  by (auto simp: dispatch_turn_def pending_def upd_service_def Let_def bindE_eq_Inr neq_Nil_conv
      split: if_splits elim!: worker_send_Inr)

function dispatch_loop :: "env \<Rightarrow> bytes \<Rightarrow> broker \<Rightarrow> fault + broker" where
  "dispatch_loop E name b =
     bindE (dispatch_turn E name b) (\<lambda>r.
       case r of None \<Rightarrow> Inr b | Some b' \<Rightarrow> dispatch_loop E name b')"
  by pat_completeness auto
termination
  by (relation "measure (\<lambda>(E, name, b). pending name b)") (auto dest: dispatch_turn_pending)

declare dispatch_loop.simps [simp del]

definition service_dispatch :: "env \<Rightarrow> bytes \<Rightarrow> zmsg option \<Rightarrow> broker \<Rightarrow> fault + broker" where
  "service_dispatch E name msg b =
     (let b = (case msg of
                 None \<Rightarrow> b
               | Some m \<Rightarrow> upd_service name (\<lambda>s. s\<lparr>srv_requests := srv_requests s @ [m]\<rparr>) b)
      in bindE (purge_workers E b) (dispatch_loop E name))"

definition service_internal :: "env \<Rightarrow> bytes \<Rightarrow> zmsg \<Rightarrow> broker \<Rightarrow> fault + broker" where
  "service_internal E service_name msg b =
     bindE (if service_name = bytes_of ''mmi.service''
            then bindE (fetchE NullString (body_of msg)) (\<lambda>name.
                 bindE (fetchE OutOfRange (m_services b name)) (\<lambda>s.
                   Inr (body_set (if srv_workers s \<noteq> 0 then bytes_of ''200'' else bytes_of ''404'')
                          msg)))
            else Inr (body_set (bytes_of ''501'') msg)) (\<lambda>msg.
     bindE (unwrap msg) (\<lambda>(client, msg).
       socket_send E (wrap client (Some []) (wrap MDPC_CLIENT (Some service_name) msg)) b))"

definition worker_waiting :: "env \<Rightarrow> addr \<Rightarrow> broker \<Rightarrow> fault + broker" where
  "worker_waiting E a b =
     (let b = b\<lparr>m_waiting := set_insert a (m_waiting b)\<rparr> in
      bindE (fetchE Dangling (heap b a)) (\<lambda>w.
      bindE (fetchE NullDeref (wrk_service w)) (\<lambda>name.
      bindE (fetchE Dangling (m_services b name)) (\<lambda>_.
        let b = upd_service name (\<lambda>s. s\<lparr>srv_waiting := srv_waiting s @ [a]\<rparr>) b;
            (now, b) = read_clock E b;
            b = upd_worker a (\<lambda>w. w\<lparr>wrk_expiry := now + HEARTBEAT_EXPIRY\<rparr>) b
        in service_dispatch E name None b))))"

subsection \<open>Messages\<close>

text \<open>\<open>s.find_first_of ("mmi.") == 0\<close>: the first character is one of the four.\<close>

definition starts_in_mmi :: "bytes \<Rightarrow> bool" where
  "starts_in_mmi s \<longleftrightarrow> (case s of [] \<Rightarrow> False | c # _ \<Rightarrow> c \<in> set (bytes_of ''mmi.''))"

definition reserved_name :: "bytes \<Rightarrow> bool" where
  "reserved_name s \<longleftrightarrow> length s \<ge> 4 \<and> starts_in_mmi s"

definition worker_process :: "env \<Rightarrow> bytes \<Rightarrow> zmsg \<Rightarrow> broker \<Rightarrow> fault + broker" where
  "worker_process E sender msg b =
     bindE (guardE (parts msg \<ge> 1) AssertFail) (\<lambda>_.
     bindE (pop_front msg) (\<lambda>(part, msg).
     let command = c_str part;
         worker_ready = (m_workers b sender \<noteq> None) in
     bindE (worker_require sender b) (\<lambda>(wrk, b).
     if command = MDPW_READY then
       (if worker_ready then worker_delete E wrk True b
        else if reserved_name sender then worker_delete E wrk True b
        else
          bindE (pop_front msg) (\<lambda>(part, msg).
          bindE (service_require E (c_str part) b) (\<lambda>(name, b).
            let b = upd_worker wrk (\<lambda>w. w\<lparr>wrk_service := Some name\<rparr>) b;
                b = upd_service name (\<lambda>s. s\<lparr>srv_workers := srv_workers s + 1\<rparr>) b
            in worker_waiting E wrk b)))
     else if command = MDPW_REPLY then
       (if worker_ready then
          bindE (unwrap msg) (\<lambda>(client, msg).
          bindE (fetchE Dangling (heap b wrk)) (\<lambda>w.
          bindE (fetchE NullDeref (wrk_service w)) (\<lambda>name.
          bindE (fetchE Dangling (m_services b name)) (\<lambda>s.
          bindE (socket_send E (wrap client (Some []) (wrap MDPC_CLIENT (Some (srv_name s)) msg)) b)
            (worker_waiting E wrk)))))
        else worker_delete E wrk True b)
     else if command = MDPW_HEARTBEAT then
       (if worker_ready then
          bindE (fetchE Dangling (heap b wrk)) (\<lambda>_.
            let (now, b) = read_clock E b
            in Inr (upd_worker wrk (\<lambda>w. w\<lparr>wrk_expiry := now + HEARTBEAT_EXPIRY\<rparr>) b))
        else worker_delete E wrk True b)
     else if command = MDPW_DISCONNECT then worker_delete E wrk False b
     else Inr b)))"

definition client_process :: "env \<Rightarrow> bytes \<Rightarrow> zmsg \<Rightarrow> broker \<Rightarrow> fault + broker" where
  "client_process E sender msg b =
     bindE (guardE (parts msg \<ge> 2) AssertFail) (\<lambda>_.
     bindE (pop_front msg) (\<lambda>(part, msg).
     let service_name = c_str part in
     bindE (service_require E service_name b) (\<lambda>(srv, b).
     let msg = wrap sender (Some []) msg in
     if reserved_name service_name then service_internal E service_name msg b
     else service_dispatch E srv (Some msg) b)))"

subsection \<open>The main loop\<close>

text \<open>One message as it leaves the socket: identity, empty frame, header, rest.\<close>

definition broker_message :: "env \<Rightarrow> incoming \<Rightarrow> broker \<Rightarrow> fault + broker" where
  "broker_message E r b =
     bindE (zmsg_recv r zmsg_new) (\<lambda>(_, msg).
     bindE (pop_front msg) (\<lambda>(sender, msg).
     bindE (pop_front msg) (\<lambda>(_, msg).
     bindE (pop_front msg) (\<lambda>(header, msg).
     if c_str header = MDPC_CLIENT then client_process E (c_str sender) msg b
     else if c_str header = MDPW_WORKER then worker_process E (c_str sender) msg b
     else Inr b))))"

record loop_state =
  brk :: broker
  now :: int
  heartbeat_at :: int

definition poll_timeout :: "loop_state \<Rightarrow> int" where
  "poll_timeout s = (if heartbeat_at s - now s < 0 then 0 else heartbeat_at s - now s)"

definition send_heartbeats :: "env \<Rightarrow> broker \<Rightarrow> fault + broker" where
  "send_heartbeats E b = forE (\<lambda>a. worker_send E a MDPW_HEARTBEAT [] None) (m_waiting b) b"

text \<open>One turn of the loop; \<open>input\<close> is \<open>None\<close> when the poll timed out.\<close>

definition broker_turn :: "env \<Rightarrow> incoming option \<Rightarrow> loop_state \<Rightarrow> fault + loop_state" where
  "broker_turn E input s =
     bindE (case input of None \<Rightarrow> Inr (brk s) | Some r \<Rightarrow> broker_message E r (brk s)) (\<lambda>b.
       let (t, b) = read_clock E b in
       if t \<ge> heartbeat_at s then
         bindE (purge_workers E b) (\<lambda>b.
         bindE (send_heartbeats E b) (\<lambda>b.
           let (t', b) = read_clock E b
           in Inr \<lparr>brk = b, now = t', heartbeat_at = heartbeat_at s + HEARTBEAT_INTERVAL\<rparr>))
       else Inr \<lparr>brk = b, now = t, heartbeat_at = heartbeat_at s\<rparr>)"

definition broker_start :: "env \<Rightarrow> broker \<Rightarrow> loop_state" where
  "broker_start E b =
     (let (t, b) = read_clock E b
      in \<lparr>brk = b, now = t, heartbeat_at = t + HEARTBEAT_INTERVAL\<rparr>)"

text \<open>\<open>start_brokering\<close>, interrupted after the turns of the list.\<close>

definition start_brokering :: "env \<Rightarrow> incoming option list \<Rightarrow> broker \<Rightarrow> fault + loop_state" where
  "start_brokering E inputs b = forE (broker_turn E) inputs (broker_start E b)"

end
