(* ===== verification/Broker_Inv.thy ===== *)
theory Broker_Inv
  imports Broker
begin

section \<open>The broker's invariant\<close>

text \<open>
  How the broker's maps, lists and worker objects agree, and that every method keeps it. Nothing the
  broker holds on to has been deleted, so no method reaches the fault \<open>Dangling\<close>; a service's counter
  counts the workers attached to it, up to the value it was born with; after each message no service
  has both an idle worker and a queued request.
\<close>

named_theorems broker_frames \<open>what the parts of the invariant do not depend on\<close>

subsection \<open>Statement\<close>

text \<open>Every live worker is the one registered under its identity.\<close>

definition heap_ok :: "broker \<Rightarrow> bool" where
  "heap_ok b \<longleftrightarrow> (\<forall>a w. heap b a = Some w \<longrightarrow>
     m_workers b (wrk_identity w) = Some a \<and> wrk_identity w \<noteq> [] \<and> nul_free (wrk_identity w)
     \<and> a < next_addr b)"

text \<open>Every registered address is live and holds that identity.\<close>

definition index_ok :: "broker \<Rightarrow> bool" where
  "index_ok b \<longleftrightarrow> (\<forall>i a. m_workers b i = Some a \<longrightarrow>
     (\<exists>w. heap b a = Some w \<and> wrk_identity w = i))"

text \<open>A worker's service exists.\<close>

definition attach_ok :: "broker \<Rightarrow> bool" where
  "attach_ok b \<longleftrightarrow> (\<forall>a w n. heap b a = Some w \<longrightarrow> wrk_service w = Some n \<longrightarrow>
     (\<exists>s. m_services b n = Some s))"

text \<open>A service is stored under its name and its waiting workers are live and its own.\<close>

definition service_ok :: "broker \<Rightarrow> bool" where
  "service_ok b \<longleftrightarrow> (\<forall>n s. m_services b n = Some s \<longrightarrow> srv_name s = n \<and>
     (\<forall>a \<in> set (srv_waiting s). \<exists>w. heap b a = Some w \<and> wrk_service w = Some n))"

text \<open>The broker's set of idle workers: in order, and each of them waits at its service.\<close>

definition waiting_ok :: "broker \<Rightarrow> bool" where
  "waiting_ok b \<longleftrightarrow> sorted (m_waiting b) \<and> distinct (m_waiting b) \<and>
     (\<forall>a \<in> set (m_waiting b). \<exists>w n s. heap b a = Some w \<and> wrk_service w = Some n
        \<and> m_services b n = Some s \<and> a \<in> set (srv_waiting s))"

definition attached :: "broker \<Rightarrow> bytes \<Rightarrow> addr set" where
  "attached b n = {a. \<exists>w. heap b a = Some w \<and> wrk_service w = Some n}"

text \<open>The counter: the attached workers, on top of what was in memory when the service was made.\<close>

definition count_ok :: "env \<Rightarrow> broker \<Rightarrow> bool" where
  "count_ok E b \<longleftrightarrow> (\<forall>n s. m_services b n = Some s \<longrightarrow>
     srv_workers s = junk E n + of_nat (card (attached b n)))"

definition broker_ok :: "env \<Rightarrow> broker \<Rightarrow> bool" where
  "broker_ok E b \<longleftrightarrow> heap_ok b \<and> index_ok b \<and> attach_ok b \<and> service_ok b \<and> waiting_ok b
     \<and> count_ok E b"

text \<open>No idle worker beside a queued request, at the services other than \<open>n\<close>, or at all.\<close>

definition busy_except :: "bytes \<Rightarrow> broker \<Rightarrow> bool" where
  "busy_except n b \<longleftrightarrow> (\<forall>m s. m \<noteq> n \<longrightarrow> m_services b m = Some s \<longrightarrow>
     srv_waiting s = [] \<or> srv_requests s = [])"

definition work_conserving :: "broker \<Rightarrow> bool" where
  "work_conserving b \<longleftrightarrow> (\<forall>m s. m_services b m = Some s \<longrightarrow>
     srv_waiting s = [] \<or> srv_requests s = [])"

lemmas ok_defs = heap_ok_def index_ok_def attach_ok_def service_ok_def waiting_ok_def count_ok_def

lemma broker_okI:
  "heap_ok b \<Longrightarrow> index_ok b \<Longrightarrow> attach_ok b \<Longrightarrow> service_ok b \<Longrightarrow> waiting_ok b \<Longrightarrow> count_ok E b \<Longrightarrow>
   broker_ok E b"
  by (simp add: broker_ok_def)

lemma broker_okD:
  assumes "broker_ok E b"
  shows "heap_ok b" "index_ok b" "attach_ok b" "service_ok b" "waiting_ok b" "count_ok E b"
  using assms by (simp_all add: broker_ok_def)

lemma new_broker_ok: "broker_ok E new_broker" "work_conserving new_broker"
  by (simp_all add: broker_ok_def ok_defs new_broker_def work_conserving_def)

lemma finite_attached: "heap_ok b \<Longrightarrow> finite (attached b n)"
  by (rule finite_subset [of _ "{..<next_addr b}"]) (auto simp: attached_def heap_ok_def)

subsection \<open>Sent messages and clock readings\<close>

lemma broker_ok_frames [simp, broker_frames]:
  "broker_ok E (b\<lparr>sent := x\<rparr>) = broker_ok E b"
  "broker_ok E (b\<lparr>ticks := t\<rparr>) = broker_ok E b"
  "work_conserving (b\<lparr>sent := x\<rparr>) = work_conserving b"
  "work_conserving (b\<lparr>ticks := t\<rparr>) = work_conserving b"
  "busy_except n (b\<lparr>sent := x\<rparr>) = busy_except n b"
  "busy_except n (b\<lparr>ticks := t\<rparr>) = busy_except n b"
  by (simp_all add: broker_ok_def ok_defs attached_def work_conserving_def busy_except_def)

lemma work_conserving_busy: "work_conserving b \<Longrightarrow> busy_except n b"
  by (simp add: work_conserving_def busy_except_def)

lemma busy_work_conserving:
  "busy_except n b \<Longrightarrow> (\<And>s. m_services b n = Some s \<Longrightarrow> srv_waiting s = [] \<or> srv_requests s = [])
   \<Longrightarrow> work_conserving b"
  unfolding work_conserving_def busy_except_def by metis

subsection \<open>The elementary changes\<close>

lemma ok_upd_requests:
  assumes "broker_ok E b" "\<And>s. srv_name (g s) = srv_name s" "\<And>s. srv_waiting (g s) = srv_waiting s"
    "\<And>s. srv_workers (g s) = srv_workers s"
  shows "broker_ok E (upd_service n g b)"
proof -
  have att: "attached (upd_service n g b) m = attached b m" for m
    by (simp add: attached_def upd_service_def)
  note ok = broker_okD [OF assms(1)]
  show ?thesis
  proof (rule broker_okI)
    show "heap_ok (upd_service n g b)"
      using ok(1) by (simp add: heap_ok_def upd_service_def)
    show "index_ok (upd_service n g b)"
      using ok(2) by (simp add: index_ok_def upd_service_def)
    show "attach_ok (upd_service n g b)"
      using ok(3) by (fastforce simp: attach_ok_def upd_service_def)
    show "service_ok (upd_service n g b)"
      using ok(4) assms(2,3) by (auto simp: service_ok_def upd_service_def)
    show "waiting_ok (upd_service n g b)"
      unfolding waiting_ok_def
    proof (intro conjI ballI)
      fix a assume "a \<in> set (m_waiting (upd_service n g b))"
      then obtain w m t where "heap b a = Some w" "wrk_service w = Some m"
        "m_services b m = Some t" "a \<in> set (srv_waiting t)"
        using ok(5) by (auto simp: waiting_ok_def upd_service_def)
      then show "\<exists>w m t. heap (upd_service n g b) a = Some w \<and> wrk_service w = Some m
          \<and> m_services (upd_service n g b) m = Some t \<and> a \<in> set (srv_waiting t)"
        using assms(3) by (auto simp: upd_service_def)
    qed (use ok(5) in \<open>simp_all add: waiting_ok_def upd_service_def\<close>)
    show "count_ok E (upd_service n g b)"
      using ok(6) assms(4) by (simp add: count_ok_def att) (auto simp: upd_service_def)
  qed
qed

lemma ok_upd_expiry:
  assumes "broker_ok E b" "\<And>w. wrk_identity (g w) = wrk_identity w"
    "\<And>w. wrk_service (g w) = wrk_service w"
  shows "broker_ok E (upd_worker a g b)"
proof -
  have att: "attached (upd_worker a g b) n = attached b n" for n
    using assms(3) by (auto simp: attached_def upd_worker_def split: if_splits)
  note ok = broker_okD [OF assms(1)]
  show ?thesis
  proof (rule broker_okI)
    show "heap_ok (upd_worker a g b)"
      using ok(1) assms(2) by (auto simp: heap_ok_def upd_worker_def)
    show "index_ok (upd_worker a g b)"
      using ok(2) assms(2) by (fastforce simp: index_ok_def upd_worker_def)
    show "attach_ok (upd_worker a g b)"
      using ok(3) assms(3) by (auto simp: attach_ok_def upd_worker_def)
    show "service_ok (upd_worker a g b)"
      using ok(4) assms(3) by (fastforce simp: service_ok_def upd_worker_def)
    show "waiting_ok (upd_worker a g b)"
      using ok(5) assms(3) by (fastforce simp: waiting_ok_def upd_worker_def)
    show "count_ok E (upd_worker a g b)"
      using ok(6) by (simp add: count_ok_def att) (simp add: upd_worker_def)
  qed
qed

text \<open>A worker that belongs to no service yet.\<close>

lemma ok_new_worker:
  assumes "broker_ok E b" "i \<noteq> []" "nul_free i" "m_workers b i = None"
  shows "broker_ok E (b\<lparr>heap := (heap b)(next_addr b \<mapsto> new_worker i), next_addr := Suc (next_addr b),
    m_workers := (m_workers b)(i \<mapsto> next_addr b)\<rparr>)" (is "broker_ok E ?b")
proof -
  note ok = broker_okD [OF assms(1)]
  have fresh: "heap b (next_addr b) = None"
    using ok(1) by (cases "heap b (next_addr b)") (auto simp: heap_ok_def)
  have att: "attached ?b m = attached b m" for m
    using fresh by (auto simp: attached_def new_worker_def)
  show ?thesis
  proof (rule broker_okI)
    show "heap_ok ?b"
      using ok(1) assms(2-4) by (fastforce simp: heap_ok_def new_worker_def)
    show "index_ok ?b"
      using ok(2) assms(4) fresh by (fastforce simp: index_ok_def new_worker_def)
    show "attach_ok ?b"
      using ok(3) by (auto simp: attach_ok_def new_worker_def)
    show "service_ok ?b"
      using ok(4) fresh by (fastforce simp: service_ok_def)
    show "waiting_ok ?b"
      using ok(5) fresh by (fastforce simp: waiting_ok_def)
    show "count_ok E ?b"
      using ok(6) by (simp add: count_ok_def att)
  qed
qed

lemma ok_new_service:
  assumes "broker_ok E b" "m_services b n = None"
  shows "broker_ok E (b\<lparr>m_services := (m_services b)(n \<mapsto> new_service E n)\<rparr>)" (is "broker_ok E ?b")
proof -
  note ok = broker_okD [OF assms(1)]
  have att: "attached ?b m = attached b m" for m by (simp add: attached_def)
  have none: "attached b n = {}"
    using ok(3) assms(2) by (fastforce simp: attach_ok_def attached_def)
  show ?thesis
  proof (rule broker_okI)
    show "heap_ok ?b" using ok(1) by (simp add: heap_ok_def)
    show "index_ok ?b" using ok(2) by (simp add: index_ok_def)
    show "attach_ok ?b" using ok(3) by (auto simp: attach_ok_def)
    show "service_ok ?b" using ok(4) by (auto simp: service_ok_def new_service_def)
    show "waiting_ok ?b" using ok(5) assms(2) by (fastforce simp: waiting_ok_def)
    show "count_ok E ?b"
      using ok(6) none by (simp add: count_ok_def att) (simp add: new_service_def)
  qed
qed

text \<open>A worker without a service is attached to one.\<close>

lemma ok_attach:
  assumes "broker_ok E b" "heap b a = Some w" "wrk_service w = None" "m_services b n = Some s"
  shows "broker_ok E (upd_service n (\<lambda>s. s\<lparr>srv_workers := srv_workers s + 1\<rparr>)
           (upd_worker a (\<lambda>w. w\<lparr>wrk_service := Some n\<rparr>) b))" (is "broker_ok E ?b")
proof -
  note ok = broker_okD [OF assms(1)]
  have att: "attached ?b m = (if m = n then insert a (attached b n) else attached b m)" for m
    using assms(2,3) by (auto simp: attached_def upd_service_def upd_worker_def)
  have new: "a \<notin> attached b n" "a \<notin> set (srv_waiting t)" if "m_services b m = Some t" for m t
    using assms(2,3) ok(4) that by (fastforce simp: attached_def service_ok_def)+
  have card: "card (attached ?b n) = Suc (card (attached b n))"
    using new(1) [OF assms(4)] finite_attached [OF ok(1)] by (simp add: att)
  have idle: "a \<notin> set (m_waiting b)"
    using assms(2,3) ok(5) by (fastforce simp: waiting_ok_def)
  show ?thesis
  proof (rule broker_okI)
    show "heap_ok ?b"
      using ok(1) by (auto simp: heap_ok_def upd_service_def upd_worker_def)
    show "index_ok ?b"
      using ok(2) by (fastforce simp: index_ok_def upd_service_def upd_worker_def)
    show "attach_ok ?b"
      using ok(3) assms(4) by (auto simp: attach_ok_def upd_service_def upd_worker_def)
    show "service_ok ?b"
      using ok(4) new(2) by (fastforce simp: service_ok_def upd_service_def upd_worker_def)
    show "waiting_ok ?b"
      using ok(5) idle by (fastforce simp: waiting_ok_def upd_service_def upd_worker_def)
    show "count_ok E ?b"
      unfolding count_ok_def
    proof (intro allI impI)
      fix m t assume t: "m_services ?b m = Some t"
      show "srv_workers t = junk E m + of_nat (card (attached ?b m))"
      proof (cases "m = n")
        case True
        with t assms(4) ok(6) card show ?thesis
          by (auto simp: upd_service_def upd_worker_def count_ok_def)
      next
        case False
        with t have "m_services b m = Some t"
          by (simp add: upd_service_def upd_worker_def)
        with False ok(6) show ?thesis by (simp add: att count_ok_def)
      qed
    qed
  qed
qed

text \<open>A worker joins the idle set and its service's list.\<close>

lemma set_set_insert [simp]: "set (set_insert a xs) = insert a (set xs)"
  by (auto simp: set_insert_def set_insort_key)

lemma sorted_set_insert: "sorted xs \<Longrightarrow> distinct xs \<Longrightarrow>
  sorted (set_insert a xs) \<and> distinct (set_insert a xs)"
  by (auto simp: set_insert_def sorted_insort distinct_insort)

lemma ok_enqueue:
  assumes "broker_ok E b" "heap b a = Some w" "wrk_service w = Some n" "m_services b n = Some s"
  shows "broker_ok E (upd_service n (\<lambda>s. s\<lparr>srv_waiting := srv_waiting s @ [a]\<rparr>)
           (b\<lparr>m_waiting := set_insert a (m_waiting b)\<rparr>))" (is "broker_ok E ?b")
proof -
  note ok = broker_okD [OF assms(1)]
  have att: "attached ?b m = attached b m" for m
    by (simp add: attached_def upd_service_def)
  show ?thesis
  proof (rule broker_okI)
    show "heap_ok ?b" using ok(1) by (simp add: heap_ok_def upd_service_def)
    show "index_ok ?b" using ok(2) by (simp add: index_ok_def upd_service_def)
    show "attach_ok ?b" using ok(3) by (fastforce simp: attach_ok_def upd_service_def)
    show "service_ok ?b"
      using ok(4) assms(2-4) by (auto simp: service_ok_def upd_service_def)
    show "waiting_ok ?b"
      unfolding waiting_ok_def
    proof (intro conjI ballI)
      fix x assume x: "x \<in> set (m_waiting ?b)"
      show "\<exists>w m t. heap ?b x = Some w \<and> wrk_service w = Some m
          \<and> m_services ?b m = Some t \<and> x \<in> set (srv_waiting t)"
      proof (cases "x = a")
        case True
        then show ?thesis using assms(2-4) by (simp add: upd_service_def)
      next
        case False
        with x obtain w m t where "heap b x = Some w" "wrk_service w = Some m"
          "m_services b m = Some t" "x \<in> set (srv_waiting t)"
          using ok(5) by (auto simp: waiting_ok_def upd_service_def)
        then show ?thesis by (auto simp: upd_service_def)
      qed
    qed (use ok(5) sorted_set_insert in \<open>auto simp: waiting_ok_def upd_service_def\<close>)
    show "count_ok E ?b"
      using ok(6) by (simp add: count_ok_def att) (auto simp: upd_service_def)
  qed
qed

text \<open>A dispatched worker leaves the idle set and one place of its service's list.\<close>

lemma ok_dequeue:
  assumes "broker_ok E b" "m_services b n = Some s" "i < length (srv_waiting s)"
  shows "broker_ok E (upd_service n (\<lambda>s. s\<lparr>srv_waiting := erase_at i (srv_waiting s)\<rparr>)
           (b\<lparr>m_waiting := remove1 (srv_waiting s ! i) (m_waiting b)\<rparr>))" (is "broker_ok E ?b")
proof -
  note ok = broker_okD [OF assms(1)]
  have att: "attached ?b m = attached b m" for m
    by (simp add: attached_def upd_service_def)
  show ?thesis
  proof (rule broker_okI)
    show "heap_ok ?b" using ok(1) by (simp add: heap_ok_def upd_service_def)
    show "index_ok ?b" using ok(2) by (simp add: index_ok_def upd_service_def)
    show "attach_ok ?b" using ok(3) by (fastforce simp: attach_ok_def upd_service_def)
    show "service_ok ?b"
      using ok(4) set_erase_at_subset by (fastforce simp: service_ok_def upd_service_def)
    show "waiting_ok ?b"
      unfolding waiting_ok_def
    proof (intro conjI ballI)
      fix x assume "x \<in> set (m_waiting ?b)"
      then have x: "x \<in> set (m_waiting b)" "x \<noteq> srv_waiting s ! i"
        using ok(5) by (auto simp: waiting_ok_def upd_service_def)
      then obtain w m t where "heap b x = Some w" "wrk_service w = Some m"
        "m_services b m = Some t" "x \<in> set (srv_waiting t)"
        using ok(5) by (auto simp: waiting_ok_def)
      then show "\<exists>w m t. heap ?b x = Some w \<and> wrk_service w = Some m
          \<and> m_services ?b m = Some t \<and> x \<in> set (srv_waiting t)"
        using x(2) assms(2,3) by (auto simp: upd_service_def set_erase_at)
    qed (use ok(5) in \<open>auto simp: waiting_ok_def upd_service_def sorted_remove1\<close>)
    show "count_ok E ?b"
      using ok(6) by (simp add: count_ok_def att) (auto simp: upd_service_def)
  qed
qed

text \<open>What \<open>worker_delete\<close> does to the state once the disconnect is sent.\<close>

definition forget_worker :: "addr \<Rightarrow> worker \<Rightarrow> broker \<Rightarrow> broker" where
  "forget_worker a w b =
     (let b = (case wrk_service w of
                 None \<Rightarrow> b
               | Some n \<Rightarrow> upd_service n (\<lambda>s. s\<lparr>srv_waiting := filter (\<lambda>x. x \<noteq> a) (srv_waiting s),
                                               srv_workers := srv_workers s - 1\<rparr>) b)
      in b\<lparr>m_waiting := remove1 a (m_waiting b),
          m_workers := (m_workers b)(wrk_identity w := None), heap := (heap b)(a := None)\<rparr>)"

lemma ok_forget:
  assumes "broker_ok E b" "heap b a = Some w"
  shows "broker_ok E (forget_worker a w b)" (is "broker_ok E ?b")
proof -
  note ok = broker_okD [OF assms(1)]
  have heap: "heap ?b = (heap b)(a := None)"
    and workers: "m_workers ?b = (m_workers b)(wrk_identity w := None)"
    and waiting: "m_waiting ?b = remove1 a (m_waiting b)"
    and "next_addr ?b = next_addr b"
    by (auto simp: forget_worker_def upd_service_def split: option.splits)
  note fields = this
  have other: "filter (\<lambda>x. x \<noteq> a) (srv_waiting t) = srv_waiting t"
    if "m_services b m = Some t" "wrk_service w \<noteq> Some m" for m t
    using that ok(4) assms(2) by (fastforce simp: service_ok_def filter_id_conv)
  have key: "m_workers b (wrk_identity w) = Some a"
    using ok(1) assms(2) by (simp add: heap_ok_def)
  have serv: "\<exists>t. m_services b m = Some t \<and> srv_name s = srv_name t
      \<and> srv_waiting s = filter (\<lambda>x. x \<noteq> a) (srv_waiting t)
      \<and> srv_workers s = (if wrk_service w = Some m then srv_workers t - 1 else srv_workers t)"
    if "m_services ?b m = Some s" for m s
    using that other by (auto simp: forget_worker_def upd_service_def split: option.splits if_splits)
  have serv': "m_services b m = Some t \<Longrightarrow> \<exists>s. m_services ?b m = Some s
      \<and> srv_waiting s = filter (\<lambda>x. x \<noteq> a) (srv_waiting t)" for m t
    using other by (auto simp: forget_worker_def upd_service_def split: option.splits)
  have att: "attached ?b m = attached b m - {a}" for m
    by (auto simp: attached_def fields split: if_splits)
  show ?thesis
  proof (rule broker_okI)
    show "heap_ok ?b"
      unfolding heap_ok_def fields
    proof (intro allI impI)
      fix a' w' assume "((heap b)(a := None)) a' = Some w'"
      then have w': "heap b a' = Some w'" "a' \<noteq> a" by (auto split: if_splits)
      with ok(1) have "m_workers b (wrk_identity w') = Some a'" by (simp add: heap_ok_def)
      with key w'(2) have "wrk_identity w' \<noteq> wrk_identity w" by auto
      with w'(1) ok(1) show "((m_workers b)(wrk_identity w := None)) (wrk_identity w') = Some a'
          \<and> wrk_identity w' \<noteq> [] \<and> nul_free (wrk_identity w') \<and> a' < next_addr b"
        by (auto simp: heap_ok_def)
    qed
    show "index_ok ?b"
      using ok(2) assms(2) by (fastforce simp: index_ok_def fields)
    show "attach_ok ?b"
      using ok(3) serv' by (fastforce simp: attach_ok_def fields)
    show "service_ok ?b"
      using ok(4) by (fastforce simp: service_ok_def fields dest!: serv)
    show "waiting_ok ?b"
      unfolding waiting_ok_def
    proof (intro conjI ballI)
      fix x assume "x \<in> set (m_waiting ?b)"
      then have x: "x \<in> set (m_waiting b)" "x \<noteq> a"
        using ok(5) by (auto simp: waiting_ok_def fields)
      then obtain v m t where "heap b x = Some v" "wrk_service v = Some m"
        "m_services b m = Some t" "x \<in> set (srv_waiting t)"
        using ok(5) by (auto simp: waiting_ok_def)
      then show "\<exists>w m t. heap ?b x = Some w \<and> wrk_service w = Some m
          \<and> m_services ?b m = Some t \<and> x \<in> set (srv_waiting t)"
        using x(2) serv' by (fastforce simp: fields)
    qed (use ok(5) in \<open>auto simp: waiting_ok_def fields sorted_remove1\<close>)
    show "count_ok E ?b"
      unfolding count_ok_def
    proof (intro allI impI)
      fix m s assume "m_services ?b m = Some s"
      then obtain t where t: "m_services b m = Some t"
        "srv_workers s = (if wrk_service w = Some m then srv_workers t - 1 else srv_workers t)"
        using serv by blast
      show "srv_workers s = junk E m + of_nat (card (attached ?b m))"
      proof (cases "wrk_service w = Some m")
        case True
        then have "a \<in> attached b m" using assms(2) by (simp add: attached_def)
        then have "card (attached b m) = Suc (card (attached ?b m))"
          unfolding att by (rule card.remove [OF finite_attached [OF ok(1)]])
        with True t ok(6) show ?thesis by (simp add: count_ok_def)
      next
        case False
        then have "a \<notin> attached b m" using assms(2) by (simp add: attached_def)
        with False t ok(6) show ?thesis by (simp add: count_ok_def att)
      qed
    qed
  qed
qed

end
