(* ===== verification/Broker_Sound.thy ===== *)
theory Broker_Sound
  imports Broker_Inv
begin

section \<open>Every method keeps the broker's invariant\<close>

text \<open>
  One rule per method of \<open>mdbroker.cpp\<close>, in the form \<open>sound Q (method ...)\<close>: from a state that satisfies
  the invariant the method does not use a deleted object, and \<open>Q\<close> holds of the state it returns. The
  rules for purging and dispatching also say what these two do to the lists. The last step is the
  interpretation of \<open>fallible_machine\<close> by the broker's main loop.
\<close>

subsection \<open>Methods: the rules\<close>

abbreviation sound :: "('a \<Rightarrow> bool) \<Rightarrow> fault + 'a \<Rightarrow> bool" where
  "sound \<equiv> wpE (\<lambda>f. f = Dangling)"

lemma zmsg_send_sound: "(\<And>w. Q (w, [])) \<Longrightarrow> sound Q (zmsg_send k m)"
proof -
  assume Q: "\<And>w. Q (w, [])"
  have "sound (\<lambda>_. True) (mapE send_part (drop k m))"
    by (cases "mapE send_part (drop k m)") (auto dest!: mapE_fault dest: send_part_fault)
  with Q show ?thesis by (auto simp: zmsg_send_eq elim!: wpE_mono)
qed

lemma socket_send_sound:
  "(\<And>ws. Q (b\<lparr>sent := sent b @ [ws]\<rparr>)) \<Longrightarrow> sound Q (socket_send E m b)"
  by (simp add: socket_send_def) (rule zmsg_send_sound, simp)

lemma worker_send_sound:
  "heap b a = Some w \<Longrightarrow> (\<And>ws. Q (b\<lparr>sent := sent b @ [ws]\<rparr>)) \<Longrightarrow> sound Q (worker_send E a c opt m b)"
  by (simp add: worker_send_def Let_def socket_send_sound)

lemma worker_delete_quiet:
  assumes "broker_ok E b" "heap b a = Some w"
  shows "worker_delete E a False b = Inr (forget_worker a w b)"
proof -
  have "\<exists>s. m_services b n = Some s" if "wrk_service w = Some n" for n
    using that broker_okD(3) [OF assms(1)] assms(2) by (auto simp: attach_ok_def)
  then show ?thesis
    using assms(2)
    by (cases "wrk_service w") (auto simp: worker_delete_def forget_worker_def Let_def)
qed

lemma worker_delete_disconnect:
  assumes "heap b a = Some w"
  shows "worker_delete E a True b
    = bindE (worker_send E a MDPW_DISCONNECT [] None b) (worker_delete E a False)"
  by (simp add: worker_delete_def [abs_def])

lemma worker_delete_sound:
  assumes "broker_ok E b" "heap b a = Some w"
    and "\<And>x. broker_ok E (forget_worker a w (b\<lparr>sent := x\<rparr>)) \<Longrightarrow> Q (forget_worker a w (b\<lparr>sent := x\<rparr>))"
  shows "sound Q (worker_delete E a d b)"
proof -
  have quiet: "sound Q (worker_delete E a False (b\<lparr>sent := x\<rparr>))" for x
  proof -
    have "broker_ok E (b\<lparr>sent := x\<rparr>)" "heap (b\<lparr>sent := x\<rparr>) a = Some w"
      using assms(1,2) by simp_all
    then show ?thesis
      using assms(3) [of x] by (simp add: worker_delete_quiet ok_forget)
  qed
  show ?thesis
  proof (cases d)
    case True
    then show ?thesis
      using assms(2) quiet
      by (simp add: worker_delete_disconnect) (rule worker_send_sound, simp_all)
  next
    case False
    have "b = b\<lparr>sent := sent b\<rparr>" by simp
    with quiet [of "sent b"] False show ?thesis by simp
  qed
qed

subsection \<open>Purging\<close>

text \<open>\<open>c\<close> is \<open>b\<close> without the workers in \<open>D\<close>: their objects, their places in every list.\<close>

definition pruned :: "addr set \<Rightarrow> service \<Rightarrow> service \<Rightarrow> bool" where
  "pruned D s t \<longleftrightarrow> srv_name t = srv_name s \<and> srv_requests t = srv_requests s
     \<and> srv_waiting t = filter (\<lambda>a. a \<notin> D) (srv_waiting s)"

definition purged :: "addr set \<Rightarrow> broker \<Rightarrow> broker \<Rightarrow> bool" where
  "purged D b c \<longleftrightarrow> heap c = (heap b) |` (- D) \<and> m_waiting c = filter (\<lambda>a. a \<notin> D) (m_waiting b)
     \<and> next_addr c = next_addr b \<and> sent c = sent b \<and> ticks c = ticks b
     \<and> (\<forall>n. (m_services b n = None \<and> m_services c n = None)
          \<or> (\<exists>s t. m_services b n = Some s \<and> m_services c n = Some t \<and> pruned D s t))"

lemma pruned_empty [simp]: "pruned {} s s"
  by (simp add: pruned_def)

lemma pruned_trans: "pruned D s t \<Longrightarrow> pruned D' t u \<Longrightarrow> pruned (D' \<union> D) s u"
  by (auto simp: pruned_def intro: filter_cong)

lemma purged_services:
  "purged D b c \<Longrightarrow> (m_services b n = None \<and> m_services c n = None)
     \<or> (\<exists>s t. m_services b n = Some s \<and> m_services c n = Some t \<and> pruned D s t)"
  by (simp add: purged_def)

lemma purged_empty: "purged {} b b"
  by (auto simp: purged_def)

lemma purged_trans:
  assumes "purged D b c" "purged D' c d"
  shows "purged (D' \<union> D) b d"
proof -
  have "(m_services b n = None \<and> m_services d n = None)
      \<or> (\<exists>s t. m_services b n = Some s \<and> m_services d n = Some t \<and> pruned (D' \<union> D) s t)" for n
    using purged_services [OF assms(1), of n] purged_services [OF assms(2), of n]
    by (auto intro: pruned_trans)
  then show ?thesis
    using assms by (auto simp: purged_def restrict_map_def fun_eq_iff intro: filter_cong)
qed

lemma forget_purged:
  assumes "broker_ok E b" "heap b a = Some w"
  shows "purged {a} b (forget_worker a w b)"
proof -
  note ok = broker_okD [OF assms(1)]
  have other: "filter (\<lambda>x. x \<noteq> a) (srv_waiting t) = srv_waiting t"
    if "m_services b m = Some t" "wrk_service w \<noteq> Some m" for m t
    using that ok(4) assms(2) by (fastforce simp: service_ok_def filter_id_conv)
  have "(m_services b n = None \<and> m_services (forget_worker a w b) n = None)
      \<or> (\<exists>s t. m_services b n = Some s \<and> m_services (forget_worker a w b) n = Some t
           \<and> pruned {a} s t)" for n
    using other [of n]
    by (cases "m_services b n"; cases "wrk_service w")
      (auto simp: forget_worker_def upd_service_def pruned_def Let_def)
  moreover have "remove1 a (m_waiting b) = filter (\<lambda>x. x \<noteq> a) (m_waiting b)"
    using ok(5) by (simp add: waiting_ok_def distinct_remove1_removeAll removeAll_filter_not_eq)
      (metis (no_types))
  ultimately show ?thesis
    by (auto simp: purged_def forget_worker_def upd_service_def restrict_map_def fun_eq_iff
        split: option.splits)
qed

lemma purge_list_sound:
  assumes "broker_ok E b" "distinct as" "set as \<subseteq> dom (heap b)"
  shows "wpE bad (\<lambda>c. broker_ok E c \<and> purged (set as) b c) (forE (\<lambda>a. worker_delete E a False) as b)"
  using assms
proof (induction as arbitrary: b)
  case Nil
  then show ?case by (simp add: purged_empty)
next
  case (Cons a as)
  then obtain w where w: "heap b a = Some w" by auto
  have del: "wpE bad (\<lambda>c. broker_ok E c \<and> purged {a} b c) (worker_delete E a False b)"
    using Cons.prems(1) w by (simp add: worker_delete_quiet ok_forget forget_purged)
  show ?case
    unfolding forE.simps wpE_bindE
  proof (rule wpE_mono [OF del])
    fix c assume "broker_ok E c \<and> purged {a} b c"
    then have c: "broker_ok E c" "purged {a} b c" by simp_all
    moreover have "set as \<subseteq> dom (heap c)"
      using Cons.prems c(2) by (auto simp: purged_def restrict_map_def)
    ultimately have "wpE bad (\<lambda>d. broker_ok E d \<and> purged (set as) c d) (forE (\<lambda>a. worker_delete E a False) as c)"
      using Cons.prems by (intro Cons.IH) simp_all
    then show "wpE bad (\<lambda>d. broker_ok E d \<and> purged (set (a # as)) b d) (forE (\<lambda>a. worker_delete E a False) as c)"
      by (rule wpE_mono) (use c(2) purged_trans in fastforce)
  qed
qed

text \<open>The expired idle workers at clock reading \<open>t\<close>.\<close>

definition stale :: "broker \<Rightarrow> int \<Rightarrow> addr set" where
  "stale b t = {a \<in> set (m_waiting b). \<exists>w. heap b a = Some w \<and> wrk_expiry w \<le> t}"

lemma read_clock_eq: "read_clock E b = (t, c) \<longleftrightarrow> t = s_clock (clock E (ticks b)) \<and> c = b\<lparr>ticks := Suc (ticks b)\<rparr>"
  by (auto simp: read_clock_def)

lemma waiting_live:
  "broker_ok E b \<Longrightarrow> a \<in> set (m_waiting b) \<Longrightarrow> \<exists>w. heap b a = Some w"
  by (fastforce dest: broker_okD(5) simp: waiting_ok_def)

lemma purge_sound:
  assumes "broker_ok E b"
  shows "wpE bad (\<lambda>c. broker_ok E c \<and>
           purged (stale b (s_clock (clock E (ticks b)))) (b\<lparr>ticks := Suc (ticks b)\<rparr>) c)
         (purge_workers E b)"
proof -
  let ?b = "b\<lparr>ticks := Suc (ticks b)\<rparr>" and ?t = "s_clock (clock E (ticks b))"
  let ?e = "\<lambda>a. wrk_expiry (the (heap b a)) \<le> ?t"
  have ok: "broker_ok E ?b" using assms by simp
  have "mapE (expired ?b ?t) (m_waiting b) = Inr (map ?e (m_waiting b))"
    by (rule mapE_Inr_map) (auto simp: expired_def fetchE_def dest!: waiting_live [OF assms])
  moreover have "map fst (filter snd (zip xs (map ?e xs))) = filter ?e xs" for xs
    by (induction xs) auto
  moreover have "set (filter ?e (m_waiting b)) = stale b ?t"
    using waiting_live [OF assms] by (fastforce simp: stale_def)
  moreover have "wpE bad (\<lambda>c. broker_ok E c \<and> purged (set (filter ?e (m_waiting b))) ?b c)
      (forE (\<lambda>a. worker_delete E a False) (filter ?e (m_waiting b)) ?b)"
    using assms by (intro purge_list_sound [OF ok])
      (auto simp: waiting_ok_def dest: broker_okD(5) waiting_live)
  ultimately show ?thesis
    by (simp add: purge_workers_def read_clock_def)
qed

lemma purged_busy:
  assumes "purged D b c"
  shows "busy_except n b \<Longrightarrow> busy_except n c" "work_conserving b \<Longrightarrow> work_conserving c"
proof -
  have "\<exists>s. m_services b m = Some s \<and> pruned D s t" if "m_services c m = Some t" for m t
    using purged_services [OF assms, of m] that by auto
  then show "busy_except n b \<Longrightarrow> busy_except n c" "work_conserving b \<Longrightarrow> work_conserving c"
    unfolding busy_except_def work_conserving_def pruned_def by (metis filter.simps(1))+
qed

subsection \<open>Dispatching\<close>

lemma pick_worker_best:
  assumes "fst best < i" "snd best = xs ! fst best" "drop i xs = es"
    and "\<forall>j < i. xs ! j \<le> snd best" "\<forall>j < fst best. xs ! j < snd best" "i \<le> length xs"
  shows "pick_worker best i es < length xs \<and> (\<forall>j < length xs. xs ! j \<le> xs ! pick_worker best i es)
      \<and> (\<forall>j < pick_worker best i es. xs ! j < xs ! pick_worker best i es)"
  using assms
proof (induction best i es rule: pick_worker.induct)
  case (1 best i)
  then show ?case by auto
next
  case (2 best i e es)
  let ?best = "if e > snd best then (i, e) else best"
  have i: "i < length xs"
    using "2.prems"(3) by (metis drop_all list.distinct(1) not_le_imp_less)
  with "2.prems"(3) have e: "xs ! i = e" and tl: "drop (Suc i) xs = es"
    by (simp_all add: Cons_nth_drop_Suc [symmetric])
  have "pick_worker ?best (Suc i) es < length xs
      \<and> (\<forall>j < length xs. xs ! j \<le> xs ! pick_worker ?best (Suc i) es)
      \<and> (\<forall>j < pick_worker ?best (Suc i) es. xs ! j < xs ! pick_worker ?best (Suc i) es)"
    using "2.prems" i e tl by (intro "2.IH") (auto simp: less_Suc_eq order.strict_implies_order dest: order.strict_trans1)
  then show ?case by simp
qed

lemma choose_worker_max:
  assumes "es \<noteq> []"
  shows "choose_worker es < length es" "j < length es \<Longrightarrow> es ! j \<le> es ! choose_worker es"
    "j < choose_worker es \<Longrightarrow> es ! j < es ! choose_worker es"
proof -
  obtain e es' where es: "es = e # es'" using assms by (cases es) auto
  have "pick_worker (0, e) 1 es' < length es \<and> (\<forall>j < length es. es ! j \<le> es ! pick_worker (0, e) 1 es')
      \<and> (\<forall>j < pick_worker (0, e) 1 es'. es ! j < es ! pick_worker (0, e) 1 es')"
    by (rule pick_worker_best) (auto simp: es)
  then show "choose_worker es < length es" "j < length es \<Longrightarrow> es ! j \<le> es ! choose_worker es"
    "j < choose_worker es \<Longrightarrow> es ! j < es ! choose_worker es"
    by (simp_all add: choose_worker_def es)
qed

definition worker_frames :: "worker \<Rightarrow> bytes \<Rightarrow> zmsg \<Rightarrow> zmsg" where
  "worker_frames w command m = [c_str (wrk_identity w), [], MDPW_WORKER, c_str command] @ m"

lemma worker_send_eq:
  "heap b a = Some w \<Longrightarrow> worker_send E a c [] (Some m) b = socket_send E (worker_frames w c m) b"
  "heap b a = Some w \<Longrightarrow> worker_send E a c [] None b = socket_send E (worker_frames w c []) b"
  by (simp_all add: worker_send_def zmsg_defs zmsg_copy_def worker_frames_def c_str_Cons)

text \<open>The state after one request went to the worker at position \<open>i\<close> of its service's list.\<close>

definition hand_out :: "bytes \<Rightarrow> service \<Rightarrow> nat \<Rightarrow> wire \<Rightarrow> broker \<Rightarrow> broker" where
  "hand_out n s i ws b = b\<lparr>sent := sent b @ [ws], m_waiting := remove1 (srv_waiting s ! i) (m_waiting b),
     m_services := (m_services b)(n \<mapsto>
       s\<lparr>srv_requests := tl (srv_requests s), srv_waiting := erase_at i (srv_waiting s)\<rparr>)\<rparr>"

lemma hand_out_ok:
  assumes "broker_ok E b" "m_services b n = Some s" "i < length (srv_waiting s)"
  shows "broker_ok E (hand_out n s i ws b)"
proof -
  let ?r = "upd_service n (\<lambda>s. s\<lparr>srv_requests := tl (srv_requests s)\<rparr>) (b\<lparr>sent := sent b @ [ws]\<rparr>)"
  have r: "broker_ok E ?r" using assms(1) by (intro ok_upd_requests) simp_all
  have s: "m_services ?r n = Some (s\<lparr>srv_requests := tl (srv_requests s)\<rparr>)"
    using assms(2) by (simp add: upd_service_def)
  have "hand_out n s i ws b
      = upd_service n (\<lambda>s. s\<lparr>srv_waiting := erase_at i (srv_waiting s)\<rparr>)
          (?r\<lparr>m_waiting := remove1 (srv_waiting s ! i) (m_waiting ?r)\<rparr>)"
    using assms(2) by (simp add: hand_out_def upd_service_def)
  moreover have "broker_ok E \<dots>"
    using ok_dequeue [OF r s] assms(3) by simp
  ultimately show ?thesis by simp
qed

lemma waiting_service_live:
  "broker_ok E b \<Longrightarrow> m_services b n = Some s \<Longrightarrow> a \<in> set (srv_waiting s) \<Longrightarrow>
   \<exists>w. heap b a = Some w \<and> wrk_service w = Some n"
  by (fastforce dest: broker_okD(4) simp: service_ok_def)

abbreviation expiry :: "broker \<Rightarrow> addr \<Rightarrow> int" where
  "expiry b a \<equiv> wrk_expiry (the (heap b a))"

abbreviation chosen :: "broker \<Rightarrow> service \<Rightarrow> nat" where
  "chosen b s \<equiv> choose_worker (map (expiry b) (srv_waiting s))"

lemma dispatch_turn_eq:
  assumes "broker_ok E b" "m_services b n = Some s"
  shows "dispatch_turn E n b =
    (if srv_waiting s = [] \<or> srv_requests s = [] then Inr None
     else bindE (zmsg_send (first_part E)
            (worker_frames (the (heap b (srv_waiting s ! chosen b s))) MDPW_REQUEST (hd (srv_requests s))))
          (\<lambda>(ws, _). Inr (Some (hand_out n s (chosen b s) ws b))))"
proof (cases "srv_waiting s = [] \<or> srv_requests s = []")
  case True
  then show ?thesis using assms(2) by (simp add: dispatch_turn_def)
next
  case False
  have es: "mapE (expiry_of b) (srv_waiting s) = Inr (map (expiry b) (srv_waiting s))"
    by (rule mapE_Inr_map) (auto simp: expiry_of_def dest!: waiting_service_live [OF assms])
  have "chosen b s < length (srv_waiting s)"
    using False choose_worker_max(1) [of "map (expiry b) (srv_waiting s)"] by simp
  then obtain w where w: "heap b (srv_waiting s ! chosen b s) = Some w"
    using waiting_service_live [OF assms, of "srv_waiting s ! chosen b s"] by auto
  then have "worker_send E (srv_waiting s ! chosen b s) MDPW_REQUEST [] (Some (hd (srv_requests s)))
        (upd_service n (\<lambda>s. s\<lparr>srv_requests := tl (srv_requests s)\<rparr>) b)
      = socket_send E (worker_frames w MDPW_REQUEST (hd (srv_requests s)))
        (upd_service n (\<lambda>s. s\<lparr>srv_requests := tl (srv_requests s)\<rparr>) b)"
    by (intro worker_send_eq) (simp add: upd_service_def)
  with False es w assms(2) show ?thesis
    by (auto simp: dispatch_turn_def Let_def socket_send_def bindE_assoc upd_service_def hand_out_def
        intro!: bindE_cong)
qed

lemma dispatch_turn_sound:
  assumes "broker_ok E b" "m_services b n = Some s"
  shows "sound (\<lambda>r. case r of None \<Rightarrow> srv_waiting s = [] \<or> srv_requests s = []
      | Some c \<Rightarrow> broker_ok E c \<and> (\<exists>ws. c = hand_out n s (chosen b s) ws b)) (dispatch_turn E n b)"
  using assms choose_worker_max(1) [of "map (expiry b) (srv_waiting s)"]
  by (auto simp: dispatch_turn_eq intro!: zmsg_send_sound hand_out_ok)

lemma dispatch_loop_sound:
  assumes "broker_ok E b" "busy_except n b" "m_services b n = Some s"
  shows "sound (\<lambda>c. broker_ok E c \<and> work_conserving c) (dispatch_loop E n b)"
  using assms
proof (induction E n b arbitrary: s rule: dispatch_loop.induct)
  case (1 E n b)
  show ?case
    unfolding dispatch_loop.simps [of E n b] wpE_bindE
  proof (rule wpE_mono [OF dispatch_turn_sound [OF "1.prems"(1,3)]])
    fix r
    assume r: "dispatch_turn E n b = Inr r" and
      post: "case r of None \<Rightarrow> srv_waiting s = [] \<or> srv_requests s = []
        | Some c \<Rightarrow> broker_ok E c \<and> (\<exists>ws. c = hand_out n s (chosen b s) ws b)"
    show "sound (\<lambda>c. broker_ok E c \<and> work_conserving c)
        (case r of None \<Rightarrow> Inr b | Some b' \<Rightarrow> dispatch_loop E n b')"
    proof (cases r)
      case None
      with post "1.prems" show ?thesis by (auto intro: busy_work_conserving)
    next
      case (Some c)
      with post obtain ws where c: "broker_ok E c" "c = hand_out n s (chosen b s) ws b" by auto
      have "busy_except n c" "\<exists>t. m_services c n = Some t"
        using "1.prems"(2) c(2) by (auto simp: hand_out_def busy_except_def)
      with "1.IH" [OF r] Some c(1) show ?thesis by auto
    qed
  qed
qed

subsection \<open>The remaining methods keep the invariant\<close>

definition broker_inv :: "env \<Rightarrow> broker \<Rightarrow> bool" where
  "broker_inv E b \<longleftrightarrow> broker_ok E b \<and> work_conserving b"

lemma broker_inv_frames [simp, broker_frames]:
  "broker_inv E (b\<lparr>sent := x\<rparr>) = broker_inv E b"
  "broker_inv E (b\<lparr>ticks := t\<rparr>) = broker_inv E b"
  by (simp_all add: broker_inv_def)

lemma attached_service:
  "broker_ok E b \<Longrightarrow> heap b a = Some w \<Longrightarrow> wrk_service w = Some n \<Longrightarrow> \<exists>s. m_services b n = Some s"
  by (drule broker_okD(3)) (simp add: attach_ok_def)

lemma upd_service_Some: "m_services b n = Some s \<Longrightarrow> m_services (upd_service n g b) n = Some (g s)"
  by (simp add: upd_service_def)

lemma busy_upd_service: "busy_except n b \<Longrightarrow> busy_except n (upd_service n g b)"
  by (simp add: busy_except_def upd_service_def)

lemma purge_inv_sound: "broker_inv E b \<Longrightarrow> sound (broker_inv E) (purge_workers E b)"
  by (rule wpE_mono [OF purge_sound]) (auto simp: broker_inv_def intro: purged_busy)

lemma service_dispatch_sound:
  assumes "broker_ok E b" "busy_except n b" "m_services b n = Some s"
  shows "sound (broker_inv E) (service_dispatch E n m b)"
proof -
  define c where "c = (case m of None \<Rightarrow> b
      | Some m \<Rightarrow> upd_service n (\<lambda>s. s\<lparr>srv_requests := srv_requests s @ [m]\<rparr>) b)"
  have c: "broker_ok E c" "busy_except n c" "\<exists>s. m_services c n = Some s"
    using assms by (auto simp: c_def upd_service_Some intro: ok_upd_requests busy_upd_service
        split: option.split)
  have "sound (broker_inv E) (bindE (purge_workers E c) (dispatch_loop E n))"
    unfolding wpE_bindE
  proof (rule wpE_mono [OF purge_sound [OF c(1)]])
    fix d assume "broker_ok E d \<and> purged (stale c (s_clock (clock E (ticks c))))
        (c\<lparr>ticks := Suc (ticks c)\<rparr>) d"
    then have d: "broker_ok E d" and
      p: "purged (stale c (s_clock (clock E (ticks c)))) (c\<lparr>ticks := Suc (ticks c)\<rparr>) d" by simp_all
    have "busy_except n d" using purged_busy(1) [OF p] c(2) by simp
    moreover obtain t where "m_services d n = Some t"
      using purged_services [OF p, of n] c(3) by auto
    ultimately show "sound (broker_inv E) (dispatch_loop E n d)"
      unfolding broker_inv_def using d by (intro dispatch_loop_sound)
  qed
  then show ?thesis by (simp add: service_dispatch_def c_def)
qed

lemma service_dispatch_inv:
  "broker_inv E b \<Longrightarrow> m_services b n = Some s \<Longrightarrow> sound (broker_inv E) (service_dispatch E n m b)"
  by (rule service_dispatch_sound) (auto simp: broker_inv_def intro: work_conserving_busy)

lemma worker_waiting_sound:
  assumes "broker_inv E b" "heap b a = Some w"
  shows "sound (broker_inv E) (worker_waiting E a b)"
proof (cases "wrk_service w")
  case None
  then show ?thesis using assms(2) by (simp add: worker_waiting_def Let_def)
next
  case (Some n)
  have ok: "broker_ok E b" and wc: "work_conserving b" using assms(1) by (simp_all add: broker_inv_def)
  obtain s where s: "m_services b n = Some s"
    using attached_service [OF ok assms(2) Some] by blast
  define c where "c = upd_service n (\<lambda>s. s\<lparr>srv_waiting := srv_waiting s @ [a]\<rparr>)
      (b\<lparr>m_waiting := set_insert a (m_waiting b)\<rparr>)"
  define d where "d = upd_worker a (\<lambda>w. w\<lparr>wrk_expiry := s_clock (clock E (ticks c)) + HEARTBEAT_EXPIRY\<rparr>)
      (c\<lparr>ticks := Suc (ticks c)\<rparr>)"
  have c: "broker_ok E c" unfolding c_def using ok assms(2) Some s by (rule ok_enqueue)
  then have "broker_ok E d" unfolding d_def by (intro ok_upd_expiry) simp_all
  moreover have "busy_except n d" "m_services d n = Some (s\<lparr>srv_waiting := srv_waiting s @ [a]\<rparr>)"
    using wc s by (auto simp: d_def c_def upd_worker_def upd_service_def busy_except_def
        work_conserving_def)
  ultimately have "sound (broker_inv E) (service_dispatch E n None d)"
    by (rule service_dispatch_sound)
  then show ?thesis
    using assms(2) Some s by (simp add: worker_waiting_def Let_def read_clock_def c_def d_def)
qed

lemma worker_require_sound:
  assumes "broker_inv E b" "nul_free i"
  shows "sound (\<lambda>(a, c). broker_inv E c \<and> (\<exists>w. heap c a = Some w \<and> wrk_identity w = i
      \<and> (m_workers b i = None \<longrightarrow> wrk_service w = None))) (worker_require i b)"
proof (cases "i = []")
  case True
  then show ?thesis by (simp add: worker_require_def)
next
  case False
  have ok: "broker_ok E b" using assms(1) by (simp add: broker_inv_def)
  show ?thesis
  proof (cases "m_workers b i")
    case None
    from ok_new_worker [OF ok False assms(2) None] assms(1) show ?thesis
      using False None
      by (simp add: worker_require_def Let_def broker_inv_def new_worker_def work_conserving_def)
  next
    case (Some a)
    then show ?thesis
      using False assms(1) broker_okD(2) [OF ok] by (auto simp: worker_require_def index_ok_def)
  qed
qed

lemma service_require_sound:
  assumes "broker_inv E b"
  shows "sound (\<lambda>(n, c). broker_inv E c \<and> n = name \<and> heap c = heap b \<and> m_workers c = m_workers b
      \<and> (\<exists>s. m_services c name = Some s)) (service_require E name b)"
proof (cases "m_services b name")
  case None
  have "broker_ok E b" using assms by (simp add: broker_inv_def)
  from ok_new_service [OF this None] assms None show ?thesis
    by (auto simp: service_require_def broker_inv_def work_conserving_def new_service_def)
next
  case (Some s)
  then show ?thesis using assms by (simp add: service_require_def)
qed

lemma body_of_Some: "body_of m = Some x \<longleftrightarrow> m \<noteq> [] \<and> x = c_str (last m)"
  by (auto simp: body_of_def last_conv_nth)

lemma unwrap_sound: "sound (\<lambda>_. True) (unwrap m)"
  by (cases m; cases "tl m") (auto simp: unwrap_def Let_def address_of_def)

lemma service_internal_sound:
  assumes "broker_inv E b"
  shows "sound (broker_inv E) (service_internal E n m b)"
proof -
  have "sound (broker_inv E) (bindE (unwrap x) (\<lambda>(client, msg).
       socket_send E (wrap client (Some []) (wrap MDPC_CLIENT (Some n) msg)) b))" for x
    unfolding wpE_bindE using unwrap_sound [of x]
    by (rule wpE_mono) (auto intro!: socket_send_sound simp: assms)
  then show ?thesis
    by (auto simp: service_internal_def split: option.splits)
qed

lemma client_process_sound:
  assumes "broker_inv E b"
  shows "sound (broker_inv E) (client_process E sender m b)"
proof (cases m)
  case Nil
  then show ?thesis by (simp add: client_process_def parts_def)
next
  case (Cons part rest)
  have "sound (broker_inv E) (bindE (service_require E (c_str part) b) (\<lambda>(srv, b).
      if reserved_name (c_str part) then service_internal E (c_str part) (wrap sender (Some []) rest) b
      else service_dispatch E srv (Some (wrap sender (Some []) rest)) b))"
    unfolding wpE_bindE using service_require_sound [OF assms]
    by (rule wpE_mono) (auto intro!: service_internal_sound intro: service_dispatch_inv)
  then show ?thesis
    using Cons by (simp add: client_process_def parts_def Let_def)
qed

lemma work_conserving_upd:
  "work_conserving b \<Longrightarrow> (\<And>s. srv_waiting (g s) = srv_waiting s) \<Longrightarrow>
   (\<And>s. srv_requests (g s) = srv_requests s) \<Longrightarrow> work_conserving (upd_service n g b)"
  "work_conserving b \<Longrightarrow> work_conserving (upd_worker a h b)"
  by (fastforce simp: work_conserving_def upd_service_def upd_worker_def)+

lemma worker_delete_inv:
  assumes "broker_inv E b" "heap b a = Some w"
  shows "sound (broker_inv E) (worker_delete E a d b)"
proof -
  have ok: "broker_ok E b" "work_conserving b" using assms(1) by (simp_all add: broker_inv_def)
  have "work_conserving (forget_worker a w (b\<lparr>sent := x\<rparr>))" for x
    using forget_purged [of E "b\<lparr>sent := x\<rparr>" a w] ok assms(2) by (auto intro: purged_busy)
  with worker_delete_sound [OF ok(1) assms(2)] show ?thesis by (simp add: broker_inv_def)
qed

lemma upd_worker_inv:
  "broker_inv E b \<Longrightarrow> (\<And>w. wrk_identity (g w) = wrk_identity w) \<Longrightarrow>
   (\<And>w. wrk_service (g w) = wrk_service w) \<Longrightarrow> broker_inv E (upd_worker a g b)"
  by (simp add: broker_inv_def ok_upd_expiry) (simp add: work_conserving_def upd_worker_def)

text \<open>The first command of a session attaches the new worker.\<close>

lemma ready_sound:
  assumes "broker_inv E b" "heap b a = Some w" "wrk_service w = None"
  shows "sound (broker_inv E) (bindE (service_require E name b) (\<lambda>(name, b).
            let b = upd_worker a (\<lambda>w. w\<lparr>wrk_service := Some name\<rparr>) b;
                b = upd_service name (\<lambda>s. s\<lparr>srv_workers := srv_workers s + 1\<rparr>) b
            in worker_waiting E a b))"
  unfolding wpE_bindE
proof (rule wpE_mono [OF service_require_sound [OF assms(1)]], clarsimp simp: Let_def)
  fix c s assume c: "broker_inv E c" "heap c = heap b" "m_services c name = Some s"
  let ?d = "upd_service name (\<lambda>s. s\<lparr>srv_workers := srv_workers s + 1\<rparr>)
      (upd_worker a (\<lambda>w. w\<lparr>wrk_service := Some name\<rparr>) c)"
  have "broker_ok E ?d"
    using c assms(2,3) by (intro ok_attach) (simp_all add: broker_inv_def)
  moreover have "work_conserving ?d"
    using c(1) by (intro work_conserving_upd) (simp_all add: broker_inv_def)
  ultimately have "broker_inv E ?d" by (simp add: broker_inv_def)
  moreover have "heap ?d a = Some (w\<lparr>wrk_service := Some name\<rparr>)"
    using c(2) assms(2) by (simp add: upd_service_def upd_worker_def)
  ultimately show "sound (broker_inv E) (worker_waiting E a ?d)"
    by (rule worker_waiting_sound)
qed

lemma reply_sound:
  assumes "broker_inv E b" "heap b a = Some w"
  shows "sound (broker_inv E) (bindE (unwrap msg) (\<lambda>(client, msg).
          bindE (fetchE Dangling (heap b a)) (\<lambda>w.
          bindE (fetchE NullDeref (wrk_service w)) (\<lambda>name.
          bindE (fetchE Dangling (m_services b name)) (\<lambda>s.
          bindE (socket_send E (wrap client (Some []) (wrap MDPC_CLIENT (Some (srv_name s)) msg)) b)
            (worker_waiting E a))))))"
proof -
  have "sound (broker_inv E) (worker_waiting E a (b\<lparr>sent := x\<rparr>))" for x
    using assms by (intro worker_waiting_sound) simp_all
  moreover have "\<exists>s. m_services b n = Some s" if "wrk_service w = Some n" for n
    using attached_service [OF _ assms(2) that] assms(1) by (auto simp: broker_inv_def)
  ultimately show ?thesis
    using assms(2) unwrap_sound [of msg]
    by (auto intro!: socket_send_sound elim!: wpE_mono split: option.split)
qed

text \<open>What is left of \<open>worker_process\<close> once the worker object is at hand.\<close>

definition worker_command :: "env \<Rightarrow> bool \<Rightarrow> bytes \<Rightarrow> bytes \<Rightarrow> zmsg \<Rightarrow> addr \<Rightarrow> broker \<Rightarrow> fault + broker"
where
  "worker_command E worker_ready sender command msg wrk b =
    (if command = MDPW_READY then
       (if worker_ready then worker_delete E wrk True b
        else if reserved_name sender then worker_delete E wrk True b
        else
          bindE (pop_front msg) (\<lambda>(part, msg).
          bindE (service_require E (c_str part) b) (\<lambda>(name, b).
            let b = upd_worker wrk (\<lambda>w. w\<lparr>wrk_service := Some name\<rparr>) b;
                b = upd_service name (\<lambda>s. s\<lparr>srv_workers := srv_workers s + 1\<rparr>) b
            in worker_waiting E wrk b)))
     else if command = MDPW_REPLY then
       (if worker_ready then
          bindE (unwrap msg) (\<lambda>(client, msg).
          bindE (fetchE Dangling (heap b wrk)) (\<lambda>w.
          bindE (fetchE NullDeref (wrk_service w)) (\<lambda>name.
          bindE (fetchE Dangling (m_services b name)) (\<lambda>s.
          bindE (socket_send E (wrap client (Some []) (wrap MDPC_CLIENT (Some (srv_name s)) msg)) b)
            (worker_waiting E wrk)))))
        else worker_delete E wrk True b)
     else if command = MDPW_HEARTBEAT then
       (if worker_ready then
          bindE (fetchE Dangling (heap b wrk)) (\<lambda>_.
            let (now, b) = read_clock E b
            in Inr (upd_worker wrk (\<lambda>w. w\<lparr>wrk_expiry := now + HEARTBEAT_EXPIRY\<rparr>) b))
        else worker_delete E wrk True b)
     else if command = MDPW_DISCONNECT then worker_delete E wrk False b
     else Inr b)"

lemma worker_process_Cons:
  "worker_process E sender (part # msg) b = bindE (worker_require sender b)
     (\<lambda>(wrk, c). worker_command E (m_workers b sender \<noteq> None) sender (c_str part) msg wrk c)"
  by (simp add: worker_process_def worker_command_def parts_def Let_def cong: if_cong)

lemma worker_command_sound:
  assumes "broker_inv E b" "heap b a = Some w" "\<not> ready \<Longrightarrow> wrk_service w = None"
  shows "sound (broker_inv E) (worker_command E ready sender command msg a b)"
proof -
  have del: "sound (broker_inv E) (worker_delete E a d b)" for d
    using assms(1,2) by (rule worker_delete_inv)
  have hb: "sound (broker_inv E) (bindE (fetchE Dangling (heap b a)) (\<lambda>_.
      let (now, b) = read_clock E b
      in Inr (upd_worker a (\<lambda>w. w\<lparr>wrk_expiry := now + HEARTBEAT_EXPIRY\<rparr>) b)))"
    using assms(1,2) by (simp add: read_clock_def upd_worker_inv)
  have ready: "sound (broker_inv E) (bindE (pop_front msg) (\<lambda>(part, msg).
          bindE (service_require E (c_str part) b) (\<lambda>(name, b).
            let b = upd_worker a (\<lambda>w. w\<lparr>wrk_service := Some name\<rparr>) b;
                b = upd_service name (\<lambda>s. s\<lparr>srv_workers := srv_workers s + 1\<rparr>) b
            in worker_waiting E a b)))" if "\<not> ready"
    using ready_sound [OF assms(1,2) assms(3) [OF that]] by (cases msg) simp_all
  note reply = reply_sound [OF assms(1,2), of msg]
  show ?thesis
    unfolding worker_command_def
    using del hb ready reply assms(1) by (simp only: wpE_results split: if_split) blast
qed

lemma worker_process_sound:
  assumes "broker_inv E b" "nul_free sender"
  shows "sound (broker_inv E) (worker_process E sender m b)"
proof (cases m)
  case Nil
  then show ?thesis by (simp add: worker_process_def parts_def)
next
  case (Cons part rest)
  then show ?thesis
    using worker_require_sound [OF assms]
    by (auto simp: worker_process_Cons elim!: wpE_mono intro: worker_command_sound)
qed

lemma broker_message_sound:
  assumes "broker_inv E b"
  shows "sound (broker_inv E) (broker_message E r b)"
proof -
  obtain ok msg where "zmsg_recv r zmsg_new = Inr (ok, msg)"
    using recv_loop_Inr [of r "clear zmsg_new"] by (auto simp: zmsg_recv_def)
  moreover have "sound (broker_inv E) (bindE (pop_front msg) (\<lambda>(sender, msg).
     bindE (pop_front msg) (\<lambda>(_, msg). bindE (pop_front msg) (\<lambda>(header, msg).
     if c_str header = MDPC_CLIENT then client_process E (c_str sender) msg b
     else if c_str header = MDPW_WORKER then worker_process E (c_str sender) msg b else Inr b))))"
    using assms by (cases msg; cases "tl msg"; cases "tl (tl msg)")
      (auto intro: client_process_sound worker_process_sound)
  ultimately show ?thesis by (simp add: broker_message_def)
qed

lemma send_heartbeats_sound:
  assumes "broker_inv E b"
  shows "sound (broker_inv E) (send_heartbeats E b)"
proof -
  have live: "\<exists>w. heap b a = Some w" if "a \<in> set (m_waiting b)" for a
    using that waiting_live assms by (auto simp: broker_inv_def)
  have "sound (\<lambda>c. \<exists>x. c = b\<lparr>sent := x\<rparr>) (send_heartbeats E b)"
    unfolding send_heartbeats_def
  proof (rule wpE_forE)
    show "\<exists>x. b = b\<lparr>sent := x\<rparr>" by (rule exI [of _ "sent b"]) simp
    fix a c assume "a \<in> set (m_waiting b)" "\<exists>x. c = b\<lparr>sent := x\<rparr>"
    with live obtain w x where "heap b a = Some w" "c = b\<lparr>sent := x\<rparr>" by blast
    then show "sound (\<lambda>c. \<exists>x. c = b\<lparr>sent := x\<rparr>) (worker_send E a MDPW_HEARTBEAT [] None c)"
      by (auto intro!: worker_send_sound [of _ _ w])
  qed
  then show ?thesis by (rule wpE_mono) (use assms in auto)
qed

lemma broker_turn_sound:
  assumes "broker_inv E (brk s)"
  shows "sound (\<lambda>t. broker_inv E (brk t)) (broker_turn E input s)"
proof -
  have after: "sound (\<lambda>t. broker_inv E (brk t)) (let (t, b) = read_clock E b in
       if t \<ge> heartbeat_at s then
         bindE (purge_workers E b) (\<lambda>b.
         bindE (send_heartbeats E b) (\<lambda>b.
           let (t', b) = read_clock E b
           in Inr \<lparr>brk = b, now = t', heartbeat_at = heartbeat_at s + HEARTBEAT_INTERVAL\<rparr>))
       else Inr \<lparr>brk = b, now = t, heartbeat_at = heartbeat_at s\<rparr>)" if "broker_inv E b" for b
    using that
    by (auto simp: read_clock_def intro!: wpE_mono [OF purge_inv_sound] wpE_mono [OF send_heartbeats_sound])
  show ?thesis
  proof (cases input)
    case None
    with after [OF assms] show ?thesis
      by (simp only: broker_turn_def wpE_bindE wpE_results option.case)
  next
    case (Some r)
    show ?thesis
      unfolding broker_turn_def Some wpE_bindE option.case
      by (rule wpE_mono [OF broker_message_sound [OF assms]]) (rule after)
  qed
qed

text \<open>The broker under its main loop is a fallible machine that never uses a deleted object.\<close>

interpretation broker_loop: fallible_machine "broker_turn E" "\<lambda>s. broker_inv E (brk s)" "\<lambda>f. f = Dangling"
  by unfold_locales (rule broker_turn_sound)

end
