(* ===== verification/Broker_Props.thy ===== *)
theory Broker_Props
  imports Broker_Sound "HOL-Library.Multiset"
begin

section \<open>What the broker promises\<close>

text \<open>
  The properties of the broker's methods and of its main loop: memory safety and the invariant of
  whole runs, the order in which requests are handed to workers, what a purge and a heartbeat round
  do, the built-in \<open>mmi.\<close> services, the registration of workers, and the inputs that end the process.
\<close>

subsection \<open>Dispatching as a sort\<close>

lemma sort_key_choose:
  fixes f :: "'a \<Rightarrow> int"
  assumes "i < length xs" "\<And>j. j < length xs \<Longrightarrow> f (xs ! i) \<le> f (xs ! j)"
    "\<And>j. j < i \<Longrightarrow> f (xs ! i) < f (xs ! j)"
  shows "sort_key f xs = xs ! i # sort_key f (erase_at i xs)"
proof (rule properties_for_sort_key)
  have xs: "xs = take i xs @ xs ! i # drop (Suc i) xs"
    using assms(1) by (rule id_take_nth_drop)
  have "mset xs = mset (take i xs @ xs ! i # drop (Suc i) xs)"
    using xs by simp
  then show "mset (xs ! i # sort_key f (erase_at i xs)) = mset xs"
    by (simp add: erase_at_def)
  have pre: "\<forall>y \<in> set (take i xs). f (xs ! i) < f y"
    using assms(3) by (auto simp: in_set_conv_nth)
  have le: "\<forall>y \<in> set xs. f (xs ! i) \<le> f y"
    using assms(2) by (auto simp: in_set_conv_nth)
  show "filter (\<lambda>y. f k = f y) (xs ! i # sort_key f (erase_at i xs)) = filter (\<lambda>y. f k = f y) xs" for k
  proof -
    have "filter (\<lambda>y. f k = f y) xs
        = filter (\<lambda>y. f k = f y) (take i xs @ xs ! i # drop (Suc i) xs)"
      using xs by simp
    moreover have "filter (\<lambda>y. f k = f y) (take i xs) = []" if "f k = f (xs ! i)"
      using pre that by (auto simp: filter_empty_conv)
    moreover have "filter (\<lambda>y. f k = f y) (sort_key f zs) = filter (\<lambda>y. f k = f y) zs" for zs
      by (simp only: eq_commute [of "f k"] sort_key_stable)
    ultimately show ?thesis
      by (auto simp: erase_at_def)
  qed
  show "sorted (map f (xs ! i # sort_key f (erase_at i xs)))"
    using le set_erase_at_subset [of i xs] by auto
qed

text \<open>The most recently seen first; among equals, the one that has waited longest.\<close>

definition by_recency :: "broker \<Rightarrow> addr list \<Rightarrow> addr list" where
  "by_recency b ws = sort_key (\<lambda>a. - expiry b a) ws"

lemma by_recency_chosen:
  assumes "srv_waiting s \<noteq> []"
  shows "by_recency b (srv_waiting s)
    = srv_waiting s ! chosen b s # by_recency b (erase_at (chosen b s) (srv_waiting s))"
  unfolding by_recency_def
proof (rule sort_key_choose)
  let ?es = "map (expiry b) (srv_waiting s)"
  have es: "?es \<noteq> []" using assms by simp
  note m = choose_worker_max [OF es]
  show lt: "chosen b s < length (srv_waiting s)" using m(1) by simp
  show "- expiry b (srv_waiting s ! chosen b s) \<le> - expiry b (srv_waiting s ! j)"
    if "j < length (srv_waiting s)" for j
    using m(2) [of j] that lt by simp
  show "- expiry b (srv_waiting s ! chosen b s) < - expiry b (srv_waiting s ! j)"
    if "j < chosen b s" for j
    using m(3) [of j] that lt by simp
qed

text \<open>What one assignment puts on the socket.\<close>

definition request_wire :: "env \<Rightarrow> broker \<Rightarrow> addr \<times> zmsg \<Rightarrow> fault + wire" where
  "request_wire E b = (\<lambda>(a, m).
     bindE (zmsg_send (first_part E) (worker_frames (the (heap b a)) MDPW_REQUEST m))
       (\<lambda>(ws, _). Inr ws))"

lemma hand_out_fields [simp]:
  "heap (hand_out n s i ws b) = heap b"
  "sent (hand_out n s i ws b) = sent b @ [ws]"
  "m_services (hand_out n s i ws b) n =
     Some (s\<lparr>srv_requests := tl (srv_requests s), srv_waiting := erase_at i (srv_waiting s)\<rparr>)"
  by (simp_all add: hand_out_def)

text \<open>
  C3. If the dispatch loop of a service completes, it has sent exactly the pairs (i-th idle worker
  by descending expiry, i-th queued request by arrival), ties between workers going to the one that
  waited longest; the requests beyond the number of idle workers stay queued in order.
\<close>

lemma dispatch_assigns:
  assumes "broker_ok E b" "m_services b n = Some s" "dispatch_loop E n b = Inr c"
  shows "\<exists>wss t. sent c = sent b @ wss
      \<and> mapE (request_wire E b) (zip (by_recency b (srv_waiting s)) (srv_requests s)) = Inr wss
      \<and> m_services c n = Some t
      \<and> srv_requests t = drop (length (srv_waiting s)) (srv_requests s)
      \<and> length (srv_waiting t) = length (srv_waiting s) - length (srv_requests s)"
  using assms
proof (induction E n b arbitrary: s rule: dispatch_loop.induct)
  case (1 E n b)
  show ?case
  proof (cases "srv_waiting s = [] \<or> srv_requests s = []")
    case True
    then have "c = b"
      using "1.prems"(3) by (simp add: dispatch_loop.simps [of E n b] dispatch_turn_eq [OF "1.prems"(1,2)])
    with True "1.prems"(2) show ?thesis by (auto simp: by_recency_def)
  next
    case False
    let ?i = "chosen b s"
    let ?m = "hd (srv_requests s)" and ?a = "srv_waiting s ! chosen b s"
    have i: "?i < length (srv_waiting s)"
      using False choose_worker_max(1) [of "map (expiry b) (srv_waiting s)"] by simp
    obtain ws where ws: "request_wire E b (?a, ?m) = Inr ws"
      and turn: "dispatch_turn E n b = Inr (Some (hand_out n s ?i ws b))"
      and rest: "dispatch_loop E n (hand_out n s ?i ws b) = Inr c"
      using "1.prems"(3) False
      by (auto simp: dispatch_loop.simps [of E n b] dispatch_turn_eq [OF "1.prems"(1,2)]
          request_wire_def bindE_eq_Inr)
    let ?s = "s\<lparr>srv_requests := tl (srv_requests s), srv_waiting := erase_at ?i (srv_waiting s)\<rparr>"
    have ok: "broker_ok E (hand_out n s ?i ws b)"
      using "1.prems"(1,2) i by (rule hand_out_ok)
    have "\<exists>wss t. sent c = sent (hand_out n s ?i ws b) @ wss
      \<and> mapE (request_wire E (hand_out n s ?i ws b))
          (zip (by_recency (hand_out n s ?i ws b) (srv_waiting ?s)) (srv_requests ?s)) = Inr wss
      \<and> m_services c n = Some t
      \<and> srv_requests t = drop (length (srv_waiting ?s)) (srv_requests ?s)
      \<and> length (srv_waiting t) = length (srv_waiting ?s) - length (srv_requests ?s)"
      using ok rest by (intro "1.IH" [OF turn]) simp_all
    then obtain wss t where IH: "sent c = sent b @ ws # wss"
      "mapE (request_wire E b) (zip (by_recency b (erase_at ?i (srv_waiting s))) (tl (srv_requests s))) = Inr wss"
      "m_services c n = Some t"
      "srv_requests t = drop (length (erase_at ?i (srv_waiting s))) (tl (srv_requests s))"
      "length (srv_waiting t) = length (erase_at ?i (srv_waiting s)) - length (tl (srv_requests s))"
      by (auto simp: request_wire_def by_recency_def)
    have "zip (by_recency b (srv_waiting s)) (srv_requests s)
        = (?a, ?m) # zip (by_recency b (erase_at ?i (srv_waiting s))) (tl (srv_requests s))"
      using False by (cases "srv_requests s") (simp_all add: by_recency_chosen)
    moreover have "drop (length (srv_waiting s)) (srv_requests s)
        = drop (length (erase_at ?i (srv_waiting s))) (tl (srv_requests s))"
      using False i by (cases "srv_requests s"; cases "srv_waiting s") (simp_all add: length_erase_at)
    ultimately show ?thesis
      using IH ws False i by (auto simp: length_erase_at)
  qed
qed

subsection \<open>Purging\<close>

lemma purge_outcome:
  assumes "broker_ok E b"
  shows "\<exists>c. purge_workers E b = Inr c \<and> broker_ok E c
    \<and> purged (stale b (s_clock (clock E (ticks b)))) (b\<lparr>ticks := Suc (ticks b)\<rparr>) c"
  using purge_sound [OF assms, of "\<lambda>_. True"] by (cases "purge_workers E b") simp_all

theorem purge_exact:
  assumes "broker_ok E b"
  shows "\<exists>c. purge_workers E b = Inr c \<and> broker_ok E c
    \<and> purged (stale b (s_clock (clock E (ticks b)))) (b\<lparr>ticks := Suc (ticks b)\<rparr>) c"
  using assms by (rule purge_outcome)

subsection \<open>The built-in services\<close>

lemma body_of_last: "body_of (x # xs @ [y]) = Some (c_str y)"
  by (simp add: body_of_Some)

lemma body_set_last: "body_set r (x # xs @ [y]) = x # xs @ [c_str r]"
  by (simp add: body_set_def push_back_def butlast_append)

lemma mmi_literals [simp]:
  "bytes_of ''mmi.'' = [109, 109, 105, 46]"
  "bytes_of ''mmi.service'' = [109, 109, 105, 46, 115, 101, 114, 118, 105, 99, 101]"
  "bytes_of ''200'' = [50, 48, 48]"
  "bytes_of ''404'' = [52, 48, 52]"
  "bytes_of ''501'' = [53, 48, 49]"
  by (simp_all add: bytes_of_def)

theorem mmi_service_reply:
  assumes "broker_ok E b"
  shows "service_internal E (bytes_of ''mmi.service'') (client # [] # rest @ [name]) b =
    (if m_services b (c_str name) = None then Inl OutOfRange
     else socket_send E ([c_str client, [], MDPC_CLIENT, bytes_of ''mmi.service''] @ rest
            @ [if junk E (c_str name) + of_nat (card (attached b (c_str name))) = 0
               then bytes_of ''404'' else bytes_of ''200'']) b)"
proof (cases "m_services b (c_str name)")
  case None
  then show ?thesis
    using body_of_last [of client "[] # rest" name] by (simp add: service_internal_def)
next
  case (Some s)
  then have "srv_workers s = junk E (c_str name) + of_nat (card (attached b (c_str name)))"
    using broker_okD(6) [OF assms] by (simp add: count_ok_def)
  then show ?thesis
    using Some body_of_last [of client "[] # rest" name] body_set_last [of _ client "[] # rest" name]
    by (simp add: service_internal_def unwrap_def wrap_def push_front_def address_of_def c_str_Cons)
qed

theorem reserved_request_not_queued:
  assumes "reserved_name (c_str name)" "c_str name \<noteq> bytes_of ''mmi.service''" "nul_free sender" "body \<noteq> []"
  shows "client_process E sender (name # body) b =
    bindE (service_require E (c_str name) b) (\<lambda>(_, c).
      socket_send E ([sender, [], MDPC_CLIENT, c_str name] @ butlast body @ [bytes_of ''501'']) c)"
proof -
  obtain rest x where body: "body = rest @ [x]" using assms(4) by (cases body rule: rev_cases) auto
  show ?thesis
    using assms body_set_last [of _ sender "[] # rest" x]
    by (simp add: client_process_def parts_def body service_internal_def unwrap_def wrap_def
        push_front_def address_of_def c_str_Cons c_str_nul_free Let_def)
qed

subsection \<open>Heartbeats and timing\<close>

text \<open>What one heartbeat round puts on the socket.\<close>

definition heartbeat_wire :: "env \<Rightarrow> broker \<Rightarrow> addr \<Rightarrow> fault + wire" where
  "heartbeat_wire E b a =
     bindE (zmsg_send (first_part E) (worker_frames (the (heap b a)) MDPW_HEARTBEAT []))
       (\<lambda>(ws, _). Inr ws)"

lemma heartbeats_sent:
  assumes "\<forall>a \<in> set as. \<exists>w. heap b a = Some w"
  shows "forE (\<lambda>a. worker_send E a MDPW_HEARTBEAT [] None) as (b\<lparr>sent := x\<rparr>)
    = bindE (mapE (heartbeat_wire E b) as) (\<lambda>wss. Inr (b\<lparr>sent := x @ wss\<rparr>))"
  using assms
proof (induction as arbitrary: x)
  case (Cons a as)
  then obtain w where w: "heap b a = Some w" by auto
  have "worker_send E a MDPW_HEARTBEAT [] None (b\<lparr>sent := x\<rparr>)
      = bindE (heartbeat_wire E b a) (\<lambda>ws. Inr (b\<lparr>sent := x @ [ws]\<rparr>))"
    using worker_send_eq(2) [of "b\<lparr>sent := x\<rparr>" a w E MDPW_HEARTBEAT] w
    by (simp add: socket_send_def heartbeat_wire_def bindE_assoc split_def)
  then show ?case
    using Cons by (simp add: bindE_assoc)
qed simp

theorem heartbeat_round:
  assumes "broker_ok E (brk s)" "s_clock (clock E (ticks (brk s))) \<ge> heartbeat_at s"
    "broker_turn E None s = Inr t"
  shows "heartbeat_at t = heartbeat_at s + HEARTBEAT_INTERVAL
    \<and> m_waiting (brk t) = filter (\<lambda>a. a \<notin> stale (brk s) (s_clock (clock E (Suc (ticks (brk s)))))) (m_waiting (brk s))
    \<and> (\<exists>wss. mapE (heartbeat_wire E (brk s)) (m_waiting (brk t)) = Inr wss
         \<and> sent (brk t) = sent (brk s) @ wss)"
proof -
  let ?b = "brk s\<lparr>ticks := Suc (ticks (brk s))\<rparr>"
  let ?D = "stale (brk s) (s_clock (clock E (Suc (ticks (brk s)))))"
  have "stale ?b x = stale (brk s) x" for x by (simp add: stale_def)
  then obtain c where c: "purge_workers E ?b = Inr c" "broker_ok E c"
    "purged ?D (?b\<lparr>ticks := Suc (Suc (ticks (brk s)))\<rparr>) c"
    using purge_outcome [of E ?b] assms(1) by auto
  have live: "\<forall>a \<in> set (m_waiting c). \<exists>w. heap c a = Some w"
    using c(2) by (auto dest: waiting_live)
  have same: "heartbeat_wire E c a = heartbeat_wire E (brk s) a" if "a \<in> set (m_waiting c)" for a
    using c(3) that by (auto simp: heartbeat_wire_def purged_def restrict_map_def)
  then have same': "mapE (heartbeat_wire E c) (m_waiting c) = mapE (heartbeat_wire E (brk s)) (m_waiting c)"
    by (intro mapE_cong refl)
  have "send_heartbeats E c = bindE (mapE (heartbeat_wire E (brk s)) (m_waiting c)) (\<lambda>wss. Inr (c\<lparr>sent := sent c @ wss\<rparr>))"
    using heartbeats_sent [OF live, of E "sent c"] by (simp add: send_heartbeats_def same')
  then show ?thesis
    using assms(2,3) c(1,3)
    by (auto simp: broker_turn_def read_clock_def bindE_eq_Inr purged_def)
qed

subsection \<open>Commands out of turn\<close>

lemma disconnected:
  assumes "broker_ok E b" "heap b a = Some w"
  shows "worker_delete E a True b
    = bindE (socket_send E [wrk_identity w, [], MDPW_WORKER, MDPW_DISCONNECT] b)
        (\<lambda>c. Inr (forget_worker a w c))"
proof -
  have i: "c_str (wrk_identity w) = wrk_identity w"
    using broker_okD(1) [OF assms(1)] assms(2) by (simp add: heap_ok_def c_str_nul_free)
  have "worker_delete E a False c = Inr (forget_worker a w c)"
    if "socket_send E [wrk_identity w, [], MDPW_WORKER, MDPW_DISCONNECT] b = Inr c" for c
    using that assms by (intro worker_delete_quiet) (auto simp: socket_send_def bindE_eq_Inr)
  then show ?thesis
    using worker_send_eq(2) [OF assms(2), of E MDPW_DISCONNECT] i
    by (simp add: worker_delete_disconnect [OF assms(2)] worker_frames_def c_str_Cons cong: bindE_cong)
qed

text \<open>A worker the broker does not know, sending a reply or a heartbeat, is told to disconnect and
  leaves no trace but a used-up address.\<close>

theorem stranger_disconnected:
  assumes "broker_ok E b" "sender \<noteq> []" "nul_free sender" "m_workers b sender = None"
    and "command \<in> {MDPW_REPLY, MDPW_HEARTBEAT}"
  shows "worker_process E sender (command # rest) b
    = bindE (socket_send E [sender, [], MDPW_WORKER, MDPW_DISCONNECT] b)
        (\<lambda>c. Inr (c\<lparr>next_addr := Suc (next_addr b)\<rparr>))"
proof -
  let ?a = "next_addr b"
  let ?b = "b\<lparr>heap := (heap b)(?a \<mapsto> new_worker sender), next_addr := Suc ?a,
      m_workers := (m_workers b)(sender \<mapsto> ?a)\<rparr>"
  have ok: "broker_ok E ?b"
    using assms(1-4) by (rule ok_new_worker)
  have fresh: "heap b ?a = None" "?a \<notin> set (m_waiting b)"
    using broker_okD(1,5) [OF assms(1)] by (auto simp: heap_ok_def waiting_ok_def) (metis less_irrefl not_None_eq)+
  have "worker_delete E ?a True ?b
      = bindE (socket_send E [sender, [], MDPW_WORKER, MDPW_DISCONNECT] ?b)
          (\<lambda>c. Inr (forget_worker ?a (new_worker sender) c))"
    using disconnected [OF ok, of ?a "new_worker sender"] by (simp add: new_worker_def)
  also have "\<dots> = bindE (socket_send E [sender, [], MDPW_WORKER, MDPW_DISCONNECT] b)
          (\<lambda>c. Inr (c\<lparr>next_addr := Suc ?a\<rparr>))"
    using fresh assms(4)
    by (cases "zmsg_send (first_part E) [sender, [], MDPW_WORKER, MDPW_DISCONNECT]")
      (auto simp: socket_send_def forget_worker_def new_worker_def remove1_idem fun_upd_idem)
  finally show ?thesis
    using assms(2,4,5)
    by (auto simp: worker_process_def parts_def worker_require_def Let_def c_str_Cons)
qed

text \<open>A second READY ends the session of the worker that sends it.\<close>

theorem second_ready_disconnects:
  assumes "broker_ok E b" "m_workers b sender = Some a" "heap b a = Some w"
  shows "worker_process E sender (MDPW_READY # rest) b
    = bindE (socket_send E [sender, [], MDPW_WORKER, MDPW_DISCONNECT] b)
        (\<lambda>c. Inr (forget_worker a w c))"
proof -
  have "wrk_identity w = sender"
    using broker_okD(2) [OF assms(1)] assms(2,3) by (fastforce simp: index_ok_def)
  moreover have "wrk_identity w \<noteq> []"
    using broker_okD(1) [OF assms(1)] assms(3) by (simp add: heap_ok_def)
  ultimately show ?thesis
    using disconnected [OF assms(1,3)] assms(2)
    by (simp add: worker_process_def parts_def worker_require_def Let_def c_str_Cons)
qed

end
