(* ===== verification/Broker_Run.thy ===== *)
theory Broker_Run
  imports Broker_Props
begin

section \<open>Runs of the broker\<close>

text \<open>
  What holds of every run of \<open>start_brokering\<close>, however many messages arrive and in whatever order:
  memory safety, the shape of everything that is sent, the bound on the poll timeout, a complete
  request and reply, and the messages that end the process.
\<close>

subsection \<open>Whole runs\<close>

lemma broker_start_inv: "broker_inv E b \<Longrightarrow> broker_inv E (brk (broker_start E b))"
  by (simp add: broker_start_def read_clock_def)

lemma new_broker_inv: "broker_inv E new_broker"
  by (simp add: broker_inv_def new_broker_ok)

text \<open>
  C1. Whatever messages and timeouts a run of the broker sees, in any order, it never uses a
  deleted worker or a missing service (no Dangling), and a run that goes on is in a state where the
  worker heap, the identity map, the idle set, the services' lists and their counters agree and no
  service has both an idle worker and a queued request.
\<close>

theorem broker_run_safe:
  "case start_brokering E inputs new_broker of Inl f \<Rightarrow> f \<noteq> Dangling | Inr s \<Rightarrow> broker_inv E (brk s)"
  using broker_loop.run_ok [OF broker_start_inv [OF new_broker_inv], of E inputs]
  by (simp add: start_brokering_def wpE_def)

text \<open>The clock does not go back.\<close>

definition clock_mono :: "env \<Rightarrow> bool" where
  "clock_mono E \<longleftrightarrow> (\<forall>i j. i \<le> j \<longrightarrow> s_clock (clock E i) \<le> s_clock (clock E j))"

subsection \<open>What every method adds\<close>

text \<open>
  Whatever the broker does, it only appends to the socket, every message it appends is an envelope
  (an identity and an empty frame) around a message of the protocol, and it only reads the clock forwards.
  To a client that is the header and a service name with the rest behind it, to a worker the header and
  a request, or a heartbeat or a disconnect with nothing behind it.
\<close>

fun protocol_message :: "zmsg \<Rightarrow> bool" where
  "protocol_message (ident # delimiter # header # command # rest) \<longleftrightarrow> nul_free ident \<and> delimiter = [] \<and>
     (header = MDPC_CLIENT \<or>
      header = MDPW_WORKER \<and> (command = MDPW_REQUEST \<or> command \<in> {MDPW_HEARTBEAT, MDPW_DISCONNECT} \<and> rest = []))"
| "protocol_message _ \<longleftrightarrow> False"

definition enveloped :: "env \<Rightarrow> wire \<Rightarrow> bool" where
  "enveloped E ws \<longleftrightarrow> (\<exists>m. protocol_message m \<and> zmsg_send (first_part E) m = Inr (ws, []))"

definition extends :: "env \<Rightarrow> broker \<Rightarrow> broker \<Rightarrow> bool" where
  "extends E b c \<longleftrightarrow> ticks b \<le> ticks c \<and> (\<exists>wss. sent c = sent b @ wss \<and> (\<forall>ws \<in> set wss. enveloped E ws))"

definition grows :: "env \<Rightarrow> broker \<Rightarrow> fault + broker \<Rightarrow> bool" where
  "grows E b r \<longleftrightarrow> wpE (\<lambda>_. False) (extends E b) r"

lemma extends_refl [simp]: "extends E b b"
  by (simp add: extends_def)

lemma extends_trans: "extends E b c \<Longrightarrow> extends E c d \<Longrightarrow> extends E b d"
  by (fastforce simp: extends_def)

lemma extends_fields [simp]:
  "extends E b (upd_service n g c) = extends E b c"
  "extends E b (upd_worker a h c) = extends E b c"
  "extends E b (c\<lparr>m_waiting := x\<rparr>) = extends E b c"
  "extends E b (c\<lparr>m_services := y\<rparr>) = extends E b c"
  "extends E b (c\<lparr>m_workers := v\<rparr>) = extends E b c"
  "extends E b (c\<lparr>heap := z\<rparr>) = extends E b c"
  "extends E b (c\<lparr>next_addr := u\<rparr>) = extends E b c"
  by (simp_all add: extends_def upd_service_def upd_worker_def)

lemma extends_fields_left [simp]:
  "extends E (upd_service n g b) c = extends E b c"
  "extends E (upd_worker a h b) c = extends E b c"
  "extends E (b\<lparr>m_waiting := x\<rparr>) c = extends E b c"
  by (simp_all add: extends_def upd_service_def upd_worker_def)

lemma extends_tick [simp]: "extends E b (b\<lparr>ticks := Suc (ticks b)\<rparr>)"
  by (simp add: extends_def)

lemma grows_simps [simp]:
  "grows E b (Inl f)"
  "grows E b (Inr c) = extends E b c"
  by (simp_all add: grows_def)

lemma grows_from: "extends E b c \<Longrightarrow> grows E c r \<Longrightarrow> grows E b r"
  unfolding grows_def by (erule wpE_mono) (rule extends_trans)

lemma grows_via: "grows E c r \<Longrightarrow> extends E b c \<Longrightarrow> grows E b r"
  by (rule grows_from)

lemma grows_then: "grows E b r \<Longrightarrow> (\<And>c. grows E c (k c)) \<Longrightarrow> grows E b (bindE r k)"
  unfolding grows_def wpE_bindE by (erule wpE_mono) (auto intro: grows_from [unfolded grows_def])

lemma grows_bindE: "(\<And>x. r = Inr x \<Longrightarrow> grows E b (k x)) \<Longrightarrow> grows E b (bindE r k)"
  by (cases r) simp_all

lemma grows_forE: "(\<And>x c. grows E c (body x c)) \<Longrightarrow> grows E b (forE body xs b)"
  by (induction xs arbitrary: b) (simp_all add: grows_then)

lemma zmsg_send_clears: "zmsg_send k m = Inr (ws, m') \<Longrightarrow> m' = []"
  by (auto simp: zmsg_send_def clear_def bindE_eq_Inr)

lemma grows_socket_send: "protocol_message m \<Longrightarrow> grows E b (socket_send E m b)"
proof (cases "zmsg_send (first_part E) m")
  case (Inr r)
  then obtain ws where ws: "zmsg_send (first_part E) m = Inr (ws, [])"
    using zmsg_send_clears by (cases r) auto
  moreover assume "protocol_message m"
  ultimately have "enveloped E ws" unfolding enveloped_def by blast
  with ws show ?thesis by (simp add: socket_send_def extends_def)
qed (simp add: socket_send_def)

lemma wrapped: "wrap ident (Some []) (push_front h m) = c_str ident # [] # c_str h # m"
  "wrap ident (Some []) (wrap h (Some x) m) = c_str ident # [] # c_str h # c_str x # m"
  by (simp_all add: wrap_def push_front_def)

lemma grows_worker_send:
  "c = MDPW_REQUEST \<or> c \<in> {MDPW_HEARTBEAT, MDPW_DISCONNECT} \<and> m = None \<Longrightarrow> grows E b (worker_send E a c [] m b)"
  unfolding worker_send_def Let_def wrapped
  by (intro grows_bindE grows_socket_send) (auto simp: c_str_Cons push_front_def zmsg_new_def)

lemma grows_worker_delete: "grows E b (worker_delete E a d b)"
  unfolding worker_delete_def
  by (intro grows_then)
    (auto intro!: grows_bindE simp: grows_worker_send bindE_eq_Inr split: option.splits)

lemma grows_purge: "grows E b (purge_workers E b)"
  unfolding purge_workers_def read_clock_def
  by (simp add: Let_def)
    (intro grows_bindE grows_from [OF extends_tick grows_forE] grows_worker_delete)

lemma grows_dispatch_turn:
  assumes "dispatch_turn E n b = Inr (Some c)"
  shows "extends E b c"
proof -
  have "extends E b' d" if "worker_send E a MDPW_REQUEST [] m b' = Inr d" for a m b' d
    using that grows_worker_send [of MDPW_REQUEST m E b' a] by simp
  from this [of _ _ "upd_service n g b" for g] show ?thesis
    using assms by (auto simp: dispatch_turn_def Let_def bindE_eq_Inr split: if_splits)
qed

lemma grows_dispatch: "grows E b (dispatch_loop E n b)"
proof (induction E n b rule: dispatch_loop.induct)
  case (1 E n b)
  then have "grows E b (dispatch_loop E n c)" if "dispatch_turn E n b = Inr (Some c)" for c
    using that by (blast intro: grows_from grows_dispatch_turn)
  then show ?case
    unfolding dispatch_loop.simps [of E n b] by (auto intro!: grows_bindE split: option.split)
qed

lemma grows_service_dispatch: "grows E b (service_dispatch E n m b)"
proof -
  have "grows E c (bindE (purge_workers E c) (dispatch_loop E n))" for c
    by (intro grows_then grows_purge grows_dispatch)
  from grows_via [OF this] show ?thesis
    unfolding service_dispatch_def Let_def by (auto split: option.split)
qed

lemma grows_wrapped_client:
  "grows E b (socket_send E (wrap client (Some []) (wrap MDPC_CLIENT (Some n) m)) b)"
  unfolding wrapped by (rule grows_socket_send) (simp add: c_str_Cons)

lemma grows_service_internal: "grows E b (service_internal E n m b)"
  unfolding service_internal_def
  by (auto intro!: grows_bindE grows_wrapped_client simp del: mdp_literals)

lemma grows_worker_waiting: "grows E b (worker_waiting E a b)"
  unfolding worker_waiting_def Let_def read_clock_def
  by (auto intro!: grows_bindE grows_via [OF grows_service_dispatch])
    (simp add: extends_def upd_service_def)

lemma extends_worker_require: "worker_require i b = Inr (a, c) \<Longrightarrow> extends E b c"
  by (auto simp: worker_require_def Let_def bindE_eq_Inr split: option.splits)

lemma extends_service_require: "service_require E i b = Inr (n, c) \<Longrightarrow> extends E b c"
  by (auto simp: service_require_def bindE_eq_Inr split: option.splits)

lemma grows_client_process: "grows E b (client_process E sender m b)"
  unfolding client_process_def Let_def
  by (auto intro!: grows_bindE grows_via [OF grows_service_internal]
      grows_via [OF grows_service_dispatch] dest!: extends_service_require)

lemma grows_heartbeat:
  "grows E b (bindE (fetchE Dangling (heap b a)) (\<lambda>_.
      let (now, b) = read_clock E b
      in Inr (upd_worker a (\<lambda>w. w\<lparr>wrk_expiry := now + HEARTBEAT_EXPIRY\<rparr>) b)))"
  by (auto simp: read_clock_def intro!: grows_bindE)

lemma grows_worker_command: "grows E b (worker_command E ready sender command m a b)"
proof -
  have reg: "grows E b (bindE (pop_front m) (\<lambda>(part, msg).
          bindE (service_require E (c_str part) b) (\<lambda>(name, b).
            let b = upd_worker a (\<lambda>w. w\<lparr>wrk_service := Some name\<rparr>) b;
                b = upd_service name (\<lambda>s. s\<lparr>srv_workers := srv_workers s + 1\<rparr>) b
            in worker_waiting E a b)))"
    by (auto simp: Let_def intro!: grows_bindE grows_via [OF grows_worker_waiting]
        intro: extends_service_require)
  have rep: "grows E b (bindE (unwrap m) (\<lambda>(client, msg).
          bindE (fetchE Dangling (heap b a)) (\<lambda>w.
          bindE (fetchE NullDeref (wrk_service w)) (\<lambda>name.
          bindE (fetchE Dangling (m_services b name)) (\<lambda>s.
          bindE (socket_send E (wrap client (Some []) (wrap MDPC_CLIENT (Some (srv_name s)) msg)) b)
            (worker_waiting E a))))))"
    by (cases "unwrap m"; cases "heap b a")
      (auto simp: fetchE_def grows_then [OF grows_wrapped_client grows_worker_waiting]
        simp del: mdp_literals split: option.split)
  show ?thesis
    unfolding worker_command_def
    using reg rep grows_heartbeat [of E b a] grows_worker_delete [of E b a]
    by (simp only: grows_simps extends_refl split: if_split) blast
qed

lemma grows_worker_process: "grows E b (worker_process E sender m b)"
proof (cases m)
  case Nil
  then show ?thesis by (simp add: worker_process_def parts_def)
next
  case (Cons part rest)
  then show ?thesis
    by (auto simp: worker_process_Cons intro!: grows_bindE
        grows_from [OF extends_worker_require grows_worker_command])
qed

lemma grows_message: "grows E b (broker_message E r b)"
  unfolding broker_message_def
  by (auto intro!: grows_bindE grows_client_process grows_worker_process)

lemma grows_send_heartbeats: "grows E b (send_heartbeats E b)"
  unfolding send_heartbeats_def by (intro grows_forE grows_worker_send) simp

text \<open>The part of a turn after the message: its clock reading, and the round if it is due.\<close>

definition heartbeat_part :: "env \<Rightarrow> int \<Rightarrow> broker \<Rightarrow> fault + loop_state" where
  "heartbeat_part E due b =
     (let (t, b) = read_clock E b in
       if t \<ge> due then
         bindE (purge_workers E b) (\<lambda>b.
         bindE (send_heartbeats E b) (\<lambda>b.
           let (t', b) = read_clock E b
           in Inr \<lparr>brk = b, now = t', heartbeat_at = due + HEARTBEAT_INTERVAL\<rparr>))
       else Inr \<lparr>brk = b, now = t, heartbeat_at = due\<rparr>)"

lemma broker_turn_eq:
  "broker_turn E input s =
     bindE (case input of None \<Rightarrow> Inr (brk s) | Some r \<Rightarrow> broker_message E r (brk s))
       (heartbeat_part E (heartbeat_at s))"
  by (simp add: broker_turn_def heartbeat_part_def [abs_def])

text \<open>The times of the loop state: read from the clock, and the next round is at most an interval off.\<close>

definition times_ok :: "env \<Rightarrow> loop_state \<Rightarrow> bool" where
  "times_ok E s \<longleftrightarrow> heartbeat_at s \<le> now s + HEARTBEAT_INTERVAL
     \<and> (\<exists>i < ticks (brk s). now s = s_clock (clock E i))"

lemma heartbeat_part_cases:
  assumes "heartbeat_part E due b = Inr t"
  obtains (quiet) "t = \<lparr>brk = b\<lparr>ticks := Suc (ticks b)\<rparr>, now = s_clock (clock E (ticks b)), heartbeat_at = due\<rparr>"
  | (round) c where "due \<le> s_clock (clock E (ticks b))" "extends E (b\<lparr>ticks := Suc (ticks b)\<rparr>) c"
      "t = \<lparr>brk = c\<lparr>ticks := Suc (ticks c)\<rparr>, now = s_clock (clock E (ticks c)),
             heartbeat_at = due + HEARTBEAT_INTERVAL\<rparr>"
proof (cases "due \<le> s_clock (clock E (ticks b))")
  case True
  let ?b = "b\<lparr>ticks := Suc (ticks b)\<rparr>"
  from assms True obtain c d where "purge_workers E ?b = Inr c" "send_heartbeats E c = Inr d"
    and t: "t = \<lparr>brk = d\<lparr>ticks := Suc (ticks d)\<rparr>, now = s_clock (clock E (ticks d)),
             heartbeat_at = due + HEARTBEAT_INTERVAL\<rparr>"
    by (auto simp: heartbeat_part_def read_clock_def bindE_eq_Inr)
  with grows_purge [of E ?b] grows_send_heartbeats [of E c] have "extends E ?b d"
    by (auto intro: extends_trans)
  with True t show ?thesis by (intro round)
next
  case False
  with assms show ?thesis by (intro quiet) (simp add: heartbeat_part_def read_clock_def)
qed

lemma heartbeat_part_extends:
  assumes "heartbeat_part E due b = Inr t"
  shows "extends E b (brk t)"
  using assms
proof (cases rule: heartbeat_part_cases)
  case (round c)
  then have "extends E b c" by (auto simp: extends_def)
  with round show ?thesis by (auto simp: extends_def)
qed simp

lemma heartbeat_part_times:
  assumes "heartbeat_part E due b = Inr t" "clock_mono E"
    and i: "i < ticks b" "due \<le> s_clock (clock E i) + HEARTBEAT_INTERVAL"
  shows "times_ok E t"
  using assms(1)
proof (cases rule: heartbeat_part_cases)
  case quiet
  moreover have "s_clock (clock E i) \<le> s_clock (clock E (ticks b))"
    using assms(2) i(1) by (simp add: clock_mono_def)
  ultimately show ?thesis using i(2) by (auto simp: times_ok_def)
next
  case (round c)
  moreover have "s_clock (clock E (ticks b)) \<le> s_clock (clock E (ticks c))"
    using assms(2) round(2) by (simp add: clock_mono_def extends_def)
  ultimately show ?thesis by (auto simp: times_ok_def)
qed

lemma broker_turn_parts:
  assumes "broker_turn E input s = Inr t"
  obtains b where "extends E (brk s) b" "heartbeat_part E (heartbeat_at s) b = Inr t"
proof (cases input)
  case None
  with assms show ?thesis by (intro that [of "brk s"]) (simp_all add: broker_turn_eq)
next
  case (Some r)
  with assms show ?thesis
    using grows_message [of E "brk s" r] that by (auto simp: broker_turn_eq bindE_eq_Inr)
qed

lemma extends_turn: "broker_turn E input s = Inr t \<Longrightarrow> extends E (brk s) (brk t)"
  by (erule broker_turn_parts) (blast intro: extends_trans heartbeat_part_extends)

lemma times_turn:
  assumes "clock_mono E" "times_ok E s" "broker_turn E input s = Inr t"
  shows "times_ok E t"
proof -
  from assms(3) obtain b where b: "extends E (brk s) b" "heartbeat_part E (heartbeat_at s) b = Inr t"
    by (rule broker_turn_parts)
  moreover obtain i where "i < ticks (brk s)" "now s = s_clock (clock E i)"
    "heartbeat_at s \<le> now s + HEARTBEAT_INTERVAL"
    using assms(2) by (auto simp: times_ok_def)
  ultimately show ?thesis
    using assms(1) by (intro heartbeat_part_times [of E "heartbeat_at s" b t i]) (auto simp: extends_def)
qed

interpretation broker_times: fallible_machine "broker_turn E"
  "\<lambda>s. clock_mono E \<and> times_ok E s" "\<lambda>_. False"
  by unfold_locales (auto simp: wpE_def times_turn split: sum.split)

interpretation broker_output: fallible_machine "broker_turn E" "\<lambda>s. extends E b (brk s)" "\<lambda>_. False"
  by unfold_locales (auto simp: wpE_def extends_turn split: sum.split intro: extends_trans)

theorem poll_waits_bounded:
  assumes "clock_mono E" "start_brokering E inputs b = Inr s"
  shows "0 \<le> poll_timeout s \<and> poll_timeout s \<le> HEARTBEAT_INTERVAL"
proof -
  have "times_ok E (broker_start E b)"
    by (auto simp: times_ok_def broker_start_def read_clock_def)
  with assms have "times_ok E s"
    using broker_times.run_inv [of E] by (auto simp: start_brokering_def)
  then show ?thesis
    by (auto simp: times_ok_def poll_timeout_def HEARTBEAT_INTERVAL_def)
qed

lemma sent_enveloped:
  assumes "start_brokering E inputs new_broker = Inr s" "ws \<in> set (sent (brk s))"
  shows "enveloped E ws"
proof -
  have "extends E new_broker (brk (broker_start E new_broker))"
    by (simp add: broker_start_def read_clock_def)
  then have "extends E new_broker (brk s)"
    using broker_output.run_inv [of E new_broker] assms(1) by (auto simp: start_brokering_def)
  with assms(2) show ?thesis by (simp add: extends_def new_broker_def)
qed

text \<open>
  C8. Everything a run of the broker gives its socket comes from a message of the protocol: an
  identity without a NUL, an empty frame, and then the header for clients, a service name and more,
  or the header for workers and a request with what is behind it, or a heartbeat or a disconnect
  with nothing. With the send loop of the copy of zmsg.hpp in the examples, which starts at part 0,
  the frames on the wire are all of its parts (a text UUID turned back into 17 bytes), with the
  SNDMORE flag on all but the last. With the zmsg.hpp the broker is compiled with, which starts at
  part 1, they are all but the first: the identity, by which the socket routes, is not sent.
\<close>

theorem run_output_enveloped:
  assumes "start_brokering E inputs new_broker = Inr s" "ws \<in> set (sent (brk s))"
    and "first_part E \<in> {send_start_example, send_start}"
  shows "\<exists>ident header payload frames. protocol_message (ident # [] # header # payload) \<and> mapE send_part payload = Inr frames
    \<and> (first_part E = send_start_example \<longrightarrow>
        (\<exists>address. send_part ident = Inr address \<and> ws = with_more (address # [] # header # frames)))
    \<and> (first_part E = send_start \<longrightarrow> ws = with_more ([] # header # frames))"
proof -
  from sent_enveloped [OF assms(1,2)] obtain m where m: "protocol_message m" "zmsg_send (first_part E) m = Inr (ws, [])"
    by (auto simp: enveloped_def)
  then obtain ident header command rest where parts: "m = ident # [] # header # command # rest" "nul_free ident"
    and header: "header \<in> {MDPC_CLIENT, MDPW_WORKER}"
    by (induction m rule: protocol_message.induct) auto
  have head: "send_part [] = Inr []" "send_part header = Inr header"
    using header by (auto simp: send_part_def is_uuid_part_def)
  obtain a where a: "send_part ident = Inr a"
    using send_part_fault_iff [of ident] parts(2) by (cases "send_part ident") auto
  from m(2) assms(3) obtain frames where frames: "mapE send_part (command # rest) = Inr frames"
    by (auto simp: parts(1) zmsg_send_eq send_start_example_def send_start_def head bindE_eq_Inr)
  with m(2) head a have "first_part E = send_start_example \<longrightarrow> ws = with_more (a # [] # header # frames)"
    "first_part E = send_start \<longrightarrow> ws = with_more ([] # header # frames)"
    by (auto simp: parts(1) zmsg_send_eq send_start_example_def send_start_def bindE_eq_Inr)
  with m(1) parts(1) a frames show ?thesis by blast
qed

text \<open>With the send loop that starts at part 1, whatever the broker sends starts with the empty frame:
  the routing identity is never among the frames.\<close>

lemma enveloped_unaddressed:
  assumes "first_part E = send_start" "enveloped E ws"
  shows "\<exists>rest. ws = ([], True) # rest"
proof -
  from assms(2) obtain m where m: "protocol_message m" "zmsg_send (first_part E) m = Inr (ws, [])" by (auto simp: enveloped_def)
  then show ?thesis
    using assms(1) by (induction m rule: protocol_message.induct)
      (auto simp: zmsg_send_eq send_start_def bindE_eq_Inr send_part_def is_uuid_part_def)
qed

theorem no_reply_is_addressed:
  assumes "first_part E = send_start" "start_brokering E inputs new_broker = Inr s"
  shows "\<forall>ws \<in> set (sent (brk s)). \<exists>rest. ws = ([], True) # rest"
  using enveloped_unaddressed [OF assms(1) sent_enveloped [OF assms(2)]] by blast

subsection \<open>Messages that end the process\<close>

lemma first_message_fault:
  assumes "broker_message E r (new_broker\<lparr>ticks := 1\<rparr>) = Inl f"
  shows "start_brokering E (Some r # inputs) new_broker = Inl f"
  using assms
  by (simp add: start_brokering_def broker_start_def read_clock_def broker_turn_eq new_broker_def)

lemmas message_simps = broker_message_def zmsg_recv_def zmsg_new_def clear_def recv_part_def
  is_uuid_frame_def new_broker_def c_str_Cons parts_def Let_def

lemma unknown_service_lookup:
  "broker_message E (deliver [[65], [], MDPC_CLIENT, bytes_of ''mmi.service'', [120]])
     (new_broker\<lparr>ticks := 1\<rparr>) = Inl OutOfRange"
  by (simp add: message_simps client_process_def service_require_def reserved_name_def starts_in_mmi_def
      service_internal_def wrap_def push_front_def body_of_def)

lemma identity_with_nul:
  "broker_message E (deliver [[0, 1, 2, 3, 4], [], MDPW_WORKER, MDPW_READY, [120]])
     (new_broker\<lparr>ticks := 1\<rparr>) = Inl AssertFail"
  by (simp add: message_simps worker_process_def worker_require_def)

lemma c_str_zeros: "c_str (replicate n 0) = []"
  by (simp add: c_str_def takeWhile_replicate)

lemma part_like_uuid:
  "first_part E \<le> 1 \<Longrightarrow> broker_message E (deliver [[65], [], MDPC_CLIENT, bytes_of ''mmi.'',
     of_char (CHR ''@'') # replicate 32 0, [120]]) (new_broker\<lparr>ticks := 1\<rparr>) = Inl AssertFail"
  by (auto simp: message_simps client_process_def service_require_def reserved_name_def starts_in_mmi_def
      service_internal_def wrap_def push_front_def address_of_def unwrap_def body_set_def push_back_def
      socket_send_def zmsg_send_eq le_Suc_eq send_part_def is_uuid_part_def decode_uuid_def c_str_zeros)

lemma short_messages:
  "broker_message E (deliver [[65], [], MDPC_CLIENT, [120]]) (new_broker\<lparr>ticks := 1\<rparr>) = Inl AssertFail"
  "broker_message E (deliver [[65], [120]]) (new_broker\<lparr>ticks := 1\<rparr>) = Inl NullString"
  by (simp_all add: message_simps client_process_def)

lemma heartbeat_part_idle:
  assumes "m_waiting b = []"
  shows "\<exists>t u v. heartbeat_part E due b = Inr \<lparr>brk = b\<lparr>ticks := t\<rparr>, now = u, heartbeat_at = v\<rparr>"
  using assms
  by (auto simp: heartbeat_part_def read_clock_def purge_workers_def send_heartbeats_def)

lemma reply_before_ready:
  "start_brokering E [Some (deliver [[65], [], MDPW_WORKER, [9]]),
     Some (deliver [[65], [], MDPW_WORKER, MDPW_REPLY, [66], [], [120]])] new_broker = Inl NullDeref"
proof -
  let ?b = "new_broker\<lparr>heap := [1 \<mapsto> new_worker [65]], m_workers := [[65] \<mapsto> 1], next_addr := Suc 1, ticks := 1\<rparr>"
  have first: "broker_message E (deliver [[65], [], MDPW_WORKER, [9]]) (new_broker\<lparr>ticks := 1\<rparr>) = Inr ?b"
    by (simp add: message_simps worker_process_def worker_require_def)
  have second: "broker_message E (deliver [[65], [], MDPW_WORKER, MDPW_REPLY, [66], [], [120]])
      (?b\<lparr>ticks := t\<rparr>) = Inl NullDeref" for t
    by (simp add: message_simps worker_process_def worker_require_def unwrap_def address_of_def
        new_worker_def)
  show ?thesis
    using first heartbeat_part_idle [of ?b E "s_clock (clock E 0) + HEARTBEAT_INTERVAL"] second
    by (auto simp: start_brokering_def broker_start_def read_clock_def broker_turn_eq new_broker_def)
qed

text \<open>Five ways to end the process from outside: asking \<open>mmi.service\<close> for a service nobody offers, a
  reply from a peer whose first command was unknown, a worker with an automatic identity of the
  older ZeroMQ (5 bytes, the first one NUL), a body part that looks like a text UUID with a NUL in
  it, a message that is too short.\<close>

text \<open>
  Each of these inputs ends the broker: asking mmi.service for a service that was never
  registered (out_of_range), a reply from a peer whose first command was not READY (null service
  pointer), a worker with a 5-byte identity that starts with NUL (assert), a body part that looks
  like a text UUID but holds a NUL (assert), a client message without a body (assert), and a
  message of two frames (string built from a null pointer).
\<close>

theorem crash_inputs:
  "start_brokering E (Some (deliver [[65], [], MDPC_CLIENT, bytes_of ''mmi.service'', [120]]) # inputs)
     new_broker = Inl OutOfRange
   \<and> start_brokering E [Some (deliver [[65], [], MDPW_WORKER, [9]]),
       Some (deliver [[65], [], MDPW_WORKER, MDPW_REPLY, [66], [], [120]])] new_broker = Inl NullDeref
   \<and> start_brokering E (Some (deliver [[0, 1, 2, 3, 4], [], MDPW_WORKER, MDPW_READY, [120]]) # inputs)
       new_broker = Inl AssertFail
   \<and> start_brokering (E\<lparr>first_part := send_start\<rparr>) (Some (deliver [[65], [], MDPC_CLIENT,
       bytes_of ''mmi.'', of_char (CHR ''@'') # replicate 32 0, [120]]) # inputs) new_broker = Inl AssertFail
   \<and> start_brokering E (Some (deliver [[65], [], MDPC_CLIENT, [120]]) # inputs) new_broker = Inl AssertFail
   \<and> start_brokering E (Some (deliver [[65], [120]]) # inputs) new_broker = Inl NullString"
  by (intro conjI first_message_fault unknown_service_lookup reply_before_ready identity_with_nul
      part_like_uuid short_messages) (simp add: send_start_def)

subsection \<open>A request and its reply\<close>

lemma dispatch_loop_turns:
  "dispatch_turn E n b = Inr None \<Longrightarrow> dispatch_loop E n b = Inr b"
  "dispatch_turn E n b = Inr (Some c) \<Longrightarrow> dispatch_loop E n b = dispatch_loop E n c"
  by (simp_all add: dispatch_loop.simps [of E n b])

lemma broker_message_relayed:
  assumes "list_all2 relayed fs (s # x # h # rest)"
  shows "broker_message E (deliver fs) b =
    (if c_str h = MDPC_CLIENT then client_process E (c_str s) rest b
     else if c_str h = MDPW_WORKER then worker_process E (c_str s) rest b else Inr b)"
proof -
  have "fs \<noteq> []" using assms by auto
  with mapE_relayed(1) [OF assms] show ?thesis
    by (simp add: broker_message_def recv_deliver)
qed

lemma socket_send_relayed:
  "first_part E = send_start_example \<Longrightarrow> list_all2 relayed fs ps \<Longrightarrow>
   socket_send E ps b = Inr (b\<lparr>sent := sent b @ [with_more fs]\<rparr>)"
  by (simp add: socket_send_def zmsg_send_eq send_start_example_def mapE_relayed)

definition steady_clock :: "env \<Rightarrow> bool" where
  "steady_clock E \<longleftrightarrow> (\<exists>T. \<forall>i. T \<le> s_clock (clock E i) \<and> s_clock (clock E i) < T + HEARTBEAT_INTERVAL)"

lemma steady_less: "steady_clock E \<Longrightarrow> s_clock (clock E i) < s_clock (clock E j) + HEARTBEAT_INTERVAL"
  unfolding steady_clock_def by (metis add_le_cancel_right order.strict_trans2)

definition idle_broker :: "env \<Rightarrow> bytes \<Rightarrow> bytes \<Rightarrow> nat \<Rightarrow> int \<Rightarrow> wire list \<Rightarrow> broker" where
  "idle_broker E w n t e ws = \<lparr>
     m_services = [n \<mapsto> \<lparr>srv_name = n, srv_requests = [], srv_waiting = [1], srv_workers = junk E n + 1\<rparr>],
     m_workers = [w \<mapsto> 1], m_waiting = [1],
     heap = [1 \<mapsto> \<lparr>wrk_identity = w, wrk_service = Some n, wrk_expiry = e\<rparr>],
     next_addr = 2, ticks = t, sent = ws\<rparr>"

definition busy_broker :: "env \<Rightarrow> bytes \<Rightarrow> bytes \<Rightarrow> nat \<Rightarrow> int \<Rightarrow> wire list \<Rightarrow> broker" where
  "busy_broker E w n t e ws = (idle_broker E w n t e ws)\<lparr>m_waiting := [],
     m_services := [n \<mapsto> \<lparr>srv_name = n, srv_requests = [], srv_waiting = [], srv_workers = junk E n + 1\<rparr>]\<rparr>"

lemma register_idle:
  assumes "steady_clock E" "relayed wid w" "nul_free w" "w \<noteq> []" "\<not> reserved_name w"
    "n \<noteq> []" "nul_free n" "relayed n n"
  shows "broker_message E (deliver [wid, [], MDPW_WORKER, MDPW_READY, n]) (new_broker\<lparr>ticks := t\<rparr>)
    = Inr (idle_broker E w n (t + 2) (s_clock (clock E t) + HEARTBEAT_EXPIRY) [])"
proof -
  have fs: "list_all2 relayed [wid, [], MDPW_WORKER, MDPW_READY, n] [w, [], MDPW_WORKER, MDPW_READY, n]"
    using assms by simp
  have late: "\<not> s_clock (clock E t) + HEARTBEAT_EXPIRY \<le> s_clock (clock E (Suc t))"
    using steady_less [OF assms(1), of "Suc t" t]
    by (simp add: HEARTBEAT_EXPIRY_def HEARTBEAT_INTERVAL_def HEARTBEAT_LIVENESS_def)
  show ?thesis
    unfolding broker_message_relayed [OF fs]
    using assms late
    by (simp add: c_str_nul_free c_str_Cons worker_process_def parts_def worker_require_def new_broker_def
        service_require_def new_service_def new_worker_def upd_worker_def upd_service_def
        worker_waiting_def set_insert_def read_clock_def service_dispatch_def purge_workers_def expired_def
        dispatch_loop_turns dispatch_turn_def idle_broker_def Let_def)
qed

lemma request_forwarded:
  assumes "s_clock (clock E t) < e" "relayed wid w" "relayed cf c" "relayed n n" "nul_free c" "nul_free w"
    "n \<noteq> []" "nul_free n" "\<not> reserved_name n" "\<forall>d \<in> set body. relayed d d" "body \<noteq> []"
    "first_part E = send_start_example"
  shows "broker_message E (deliver ([cf, [], MDPC_CLIENT, n] @ body)) (idle_broker E w n t e ws)
    = Inr (busy_broker E w n (t + 1) e (ws @ [with_more ([wid, [], MDPW_WORKER, MDPW_REQUEST, cf, []] @ body)]))"
proof -
  have body: "list_all2 relayed body body"
    using assms(10) by (simp add: list.rel_refl_strong)
  have fs: "list_all2 relayed ([cf, [], MDPC_CLIENT, n] @ body) (c # [] # MDPC_CLIENT # n # body)"
    using assms(3,4) body by simp
  have out: "list_all2 relayed ([wid, [], MDPW_WORKER, MDPW_REQUEST, cf, []] @ body)
      ([w, [], MDPW_WORKER, MDPW_REQUEST, c, []] @ body)"
    using assms(2,3) body by simp
  show ?thesis
    unfolding broker_message_relayed [OF fs]
    using assms socket_send_relayed [OF assms(12) out]
    by (simp add: c_str_nul_free c_str_Cons client_process_def parts_def service_require_def
        upd_service_def service_dispatch_def purge_workers_def expired_def read_clock_def
        wrap_def push_front_def worker_send_def zmsg_copy_def choose_worker_def erase_at_def
        expiry_of_def Suc_le_eq
        dispatch_loop_turns dispatch_turn_def idle_broker_def busy_broker_def Let_def)
qed

lemma reply_forwarded:
  assumes "steady_clock E" "relayed wid w" "relayed cf c" "relayed n n" "nul_free c" "nul_free w" "w \<noteq> []"
    "n \<noteq> []" "nul_free n" "\<forall>d \<in> set body. relayed d d"
    "first_part E = send_start_example"
  shows "broker_message E (deliver ([wid, [], MDPW_WORKER, MDPW_REPLY, cf, []] @ body)) (busy_broker E w n t e ws)
    = Inr (idle_broker E w n (t + 2) (s_clock (clock E t) + HEARTBEAT_EXPIRY)
        (ws @ [with_more ([cf, [], MDPC_CLIENT, n] @ body)]))"
proof -
  have body: "list_all2 relayed body body"
    using assms(10) by (simp add: list.rel_refl_strong)
  have fs: "list_all2 relayed ([wid, [], MDPW_WORKER, MDPW_REPLY, cf, []] @ body)
      (w # [] # MDPW_WORKER # MDPW_REPLY # c # [] # body)"
    using assms(2,3) body by simp
  have out: "list_all2 relayed ([cf, [], MDPC_CLIENT, n] @ body) ([c, [], MDPC_CLIENT, n] @ body)"
    using assms(3,4) body by simp
  have late: "\<not> s_clock (clock E t) + HEARTBEAT_EXPIRY \<le> s_clock (clock E (Suc t))"
    using steady_less [OF assms(1), of "Suc t" t]
    by (simp add: HEARTBEAT_EXPIRY_def HEARTBEAT_INTERVAL_def HEARTBEAT_LIVENESS_def)
  show ?thesis
    unfolding broker_message_relayed [OF fs]
    using assms late socket_send_relayed [OF assms(11) out]
    by (simp add: c_str_nul_free c_str_Cons worker_process_def parts_def worker_require_def unwrap_def
        address_of_def wrap_def push_front_def upd_worker_def upd_service_def
        worker_waiting_def set_insert_def read_clock_def service_dispatch_def purge_workers_def expired_def
        dispatch_loop_turns dispatch_turn_def idle_broker_def busy_broker_def Let_def)
qed

text \<open>
  With the send loop that starts at part 0, and while no heartbeat falls due: the worker registers, the
  client's request reaches it with the client's address in the envelope, and its reply reaches the client
  under the service's name, both with their bodies unchanged.
\<close>

lemma request_reply_run:
  assumes "first_part E = send_start_example" "steady_clock E"
    and "relayed wid w" "nul_free w" "w \<noteq> []" "\<not> reserved_name w" "relayed cid c" "nul_free c"
    and "n \<noteq> []" "nul_free n" "relayed n n" "\<not> reserved_name n"
    and "\<forall>d \<in> set request. relayed d d" "request \<noteq> []" "\<forall>d \<in> set reply. relayed d d"
  shows "\<exists>s. start_brokering E
      [Some (deliver [wid, [], MDPW_WORKER, MDPW_READY, n]),
       Some (deliver ([cid, [], MDPC_CLIENT, n] @ request)),
       Some (deliver ([wid, [], MDPW_WORKER, MDPW_REPLY, cid, []] @ reply))] new_broker = Inr s
    \<and> sent (brk s) = [with_more ([wid, [], MDPW_WORKER, MDPW_REQUEST, cid, []] @ request),
                      with_more ([cid, [], MDPC_CLIENT, n] @ reply)]"
proof -
  let ?due = "s_clock (clock E 0) + HEARTBEAT_INTERVAL"
  have quiet: "heartbeat_part E ?due b
      = Inr \<lparr>brk = b\<lparr>ticks := Suc (ticks b)\<rparr>, now = s_clock (clock E (ticks b)), heartbeat_at = ?due\<rparr>" for b
    using steady_less [OF assms(2), of "ticks b" 0]
    by (simp add: heartbeat_part_def read_clock_def)
  have turn: "broker_turn E (Some r) \<lparr>brk = b, now = t, heartbeat_at = ?due\<rparr>
      = Inr \<lparr>brk = c\<lparr>ticks := Suc (ticks c)\<rparr>, now = s_clock (clock E (ticks c)), heartbeat_at = ?due\<rparr>"
    if "broker_message E r b = Inr c" for r b c t
    using that quiet [of c] by (simp add: broker_turn_eq)
  let ?e = "s_clock (clock E 1) + HEARTBEAT_EXPIRY"
  have fresh: "s_clock (clock E 4) < ?e"
    using steady_less [OF assms(2), of 4 1]
    by (simp add: HEARTBEAT_EXPIRY_def HEARTBEAT_INTERVAL_def HEARTBEAT_LIVENESS_def)
  have tick: "(idle_broker E w n t e ws)\<lparr>ticks := t'\<rparr> = idle_broker E w n t' e ws"
    "(busy_broker E w n t e ws)\<lparr>ticks := t'\<rparr> = busy_broker E w n t' e ws" for t e ws t'
    by (simp_all add: idle_broker_def busy_broker_def)
  have ticks: "ticks (idle_broker E w n t e ws) = t" "ticks (busy_broker E w n t e ws) = t"
    "sent (idle_broker E w n t e ws) = ws" for t e ws
    by (simp_all add: idle_broker_def busy_broker_def)
  have start: "broker_start E new_broker = \<lparr>brk = new_broker\<lparr>ticks := 1\<rparr>, now = s_clock (clock E 0),
      heartbeat_at = ?due\<rparr>"
    by (simp add: broker_start_def read_clock_def new_broker_def)
  have four: "Suc (Suc (Suc (Suc 0))) = 4" by simp
  note r1 = turn [OF register_idle [OF assms(2,3,4,5,6,9,10,11), of 1]]
  note r2 = turn [OF request_forwarded [OF fresh assms(3,7,11,8,4,9,10,12,13,14,1), of "[]"]]
  note r3 = turn [OF reply_forwarded [OF assms(2,3,7,11,8,4,5,9,10,15,1)]]
  show ?thesis
    using r1 r2 r3
    by (simp add: start_brokering_def start tick ticks four del: deliver.simps with_more.simps)
qed

theorem request_reply_roundtrip:
  assumes "first_part E = send_start_example" "steady_clock E"
    and "relayed wid w" "nul_free w" "w \<noteq> []" "\<not> reserved_name w" "relayed cid c" "nul_free c"
    and "n \<noteq> []" "nul_free n" "relayed n n" "\<not> reserved_name n"
    and "\<forall>d \<in> set request. relayed d d" "request \<noteq> []" "\<forall>d \<in> set reply. relayed d d"
  shows "\<exists>s. start_brokering E
      [Some (deliver [wid, [], MDPW_WORKER, MDPW_READY, n]),
       Some (deliver ([cid, [], MDPC_CLIENT, n] @ request)),
       Some (deliver ([wid, [], MDPW_WORKER, MDPW_REPLY, cid, []] @ reply))] new_broker = Inr s
    \<and> sent (brk s) = [with_more ([wid, [], MDPW_WORKER, MDPW_REQUEST, cid, []] @ request),
                      with_more ([cid, [], MDPC_CLIENT, n] @ reply)]"
  using assms by (rule request_reply_run)

end
