(* ===== verification/Broker_Examples.thy ===== *)
theory Broker_Examples
  imports Broker_Run
begin

section \<open>The broker's properties at concrete states\<close>

text \<open>
  A broker with the service \<open>echo\<close> and one idle worker, whose identity is the text form of a UUID, and
  the broker's properties applied to it: every hypothesis of theirs can be met.
\<close>

definition demo_env :: env where
  "demo_env = \<lparr>clock = (\<lambda>_. \<lparr>tv_sec = 10, tv_usec = 5000\<rparr>), junk = (\<lambda>_. 0), first_part = send_start_example\<rparr>"

definition demo_frame :: bytes where
  "demo_frame = 0 # replicate 16 171"

definition demo_identity :: bytes where
  "demo_identity = of_char (CHR ''@'') # concat (replicate 16 [65, 66])"

definition demo_broker :: broker where
  "demo_broker = idle_broker demo_env demo_identity [101, 99, 104, 111] 5 20000 []"

definition demo_queued :: broker where
  "demo_queued = upd_service [101, 99, 104, 111]
     (\<lambda>s. s\<lparr>srv_requests := [[[67], [], [1]], [[68], [], [2]]]\<rparr>) demo_broker"

lemma demo_relayed: "relayed demo_frame demo_identity"
  by (simp add: relayed_def demo_frame_def demo_identity_def is_uuid_part_def) code_simp

lemma demo_identity_plain: "nul_free demo_identity" "demo_identity \<noteq> []" "\<not> reserved_name demo_identity"
  by code_simp+

lemma idle_broker_ok:
  assumes "w \<noteq> []" "nul_free w"
  shows "broker_ok E (idle_broker E w n t e ws)"
proof -
  have "attached (idle_broker E w n t e ws) m = (if m = n then {1} else {})" for m
    by (auto simp: attached_def idle_broker_def)
  then show ?thesis
    using assms by (intro broker_okI) (auto simp: ok_defs idle_broker_def)
qed

lemma demo_ok: "broker_ok demo_env demo_broker" "broker_ok demo_env demo_queued"
  by (simp_all add: demo_broker_def demo_queued_def idle_broker_ok demo_identity_plain ok_upd_requests)

lemma demo_clock: "s_clock (clock demo_env i) = 10005" "steady_clock demo_env" "clock_mono demo_env"
  by (auto simp: demo_env_def s_clock_def steady_clock_def clock_mono_def HEARTBEAT_INTERVAL_def
      intro!: exI [of _ 10005])

lemmas demo_defs = demo_env_def demo_broker_def demo_queued_def idle_broker_def upd_service_def

lemma request_reply_roundtrip_witness:
  "\<exists>s. start_brokering demo_env
      [Some (deliver [demo_frame, [], MDPW_WORKER, MDPW_READY, [101, 99, 104, 111]]),
       Some (deliver [[67], [], MDPC_CLIENT, [101, 99, 104, 111], [1]]),
       Some (deliver [demo_frame, [], MDPW_WORKER, MDPW_REPLY, [67], [], [2]])] new_broker = Inr s
    \<and> sent (brk s) = [with_more [demo_frame, [], MDPW_WORKER, MDPW_REQUEST, [67], [], [1]],
                      with_more [[67], [], MDPC_CLIENT, [101, 99, 104, 111], [2]]]"
proof -
  have "first_part demo_env = send_start_example" by (simp add: demo_env_def)
  moreover have "\<not> reserved_name [101, 99, 104, 111]" by code_simp
  ultimately show ?thesis
    using request_reply_roundtrip [of demo_env demo_frame demo_identity "[67]" "[67]" "[101, 99, 104, 111]"
        "[[1]]" "[[2]]"] demo_clock(2) demo_relayed demo_identity_plain
    by simp
qed

lemma dispatch_assigns_witness:
  "\<exists>c wss t. dispatch_loop demo_env [101, 99, 104, 111] demo_queued = Inr c \<and> sent c = wss
     \<and> mapE (request_wire demo_env demo_queued) [(1, [[67], [], [1]])] = Inr wss
     \<and> m_services c [101, 99, 104, 111] = Some t \<and> srv_requests t = [[[68], [], [2]]]"
proof -
  let ?n = "[101, 99, 104, 111] :: bytes"
  let ?s = "\<lparr>srv_name = ?n, srv_requests = [[[67], [], [1]], [[68], [], [2]]], srv_waiting = [1], srv_workers = 1\<rparr>"
  have s: "m_services demo_queued ?n = Some ?s" by (simp add: demo_defs)
  have "isl (dispatch_loop demo_env ?n demo_queued) = False"
    by code_simp
  then obtain c where c: "dispatch_loop demo_env ?n demo_queued = Inr c"
    by (cases "dispatch_loop demo_env ?n demo_queued") auto
  from dispatch_assigns [OF demo_ok(2) s c] show ?thesis
    using c by (auto simp: demo_defs by_recency_def)
qed

lemma purge_exact_witness:
  "\<exists>c. purge_workers demo_env (idle_broker demo_env demo_identity [120] 5 10000 []) = Inr c
    \<and> m_waiting c = [] \<and> heap c 1 = None"
proof -
  let ?b = "idle_broker demo_env demo_identity [120] 5 10000 []"
  have "broker_ok demo_env ?b" by (simp add: idle_broker_ok demo_identity_plain)
  from purge_exact [OF this] show ?thesis
    by (auto simp: demo_clock idle_broker_def purged_def stale_def)
qed

lemma mmi_service_reply_witness:
  "service_internal demo_env (bytes_of ''mmi.service'') [[67], [], [101, 99, 104, 111]] demo_broker
    = socket_send demo_env [[67], [], MDPC_CLIENT, bytes_of ''mmi.service'', bytes_of ''200''] demo_broker
   \<and> service_internal demo_env (bytes_of ''mmi.service'') [[67], [], [120]] demo_broker = Inl OutOfRange"
proof -
  have "attached demo_broker [101, 99, 104, 111] = {1}"
    by (auto simp: attached_def demo_defs)
  then show ?thesis
    using mmi_service_reply [OF demo_ok(1), of "[67]" "[]" "[101, 99, 104, 111]"]
      mmi_service_reply [OF demo_ok(1), of "[67]" "[]" "[120]"]
    by (simp add: c_str_Cons demo_defs)
qed

lemma reserved_request_not_queued_witness:
  "client_process demo_env [67] [bytes_of ''media'', [1]] demo_broker =
    bindE (service_require demo_env (bytes_of ''media'') demo_broker) (\<lambda>(_, c).
      socket_send demo_env [[67], [], MDPC_CLIENT, bytes_of ''media'', bytes_of ''501''] c)"
proof -
  have "reserved_name (c_str (bytes_of ''media''))" "c_str (bytes_of ''media'') = bytes_of ''media''"
    "c_str (bytes_of ''media'') \<noteq> bytes_of ''mmi.service''"
    by code_simp+
  then show ?thesis
    using reserved_request_not_queued [of "bytes_of ''media''" "[67]" "[[1]]" demo_env demo_broker] by simp
qed

lemma stranger_disconnected_witness:
  "worker_process demo_env [90] [MDPW_HEARTBEAT] demo_broker
    = bindE (socket_send demo_env [[90], [], MDPW_WORKER, MDPW_DISCONNECT] demo_broker)
        (\<lambda>c. Inr (c\<lparr>next_addr := 3\<rparr>))"
proof -
  have "m_workers demo_broker [90] = None" by code_simp
  then show ?thesis
    using stranger_disconnected [OF demo_ok(1), of "[90]" MDPW_HEARTBEAT "[]"] by (simp add: demo_defs)
qed

lemma second_ready_disconnects_witness:
  "worker_process demo_env demo_identity [MDPW_READY, [120]] demo_broker
    = bindE (socket_send demo_env [demo_identity, [], MDPW_WORKER, MDPW_DISCONNECT] demo_broker)
        (\<lambda>c. Inr (forget_worker 1 \<lparr>wrk_identity = demo_identity, wrk_service = Some [101, 99, 104, 111],
            wrk_expiry = 20000\<rparr> c))"
  by (rule second_ready_disconnects [OF demo_ok(1)]) (simp_all add: demo_broker_def idle_broker_def)

lemma heartbeat_round_witness:
  "\<exists>t. broker_turn demo_env None \<lparr>brk = demo_broker, now = 0, heartbeat_at = 9000\<rparr> = Inr t
    \<and> heartbeat_at t = 11500 \<and> m_waiting (brk t) = [1]"
proof -
  let ?s = "\<lparr>brk = demo_broker, now = 0, heartbeat_at = 9000\<rparr>"
  have "isl (broker_turn demo_env None ?s) = False" by code_simp
  then obtain t where t: "broker_turn demo_env None ?s = Inr t"
    by (cases "broker_turn demo_env None ?s") auto
  have "broker_ok demo_env (brk ?s)" using demo_ok(1) by simp
  from heartbeat_round [OF this _ t] t show ?thesis
    by (auto simp: demo_clock demo_broker_def idle_broker_def stale_def HEARTBEAT_INTERVAL_def)
qed

lemma poll_waits_bounded_witness:
  "\<exists>s. start_brokering demo_env [None] new_broker = Inr s \<and> 0 \<le> poll_timeout s \<and> poll_timeout s \<le> 2500"
proof -
  have "isl (start_brokering demo_env [None] new_broker) = False" by code_simp
  then obtain s where s: "start_brokering demo_env [None] new_broker = Inr s"
    by (cases "start_brokering demo_env [None] new_broker") auto
  from poll_waits_bounded [OF demo_clock(3) s] s show ?thesis by (simp add: HEARTBEAT_INTERVAL_def)
qed

text \<open>A stranger's heartbeat, answered by one disconnect.\<close>

definition demo_inputs :: "incoming option list" where
  "demo_inputs = [Some (deliver [[90], [], MDPW_WORKER, MDPW_HEARTBEAT])]"

lemma run_output_enveloped_witness:
  "\<exists>s ws ident header payload frames. start_brokering demo_env demo_inputs new_broker = Inr s \<and> ws \<in> set (sent (brk s))
     \<and> protocol_message (ident # [] # header # payload) \<and> mapE send_part payload = Inr frames
     \<and> (\<exists>address. send_part ident = Inr address \<and> ws = with_more (address # [] # header # frames))"
proof -
  let ?run = "start_brokering demo_env demo_inputs new_broker"
  have "isl ?run = False" by code_simp
  then obtain s where s: "?run = Inr s" by (cases ?run) auto
  have "sent (brk (projr ?run)) \<noteq> []" by code_simp
  then obtain ws where ws: "ws \<in> set (sent (brk s))" using s by (cases "sent (brk s)") auto
  have "first_part demo_env \<in> {send_start_example, send_start}" by (simp add: demo_env_def)
  moreover have "first_part demo_env = send_start_example" by (simp add: demo_env_def)
  ultimately show ?thesis using run_output_enveloped [OF s ws] s ws by blast
qed

lemma no_reply_is_addressed_witness:
  "\<exists>s. start_brokering (demo_env\<lparr>first_part := send_start\<rparr>) demo_inputs new_broker = Inr s
     \<and> (\<forall>ws \<in> set (sent (brk s)). \<exists>rest. ws = ([], True) # rest)"
proof -
  let ?E = "demo_env\<lparr>first_part := send_start\<rparr>"
  have "isl (start_brokering ?E demo_inputs new_broker) = False" by code_simp
  then obtain s where s: "start_brokering ?E demo_inputs new_broker = Inr s"
    by (cases "start_brokering ?E demo_inputs new_broker") auto
  have "first_part ?E = send_start" by simp
  from no_reply_is_addressed [OF this s] s show ?thesis by blast
qed

end
