(* ===== verification/MdWorker.thy ===== *)
theory MdWorker
  imports Mdp
begin

section \<open>The worker API (mdwrkapi.hpp) and the echo worker (mdworker.cpp)\<close>

text \<open>
  The class \<open>mdwrk\<close>: one definition per method, passing the object explicitly. The socket belongs to
  libzmq; what the object does to it (connecting with a fresh identity, sending frames) and to the
  process (sleeping) is appended to \<open>wk_trace\<close>. A loop turn of \<open>recv\<close> is given the outcome of its
  \<open>zmq::poll\<close>: \<open>None\<close> for a timeout, otherwise what the following \<open>recv\<close> calls return. \<open>s_interrupted\<close> is
  set when the list of outcomes ends. Console output is not modelled; \<open>m_verbose\<close> has no other effect.
\<close>

subsection \<open>State\<close>

definition WORKER_LIVENESS :: "64 word" where "WORKER_LIVENESS = 3"

record mdwrk =
  wk_broker :: bytes
  wk_service :: bytes
  wk_connected :: bool
  wk_heartbeat_at :: int
  wk_liveness :: "64 word"
  wk_heartbeat :: int
  wk_reconnect :: int
  wk_expect_reply :: bool
  wk_reply_to :: bytes
  wk_ticks :: nat
  wk_connects :: nat
  wk_trace :: "action list"

definition wk_act :: "action \<Rightarrow> mdwrk \<Rightarrow> mdwrk" where
  "wk_act x w = w\<lparr>wk_trace := wk_trace w @ [x]\<rparr>"

definition wk_read_clock :: "peer_env \<Rightarrow> mdwrk \<Rightarrow> int \<times> mdwrk" where
  "wk_read_clock P w = (s_clock (peer_clock P (wk_ticks w)), w\<lparr>wk_ticks := Suc (wk_ticks w)\<rparr>)"

subsection \<open>Methods\<close>

definition wk_send_to_broker :: "peer_env \<Rightarrow> bytes \<Rightarrow> bytes \<Rightarrow> zmsg option \<Rightarrow> mdwrk \<Rightarrow> fault + mdwrk" where
  "wk_send_to_broker P command option msg_p w =
     (let msg = (case msg_p of None \<Rightarrow> zmsg_new | Some m \<Rightarrow> zmsg_copy m);
          msg = (if length option \<noteq> 0 then push_front option msg else msg);
          msg = push_front [] (push_front MDPW_WORKER (push_front command msg))
      in bindE (zmsg_send (peer_first P) msg) (\<lambda>(ws, _). Inr (wk_act (SendFrames ws) w)))"

definition wk_connect_to_broker :: "peer_env \<Rightarrow> mdwrk \<Rightarrow> fault + mdwrk" where
  "wk_connect_to_broker P w =
     (let ident = set_id_text (peer_rand P (wk_connects w));
          w = wk_act (ConnectTo ident (wk_broker w))
                (w\<lparr>wk_connected := True, wk_connects := Suc (wk_connects w)\<rparr>)
      in bindE (wk_send_to_broker P MDPW_READY (wk_service w) None w) (\<lambda>w.
           let w = w\<lparr>wk_liveness := WORKER_LIVENESS\<rparr>;
               (t, w) = wk_read_clock P w
           in Inr (w\<lparr>wk_heartbeat_at := t + wk_heartbeat w\<rparr>)))"

text \<open>The constructor; the two members it leaves uninitialised are set by \<open>connect_to_broker\<close>.\<close>

definition mdwrk_new :: "peer_env \<Rightarrow> bytes \<Rightarrow> bytes \<Rightarrow> fault + mdwrk" where
  "mdwrk_new P broker service =
     wk_connect_to_broker P \<lparr>wk_broker = broker, wk_service = service, wk_connected = False,
       wk_heartbeat_at = 0, wk_liveness = 0, wk_heartbeat = 2500, wk_reconnect = 2500,
       wk_expect_reply = False, wk_reply_to = [], wk_ticks = 0, wk_connects = 0, wk_trace = []\<rparr>"

definition set_heartbeat :: "int \<Rightarrow> mdwrk \<Rightarrow> mdwrk" where
  "set_heartbeat heartbeat w = w\<lparr>wk_heartbeat := heartbeat\<rparr>"

definition set_reconnect :: "int \<Rightarrow> mdwrk \<Rightarrow> mdwrk" where
  "set_reconnect reconnect w = w\<lparr>wk_reconnect := reconnect\<rparr>"

text \<open>The part of \<open>recv\<close> before its loop.\<close>

definition wk_reply :: "peer_env \<Rightarrow> zmsg option \<Rightarrow> mdwrk \<Rightarrow> fault + mdwrk" where
  "wk_reply P reply_p w =
     bindE (guardE (reply_p \<noteq> None \<or> \<not> wk_expect_reply w) AssertFail) (\<lambda>_.
     bindE (case reply_p of
              None \<Rightarrow> Inr w
            | Some reply \<Rightarrow>
                bindE (guardE (length (wk_reply_to w) \<noteq> 0) AssertFail) (\<lambda>_.
                  let reply = wrap (wk_reply_to w) (Some []) reply
                  in wk_send_to_broker P MDPW_REPLY [] (Some reply) (w\<lparr>wk_reply_to := []\<rparr>))) (\<lambda>w.
       Inr (w\<lparr>wk_expect_reply := True\<rparr>)))"

text \<open>A message from the broker: \<open>Some\<close> the request that \<open>recv\<close> returns, or \<open>None\<close> and the loop goes on.\<close>

definition wk_message :: "peer_env \<Rightarrow> incoming \<Rightarrow> mdwrk \<Rightarrow> fault + (zmsg option \<times> mdwrk)" where
  "wk_message P r w =
     bindE (zmsg_recv r zmsg_new) (\<lambda>(_, msg).
       let w = w\<lparr>wk_liveness := WORKER_LIVENESS\<rparr> in
     bindE (guardE (parts msg \<ge> 3) AssertFail) (\<lambda>_.
     bindE (pop_front msg) (\<lambda>(empty, msg).
     bindE (guardE (empty = []) AssertFail) (\<lambda>_.
     bindE (pop_front msg) (\<lambda>(header, msg).
     bindE (guardE (header = MDPW_WORKER) AssertFail) (\<lambda>_.
     bindE (pop_front msg) (\<lambda>(part, msg).
       let command = c_str part in
       if command = MDPW_REQUEST then
         bindE (unwrap msg) (\<lambda>(client, msg). Inr (Some msg, w\<lparr>wk_reply_to := client\<rparr>))
       else if command = MDPW_HEARTBEAT then Inr (None, w)
       else if command = MDPW_DISCONNECT then
         bindE (wk_connect_to_broker P w) (\<lambda>w. Inr (None, w))
       else Inr (None, w))))))))"

definition wk_silence :: "peer_env \<Rightarrow> mdwrk \<Rightarrow> fault + mdwrk" where
  "wk_silence P w =
     (let w = w\<lparr>wk_liveness := wk_liveness w - 1\<rparr> in
      if wk_liveness w = 0 then wk_connect_to_broker P (wk_act (SleepFor (wk_reconnect w)) w)
      else Inr w)"

definition wk_heartbeat_due :: "peer_env \<Rightarrow> mdwrk \<Rightarrow> fault + mdwrk" where
  "wk_heartbeat_due P w =
     (let (t, w) = wk_read_clock P w in
      if t \<ge> wk_heartbeat_at w then
        bindE (wk_send_to_broker P MDPW_HEARTBEAT [] None w) (\<lambda>w.
          Inr (w\<lparr>wk_heartbeat_at := wk_heartbeat_at w + wk_heartbeat w\<rparr>))
      else Inr w)"

text \<open>The loop of \<open>recv\<close>, with the poll outcomes it has not used yet.\<close>

fun wk_loop :: "peer_env \<Rightarrow> incoming option list \<Rightarrow> mdwrk
    \<Rightarrow> fault + (zmsg option \<times> incoming option list \<times> mdwrk)" where
  "wk_loop P [] w = Inr (None, [], w)"
| "wk_loop P (Some r # polls) w =
     bindE (wk_message P r w) (\<lambda>(request, w).
       case request of
         Some msg \<Rightarrow> Inr (Some msg, polls, w)
       | None \<Rightarrow> bindE (wk_heartbeat_due P w) (wk_loop P polls))"
| "wk_loop P (None # polls) w =
     bindE (wk_silence P w) (\<lambda>w. bindE (wk_heartbeat_due P w) (wk_loop P polls))"

definition wk_recv :: "peer_env \<Rightarrow> zmsg option \<Rightarrow> incoming option list \<Rightarrow> mdwrk
    \<Rightarrow> fault + (zmsg option \<times> incoming option list \<times> mdwrk)" where
  "wk_recv P reply_p polls w = bindE (wk_reply P reply_p w) (wk_loop P polls)"

subsection \<open>The echo worker\<close>

lemma wk_loop_uses:
  "wk_loop P polls w = Inr (Some msg, rest, w') \<Longrightarrow> length rest < length polls"
proof (induction P polls w rule: wk_loop.induct)
  case (2 P r polls w)
  then obtain request v where "wk_message P r w = Inr (request, v)"
    by (auto simp: bindE_eq_Inr)
  with 2 show ?case by (cases request) (fastforce simp: bindE_eq_Inr)+
next
  case (3 P polls w)
  then show ?case by (fastforce simp: bindE_eq_Inr)
qed simp

text \<open>The \<open>while (1)\<close> of \<open>main\<close>: each request is the next reply.\<close>

function mdworker_loop :: "peer_env \<Rightarrow> zmsg option \<Rightarrow> incoming option list \<Rightarrow> mdwrk \<Rightarrow> fault + mdwrk" where
  "mdworker_loop P reply polls w =
     bindE (wk_recv P reply polls w) (\<lambda>(request, polls', w).
       case request of
         None \<Rightarrow> Inr w
       | Some msg \<Rightarrow> mdworker_loop P (Some msg) polls' w)"
  by pat_completeness auto
termination
  by (relation "measure (\<lambda>(P, reply, polls, w). length polls)")
    (auto simp: wk_recv_def bindE_eq_Inr dest: wk_loop_uses)

declare mdworker_loop.simps [simp del]

definition mdworker_main :: "peer_env \<Rightarrow> incoming option list \<Rightarrow> fault + mdwrk" where
  "mdworker_main P polls =
     bindE (mdwrk_new P (bytes_of ''tcp://localhost:5555'') (bytes_of ''echo''))
       (mdworker_loop P None polls)"

subsection \<open>Sending cannot fail by itself\<close>

lemma wk_send_command:
  obtains ws where "wk_send_to_broker P command option None w = Inr (wk_act (SendFrames ws) w)"
proof -
  have "\<forall>d \<in> set (push_front [] (push_front MDPW_WORKER (push_front command
      (if length option \<noteq> 0 then push_front option zmsg_new else zmsg_new)))). nul_free d"
    by (auto simp: push_front_def zmsg_new_def)
  then obtain ws where "zmsg_send (peer_first P) (push_front [] (push_front MDPW_WORKER (push_front command
      (if length option \<noteq> 0 then push_front option zmsg_new else zmsg_new)))) = Inr (ws, [])"
    by (rule zmsg_send_nul_free)
  then show ?thesis
    by (intro that [of ws]) (simp add: wk_send_to_broker_def)
qed

lemma wk_act_fields [simp]:
  "wk_liveness (wk_act x w) = wk_liveness w" "wk_connects (wk_act x w) = wk_connects w"
  "wk_broker (wk_act x w) = wk_broker w" "wk_service (wk_act x w) = wk_service w"
  "wk_heartbeat (wk_act x w) = wk_heartbeat w" "wk_reconnect (wk_act x w) = wk_reconnect w"
  "wk_heartbeat_at (wk_act x w) = wk_heartbeat_at w" "wk_reply_to (wk_act x w) = wk_reply_to w"
  "wk_ticks (wk_act x w) = wk_ticks w" "wk_expect_reply (wk_act x w) = wk_expect_reply w"
  "wk_trace (wk_act x w) = wk_trace w @ [x]"
  by (simp_all add: wk_act_def)

lemma wk_connect_Inr:
  obtains v ws where "wk_connect_to_broker P w = Inr v" "wk_liveness v = 3"
    "wk_connects v = Suc (wk_connects w)" "wk_reconnect v = wk_reconnect w"
    "wk_expect_reply v = wk_expect_reply w"
    "wk_trace v = wk_trace w @ [ConnectTo (set_id_text (peer_rand P (wk_connects w))) (wk_broker w), SendFrames ws]"
proof -
  let ?w = "wk_act (ConnectTo (set_id_text (peer_rand P (wk_connects w))) (wk_broker w))
      (w\<lparr>wk_connected := True, wk_connects := Suc (wk_connects w)\<rparr>)"
  obtain ws where "wk_send_to_broker P MDPW_READY (wk_service ?w) None ?w = Inr (wk_act (SendFrames ws) ?w)"
    by (rule wk_send_command)
  then show ?thesis
    by - (rule that [of _ ws], simp add: wk_connect_to_broker_def Let_def wk_read_clock_def
        WORKER_LIVENESS_def, simp_all)
qed

lemma wk_heartbeat_due_Inr:
  obtains v acts where "wk_heartbeat_due P w = Inr v" "wk_liveness v = wk_liveness w"
    "wk_connects v = wk_connects w" "wk_reconnect v = wk_reconnect w"
proof -
  obtain t u where tu: "wk_read_clock P w = (t, u)" "wk_liveness u = wk_liveness w"
    "wk_connects u = wk_connects w" "wk_reconnect u = wk_reconnect w"
    by (simp add: wk_read_clock_def)
  obtain ws where "wk_send_to_broker P MDPW_HEARTBEAT [] None u = Inr (wk_act (SendFrames ws) u)"
    by (rule wk_send_command)
  with tu show ?thesis
    by (cases "t \<ge> wk_heartbeat_at u")
      (auto intro!: that simp: wk_heartbeat_due_def)
qed

subsection \<open>Liveness\<close>

definition alive :: "mdwrk \<Rightarrow> bool" where
  "alive w \<longleftrightarrow> wk_liveness w \<in> {1, 2, 3}"

lemma wk_silence_alive:
  assumes "alive w"
  obtains v where "wk_silence P w = Inr v" "alive v" "wk_reconnect v = wk_reconnect w"
    "wk_connects v = wk_connects w + (if wk_liveness w = 1 then 1 else 0)"
    "wk_liveness v = (if wk_liveness w = 1 then 3 else wk_liveness w - 1)"
proof (cases "wk_liveness w = 1")
  case True
  obtain v where "wk_connect_to_broker P (wk_act (SleepFor (wk_reconnect w)) (w\<lparr>wk_liveness := 0\<rparr>)) = Inr v"
    "wk_liveness v = 3" "wk_connects v = Suc (wk_connects w)" "wk_reconnect v = wk_reconnect w"
    using wk_connect_Inr [of P "wk_act (SleepFor (wk_reconnect w)) (w\<lparr>wk_liveness := 0\<rparr>)"] by auto
  with True show ?thesis
    by (intro that [of v]) (simp_all add: wk_silence_def alive_def)
next
  case False
  with assms show ?thesis
    by (intro that [of "w\<lparr>wk_liveness := wk_liveness w - 1\<rparr>"]) (auto simp: wk_silence_def alive_def)
qed

text \<open>Silent polls: after every third one, and only then, the worker sleeps and connects again.\<close>

definition silent_since :: "mdwrk \<Rightarrow> nat" where
  "silent_since w = 3 - unat (wk_liveness w)"

lemma silent_step:
  assumes "alive w"
  obtains v where "bindE (wk_silence P w) (wk_heartbeat_due P) = Inr v" "alive v"
    "wk_connects v = wk_connects w + Suc (silent_since w) div 3"
    "silent_since v = Suc (silent_since w) mod 3"
proof -
  obtain u where u: "wk_silence P w = Inr u" "alive u"
    "wk_connects u = wk_connects w + (if wk_liveness w = 1 then 1 else 0)"
    "wk_liveness u = (if wk_liveness w = 1 then 3 else wk_liveness w - 1)"
    by (rule wk_silence_alive [OF assms])
  obtain v where v: "wk_heartbeat_due P u = Inr v" "wk_liveness v = wk_liveness u" "wk_connects v = wk_connects u"
    by (rule wk_heartbeat_due_Inr)
  show ?thesis
    using assms u v by (intro that [of v]) (auto simp: alive_def silent_since_def)
qed

lemma silent_polls:
  assumes "alive w"
  shows "\<exists>v. wk_loop P (replicate k None) w = Inr (None, [], v) \<and> alive v
    \<and> wk_connects v = wk_connects w + (silent_since w + k) div 3
    \<and> silent_since v = (silent_since w + k) mod 3"
  using assms
proof (induction k arbitrary: w)
  case 0
  then show ?case by (auto simp: alive_def silent_since_def)
next
  case (Suc k)
  obtain u where u: "bindE (wk_silence P w) (wk_heartbeat_due P) = Inr u" "alive u"
    "wk_connects u = wk_connects w + Suc (silent_since w) div 3"
    "silent_since u = Suc (silent_since w) mod 3"
    by (rule silent_step [OF Suc.prems])
  have "wk_loop P (replicate (Suc k) None) w = wk_loop P (replicate k None) u"
    using u(1) by (simp add: bindE_assoc [symmetric])
  moreover have "Suc a div 3 + (Suc a mod 3 + k) div 3 = Suc (a + k) div 3"
    "(Suc a mod 3 + k) mod 3 = Suc (a + k) mod 3" for a
    by presburger+
  ultimately show ?case
    using Suc.IH [OF u(2)] u(3,4) by (auto simp: add.assoc)
qed

text \<open>A worker just connected to a silent broker: one reconnection for every three polls.\<close>

lemma mdwrk_new_Inr:
  obtains w where "mdwrk_new P broker service = Inr w" "wk_liveness w = 3" "wk_connects w = 1" "\<not> wk_expect_reply w"
proof -
  let ?w = "\<lparr>wk_broker = broker, wk_service = service, wk_connected = False,
       wk_heartbeat_at = 0, wk_liveness = 0, wk_heartbeat = 2500, wk_reconnect = 2500,
       wk_expect_reply = False, wk_reply_to = [], wk_ticks = 0, wk_connects = 0, wk_trace = []\<rparr>"
  from wk_connect_Inr [of P ?w] obtain w where "wk_connect_to_broker P ?w = Inr w"
    "wk_liveness w = 3" "wk_connects w = 1" "\<not> wk_expect_reply w" by auto
  then show ?thesis by (intro that [of w]) (simp_all add: mdwrk_new_def)
qed

text \<open>
  C9. Against a broker that stays silent for k polls the worker program does not fail, has
  connected exactly 1 + k div 3 times, and its liveness is 3 minus k mod 3.
\<close>

theorem silent_broker_reconnects:
  "\<exists>v. mdworker_main P (replicate k None) = Inr v \<and> wk_connects v = 1 + k div 3
     \<and> wk_liveness v = 3 - of_nat (k mod 3)"
proof -
  obtain w where w: "mdwrk_new P (bytes_of ''tcp://localhost:5555'') (bytes_of ''echo'') = Inr w"
    "wk_liveness w = 3" "wk_connects w = 1" "\<not> wk_expect_reply w" by (rule mdwrk_new_Inr)
  let ?w = "w\<lparr>wk_expect_reply := True\<rparr>"
  have "alive ?w" "silent_since ?w = 0" using w(2) by (simp_all add: alive_def silent_since_def)
  then obtain v where v: "wk_loop P (replicate k None) ?w = Inr (None, [], v)" "alive v"
    "wk_connects v = 1 + k div 3" "silent_since v = k mod 3"
    using silent_polls [of ?w P k] w(3) by auto
  have "wk_recv P None (replicate k None) w = Inr (None, [], v)"
    using w(4) v(1) by (simp add: wk_recv_def wk_reply_def)
  then have "mdworker_main P (replicate k None) = Inr v"
    using w(1) by (simp add: mdworker_main_def mdworker_loop.simps [of P None])
  moreover have "wk_liveness v = 3 - of_nat (k mod 3)"
    unfolding v(4) [symmetric] using v(2) by (auto simp: alive_def silent_since_def)
  ultimately show ?thesis using v(3) by blast
qed

subsection \<open>What the worker accepts\<close>

definition wk_request_shape :: "zmsg \<Rightarrow> bool" where
  "wk_request_shape msg \<longleftrightarrow> length msg \<ge> 3 \<and> msg ! 0 = [] \<and> msg ! 1 = MDPW_WORKER"

theorem worker_message_faults:
  assumes "zmsg_recv r zmsg_new = Inr (ok, msg)"
  shows "wk_message P r w = Inl f \<longleftrightarrow>
    \<not> wk_request_shape msg \<and> f = AssertFail
    \<or> wk_request_shape msg \<and> c_str (msg ! 2) = MDPW_REQUEST \<and> length msg = 3 \<and> f = NullString"
proof (cases "wk_request_shape msg")
  case False
  show ?thesis
  proof (cases "length msg \<ge> 3")
    case True
    then obtain a b c rest where "msg = a # b # c # rest"
      by (auto simp: Suc_le_length_iff numeral_3_eq_3)
    with assms False show ?thesis
      by (auto simp: wk_message_def parts_def wk_request_shape_def Let_def bindE_eq_Inl)
  next
    case l: False
    with assms False show ?thesis by (auto simp: wk_message_def parts_def)
  qed
next
  case True
  then obtain c rest where msg: "msg = [] # MDPW_WORKER # c # rest"
    by (auto simp: wk_request_shape_def Suc_le_length_iff numeral_3_eq_3)
  obtain v where "wk_connect_to_broker P (w\<lparr>wk_liveness := WORKER_LIVENESS\<rparr>) = Inr v"
    by (rule wk_connect_Inr)
  then show ?thesis
    using assms True msg
    by (cases rest) (auto simp: wk_message_def parts_def Let_def bindE_eq_Inl unwrap_fault_iff split: if_splits)
qed

subsection \<open>Request and reply\<close>

lemma worker_serving:
  assumes "peer_first P = send_start_example" "relayed cid c" "c \<noteq> []" "nul_free c"
    and "list_all2 relayed body msg" "list_all2 relayed body' reply"
  shows "\<exists>v u. wk_loop P (Some (deliver ([[], MDPW_WORKER, MDPW_REQUEST, cid, []] @ body)) # polls) w
        = Inr (Some msg, polls, v) \<and> wk_trace v = wk_trace w
      \<and> wk_recv P (Some reply) polls v = wk_loop P polls u
      \<and> wk_trace u = wk_trace w @ [SendFrames (with_more ([[], MDPW_WORKER, MDPW_REPLY, cid, []] @ body'))]"
proof -
  have "list_all2 relayed ([[], MDPW_WORKER, MDPW_REQUEST, cid, []] @ body)
      ([[], MDPW_WORKER, MDPW_REQUEST, c, []] @ msg)"
    using assms by simp
  from recv_relayed [OF this] have r: "zmsg_recv (deliver ([[], MDPW_WORKER, MDPW_REQUEST, cid, []] @ body)) zmsg_new
      = Inr (True, [[], MDPW_WORKER, MDPW_REQUEST, c, []] @ msg)" by simp
  have "list_all2 relayed ([[], MDPW_WORKER, MDPW_REPLY, cid, []] @ body')
      ([[], MDPW_WORKER, MDPW_REPLY, c, []] @ reply)"
    using assms by simp
  from send_relayed [OF this] have s: "zmsg_send (peer_first P) ([[], MDPW_WORKER, MDPW_REPLY, c, []] @ reply)
      = Inr (with_more ([[], MDPW_WORKER, MDPW_REPLY, cid, []] @ body'), [])"
    using assms(1) by simp
  let ?v = "w\<lparr>wk_liveness := 3, wk_reply_to := c\<rparr>"
  have "wk_loop P (Some (deliver ([[], MDPW_WORKER, MDPW_REQUEST, cid, []] @ body)) # polls) w
        = Inr (Some msg, polls, ?v)"
    using r assms(4) by (simp add: wk_message_def parts_def unwrap_def address_of_def c_str_Cons c_str_nul_free
        WORKER_LIVENESS_def del: deliver.simps)
  moreover have "wk_recv P (Some reply) polls ?v = wk_loop P polls
      (?v\<lparr>wk_reply_to := [], wk_trace := wk_trace w @ [SendFrames (with_more ([[], MDPW_WORKER, MDPW_REPLY, cid, []] @ body'))],
         wk_expect_reply := True\<rparr>)"
    using s assms(3,4) by (simp add: wk_recv_def wk_reply_def wk_send_to_broker_def wrap_def push_front_def
        c_str_Cons c_str_nul_free zmsg_copy_def wk_act_def Let_def del: with_more.simps)
  ultimately show ?thesis
    by (intro exI [of _ ?v] exI) (auto simp del: with_more.simps deliver.simps)
qed

theorem worker_serves:
  assumes "peer_first P = send_start_example" "relayed cid c" "c \<noteq> []" "nul_free c"
    and "list_all2 relayed body msg" "list_all2 relayed body' reply"
  shows "\<exists>v u. wk_loop P (Some (deliver ([[], MDPW_WORKER, MDPW_REQUEST, cid, []] @ body)) # polls) w
        = Inr (Some msg, polls, v)
      \<and> wk_recv P (Some reply) polls v = wk_loop P polls u
      \<and> wk_trace u = wk_trace w @ [SendFrames (with_more ([[], MDPW_WORKER, MDPW_REPLY, cid, []] @ body'))]"
  using worker_serving [OF assms, of polls w] by (auto simp del: with_more.simps deliver.simps)

text \<open>A worker that has not been asked anything yet.\<close>

definition demo_worker :: mdwrk where
  "demo_worker = \<lparr>wk_broker = [98], wk_service = [120], wk_connected = True, wk_heartbeat_at = 5000,
     wk_liveness = 2, wk_heartbeat = 2500, wk_reconnect = 2500, wk_expect_reply = True, wk_reply_to = [],
     wk_ticks = 1, wk_connects = 1, wk_trace = []\<rparr>"

definition demo_peer :: peer_env where
  "demo_peer = \<lparr>peer_clock = (\<lambda>_. \<lparr>tv_sec = 1, tv_usec = 0\<rparr>), peer_rand = (\<lambda>n. (n, 48879)),
     peer_first = send_start_example\<rparr>"

lemma worker_message_faults_witness:
  "wk_message demo_peer (deliver [[], MDPW_WORKER]) demo_worker = Inl AssertFail
   \<and> wk_message demo_peer (deliver [[], MDPW_WORKER, MDPW_REQUEST]) demo_worker = Inl NullString"
proof -
  have "zmsg_recv (deliver [[], MDPW_WORKER]) zmsg_new = Inr (True, [[], MDPW_WORKER])"
    "zmsg_recv (deliver [[], MDPW_WORKER, MDPW_REQUEST]) zmsg_new = Inr (True, [[], MDPW_WORKER, MDPW_REQUEST])"
    by (simp_all add: zmsg_recv_def zmsg_new_def clear_def recv_part_def is_uuid_frame_def)
  from this [THEN worker_message_faults] show ?thesis
    by (simp add: wk_request_shape_def c_str_Cons)
qed

lemma worker_serves_witness:
  "\<exists>v u. wk_loop demo_peer [Some (deliver [[], MDPW_WORKER, MDPW_REQUEST, [67], [], [1]])] demo_worker
        = Inr (Some [[1]], [], v)
      \<and> wk_recv demo_peer (Some [[2]]) [] v = wk_loop demo_peer [] u
      \<and> wk_trace u = [SendFrames (with_more [[], MDPW_WORKER, MDPW_REPLY, [67], [], [2]])]"
proof -
  have "peer_first demo_peer = send_start_example" "wk_trace demo_worker = []"
    by (simp_all add: demo_peer_def demo_worker_def)
  then show ?thesis
    using worker_serves [of demo_peer "[67]" "[67]" "[[1]]" "[[1]]" "[[2]]" "[[2]]" "[]" demo_worker] by simp
qed

end
