(* ===== verification/MdClient.thy ===== *)
theory MdClient
  imports Mdp
begin

section \<open>The client API (mdcliapi.hpp) and the example client (mdclient.cpp)\<close>

text \<open>
  The class \<open>mdcli\<close>, in the style of the worker's theory: connecting and sending are appended to
  \<open>cl_trace\<close>, the outcomes of the \<open>zmq::poll\<close> calls are the list a call of \<open>send\<close> is given, and
  \<open>s_interrupted\<close> is set when that list ends. The socket is a \<open>REQ\<close>: libzmq puts the empty frame of the
  envelope in front of what is sent and takes it off what arrives, so neither appears here.
\<close>

subsection \<open>State and methods\<close>

record mdcli =
  cl_broker :: bytes
  cl_timeout :: int
  cl_retries :: int
  cl_connects :: nat
  cl_trace :: "action list"

definition cl_act :: "action \<Rightarrow> mdcli \<Rightarrow> mdcli" where
  "cl_act x c = c\<lparr>cl_trace := cl_trace c @ [x]\<rparr>"

definition cl_connect_to_broker :: "peer_env \<Rightarrow> mdcli \<Rightarrow> mdcli" where
  "cl_connect_to_broker P c =
     cl_act (ConnectTo (set_id_text (peer_rand P (cl_connects c))) (cl_broker c))
       (c\<lparr>cl_connects := Suc (cl_connects c)\<rparr>)"

definition mdcli_new :: "peer_env \<Rightarrow> bytes \<Rightarrow> fault + mdcli" where
  "mdcli_new P broker =
     bindE (guardE (length broker \<noteq> 0) AssertFail) (\<lambda>_.
       Inr (cl_connect_to_broker P \<lparr>cl_broker = broker, cl_timeout = 2500, cl_retries = 3,
              cl_connects = 0, cl_trace = []\<rparr>))"

definition set_timeout :: "int \<Rightarrow> mdcli \<Rightarrow> mdcli" where
  "set_timeout timeout c = c\<lparr>cl_timeout := timeout\<rparr>"

definition set_retries :: "int \<Rightarrow> mdcli \<Rightarrow> mdcli" where
  "set_retries retries c = c\<lparr>cl_retries := retries\<rparr>"

text \<open>A copy of the request goes out.\<close>

definition cl_transmit :: "peer_env \<Rightarrow> zmsg \<Rightarrow> mdcli \<Rightarrow> fault + mdcli" where
  "cl_transmit P request c =
     bindE (zmsg_send (peer_first P) (zmsg_copy request)) (\<lambda>(ws, _). Inr (cl_act (SendFrames ws) c))"

definition cl_reply :: "bytes \<Rightarrow> incoming \<Rightarrow> fault + zmsg" where
  "cl_reply service r =
     bindE (zmsg_recv r zmsg_new) (\<lambda>(_, msg).
     bindE (guardE (parts msg \<ge> 3) AssertFail) (\<lambda>_.
     bindE (pop_front msg) (\<lambda>(header, msg).
     bindE (guardE (header = MDPC_CLIENT) AssertFail) (\<lambda>_.
     bindE (pop_front msg) (\<lambda>(reply_service, msg).
     bindE (guardE (reply_service = c_str service) AssertFail) (\<lambda>_.
       Inr msg))))))"

text \<open>The inner loop: the reply, or the value of \<open>retries_left\<close> it ends with, and the poll outcomes left.\<close>

fun cl_wait :: "peer_env \<Rightarrow> bytes \<Rightarrow> zmsg \<Rightarrow> int \<Rightarrow> incoming option list \<Rightarrow> mdcli
    \<Rightarrow> fault + (zmsg option \<times> int \<times> incoming option list \<times> mdcli)" where
  "cl_wait P service request retries_left [] c = Inr (None, retries_left, [], c)"
| "cl_wait P service request retries_left (Some r # polls) c =
     bindE (cl_reply service r) (\<lambda>msg. Inr (Some msg, retries_left, polls, c))"
| "cl_wait P service request retries_left (None # polls) c =
     (let retries_left = retries_left - 1 in
      if retries_left \<noteq> 0 then
        bindE (cl_transmit P request (cl_connect_to_broker P c))
          (cl_wait P service request retries_left polls)
      else Inr (None, retries_left, polls, c))"

lemma cl_wait_uses:
  "cl_wait P service request n polls c = Inr (r, n', polls', c') \<Longrightarrow> polls \<noteq> [] \<Longrightarrow>
   length polls' < length polls"
proof (induction P service request n polls c rule: cl_wait.induct)
  case (3 P service request n polls c)
  then show ?case
    by (cases "polls = []") (fastforce simp: Let_def bindE_eq_Inr split: if_splits)+
qed (auto simp: bindE_eq_Inr)

text \<open>The outer loop.\<close>

function cl_try :: "peer_env \<Rightarrow> bytes \<Rightarrow> zmsg \<Rightarrow> int \<Rightarrow> incoming option list \<Rightarrow> mdcli
    \<Rightarrow> fault + (zmsg option \<times> incoming option list \<times> mdcli)" where
  "cl_try P service request retries_left polls c =
     (if retries_left \<noteq> 0 \<and> polls \<noteq> [] then
        bindE (cl_transmit P request c) (\<lambda>c.
        bindE (cl_wait P service request retries_left polls c) (\<lambda>(reply, retries_left, polls', c).
          case reply of
            Some msg \<Rightarrow> Inr (Some msg, polls', c)
          | None \<Rightarrow> cl_try P service request retries_left polls' c))
      else Inr (None, polls, c))"
  by pat_completeness auto
termination
  by (relation "measure (\<lambda>(P, service, request, n, polls, c). length polls)")
    (auto dest: cl_wait_uses)

declare cl_try.simps [simp del]

definition cl_send :: "peer_env \<Rightarrow> bytes \<Rightarrow> zmsg option \<Rightarrow> incoming option list \<Rightarrow> mdcli
    \<Rightarrow> fault + (zmsg option \<times> incoming option list \<times> mdcli)" where
  "cl_send P service request_p polls c =
     bindE (fetchE AssertFail request_p) (\<lambda>request.
       let request = push_front MDPC_CLIENT (push_front service request)
       in cl_try P service request (cl_retries c) polls c)"

subsection \<open>The example client\<close>

text \<open>The \<open>for\<close> loop of \<open>main\<close> with \<open>n\<close> rounds to go: the number of replies.\<close>

fun mdclient_loop :: "peer_env \<Rightarrow> nat \<Rightarrow> nat \<Rightarrow> incoming option list \<Rightarrow> mdcli \<Rightarrow> fault + (nat \<times> mdcli)" where
  "mdclient_loop P 0 count polls c = Inr (count, c)"
| "mdclient_loop P (Suc n) count polls c =
     bindE (cl_send P (bytes_of ''echo'') (Some (zmsg_of_body (bytes_of ''Hello world''))) polls c)
       (\<lambda>(reply, polls, c).
          case reply of
            None \<Rightarrow> Inr (count, c)
          | Some _ \<Rightarrow> mdclient_loop P n (Suc count) polls c)"

definition mdclient_main :: "peer_env \<Rightarrow> incoming option list \<Rightarrow> fault + (nat \<times> mdcli)" where
  "mdclient_main P polls =
     bindE (mdcli_new P (bytes_of ''tcp://localhost:5555'')) (mdclient_loop P 100000 0 polls)"

subsection \<open>Retries\<close>

text \<open>What \<open>j\<close> reconnections, each followed by a copy of the request, add to the trace.\<close>

definition resends :: "peer_env \<Rightarrow> mdcli \<Rightarrow> wire \<Rightarrow> nat \<Rightarrow> action list" where
  "resends P c ws j = concat (map (\<lambda>i. [ConnectTo (set_id_text (peer_rand P i)) (cl_broker c), SendFrames ws])
     [cl_connects c..<cl_connects c + j])"

definition resent :: "peer_env \<Rightarrow> wire \<Rightarrow> nat \<Rightarrow> mdcli \<Rightarrow> mdcli" where
  "resent P ws j c = c\<lparr>cl_connects := cl_connects c + j, cl_trace := cl_trace c @ resends P c ws j\<rparr>"

lemma resent_0 [simp]: "resent P ws 0 c = c"
  by (simp add: resent_def resends_def)

lemma resent_Suc:
  "resent P ws j (cl_act (SendFrames ws) (cl_connect_to_broker P c)) = resent P ws (Suc j) c"
proof -
  have "[cl_connects c..<cl_connects c + Suc j] = cl_connects c # [Suc (cl_connects c)..<Suc (cl_connects c) + j]"
    by (simp add: upt_conv_Cons del: upt_Suc)
  then show ?thesis
    by (simp add: resent_def resends_def cl_act_def cl_connect_to_broker_def del: upt_Suc)
qed

lemma cl_wait_silent:
  assumes "zmsg_send (peer_first P) request = Inr (ws, [])" "\<forall>i \<in> {1..j}. n \<noteq> int i"
  shows "cl_wait P service request n (replicate j None @ polls) c
    = cl_wait P service request (n - int j) polls (resent P ws j c)"
  using assms(2)
proof (induction j arbitrary: n c)
  case (Suc j)
  have "n - 1 \<noteq> 0" using Suc.prems by auto
  moreover have "\<forall>i \<in> {1..j}. n - 1 \<noteq> int i"
    using Suc.prems by (auto dest: bspec [of _ _ "Suc _"])
  ultimately show ?case
    using assms(1) Suc.IH [of "n - 1" "cl_act (SendFrames ws) (cl_connect_to_broker P c)"]
    by (simp add: cl_transmit_def zmsg_copy_def Let_def resent_Suc algebra_simps)
qed simp

definition cl_request :: "bytes \<Rightarrow> zmsg \<Rightarrow> zmsg" where
  "cl_request service msg = MDPC_CLIENT # c_str service # msg"

lemma cl_send_try:
  "cl_send P service (Some msg) polls c = cl_try P service (cl_request service msg) (cl_retries c) polls c"
  by (simp add: cl_send_def cl_request_def push_front_def c_str_Cons)

lemma resent_sent:
  "resent P ws j (cl_act (SendFrames ws) c)
     = c\<lparr>cl_connects := cl_connects c + j, cl_trace := cl_trace c @ SendFrames ws # resends P c ws j\<rparr>"
  by (simp add: resent_def resends_def cl_act_def)

text \<open>A reply after \<open>j\<close> silent polls, while retries are left; a negative number of retries never runs
  out.\<close>

text \<open>
  C10. If j polls time out and the next one has a valid reply, and j is less than the number of
  retries (or that number is negative), then send returns the reply, having sent the request j + 1
  times over j new connections.
\<close>

theorem reply_after_retries:
  assumes "zmsg_send (peer_first P) (cl_request service msg) = Inr (ws, [])"
    and "int j < cl_retries c \<or> cl_retries c < 0" "cl_reply service r = Inr reply"
  shows "cl_send P service (Some msg) (replicate j None @ Some r # polls) c
    = Inr (Some reply, polls, c\<lparr>cl_connects := cl_connects c + j,
        cl_trace := cl_trace c @ SendFrames ws # resends P c ws j\<rparr>)"
proof -
  have "\<forall>i \<in> {1..j}. cl_retries c \<noteq> int i" "cl_retries c \<noteq> 0" using assms(2) by auto
  then show ?thesis
    using assms
    by (simp add: cl_send_try cl_try.simps [of P] cl_transmit_def zmsg_copy_def cl_wait_silent resent_sent
        del: replicate.simps)
qed

text \<open>As many silent polls as there are retries: the request went out that many times, and the call
  returns no message.\<close>

theorem gives_up_after_retries:
  assumes "zmsg_send (peer_first P) (cl_request service msg) = Inr (ws, [])"
    and "cl_retries c = int (Suc j)"
  shows "cl_send P service (Some msg) (replicate (Suc j) None @ polls) c
    = Inr (None, polls, c\<lparr>cl_connects := cl_connects c + j,
        cl_trace := cl_trace c @ SendFrames ws # resends P c ws j\<rparr>)"
proof -
  have "\<forall>i \<in> {1..j}. cl_retries c \<noteq> int i" using assms(2) by auto
  moreover have "replicate (Suc j) None @ polls = replicate j None @ None # polls"
    by (simp add: replicate_append_same [symmetric])
  ultimately have "cl_wait P service (cl_request service msg) (cl_retries c) (replicate (Suc j) None @ polls)
      (cl_act (SendFrames ws) c) = Inr (None, 0, polls, resent P ws j (cl_act (SendFrames ws) c))"
    using cl_wait_silent [OF assms(1), of j "cl_retries c"] assms(2) by simp
  then show ?thesis
    using assms
    by (simp add: cl_send_try cl_try.simps [of P] cl_transmit_def zmsg_copy_def resent_sent
        del: replicate.simps)
qed

text \<open>A client with two retries.\<close>

definition demo_client :: mdcli where
  "demo_client = \<lparr>cl_broker = [98], cl_timeout = 2500, cl_retries = 2, cl_connects = 1, cl_trace = []\<rparr>"

definition demo_client_env :: peer_env where
  "demo_client_env = \<lparr>peer_clock = (\<lambda>_. \<lparr>tv_sec = 1, tv_usec = 0\<rparr>), peer_rand = (\<lambda>n. (n, 0)),
     peer_first = send_start_example\<rparr>"

lemma demo_request:
  "zmsg_send (peer_first demo_client_env) (cl_request [120] [[1]]) = Inr (with_more [MDPC_CLIENT, [120], [1]], [])"
  by (simp add: demo_client_env_def cl_request_def zmsg_send_eq send_start_example_def send_part_def
      is_uuid_part_def c_str_Cons)

lemma reply_after_retries_witness:
  "cl_send demo_client_env [120] (Some [[1]]) [None, Some (deliver [MDPC_CLIENT, [120], [2]])] demo_client
    = Inr (Some [[2]], [], demo_client\<lparr>cl_connects := 2, cl_trace := SendFrames (with_more [MDPC_CLIENT, [120], [1]])
        # resends demo_client_env demo_client (with_more [MDPC_CLIENT, [120], [1]]) 1\<rparr>)"
proof -
  have "cl_reply [120] (deliver [MDPC_CLIENT, [120], [2]]) = Inr [[2]]"
    by (simp add: cl_reply_def zmsg_recv_def zmsg_new_def clear_def recv_part_def is_uuid_frame_def
        parts_def c_str_Cons)
  from reply_after_retries [OF demo_request _ this, where j = 1 and c = demo_client and polls = "[]"] show ?thesis
    by (simp add: demo_client_def)
qed

lemma gives_up_after_retries_witness:
  "cl_send demo_client_env [120] (Some [[1]]) [None, None] demo_client
    = Inr (None, [], demo_client\<lparr>cl_connects := 2, cl_trace := SendFrames (with_more [MDPC_CLIENT, [120], [1]])
        # resends demo_client_env demo_client (with_more [MDPC_CLIENT, [120], [1]]) 1\<rparr>)"
  using gives_up_after_retries [OF demo_request, where j = 1 and c = demo_client and polls = "[]"]
  by (simp add: demo_client_def)

end
