(* ===== verification/Majordomo.thy ===== *)
theory Majordomo
  imports Broker_Examples MdWorker MdClient
begin

section \<open>Client, broker and worker together\<close>

text \<open>
  The three programs joined by their sockets. The transport is libzmq's: a \<open>ROUTER\<close> puts the sender's
  identity in front of what arrives and takes it off, as the address, from what is sent, and a \<open>REQ\<close>
  adds and removes the empty frame. These four functions (\<open>dealer_in\<close>, \<open>req_in\<close>: what the broker's
  \<open>ROUTER\<close> delivers for frames sent by a peer of the given identity; \<open>dealer_out\<close>, \<open>req_out\<close>: what the peer
  receives for frames the broker sends) are parameters, with that behaviour as hypotheses.
\<close>

lemma hd_set_id: "hd (set_id_text r) \<in> set hex_char"
  using hex4_digits(1,2) [of "fst r"] by (auto simp: set_id_text_def)

lemma set_id_not_reserved: "\<not> reserved_name (set_id_text r)"
proof -
  have "\<forall>c \<in> set hex_char. c \<notin> set (bytes_of ''mmi.'')"
    by code_simp
  with hd_set_id [of r] set_id_text_shape(2) [of r] show ?thesis
    by (cases "set_id_text r") (auto simp: reserved_name_def starts_in_mmi_def)
qed

lemma set_id_relayed: "relayed (set_id_text r) (set_id_text r)"
proof -
  have "\<forall>c \<in> set hex_char. c \<noteq> 0 \<and> c \<noteq> of_char (CHR ''@'')" by code_simp
  with hd_set_id [of r] set_id_text_shape(2) [of r] show ?thesis
    by (cases "set_id_text r") (auto simp: relayed_def recv_part_def is_uuid_frame_def is_uuid_part_def)
qed

lemma worker_registers:
  assumes "peer_first P = send_start_example" "relayed n n" "nul_free n" "n \<noteq> []"
  obtains w where "mdwrk_new P addr n = Inr w" "\<not> wk_expect_reply w"
    "wk_trace w = [ConnectTo (set_id_text (peer_rand P 0)) addr,
                   SendFrames (with_more [[], MDPW_WORKER, MDPW_READY, n])]"
proof -
  have "zmsg_send (peer_first P) [[], MDPW_WORKER, MDPW_READY, n]
      = Inr (with_more [[], MDPW_WORKER, MDPW_READY, n], [])"
    unfolding assms(1) using assms(2) by (intro send_relayed) simp
  then show ?thesis
    using assms(3,4)
    by - (rule that, simp add: mdwrk_new_def wk_connect_to_broker_def wk_send_to_broker_def Let_def
        push_front_def zmsg_new_def c_str_Cons c_str_nul_free wk_read_clock_def del: with_more.simps,
        simp_all)
qed

text \<open>
  C2. With the send loop that starts at part 0 and a clock that does not reach the next heartbeat:
  the worker's READY, the client's request, the request the broker forwards, the worker's reply and
  the reply the broker forwards chain up, and the client's send returns exactly the body it was
  given.
\<close>

theorem echo_round_trip:
  fixes dealer_in req_in dealer_out req_out :: "bytes \<Rightarrow> bytes list \<Rightarrow> bytes list"
  assumes links: "\<And>i fs. dealer_in i fs = i # fs" "\<And>i fs. req_in i fs = i # [] # fs"
      "\<And>i fs. dealer_out i (i # fs) = fs" "\<And>i fs. req_out i (i # [] # fs) = fs"
    and starts: "first_part E = send_start_example" "peer_first Pw = send_start_example"
      "peer_first Pc = send_start_example"
    and "steady_clock E" "cl_retries c \<noteq> 0"
    and n: "n \<noteq> []" "nul_free n" "relayed n n" "\<not> reserved_name n"
    and body: "body \<noteq> []" "\<forall>d \<in> set body. relayed d d"
    and wid: "wid = set_id_text (peer_rand Pw 0)" and cid: "cid = set_id_text client_rand"
  shows "\<exists>w ready request v u answer out1 out2 s c'.
    mdwrk_new Pw addr n = Inr w \<and> wk_trace w = [ConnectTo wid addr, SendFrames ready]
    \<and> zmsg_send (peer_first Pc) (cl_request n body) = Inr (request, [])
    \<and> start_brokering E [Some (deliver (dealer_in wid (map fst ready))),
        Some (deliver (req_in cid (map fst request))),
        Some (deliver (dealer_in wid (map fst answer)))] new_broker = Inr s
    \<and> sent (brk s) = [out1, out2]
    \<and> wk_recv Pw None [Some (deliver (dealer_out wid (map fst out1)))] w = Inr (Some body, [], v)
    \<and> wk_recv Pw (Some body) [] v = Inr (None, [], u) \<and> wk_trace u = wk_trace v @ [SendFrames answer]
    \<and> cl_send Pc n (Some body) [Some (deliver (req_out cid (map fst out2)))] c = Inr (Some body, [], c')"
proof -
  have self: "list_all2 relayed body body" using body(2) by (simp add: list.rel_refl_strong)
  note w_shape = set_id_text_shape [of "peer_rand Pw 0", folded wid] set_id_relayed [of "peer_rand Pw 0", folded wid]
    set_id_not_reserved [of "peer_rand Pw 0", folded wid]
  note c_shape = set_id_text_shape [of client_rand, folded cid] set_id_relayed [of client_rand, folded cid]
  let ?ready = "[[], MDPW_WORKER, MDPW_READY, n]" and ?request = "cl_request n body"
    and ?forward = "[[], MDPW_WORKER, MDPW_REQUEST, cid, []] @ body"
    and ?answer = "[[], MDPW_WORKER, MDPW_REPLY, cid, []] @ body"
  obtain w where w: "mdwrk_new Pw addr n = Inr w" "\<not> wk_expect_reply w"
    "wk_trace w = [ConnectTo wid addr, SendFrames (with_more ?ready)]"
    using worker_registers [OF starts(2) n(3,2,1)] wid by metis
  from request_reply_run [OF starts(1) assms(8) w_shape(3,1,2,4) c_shape(3,1) n body(2,1,2)]
  obtain s where s: "start_brokering E
      [Some (deliver ([wid, [], MDPW_WORKER, MDPW_READY, n])),
       Some (deliver ([cid, [], MDPC_CLIENT, n] @ body)),
       Some (deliver ([wid] @ ?answer))] new_broker = Inr s"
    "sent (brk s) = [with_more ([wid] @ ?forward), with_more ([cid, [], MDPC_CLIENT, n] @ body)]"
    by auto
  have recv: "wk_recv Pw None polls w = wk_loop Pw polls (w\<lparr>wk_expect_reply := True\<rparr>)" for polls
    using w(2) by (simp add: wk_recv_def wk_reply_def)
  from worker_serving [OF starts(2) c_shape(3,2,1) self self, of "[]" "w\<lparr>wk_expect_reply := True\<rparr>"]
  obtain v u where vu: "wk_recv Pw None [Some (deliver ?forward)] w = Inr (Some body, [], v)"
    "wk_trace v = wk_trace w" "wk_recv Pw (Some body) [] v = Inr (None, [], u)"
    "wk_trace u = wk_trace w @ [SendFrames (with_more ?answer)]"
    by (auto simp: recv simp del: deliver.simps with_more.simps)
  have "list_all2 relayed ?request ?request"
    using n(2,3) self by (simp add: cl_request_def c_str_nul_free)
  from send_relayed [OF this] starts(3) recv_relayed [OF this, of zmsg_new]
  have req: "zmsg_send (peer_first Pc) ?request = Inr (with_more ?request, [])"
    and rep: "zmsg_recv (deliver ([MDPC_CLIENT, n] @ body)) zmsg_new = Inr (True, [MDPC_CLIENT, n] @ body)"
    using n(2) by (simp_all add: cl_request_def c_str_nul_free del: deliver.simps)
  have "cl_reply n (deliver ([MDPC_CLIENT, n] @ body)) = Inr body"
    using rep n(2) body(1) by (simp add: cl_reply_def parts_def c_str_nul_free Suc_le_eq del: deliver.simps)
  then obtain c' where c': "cl_send Pc n (Some body) [Some (deliver ([MDPC_CLIENT, n] @ body))] c
      = Inr (Some body, [], c')"
    using req assms(9) by (auto simp: cl_send_try cl_try.simps [of Pc] cl_transmit_def zmsg_copy_def
        simp del: deliver.simps)
  have links': "dealer_in wid (map fst (with_more ?ready)) = [wid, [], MDPW_WORKER, MDPW_READY, n]"
    "req_in cid (map fst (with_more ?request)) = [cid, [], MDPC_CLIENT, n] @ body"
    "dealer_in wid (map fst (with_more ?answer)) = [wid] @ ?answer"
    "dealer_out wid (map fst (with_more ([wid] @ ?forward))) = ?forward"
    "req_out cid (map fst (with_more ([cid, [], MDPC_CLIENT, n] @ body))) = [MDPC_CLIENT, n] @ body"
    using n(2) by (simp_all only: links map_fst_with_more append_Cons append_Nil cl_request_def c_str_nul_free)
  show ?thesis
    by (intro exI [of _ w] exI [of _ "with_more ?ready"] exI [of _ "with_more ?request"] exI [of _ v]
        exI [of _ u] exI [of _ "with_more ?answer"] exI [of _ "with_more ([wid] @ ?forward)"]
        exI [of _ "with_more ([cid, [], MDPC_CLIENT, n] @ body)"] exI [of _ s] exI [of _ c'] conjI)
      (simp_all only: links' w s vu req c')
qed

lemma echo_round_trip_witness:
  "\<exists>w ready request v u answer out1 out2 s c'.
    mdwrk_new demo_peer [98] [101, 99, 104, 111] = Inr w
    \<and> wk_trace w = [ConnectTo (set_id_text (0, 48879)) [98], SendFrames ready]
    \<and> zmsg_send (peer_first demo_client_env) (cl_request [101, 99, 104, 111] [[72, 105]]) = Inr (request, [])
    \<and> start_brokering demo_env [Some (deliver (set_id_text (0, 48879) # map fst ready)),
        Some (deliver (set_id_text (1, 0) # [] # map fst request)),
        Some (deliver (set_id_text (0, 48879) # map fst answer))] new_broker = Inr s
    \<and> sent (brk s) = [out1, out2]
    \<and> wk_recv demo_peer None [Some (deliver (tl (map fst out1)))] w = Inr (Some [[72, 105]], [], v)
    \<and> wk_recv demo_peer (Some [[72, 105]]) [] v = Inr (None, [], u)
    \<and> wk_trace u = wk_trace v @ [SendFrames answer]
    \<and> cl_send demo_client_env [101, 99, 104, 111] (Some [[72, 105]])
        [Some (deliver (tl (tl (map fst out2))))] demo_client = Inr (Some [[72, 105]], [], c')"
proof -
  have "\<not> reserved_name [101, 99, 104, 111]" by code_simp
  moreover have "set_id_text (0, 48879) = set_id_text (peer_rand demo_peer 0)"
    by (simp add: demo_peer_def)
  moreover have "first_part demo_env = send_start_example" by (simp add: demo_env_def)
  ultimately show ?thesis
    by (intro echo_round_trip [where dealer_in = "\<lambda>i fs. i # fs" and req_in = "\<lambda>i fs. i # [] # fs"
        and dealer_out = "\<lambda>i fs. tl fs" and req_out = "\<lambda>i fs. tl (tl fs)" and client_rand = "(1, 0)"])
      (simp_all add: demo_clock demo_peer_def demo_client_env_def demo_client_def)
qed

subsection \<open>The same programs with the send loop that starts at part 1\<close>

lemma broker_message_unknown:
  assumes "list_all2 relayed fs (s # x # h # rest)" "c_str h \<noteq> MDPC_CLIENT" "c_str h \<noteq> MDPW_WORKER"
  shows "broker_message E (deliver fs) b = Inr b"
  using assms by (simp add: broker_message_relayed del: mdp_literals deliver.simps)

lemma idle_turn:
  assumes "m_waiting b = []" "broker_message E r b = Inr b"
  shows "\<exists>t u v. broker_turn E (Some r) \<lparr>brk = b, now = x, heartbeat_at = y\<rparr>
    = Inr \<lparr>brk = b\<lparr>ticks := t\<rparr>, now = u, heartbeat_at = v\<rparr>"
  using assms heartbeat_part_idle [of b E y] by (simp add: broker_turn_eq)

text \<open>The worker's READY and the client's request both lose their first frame; the broker takes the
  frame that follows for the header, knows none of the two and drops both messages.\<close>

text \<open>
  C4. With zmsg::send as this directory has it, the worker's READY and the client's request arrive
  at the broker without their first frame; the broker finds no known header in either, registers no
  worker, queues no request and sends nothing.
\<close>

theorem send_start_breaks_protocol:
  fixes dealer_in req_in :: "bytes \<Rightarrow> bytes list \<Rightarrow> bytes list"
  assumes links: "\<And>i fs. dealer_in i fs = i # fs" "\<And>i fs. req_in i fs = i # [] # fs"
    and starts: "peer_first Pw = send_start" "peer_first Pc = send_start"
    and n: "n \<noteq> []" "nul_free n" "relayed n n" "n \<noteq> MDPC_CLIENT" "n \<noteq> MDPW_WORKER"
    and body: "\<forall>d \<in> set body. relayed d d"
  shows "\<exists>w ready request s.
    mdwrk_new Pw addr n = Inr w
    \<and> wk_trace w = [ConnectTo (set_id_text (peer_rand Pw 0)) addr, SendFrames ready]
    \<and> zmsg_send (peer_first Pc) (cl_request n body) = Inr (request, [])
    \<and> start_brokering E [Some (deliver (dealer_in (set_id_text (peer_rand Pw 0)) (map fst ready))),
        Some (deliver (req_in (set_id_text client_rand) (map fst request)))] new_broker = Inr s
    \<and> m_workers (brk s) = Map.empty \<and> m_services (brk s) = Map.empty \<and> sent (brk s) = []"
proof -
  let ?wid = "set_id_text (peer_rand Pw 0)" and ?cid = "set_id_text client_rand"
  have self: "list_all2 relayed body body" using body by (simp add: list.rel_refl_strong)
  have "zmsg_send (peer_first Pw) [[], MDPW_WORKER, MDPW_READY, n] = Inr (with_more [MDPW_WORKER, MDPW_READY, n], [])"
    unfolding starts send_skips_first list.sel using n(3) by (intro send_relayed) simp
  then obtain w where w: "mdwrk_new Pw addr n = Inr w"
    "wk_trace w = [ConnectTo ?wid addr, SendFrames (with_more [MDPW_WORKER, MDPW_READY, n])]"
    using n(1,2) by (auto simp: mdwrk_new_def wk_connect_to_broker_def wk_send_to_broker_def Let_def
        push_front_def zmsg_new_def c_str_Cons c_str_nul_free wk_read_clock_def simp del: with_more.simps)
  have req: "zmsg_send (peer_first Pc) (cl_request n body) = Inr (with_more (n # body), [])"
    unfolding starts send_skips_first cl_request_def list.sel
    using n(2,3) self by (intro send_relayed) (simp add: c_str_nul_free)
  have m1: "broker_message E (deliver [?wid, MDPW_WORKER, MDPW_READY, n]) b = Inr b" for b
    using n(3) set_id_relayed
    by (intro broker_message_unknown [of _ ?wid MDPW_WORKER MDPW_READY "[n]"]) (simp_all add: c_str_Cons)
  have m2: "broker_message E (deliver (?cid # [] # n # body)) b = Inr b" for b
    using n self set_id_relayed
    by (intro broker_message_unknown [of _ ?cid "[]" n body]) (simp_all add: c_str_nul_free)
  obtain t u v where t1: "broker_turn E (Some (deliver [?wid, MDPW_WORKER, MDPW_READY, n]))
      (broker_start E new_broker) = Inr \<lparr>brk = new_broker\<lparr>ticks := t\<rparr>, now = u, heartbeat_at = v\<rparr>"
    using idle_turn [OF _ m1, of "new_broker\<lparr>ticks := 1\<rparr>"]
    by (fastforce simp: broker_start_def read_clock_def new_broker_def simp del: deliver.simps)
  obtain t' u' v' where t2: "broker_turn E (Some (deliver (?cid # [] # n # body)))
      \<lparr>brk = new_broker\<lparr>ticks := t\<rparr>, now = u, heartbeat_at = v\<rparr>
      = Inr \<lparr>brk = new_broker\<lparr>ticks := t'\<rparr>, now = u', heartbeat_at = v'\<rparr>"
    using idle_turn [OF _ m2, of "new_broker\<lparr>ticks := t\<rparr>"]
    by (fastforce simp: new_broker_def simp del: deliver.simps)
  have "start_brokering E [Some (deliver [?wid, MDPW_WORKER, MDPW_READY, n]),
      Some (deliver (?cid # [] # n # body))] new_broker
      = Inr \<lparr>brk = new_broker\<lparr>ticks := t'\<rparr>, now = u', heartbeat_at = v'\<rparr>"
    using t1 t2 by (simp add: start_brokering_def del: deliver.simps)
  then show ?thesis
    using w req by (auto simp: links new_broker_def simp del: deliver.simps with_more.simps intro!: exI)
qed

lemma send_start_breaks_protocol_witness:
  "\<exists>w ready request s.
    mdwrk_new (demo_peer\<lparr>peer_first := send_start\<rparr>) [98] [101, 99, 104, 111] = Inr w
    \<and> wk_trace w = [ConnectTo (set_id_text (0, 48879)) [98], SendFrames ready]
    \<and> zmsg_send send_start (cl_request [101, 99, 104, 111] [[72, 105]]) = Inr (request, [])
    \<and> start_brokering demo_env [Some (deliver (set_id_text (0, 48879) # map fst ready)),
        Some (deliver (set_id_text (1, 0) # [] # map fst request))] new_broker = Inr s
    \<and> m_workers (brk s) = Map.empty \<and> m_services (brk s) = Map.empty \<and> sent (brk s) = []"
  using send_start_breaks_protocol [of "\<lambda>i fs. i # fs" "\<lambda>i fs. i # [] # fs" "demo_peer\<lparr>peer_first := send_start\<rparr>"
      "demo_client_env\<lparr>peer_first := send_start\<rparr>" "[101, 99, 104, 111]" "[[72, 105]]" "[98]" demo_env "(1, 0)"]
  by (simp add: demo_peer_def)

end
