(* ===== verification/Broker_Fatal.thy ===== *)
theory Broker_Fatal
  imports Broker_Examples
begin

section \<open>Which messages end the broker\<close>

text \<open>
  \<open>fatal\<close> says of the state of the broker and the parts of a message how the message ends the process, if it does. The
  broker does what \<open>fatal\<close> says in every state a run can reach, as long as no body looks like a text UUID with a NUL.
\<close>

subsection \<open>The specification\<close>

text \<open>A client: a service name and a body, and \<open>mmi.service\<close> looks the last part up in the table, into which its own
  name has just been put.\<close>

fun client_fatal :: "broker \<Rightarrow> zmsg \<Rightarrow> fault option" where
  "client_fatal b (name # rest) =
     (if rest = [] \<or> c_str name = [] then Some AssertFail
      else if c_str name = bytes_of ''mmi.service'' \<and> m_services b (c_str (last rest)) = None
        \<and> c_str (last rest) \<noteq> bytes_of ''mmi.service'' then Some OutOfRange
      else None)"
| "client_fatal b [] = Some AssertFail"

text \<open>A worker: an identity, a command, behind \<open>READY\<close> of a stranger the name of a service, behind \<open>REPLY\<close> of a known
  worker an address; and the known worker must have a service.\<close>

fun worker_fatal :: "broker \<Rightarrow> bytes \<Rightarrow> zmsg \<Rightarrow> fault option" where
  "worker_fatal b sender [] = Some AssertFail"
| "worker_fatal b sender (command # rest) =
     (if sender = [] then Some AssertFail
      else if c_str command = MDPW_READY \<and> m_workers b sender = None \<and> \<not> reserved_name sender then
        (case rest of [] \<Rightarrow> Some NullString | name # _ \<Rightarrow> if c_str name = [] then Some AssertFail else None)
      else if c_str command = MDPW_REPLY \<and> m_workers b sender \<noteq> None then
        (if rest = [] then Some NullString
         else if Option.bind (Option.bind (m_workers b sender) (heap b)) wrk_service = None then Some NullDeref
         else None)
      else None)"

fun fatal :: "broker \<Rightarrow> zmsg \<Rightarrow> fault option" where
  "fatal b (sender # _ # header # rest) =
     (if c_str header = MDPC_CLIENT then client_fatal b rest
      else if c_str header = MDPW_WORKER then worker_fatal b (c_str sender) rest
      else None)"
| "fatal b _ = Some NullString"

subsection \<open>Everything else succeeds\<close>

text \<open>\<open>quiet Q r\<close>: no fault but one that the invariant rules out, and \<open>Q\<close> of the result.\<close>

abbreviation quiet :: "('a \<Rightarrow> bool) \<Rightarrow> fault + 'a \<Rightarrow> bool" where
  "quiet \<equiv> wpE (\<lambda>f. f \<noteq> Dangling)"

text \<open>All queued requests can be sent.\<close>

definition sendable_queues :: "broker \<Rightarrow> bool" where
  "sendable_queues b \<longleftrightarrow> (\<forall>n s. m_services b n = Some s \<longrightarrow> (\<forall>m \<in> set (srv_requests s). \<forall>p \<in> set m. sendable p))"

lemma sendable_queues_fields [simp]:
  "sendable_queues (b\<lparr>sent := x\<rparr>) = sendable_queues b"
  "sendable_queues (b\<lparr>ticks := t\<rparr>) = sendable_queues b"
  "sendable_queues (b\<lparr>m_waiting := y\<rparr>) = sendable_queues b"
  "sendable_queues (b\<lparr>m_workers := v\<rparr>) = sendable_queues b"
  "sendable_queues (b\<lparr>heap := z\<rparr>) = sendable_queues b"
  "sendable_queues (b\<lparr>next_addr := u\<rparr>) = sendable_queues b"
  "sendable_queues (upd_worker a h b) = sendable_queues b"
  by (simp_all add: sendable_queues_def upd_worker_def)

lemma sendable_queues_upd:
  "sendable_queues b \<Longrightarrow> (\<And>s. m_services b n = Some s \<Longrightarrow> set (srv_requests (g s)) \<subseteq> set (srv_requests s))
   \<Longrightarrow> sendable_queues (upd_service n g b)"
  by (fastforce simp: sendable_queues_def upd_service_def)

lemma sendable_queues_push:
  "sendable_queues b \<Longrightarrow> \<forall>p \<in> set m. sendable p
   \<Longrightarrow> sendable_queues (upd_service n (\<lambda>s. s\<lparr>srv_requests := srv_requests s @ [m]\<rparr>) b)"
  by (fastforce simp: sendable_queues_def upd_service_def)

lemma socket_send_quiet:
  "\<forall>p \<in> set m. sendable p \<Longrightarrow> sendable_queues b \<Longrightarrow> quiet sendable_queues (socket_send E m b)"
  using send_clean [of m "first_part E"] by (auto simp: socket_send_def)

lemma worker_send_quiet:
  assumes "\<forall>m. opt_m = Some m \<longrightarrow> (\<forall>p \<in> set m. sendable p)" "sendable_queues b"
  shows "quiet sendable_queues (worker_send E a c opt opt_m b)"
proof -
  have "quiet sendable_queues (socket_send E (wrap i (Some []) (push_front MDPW_WORKER (push_front c
      (if 0 < length opt then push_front opt m else m)))) b)" if "\<forall>p \<in> set m. sendable p" for i m
    using that assms(2) by (intro socket_send_quiet) (auto simp: wrap_def push_front_def)
  then show ?thesis
    using assms(1) by (cases opt_m) (auto simp: worker_send_def zmsg_copy_def zmsg_new_def Let_def split: option.split)
qed

lemma worker_delete_quietly:
  assumes "sendable_queues b"
  shows "quiet sendable_queues (worker_delete E a d b)"
proof -
  have "quiet sendable_queues (worker_delete E a False c)" if "sendable_queues c" for c
    using that by (auto simp: worker_delete_def intro!: sendable_queues_upd split: option.split)
  moreover from assms have "quiet sendable_queues (worker_send E a MDPW_DISCONNECT [] None b)"
    by (intro worker_send_quiet) simp_all
  moreover have "worker_delete E a True b = bindE (worker_send E a MDPW_DISCONNECT [] None b) (worker_delete E a False)"
    by (simp add: worker_delete_def [abs_def])
  ultimately show ?thesis
    using assms by (cases d) (auto elim!: wpE_mono)
qed

lemma expired_quiet: "quiet (\<lambda>_. True) (mapE (expired b t) as)"
  by (cases "mapE (expired b t) as") (auto dest!: mapE_fault simp: expired_def bindE_eq_Inl)

lemma expiry_quiet: "quiet (\<lambda>_. True) (mapE (expiry_of b) as)"
  by (cases "mapE (expiry_of b) as") (auto dest!: mapE_fault simp: expiry_of_def bindE_eq_Inl)

lemma purge_quiet: "sendable_queues b \<Longrightarrow> quiet sendable_queues (purge_workers E b)"
  unfolding purge_workers_def read_clock_def Let_def prod.case wpE_bindE
  by (rule wpE_mono [OF expired_quiet]) (auto intro: wpE_forE worker_delete_quietly)

lemma dispatch_turn_quiet:
  assumes "sendable_queues b"
  shows "quiet (\<lambda>r. \<forall>c. r = Some c \<longrightarrow> sendable_queues c) (dispatch_turn E n b)"
proof (cases "m_services b n")
  case (Some s)
  let ?b = "upd_service n (\<lambda>s. s\<lparr>srv_requests := tl (srv_requests s)\<rparr>) b"
  have "quiet sendable_queues (worker_send E a MDPW_REQUEST [] (Some (hd (srv_requests s))) ?b)" if "srv_requests s \<noteq> []" for a
    using assms Some hd_in_set [OF that]
    by (intro worker_send_quiet sendable_queues_upd) (auto simp: sendable_queues_def dest: list.set_sel(2) [OF that])
  note sent = this
  have "quiet sendable_queues (bindE (worker_send E a MDPW_REQUEST [] (Some (hd (srv_requests s))) ?b)
      (\<lambda>c. Inr (upd_service n g (c\<lparr>m_waiting := remove1 a (m_waiting c)\<rparr>))))"
    if "srv_requests s \<noteq> []" "\<And>s. srv_requests (g s) = srv_requests s" for a g
    unfolding wpE_bindE by (rule wpE_mono [OF sent [OF that(1)]]) (auto intro!: sendable_queues_upd simp: that(2))
  then show ?thesis
    using Some expiry_quiet [of b "srv_waiting s"]
    by (auto simp: dispatch_turn_def Let_def elim!: wpE_mono)
qed (simp add: dispatch_turn_def)

lemma dispatch_loop_quiet: "sendable_queues b \<Longrightarrow> quiet sendable_queues (dispatch_loop E n b)"
proof (induction E n b rule: dispatch_loop.induct)
  case (1 E n b)
  show ?case
    unfolding dispatch_loop.simps [of E n b] wpE_bindE
    by (rule wpE_mono [OF dispatch_turn_quiet [OF "1.prems"]]) (use 1 in \<open>auto split: option.split\<close>)
qed

lemma service_dispatch_quiet:
  assumes "sendable_queues b" "\<forall>m. opt_m = Some m \<longrightarrow> (\<forall>p \<in> set m. sendable p)"
  shows "quiet sendable_queues (service_dispatch E n opt_m b)"
proof -
  have "quiet sendable_queues (bindE (purge_workers E c) (dispatch_loop E n))" if "sendable_queues c" for c
    unfolding wpE_bindE using purge_quiet [OF that] by (rule wpE_mono) (rule dispatch_loop_quiet)
  with assms show ?thesis
    by (cases opt_m) (auto simp: service_dispatch_def Let_def intro: sendable_queues_push)
qed

lemma worker_waiting_quiet:
  assumes "sendable_queues b" "heap b a = Some w" "wrk_service w \<noteq> None"
  shows "quiet sendable_queues (worker_waiting E a b)"
  using assms
  by (auto simp: worker_waiting_def Let_def read_clock_def split: option.split
      intro!: service_dispatch_quiet sendable_queues_upd)

lemma envelope_sendable:
  "\<forall>p \<in> set m. sendable p \<Longrightarrow> \<forall>p \<in> set (wrap c (Some []) (wrap h (Some n) m)). sendable p"
  by (auto simp: wrap_def push_front_def)

text \<open>The reply of \<open>mmi.\<close> and to a client.\<close>

lemma sent_back_quiet:
  assumes "m \<noteq> []" "\<forall>p \<in> set m. sendable p" "sendable_queues b"
  shows "quiet sendable_queues (bindE (unwrap m) (\<lambda>(client, msg). socket_send E (wrap client (Some []) (wrap MDPC_CLIENT (Some n) msg)) b))"
proof -
  obtain c m' where "unwrap m = Inr (c, m')" "\<forall>p \<in> set m'. sendable p" using unwrap_clean [OF assms(1,2)] .
  with assms(3) show ?thesis by (auto intro!: socket_send_quiet envelope_sendable)
qed

lemma service_internal_quiet:
  assumes "m \<noteq> []" "\<forall>p \<in> set m. sendable p" "sendable_queues b"
    and "n = bytes_of ''mmi.service'' \<longrightarrow> m_services b (c_str (last m)) \<noteq> None"
  shows "quiet sendable_queues (service_internal E n m b)"
proof -
  have "quiet sendable_queues (bindE (unwrap (body_set t m)) (\<lambda>(client, msg).
      socket_send E (wrap client (Some []) (wrap MDPC_CLIENT (Some n) msg)) b))" for t
    using assms(2,3) by (intro sent_back_quiet) (auto simp: body_set_def push_back_def dest: in_set_butlastD)
  moreover have "body_of m = Some (c_str (last m))" using assms(1) by (simp add: body_of_def last_conv_nth)
  ultimately show ?thesis
    using assms(4) by (auto simp: service_internal_def)
qed

lemma service_require_quiet:
  "c_str name \<noteq> [] \<Longrightarrow> sendable_queues b \<Longrightarrow>
   \<exists>c. service_require E (c_str name) b = Inr (c_str name, c) \<and> sendable_queues c \<and> heap c = heap b \<and> m_services c (c_str name) \<noteq> None
     \<and> (\<forall>n. n \<noteq> c_str name \<longrightarrow> m_services c n = m_services b n)"
  by (cases "m_services b (c_str name)") (auto simp: service_require_def sendable_queues_def new_service_def)

lemma client_process_quiet:
  assumes "client_fatal b m = None" "\<forall>p \<in> set m. sendable p" "sendable_queues b"
  shows "quiet sendable_queues (client_process E sender m b)"
proof (cases m)
  case (Cons name rest)
  with assms(1) have rest: "rest \<noteq> []" "c_str name \<noteq> []" by (auto split: if_splits)
  with assms(3) obtain c where c: "service_require E (c_str name) b = Inr (c_str name, c)" "sendable_queues c"
    and known: "m_services c (c_str name) \<noteq> None" "\<And>n. n \<noteq> c_str name \<Longrightarrow> m_services c n = m_services b n"
    using service_require_quiet by blast
  have m: "wrap sender (Some []) rest \<noteq> []" "\<forall>p \<in> set (wrap sender (Some []) rest). sendable p"
    "last (wrap sender (Some []) rest) = last rest"
    using Cons assms(2) rest(1) by (auto simp: wrap_def push_front_def)
  have "c_str name = bytes_of ''mmi.service'' \<longrightarrow> m_services c (c_str (last rest)) \<noteq> None"
    using assms(1) Cons known rest by (cases "c_str (last rest) = c_str name") (auto split: if_splits)
  with m c have "quiet sendable_queues (service_internal E (c_str name) (wrap sender (Some []) rest) c)"
    by (intro service_internal_quiet) auto
  moreover have "quiet sendable_queues (service_dispatch E (c_str name) (Some (wrap sender (Some []) rest)) c)"
    using m c by (intro service_dispatch_quiet) auto
  ultimately show ?thesis
    using Cons rest c by (auto simp: client_process_def parts_def Let_def Suc_le_eq)
qed (use assms(1) in simp)

lemma client_process_fatal: "client_fatal b m = Some f \<Longrightarrow> client_process E sender m b = Inl f"
  by (induction b m rule: client_fatal.induct)
    (auto simp: client_process_def parts_def Let_def service_require_def service_internal_def body_of_Some reserved_name_def
      starts_in_mmi_def wrap_def push_front_def bytes_of_def Suc_le_eq fault_simps split: if_splits option.splits)

text \<open>Attaching a new worker, and taking a reply.\<close>

lemma ready_quiet:
  assumes "c_str name \<noteq> []" "sendable_queues b" "heap b a \<noteq> None"
  shows "quiet sendable_queues (bindE (service_require E (c_str name) b) (\<lambda>(name, b).
            let b = upd_worker a (\<lambda>w. w\<lparr>wrk_service := Some name\<rparr>) b;
                b = upd_service name (\<lambda>s. s\<lparr>srv_workers := srv_workers s + 1\<rparr>) b
            in worker_waiting E a b))"
proof -
  from assms(3) obtain w where w: "heap b a = Some w" by auto
  from service_require_quiet [OF assms(1,2)] obtain c where c: "service_require E (c_str name) b = Inr (c_str name, c)"
    "sendable_queues c" "heap c = heap b" by blast
  let ?d = "upd_service (c_str name) (\<lambda>s. s\<lparr>srv_workers := srv_workers s + 1\<rparr>)
      (upd_worker a (\<lambda>w. w\<lparr>wrk_service := Some (c_str name)\<rparr>) c)"
  have "sendable_queues ?d" using c(2) by (intro sendable_queues_upd) simp_all
  moreover have "heap ?d a = Some (w\<lparr>wrk_service := Some (c_str name)\<rparr>)"
    using w c(3) by (simp add: upd_service_def upd_worker_def)
  ultimately have "quiet sendable_queues (worker_waiting E a ?d)" by (rule worker_waiting_quiet) simp
  with c(1) show ?thesis by (simp add: Let_def)
qed

lemma reply_quiet:
  assumes "rest \<noteq> []" "\<forall>p \<in> set rest. sendable p" "sendable_queues b"
    and "\<And>w. heap b a = Some w \<Longrightarrow> wrk_service w \<noteq> None"
  shows "quiet sendable_queues (bindE (unwrap rest) (\<lambda>(client, msg).
          bindE (fetchE Dangling (heap b a)) (\<lambda>w.
          bindE (fetchE NullDeref (wrk_service w)) (\<lambda>name.
          bindE (fetchE Dangling (m_services b name)) (\<lambda>s.
          bindE (socket_send E (wrap client (Some []) (wrap MDPC_CLIENT (Some (srv_name s)) msg)) b)
            (worker_waiting E a))))))"
proof -
  obtain c m where m: "unwrap rest = Inr (c, m)" "\<forall>p \<in> set m. sendable p" using unwrap_clean [OF assms(1,2)] .
  have sent: "quiet sendable_queues (bindE (socket_send E (wrap c (Some []) (wrap MDPC_CLIENT (Some n) m)) b) (worker_waiting E a))"
    if "heap b a = Some w" for n w
    using send_clean [OF envelope_sendable [OF m(2)], of "first_part E" c MDPC_CLIENT n] assms(3,4) that
    by (auto simp: socket_send_def intro!: worker_waiting_quiet simp del: mdp_literals)
  show ?thesis
  proof (cases "heap b a")
    case (Some w)
    with assms(4) obtain n where "wrk_service w = Some n" by blast
    with m(1) Some sent [OF Some] show ?thesis by (cases "m_services b n") (auto simp del: wpE_bindE mdp_literals)
  qed (simp add: m(1))
qed

lemma worker_command_quiet:
  assumes "sendable_queues b" "\<forall>p \<in> set rest. sendable p"
    and "command = MDPW_READY \<Longrightarrow> \<not> known \<Longrightarrow> \<not> reserved_name sender \<Longrightarrow>
      heap b a \<noteq> None \<and> (\<exists>name rest'. rest = name # rest' \<and> c_str name \<noteq> [])"
    and "command = MDPW_REPLY \<Longrightarrow> known \<Longrightarrow> rest \<noteq> [] \<and> (\<forall>w. heap b a = Some w \<longrightarrow> wrk_service w \<noteq> None)"
  shows "quiet sendable_queues (worker_command E known sender command rest a b)"
proof -
  note del = worker_delete_quietly [OF assms(1)]
  have ready: "quiet sendable_queues (bindE (pop_front rest) (\<lambda>(part, msg).
          bindE (service_require E (c_str part) b) (\<lambda>(name, b).
            let b = upd_worker a (\<lambda>w. w\<lparr>wrk_service := Some name\<rparr>) b;
                b = upd_service name (\<lambda>s. s\<lparr>srv_workers := srv_workers s + 1\<rparr>) b
            in worker_waiting E a b)))" if "command = MDPW_READY" "\<not> known" "\<not> reserved_name sender"
    using assms(3) [OF that] ready_quiet [of _ b a E] assms(1) by (auto simp del: wpE_bindE)
  have hb: "quiet sendable_queues (bindE (fetchE Dangling (heap b a)) (\<lambda>_.
            let (now, b) = read_clock E b
            in Inr (upd_worker a (\<lambda>w. w\<lparr>wrk_expiry := now + HEARTBEAT_EXPIRY\<rparr>) b)))"
    using assms(1) by (auto simp: read_clock_def split: option.split)
  note reply = reply_quiet [OF _ assms(2,1)]
  show ?thesis
    unfolding worker_command_def
    using del ready hb reply assms(1,4) by (simp only: wpE_results split: if_split) blast
qed

lemma worker_process_quiet:
  assumes "worker_fatal b sender m = None" "\<forall>p \<in> set m. sendable p" "sendable_queues b"
  shows "quiet sendable_queues (worker_process E sender m b)"
proof (cases m)
  case (Cons command rest)
  with assms(1) have sender: "sender \<noteq> []" by (auto split: if_splits)
  show ?thesis
  proof (cases "m_workers b sender")
    case None
    let ?c = "b\<lparr>heap := (heap b)(next_addr b \<mapsto> new_worker sender), next_addr := Suc (next_addr b),
        m_workers := (m_workers b)(sender \<mapsto> next_addr b)\<rparr>"
    have "quiet sendable_queues (worker_command E False sender (c_str command) rest (next_addr b) ?c)"
      using assms None Cons by (intro worker_command_quiet) (auto split: if_splits list.splits)
    with None Cons sender show ?thesis by (simp add: worker_process_Cons worker_require_def Let_def)
  next
    case (Some a)
    have "quiet sendable_queues (worker_command E True sender (c_str command) rest a b)"
      using assms Some Cons by (intro worker_command_quiet) (auto split: if_splits)
    with Some Cons sender show ?thesis by (simp add: worker_process_Cons worker_require_def)
  qed
qed (use assms(1) in simp)

lemma worker_process_fatal:
  assumes "worker_fatal b sender m = Some f" "broker_inv E b"
  shows "worker_process E sender m b = Inl f"
proof (cases m)
  case (Cons command rest)
  have live: "\<exists>w. heap b a = Some w" if "m_workers b sender = Some a" for a
    using that broker_okD(2) [of E b] assms(2) by (auto simp: broker_inv_def index_ok_def)
  have unwrap: "\<exists>c m. unwrap (p # ps) = Inr (c, m)" for p ps
    by (cases ps) (auto simp: unwrap_def address_of_def Let_def)
  show ?thesis
  proof (cases "m_workers b sender")
    case None
    with assms(1) Cons show ?thesis
      by (auto simp: worker_process_def parts_def worker_require_def service_require_def Let_def
          split: if_splits list.splits)
  next
    case (Some a)
    with live obtain w where w: "heap b a = Some w" by blast
    show ?thesis
    proof (cases rest)
      case Nil
      with assms(1) Cons Some show ?thesis
        by (auto simp: worker_process_def parts_def worker_require_def unwrap_def Let_def split: if_splits)
    next
      case Cons': (Cons p ps)
      with unwrap obtain c m' where "unwrap rest = Inr (c, m')" by blast
      with assms(1) Cons Cons' Some w show ?thesis
        by (auto simp: worker_process_def parts_def worker_require_def Let_def split: if_splits)
    qed
  qed
qed (use assms(1) in \<open>simp add: worker_process_def parts_def\<close>)

subsection \<open>A message, and the rest of the turn\<close>

lemma message_outcome:
  assumes "broker_inv E b" "sendable_queues b" "zmsg_recv r zmsg_new = Inr (ok, m)" "\<forall>p \<in> set m. sendable p"
  shows "case fatal b m of Some f \<Rightarrow> broker_message E r b = Inl f
    | None \<Rightarrow> \<exists>c. broker_message E r b = Inr c \<and> sendable_queues c"
proof (cases "fatal b m")
  case None
  have "quiet sendable_queues (broker_message E r b)"
    using None assms(2-4) by (induction b m rule: fatal.induct)
      (auto simp: broker_message_def client_process_quiet worker_process_quiet split: if_splits simp del: mdp_literals)
  moreover have "sound (broker_inv E) (broker_message E r b)" using assms(1) by (rule broker_message_sound)
  ultimately show ?thesis using None by (cases "broker_message E r b") auto
next
  case (Some f)
  then show ?thesis
    using assms(1,3) by (induction b m rule: fatal.induct)
      (auto simp: broker_message_def client_process_fatal worker_process_fatal split: if_splits simp del: mdp_literals)
qed

lemma heartbeat_part_outcome:
  assumes "broker_inv E b" "sendable_queues b"
  shows "\<exists>t. heartbeat_part E due b = Inr t \<and> sendable_queues (brk t)"
proof -
  have "quiet sendable_queues (send_heartbeats E c)" if "sendable_queues c" for c
    unfolding send_heartbeats_def using that by (rule wpE_forE) (auto intro: worker_send_quiet)
  then have "quiet (\<lambda>t. sendable_queues (brk t)) (heartbeat_part E due b)"
    using purge_quiet [of "b\<lparr>ticks := Suc (ticks b)\<rparr>" E] assms(2)
    by (auto simp: heartbeat_part_def read_clock_def elim!: wpE_mono)
  moreover have "sound (\<lambda>t. broker_inv E (brk t)) (broker_turn E None \<lparr>brk = b, now = 0, heartbeat_at = due\<rparr>)"
    by (rule broker_turn_sound) (simp add: assms(1))
  ultimately show ?thesis by (cases "heartbeat_part E due b") (auto simp: broker_turn_eq)
qed

lemma broker_turn_outcome:
  assumes "broker_inv E (brk s)" "sendable_queues (brk s)" "zmsg_recv r zmsg_new = Inr (ok, m)" "\<forall>p \<in> set m. sendable p"
  shows "case fatal (brk s) m of Some f \<Rightarrow> broker_turn E (Some r) s = Inl f
    | None \<Rightarrow> \<exists>t. broker_turn E (Some r) s = Inr t \<and> sendable_queues (brk t)"
proof (cases "fatal (brk s) m")
  case None
  with message_outcome [OF assms] obtain c where c: "broker_message E r (brk s) = Inr c" "sendable_queues c" by auto
  with broker_message_sound [OF assms(1), of r] have "broker_inv E c" by simp
  with c(2) None show ?thesis using heartbeat_part_outcome [of E c] c(1) by (simp add: broker_turn_eq)
next
  case (Some f)
  with message_outcome [OF assms] show ?thesis by (simp add: broker_turn_eq)
qed

lemma recv_sendable:
  assumes "\<forall>d \<in> set (frames_in r). sendable d"
  obtains ok m where "zmsg_recv r zmsg_new = Inr (ok, m)" "\<forall>p \<in> set m. sendable p"
  using recv_loop_Inr [of r "[]"] recv_loop_sendable [of r "[]"] assms by (auto simp: zmsg_recv_def clear_def)

lemma turn_sendable:
  assumes "broker_inv E (brk s)" "sendable_queues (brk s)" "\<forall>r. input = Some r \<longrightarrow> (\<forall>d \<in> set (frames_in r). sendable d)"
    and "broker_turn E input s = Inr t"
  shows "sendable_queues (brk t)"
proof (cases input)
  case None
  with heartbeat_part_outcome [OF assms(1,2)] assms(4) show ?thesis by (auto simp: broker_turn_eq) (metis sum.inject(2))
next
  case (Some r)
  with assms(3) obtain ok m where "zmsg_recv r zmsg_new = Inr (ok, m)" "\<forall>p \<in> set m. sendable p"
    using recv_sendable by blast
  from broker_turn_outcome [OF assms(1,2) this] Some assms(4) show ?thesis by (auto split: option.splits)
qed

lemma run_sendable:
  assumes "start_brokering E inputs new_broker = Inr s" "\<forall>r. Some r \<in> set inputs \<longrightarrow> (\<forall>d \<in> set (frames_in r). sendable d)"
  shows "broker_inv E (brk s) \<and> sendable_queues (brk s)"
proof -
  let ?ok = "\<lambda>s. broker_inv E (brk s) \<and> sendable_queues (brk s)"
  have "wpE (\<lambda>_. False) ?ok (forE (broker_turn E) inputs (broker_start E new_broker))"
  proof (rule wpE_forE)
    show "?ok (broker_start E new_broker)"
      by (simp add: broker_start_inv new_broker_inv) (simp add: broker_start_def read_clock_def new_broker_def sendable_queues_def)
    fix input and s :: loop_state assume i: "input \<in> set inputs" "?ok s"
    show "wpE (\<lambda>_. False) ?ok (broker_turn E input s)"
    proof (cases "broker_turn E input s")
      case (Inr t)
      moreover have "broker_inv E (brk t)" using broker_turn_sound [of E s input] i(2) Inr by simp
      moreover have "sendable_queues (brk t)"
        using turn_sendable [OF _ _ _ Inr] i assms(2) by blast
      ultimately show ?thesis by simp
    qed simp
  qed
  with assms(1) show ?thesis by (simp add: start_brokering_def)
qed

text \<open>
  C7. Take any run of the broker and one more message, none of whose bodies or other frames is a text UUID with a NUL
  in it (which the send loop asserts against). The message ends the process exactly when \<open>fatal\<close> says so, and in the way
  it says: a message of fewer than three frames, a client's without a body or service, a question to mmi.service for a
  name that is not in the table, a worker without identity or command, a READY without a service, a REPLY with nothing
  behind it, and a REPLY of a worker whose first command was not READY. A turn without a message never ends it.
\<close>

text \<open>
  C7. Take any run of the broker and one more message, and let no frame look like a text UUID with
  a NUL in it (the send loop asserts against these). The message ends the process exactly when
  fatal says so of the state, and in the way it says: a message of fewer than three frames, a
  client without a service name or a body, a question to mmi.service for a name that is not in the
  table, a worker without an identity or a command, a READY that names no service, a REPLY with
  nothing behind it, and a REPLY of a worker whose first command was not READY. A turn without a
  message never ends it.
\<close>

theorem fatal_messages:
  assumes "start_brokering E inputs new_broker = Inr s"
    and "\<forall>q. Some q \<in> set (Some r # inputs) \<longrightarrow> (\<forall>d \<in> set (frames_in q). sendable d)"
  shows "(\<exists>ok m. zmsg_recv r zmsg_new = Inr (ok, m) \<and> (\<forall>f. broker_turn E (Some r) s = Inl f \<longleftrightarrow> fatal (brk s) m = Some f))
    \<and> (\<exists>t. broker_turn E None s = Inr t)"
proof -
  have ok: "broker_inv E (brk s)" "sendable_queues (brk s)" using run_sendable [OF assms(1)] assms(2) by auto
  obtain ok m where m: "zmsg_recv r zmsg_new = Inr (ok, m)" "\<forall>p \<in> set m. sendable p"
    using recv_sendable [of r] assms(2) by auto
  with broker_turn_outcome [OF \<open>broker_inv E (brk s)\<close> ok(2) m] heartbeat_part_outcome [OF \<open>broker_inv E (brk s)\<close> ok(2)]
  show ?thesis by (auto simp: broker_turn_eq split: option.splits)
qed

text \<open>A peer whose first command is unknown, and then its reply.\<close>

definition stray_ready :: incoming where "stray_ready = deliver [[65], [], MDPW_WORKER, [9]]"
definition stray_reply :: incoming where "stray_reply = deliver [[65], [], MDPW_WORKER, MDPW_REPLY, [66], [], [120]]"

lemma fatal_messages_witness:
  "\<exists>s. start_brokering demo_env [Some stray_ready] new_broker = Inr s
    \<and> broker_turn demo_env (Some stray_reply) s = Inl NullDeref \<and> \<not> isl (broker_turn demo_env None s)"
proof -
  let ?run = "start_brokering demo_env [Some stray_ready] new_broker"
  let ?m = "[[65], [], MDPW_WORKER, MDPW_REPLY, [66], [], [120]]"
  have "isl ?run = False" by code_simp
  then obtain s where s: "?run = Inr s" by (cases ?run) auto
  have "fatal (brk (projr ?run)) ?m = Some NullDeref" by code_simp
  moreover have "zmsg_recv stray_reply zmsg_new = Inr (True, ?m)" by code_simp
  moreover have "\<forall>d \<in> set (frames_in stray_ready) \<union> set (frames_in stray_reply). sendable d" by code_simp
  ultimately show ?thesis using fatal_messages [OF s, of stray_reply] s by auto
qed

end
