(* ===== verification/Posix.thy ===== *)
theory Posix
  imports Prelude
begin

section \<open>The processes of thundering_herd and their system calls\<close>

text \<open>
  What the components under \<open>LinuxSocket/sctp_socket/thundering_herd\<close> share: how a process can end
  (\<open>halt\<close>), what it does to the outside (\<open>effect\<close>), the part of its state every component uses
  (\<open>proc\<close>: the poll set and its callbacks, the effects so far, a counter of answered system calls), and
  the answers of the system. A call that only succeeds or fails is answered by \<open>os_ret\<close>, in the order
  of the calls; what the blocking call at the start of a callback returns comes with the event
  (\<open>sysin\<close>). Logging and console output are not modelled.
\<close>

subsection \<open>Ends and effects\<close>

datatype halt =
    Exit int
  | NullAccess
  | BadAccess
  | OutOfBounds
  | LengthError
  | Blocked

text \<open>A control message, as \<open>sendmsg\<close> is given it and as \<open>recvmsg\<close> leaves it.\<close>

record cmsg =
  cmsg_len :: nat
  cmsg_level :: int
  cmsg_type :: int
  cmsg_data :: int

datatype effect =
    Unlinked bytes
  | Bound int bytes
  | Listening int
  | Connected int bytes
  | Sent int bytes
  | SentMsg int bytes "cmsg option"
  | SctpBound int bytes "32 word"
  | SctpConnected int bytes "32 word"
  | SctpSent int "16 word" bytes
  | Closed int

text \<open>What \<open>sctp_recvmsg\<close> reports beside the data.\<close>

record sctp_info =
  sin_family :: int
  sin_addr :: bytes
  sin_port :: "16 word"
  sinfo_assoc_id :: "32 word"
  sinfo_stream :: "16 word"
  msg_flags :: "32 word"

text \<open>The answer to the blocking call of a callback: \<open>None\<close> is a failed receive, the empty string a
  connection closed by the peer.\<close>

record sysin =
  in_accept :: int
  in_recv :: "bytes option"
  in_control :: "cmsg option"
  in_info :: sctp_info

text \<open>The system: answers to the calls, its constants for this run, and memory nobody initialised.\<close>

record osenv =
  os_ret :: "nat \<Rightarrow> int"
  os_pid :: "32 word"
  os_revents :: "nat \<Rightarrow> 16 word"
  os_junk :: "nat \<Rightarrow> byte"

record pollfd =
  pfd :: int
  revents :: "16 word"

record 'cb proc =
  poll_items :: "pollfd list"
  cb_lists :: "'cb list"
  regs :: nat
  calls :: nat
  effects :: "effect list"

definition new_proc :: "'cb proc" where
  "new_proc = \<lparr>poll_items = [], cb_lists = [], regs = 0, calls = 0, effects = []\<rparr>"

definition sys :: "osenv \<Rightarrow> ('cb, 'm) proc_scheme \<Rightarrow> int \<times> ('cb, 'm) proc_scheme" where
  "sys Os s = (os_ret Os (calls s), s\<lparr>calls := Suc (calls s)\<rparr>)"

definition emit :: "effect \<Rightarrow> ('cb, 'm) proc_scheme \<Rightarrow> ('cb, 'm) proc_scheme" where
  "emit x s = s\<lparr>effects := effects s @ [x]\<rparr>"

lemma sys_fields [simp]:
  "poll_items (snd (sys Os s)) = poll_items s" "cb_lists (snd (sys Os s)) = cb_lists s"
  "effects (snd (sys Os s)) = effects s" "fst (sys Os s) = os_ret Os (calls s)"
  by (simp_all add: sys_def)

lemma emit_fields [simp]:
  "poll_items (emit x s) = poll_items s" "cb_lists (emit x s) = cb_lists s"
  "effects (emit x s) = effects s @ [x]" "calls (emit x s) = calls s" "regs (emit x s) = regs s"
  by (simp_all add: emit_def)

subsection \<open>Numbers in memory\<close>

text \<open>A 32-bit integer in memory, least significant byte first.\<close>

definition le32 :: "32 word \<Rightarrow> bytes" where
  "le32 w = map (\<lambda>i. ucast (drop_bit (8 * i) w)) [0, 1, 2, 3]"

definition of_le32 :: "bytes \<Rightarrow> 32 word" where
  "of_le32 bs = ucast (bs ! 0) OR push_bit 8 (ucast (bs ! 1)) OR push_bit 16 (ucast (bs ! 2))
     OR push_bit 24 (ucast (bs ! 3))"

lemma length_le32 [simp]: "length (le32 w) = 4"
  by (simp add: le32_def)

lemma of_le32_le32: "of_le32 (le32 w @ bs) = w"
proof (rule bit_word_eqI)
  fix n assume "n < LENGTH(32)"
  then have n: "n < 32" by simp
  show "bit (of_le32 (le32 w @ bs)) n \<longleftrightarrow> bit w n"
  proof -
    consider "n < 8" | "8 \<le> n \<and> n < 16" | "16 \<le> n \<and> n < 24" | "24 \<le> n \<and> n < 32"
      using n by linarith
    then show ?thesis
      by cases (auto simp: of_le32_def le32_def nth_append bit_simps)
  qed
qed

end
