(* ===== verification/Iomux.thy ===== *)
theory Iomux
  imports Posix
begin

section \<open>The event loop (IoMultiplex.cpp)\<close>

text \<open>
  The class \<open>IoMultiplex\<close>: two vectors of the same length, one of \<open>pollfd\<close>s and one of callbacks, and the
  loop that calls back. A callback is a value of a type of the process that registers it; \<open>call\<close> runs
  it. The \<open>revents\<close> of a new item are not initialised (\<open>os_revents\<close>). \<open>poll\<close> is the system's: a round
  says how it returned, what it reported for each descriptor, and what the blocking call of each
  callback then returns, in the order of the callbacks.
\<close>

subsection \<open>Definitions\<close>

definition POLLIN :: "16 word" where "POLLIN = 1"

definition register_fd :: "osenv \<Rightarrow> int \<Rightarrow> 'cb \<Rightarrow> ('cb, 'm) proc_scheme \<Rightarrow> ('cb, 'm) proc_scheme" where
  "register_fd Os fd cb s =
     s\<lparr>poll_items := poll_items s @ [\<lparr>pfd = fd, revents = os_revents Os (regs s)\<rparr>],
       cb_lists := cb_lists s @ [cb], regs := Suc (regs s)\<rparr>"

text \<open>The position of the first item with the given descriptor.\<close>

fun find_fd :: "int \<Rightarrow> pollfd list \<Rightarrow> nat option" where
  "find_fd fd [] = None"
| "find_fd fd (x # xs) = (if pfd x = fd then Some 0 else map_option Suc (find_fd fd xs))"

definition deregister_fd :: "int \<Rightarrow> ('cb, 'm) proc_scheme \<Rightarrow> ('cb, 'm) proc_scheme" where
  "deregister_fd fd s =
     (case find_fd fd (poll_items s) of
        None \<Rightarrow> s
      | Some i \<Rightarrow> s\<lparr>poll_items := erase_at i (poll_items s), cb_lists := erase_at i (cb_lists s)\<rparr>)"

text \<open>The loop over the items, which the callbacks may change; \<open>i\<close> is its index.\<close>

function poll_events :: "('cb \<Rightarrow> int \<Rightarrow> sysin \<Rightarrow> ('cb, 'm) proc_scheme \<Rightarrow> halt + ('cb, 'm) proc_scheme)
    \<Rightarrow> nat \<Rightarrow> sysin list \<Rightarrow> ('cb, 'm) proc_scheme \<Rightarrow> halt + ('cb, 'm) proc_scheme" where
  "poll_events call i ins s =
     (if i < length (poll_items s) then
        if revents (poll_items s ! i) AND POLLIN \<noteq> 0 then
          (if i < length (cb_lists s) then
             (case ins of
                [] \<Rightarrow> Inl Blocked
              | x # ins \<Rightarrow>
                  bindE (call (cb_lists s ! i) (pfd (poll_items s ! i)) x s)
                    (poll_events call (Suc i) ins))
           else Inl OutOfBounds)
        else poll_events call (Suc i) ins s
      else Inr s)"
  by pat_completeness auto
termination
  by (relation "measures [\<lambda>(call, i, ins, s). length ins,
                          \<lambda>(call, i, ins, s). length (poll_items s) - i]") auto

declare poll_events.simps [simp del]

datatype poll_round =
    PollFailed
  | PollTimedOut
  | PollReady "int \<Rightarrow> 16 word" "sysin list"

definition report :: "(int \<Rightarrow> 16 word) \<Rightarrow> ('cb, 'm) proc_scheme \<Rightarrow> ('cb, 'm) proc_scheme" where
  "report ready s = s\<lparr>poll_items := map (\<lambda>x. x\<lparr>revents := ready (pfd x)\<rparr>) (poll_items s)\<rparr>"

definition io_poll :: "('cb \<Rightarrow> int \<Rightarrow> sysin \<Rightarrow> ('cb, 'm) proc_scheme \<Rightarrow> halt + ('cb, 'm) proc_scheme)
    \<Rightarrow> poll_round \<Rightarrow> ('cb, 'm) proc_scheme \<Rightarrow> halt + ('cb, 'm) proc_scheme" where
  "io_poll call round s =
     (case round of
        PollFailed \<Rightarrow> Inr s
      | PollTimedOut \<Rightarrow> Inr s
      | PollReady ready ins \<Rightarrow> poll_events call 0 ins (report ready s))"

subsection \<open>The registry as an association list\<close>

definition paired :: "('cb, 'm) proc_scheme \<Rightarrow> bool" where
  "paired s \<longleftrightarrow> length (cb_lists s) = length (poll_items s)"

definition registry :: "('cb, 'm) proc_scheme \<Rightarrow> (int \<times> 'cb) list" where
  "registry s = zip (map pfd (poll_items s)) (cb_lists s)"

lemma proc_fields [simp]:
  "registry (emit x s) = registry s" "registry (s\<lparr>calls := n\<rparr>) = registry s"
  "paired (emit x s) = paired s" "paired (s\<lparr>calls := n\<rparr>) = paired s"
  "registry (s\<lparr>effects := es\<rparr>) = registry s" "paired (s\<lparr>effects := es\<rparr>) = paired s"
  by (simp_all add: registry_def paired_def)

fun without_first :: "'k \<Rightarrow> ('k \<times> 'v) list \<Rightarrow> ('k \<times> 'v) list" where
  "without_first k [] = []"
| "without_first k (x # xs) = (if fst x = k then xs else x # without_first k xs)"

lemma find_fd_erase:
  assumes "length cbs = length items"
  shows "(case find_fd fd items of None \<Rightarrow> zip (map pfd items) cbs
      | Some i \<Rightarrow> zip (map pfd (erase_at i items)) (erase_at i cbs)) = without_first fd (zip (map pfd items) cbs)"
  using assms
proof (induction items arbitrary: cbs)
  case (Cons x xs)
  then obtain c cs where cs: "cbs = c # cs" "length cs = length xs" by (cases cbs) auto
  show ?case
    using Cons.IH [OF cs(2), symmetric] cs(1) by (cases "find_fd fd xs") simp_all
qed simp

lemma set_without_first: "set (without_first k xs) \<subseteq> set xs"
  by (induction xs) auto

lemma find_fd_bound: "find_fd fd xs = Some i \<Longrightarrow> i < length xs"
  by (induction xs arbitrary: i) (auto split: if_splits)

text \<open>
  The contract between the event loop and its users: what is registered, as a list of descriptors and
  callbacks in the order of registration; \<open>reg\<close> adds at the end, \<open>dereg\<close> removes the first entry of
  the descriptor.
\<close>

locale event_registry =
  fixes view :: "'s \<Rightarrow> (int \<times> 'cb) list"
    and reg :: "int \<Rightarrow> 'cb \<Rightarrow> 's \<Rightarrow> 's"
    and dereg :: "int \<Rightarrow> 's \<Rightarrow> 's"
    and good :: "'s \<Rightarrow> bool"
  assumes view_reg: "good s \<Longrightarrow> view (reg fd cb s) = view s @ [(fd, cb)]"
    and view_dereg: "good s \<Longrightarrow> view (dereg fd s) = without_first fd (view s)"
    and good_reg: "good s \<Longrightarrow> good (reg fd cb s)"
    and good_dereg: "good s \<Longrightarrow> good (dereg fd s)"
begin

lemma dereg_fresh: "good s \<Longrightarrow> fd \<notin> fst ` set (view s) \<Longrightarrow> view (dereg fd s) = view s"
proof -
  have "fd \<notin> fst ` set xs \<Longrightarrow> without_first fd xs = xs" for xs :: "(int \<times> 'cb) list"
    by (induction xs) auto
  then show "good s \<Longrightarrow> fd \<notin> fst ` set (view s) \<Longrightarrow> view (dereg fd s) = view s"
    by (simp add: view_dereg)
qed

lemma dereg_reg:
  assumes "good s" "fd \<notin> fst ` set (view s)"
  shows "view (dereg fd (reg fd cb s)) = view s"
proof -
  have "fd \<notin> fst ` set xs \<Longrightarrow> without_first fd (xs @ [(fd, cb)]) = xs" for xs :: "(int \<times> 'cb) list"
    by (induction xs) auto
  then show ?thesis using assms by (simp add: view_dereg good_reg view_reg)
qed

text \<open>With one entry for each descriptor, nothing is left of a descriptor that was removed.\<close>

lemma dereg_gone:
  assumes "good s" "distinct (map fst (view s))"
  shows "fd \<notin> fst ` set (view (dereg fd s))" "distinct (map fst (view (dereg fd s)))"
proof -
  have "distinct (map fst xs) \<Longrightarrow> fd \<notin> fst ` set (without_first fd xs)
      \<and> distinct (map fst (without_first fd xs)) \<and> set (without_first fd xs) \<subseteq> set xs"
    for xs :: "(int \<times> 'cb) list"
    by (induction xs) auto
  then show "fd \<notin> fst ` set (view (dereg fd s))" "distinct (map fst (view (dereg fd s)))"
    using assms by (simp_all add: view_dereg)
qed

end

interpretation mux: event_registry registry "register_fd Os" deregister_fd paired
proof unfold_locales
  fix s :: "('a, 'b) proc_scheme" and fd cb
  assume s: "paired s"
  show "registry (register_fd Os fd cb s) = registry s @ [(fd, cb)]"
    using s by (simp add: registry_def register_fd_def paired_def)
  show "registry (deregister_fd fd s) = without_first fd (registry s)"
    using s find_fd_erase [of "cb_lists s" "poll_items s" fd]
    by (auto simp: registry_def deregister_fd_def paired_def split: option.splits)
  show "paired (register_fd Os fd cb s)"
    using s by (simp add: register_fd_def paired_def)
  show "paired (deregister_fd fd s)"
    using s find_fd_bound [of fd "poll_items s"]
    by (auto simp: deregister_fd_def paired_def length_erase_at split: option.splits)
qed

subsection \<open>Rounds\<close>

text \<open>
  An invariant that every callback keeps holds after every round, and a halt that no callback causes
  does not happen; waiting for an answer that does not come (\<open>Blocked\<close>) is always possible.
\<close>

lemma poll_events_keeps:
  assumes "\<And>cb fd x s. I s \<Longrightarrow> (fd, cb) \<in> set (registry s) \<Longrightarrow> wpE bad I (call cb fd x s)"
    and "\<And>s. I s \<Longrightarrow> paired s" "\<not> bad Blocked" "I s"
  shows "wpE bad I (poll_events call i ins s)"
  using assms
proof (induction call i ins s rule: poll_events.induct)
  case (1 call i ins s)
  have len: "length (cb_lists s) = length (poll_items s)"
    using "1.prems"(2) [OF "1.prems"(4)] by (simp add: paired_def)
  show ?case
  proof (cases "i < length (poll_items s)")
    case False
    then show ?thesis using "1.prems"(4) by (simp add: poll_events.simps [of call])
  next
    case i: True
    show ?thesis
    proof (cases "revents (poll_items s ! i) AND POLLIN = 0")
      case True
      with i "1.IH"(2) [OF i _ "1.prems"] show ?thesis by (simp add: poll_events.simps [of call])
    next
      case ready: False
      show ?thesis
      proof (cases ins)
        case Nil
        with i ready len "1.prems"(3) show ?thesis by (simp add: poll_events.simps [of call])
      next
        case (Cons x xs)
        have "(pfd (poll_items s ! i), cb_lists s ! i) \<in> set (registry s)"
          using i len nth_mem [of i "registry s"] by (simp add: registry_def)
        from "1.prems"(1) [OF "1.prems"(4) this, of x]
        have "wpE bad (\<lambda>t. wpE bad I (poll_events call (Suc i) xs t))
            (call (cb_lists s ! i) (pfd (poll_items s ! i)) x s)"
          by (rule wpE_mono) (use "1.IH"(1) [OF i ready _ Cons] "1.prems"(1-3) i len in auto)
        with i ready len Cons show ?thesis by (simp add: poll_events.simps [of call])
      qed
    qed
  qed
qed

lemma report_registry [simp]: "registry (report ready s) = registry s" "paired (report ready s) = paired s"
  by (simp_all add: registry_def paired_def report_def comp_def)

lemma io_poll_keeps:
  assumes "\<And>cb fd x s. I s \<Longrightarrow> (fd, cb) \<in> set (registry s) \<Longrightarrow> wpE bad I (call cb fd x s)"
    and "\<And>s. I s \<Longrightarrow> paired s" "\<not> bad Blocked" "\<And>s ready. I s \<Longrightarrow> I (report ready s)" "I s"
  shows "wpE bad I (io_poll call round s)"
  using assms(4,5) poll_events_keeps [of I bad call, OF assms(1-3)]
  by (auto simp: io_poll_def split: poll_round.split)

text \<open>The entries a round reports readable, in the order of registration.\<close>

definition readable :: "('cb, 'm) proc_scheme \<Rightarrow> (int \<times> 'cb) list" where
  "readable s = map snd (filter (\<lambda>(x, _). revents x AND POLLIN \<noteq> 0) (zip (poll_items s) (registry s)))"

definition keeps_registry :: "('cb \<Rightarrow> int \<Rightarrow> sysin \<Rightarrow> ('cb, 'm) proc_scheme \<Rightarrow> halt + ('cb, 'm) proc_scheme) \<Rightarrow> bool"
where
  "keeps_registry call \<longleftrightarrow> (\<forall>cb fd x s t. call cb fd x s = Inr t \<longrightarrow>
     poll_items t = poll_items s \<and> cb_lists t = cb_lists s)"

lemma poll_events_from:
  assumes "keeps_registry call" "paired s"
    and "length (filter (\<lambda>(x, _). revents x AND POLLIN \<noteq> 0) (drop i (zip (poll_items s) (registry s)))) \<le> length ins"
  shows "poll_events call i ins s =
    forE (\<lambda>(e, x). call (snd e) (fst e) x)
      (zip (map snd (filter (\<lambda>(x, _). revents x AND POLLIN \<noteq> 0) (drop i (zip (poll_items s) (registry s))))) ins) s"
  using assms
proof (induction call i ins s rule: poll_events.induct)
  case (1 call i ins s)
  let ?z = "zip (poll_items s) (registry s)"
  have len: "length (cb_lists s) = length (poll_items s)"
    using "1.prems"(2) by (simp add: paired_def)
  show ?case
  proof (cases "i < length (poll_items s)")
    case False
    then show ?thesis using len by (simp add: poll_events.simps [of call] registry_def)
  next
    case i: True
    have z: "drop i ?z = (poll_items s ! i, pfd (poll_items s ! i), cb_lists s ! i) # drop (Suc i) ?z"
      using i len by (subst Cons_nth_drop_Suc [symmetric]) (simp_all add: registry_def)
    show ?thesis
    proof (cases "revents (poll_items s ! i) AND POLLIN = 0")
      case True
      with i "1.IH"(2) [OF i _ "1.prems"(1,2)] "1.prems"(3) show ?thesis
        by (simp add: poll_events.simps [of call] z)
    next
      case ready: False
      with "1.prems"(3) obtain x xs where ins: "ins = x # xs" by (cases ins) (simp_all add: z)
      have "poll_events call (Suc i) xs t =
          forE (\<lambda>(e, x). call (snd e) (fst e) x) (zip (map snd (filter (\<lambda>(x, _). revents x AND POLLIN \<noteq> 0) (drop (Suc i) ?z))) xs) t"
        if t: "call (cb_lists s ! i) (pfd (poll_items s ! i)) x s = Inr t" for t
      proof -
        have same: "poll_items t = poll_items s" "cb_lists t = cb_lists s"
          using "1.prems"(1) t by (auto simp: keeps_registry_def)
        then have "registry t = registry s" "paired t"
          using "1.prems"(2) by (simp_all add: registry_def paired_def)
        with t "1.IH"(1) [OF i ready _ ins, of t] "1.prems"(1,3) i len same ins ready show ?thesis
          by (simp add: z)
      qed
      then show ?thesis
        using i ready len ins by (simp add: poll_events.simps [of call] z cong: bindE_cong)
    qed
  qed
qed

theorem round_calls_readable:
  assumes "keeps_registry call" "paired s" "length (readable s) \<le> length ins"
  shows "poll_events call 0 ins s = forE (\<lambda>(e, x). call (snd e) (fst e) x) (zip (readable s) ins) s"
  using assms by (simp add: poll_events_from [of call] readable_def)

text \<open>A callback that deregisters its own descriptor: the index goes on to the next position of the
  vectors, and the item that followed has moved to the position behind it.\<close>

lemma find_fd_nth:
  assumes "i < length xs" "distinct (map pfd xs)"
  shows "find_fd (pfd (xs ! i)) xs = Some i"
  using assms
proof (induction xs arbitrary: i)
  case (Cons x xs)
  then show ?case by (cases i) (auto simp: nth_Cons' dest: nth_mem)
qed simp

lemma nth_erase_at: "i < length xs \<Longrightarrow> Suc i < length xs \<Longrightarrow> erase_at i xs ! i = xs ! Suc i"
  by (simp add: erase_at_def nth_append)

theorem deregistering_skips_next:
  assumes "paired s" "distinct (map pfd (poll_items s))" "Suc i < length (poll_items s)"
    and "revents (poll_items s ! i) AND POLLIN \<noteq> 0"
    and "call (cb_lists s ! i) (pfd (poll_items s ! i)) x s = Inr (deregister_fd (pfd (poll_items s ! i)) s)"
  shows "\<exists>t. poll_events call i (x # ins) s = poll_events call (Suc i) ins t
    \<and> poll_items t ! i = poll_items s ! Suc i \<and> cb_lists t ! i = cb_lists s ! Suc i
    \<and> length (poll_items t) = length (poll_items s) - 1"
proof -
  let ?t = "deregister_fd (pfd (poll_items s ! i)) s"
  have "?t = s\<lparr>poll_items := erase_at i (poll_items s), cb_lists := erase_at i (cb_lists s)\<rparr>"
    using assms(2,3) by (simp add: deregister_fd_def find_fd_nth)
  moreover have "poll_events call i (x # ins) s = poll_events call (Suc i) ins ?t"
    using assms by (simp add: poll_events.simps [of call i "x # ins"] paired_def)
  ultimately show ?thesis
    using assms(1,3) by (intro exI [of _ ?t]) (simp add: nth_erase_at length_erase_at paired_def)
qed

end
