(* ===== verification/DomainSocket.thy ===== *)
theory DomainSocket
  imports Iomux
begin

section \<open>Messages and UNIX domain sockets (common.hpp, DomainSocket.cpp)\<close>

text \<open>
  The messages between tester, master and workers, their raw form in memory (\<open>SerializedMsg\<close>), and the
  class \<open>DomainSocket\<close>, whose only member is its descriptor. A descriptor is an \<open>int\<close>; results of
  system calls come from \<open>os_ret\<close>, those of the blocking receive calls from the event.
\<close>

subsection \<open>Messages\<close>

text \<open>The union of four structs of two integers each: the identifier, and the second word.\<close>

record internal_msg =
  msg_id :: "32 word"
  msg_arg :: "32 word"

definition MASTER_READY_MSG_ID :: "32 word" where "MASTER_READY_MSG_ID = 0"
definition WORKER_READY_MSG_ID :: "32 word" where "WORKER_READY_MSG_ID = 1"
definition MASTER_TERMINATE_MSG_ID :: "32 word" where "MASTER_TERMINATE_MSG_ID = 2"
definition WORKER_TERMINATE_MSG_ID :: "32 word" where "WORKER_TERMINATE_MSG_ID = 3"

definition MAX_BUFFER :: nat where "MAX_BUFFER = 256"

definition serialized :: "internal_msg \<Rightarrow> bytes" where
  "serialized m = le32 (msg_id m) @ le32 (msg_arg m)"

text \<open>Reading the identifier and the second word through the pointer \<open>deserialized_data\<close> returns: past the
  end of the vector the access is out of bounds.\<close>

definition read_msg_id :: "bytes \<Rightarrow> halt + 32 word" where
  "read_msg_id v = bindE (guardE (4 \<le> length v) BadAccess) (\<lambda>_. Inr (of_le32 v))"

definition read_msg_arg :: "bytes \<Rightarrow> halt + 32 word" where
  "read_msg_arg v = bindE (guardE (8 \<le> length v) BadAccess) (\<lambda>_. Inr (of_le32 (drop 4 v)))"

definition deserialized :: "bytes \<Rightarrow> halt + internal_msg" where
  "deserialized v = bindE (read_msg_id v) (\<lambda>i. bindE (read_msg_arg v) (\<lambda>a. Inr \<lparr>msg_id = i, msg_arg = a\<rparr>))"

text \<open>Memory nobody wrote: the rest of a receive buffer, and an integer member that is not set.\<close>

definition junk_buffer :: "osenv \<Rightarrow> bytes" where
  "junk_buffer Os = map (os_junk Os) [0..<MAX_BUFFER]"

definition junk_int :: "osenv \<Rightarrow> 32 word" where
  "junk_int Os = of_le32 (junk_buffer Os)"

lemma length_junk_buffer [simp]: "length (junk_buffer Os) = MAX_BUFFER"
  by (simp add: junk_buffer_def)

subsection \<open>The socket\<close>

definition SUN_PATH_SIZE :: nat where "SUN_PATH_SIZE = 108"

definition domain_create :: "osenv \<Rightarrow> ('cb, 'm) proc_scheme \<Rightarrow> halt + (int \<times> ('cb, 'm) proc_scheme)" where
  "domain_create Os s = (let (fd, s) = sys Os s in if fd < 0 then Inl (Exit (-1)) else Inr (fd, s))"

text \<open>\<open>strcpy\<close> into \<open>sun_path\<close> has to fit with its NUL.\<close>

definition domain_bind :: "osenv \<Rightarrow> int \<Rightarrow> bytes \<Rightarrow> ('cb, 'm) proc_scheme \<Rightarrow> halt + ('cb, 'm) proc_scheme" where
  "domain_bind Os fd servername s =
     (let s = emit (Unlinked (c_str servername)) s in
      bindE (guardE (length (c_str servername) < SUN_PATH_SIZE) BadAccess) (\<lambda>_.
        let s = emit (Unlinked (c_str servername)) s;
            (r, s) = sys Os s
        in if r < 0 then Inl (Exit (-1)) else Inr (emit (Bound fd (c_str servername)) s)))"

definition domain_listen :: "osenv \<Rightarrow> int \<Rightarrow> ('cb, 'm) proc_scheme \<Rightarrow> halt + ('cb, 'm) proc_scheme" where
  "domain_listen Os fd s =
     (let (r, s) = sys Os s in if r < 0 then Inl (Exit (-1)) else Inr (emit (Listening fd) s))"

definition domain_connect :: "osenv \<Rightarrow> int \<Rightarrow> bytes \<Rightarrow> ('cb, 'm) proc_scheme \<Rightarrow> halt + ('cb, 'm) proc_scheme" where
  "domain_connect Os fd servername s =
     bindE (guardE (length (c_str servername) < SUN_PATH_SIZE) BadAccess) (\<lambda>_.
       let (r, s) = sys Os s
       in if r < 0 then Inl (Exit (-1)) else Inr (emit (Connected fd (c_str servername)) s))"

datatype socket_type = SERVER_DOMAIN_SOCKET | CLIENT_DOMAIN_SOCKET

definition local_name :: "osenv \<Rightarrow> bytes" where
  "local_name Os = bytes_of ''./tmp/tmp'' @ decimal (unat (os_pid Os)) @ bytes_of ''.sock''"

definition domain_socket_new :: "osenv \<Rightarrow> bytes \<Rightarrow> socket_type \<Rightarrow> ('cb, 'm) proc_scheme
    \<Rightarrow> halt + (int \<times> ('cb, 'm) proc_scheme)" where
  "domain_socket_new Os servername ty s =
     bindE (domain_create Os s) (\<lambda>(fd, s).
     bindE (case ty of
              SERVER_DOMAIN_SOCKET \<Rightarrow> bindE (domain_bind Os fd servername s) (domain_listen Os fd)
            | CLIENT_DOMAIN_SOCKET \<Rightarrow>
                bindE (domain_bind Os fd (local_name Os) s) (domain_connect Os fd servername))
       (\<lambda>s. Inr (fd, s)))"

text \<open>The destructor: descriptor 0 is left open.\<close>

definition domain_close :: "int \<Rightarrow> ('cb, 'm) proc_scheme \<Rightarrow> ('cb, 'm) proc_scheme" where
  "domain_close fd s = (if fd > 0 then emit (Closed fd) s else s)"

definition domain_accept :: "sysin \<Rightarrow> halt + int" where
  "domain_accept x = (if in_accept x < 0 then Inl (Exit (-1)) else Inr (in_accept x))"

text \<open>\<open>recv\<close> fills at most \<open>MAX_BUFFER\<close> bytes.\<close>

definition domain_read :: "sysin \<Rightarrow> halt + bytes option" where
  "domain_read x =
     (case in_recv x of
        None \<Rightarrow> Inl (Exit (-1))
      | Some d \<Rightarrow> Inr (if d = [] then None else Some (take MAX_BUFFER d)))"

text \<open>What the system took of the message; a failure is only logged.\<close>

definition domain_write :: "osenv \<Rightarrow> int \<Rightarrow> bytes \<Rightarrow> ('cb, 'm) proc_scheme \<Rightarrow> ('cb, 'm) proc_scheme" where
  "domain_write Os fd msg s =
     (let (r, s) = sys Os s in if r < 0 then s else emit (Sent fd (take (nat r) msg)) s)"

definition domain_send_msg :: "osenv \<Rightarrow> int \<Rightarrow> bytes \<Rightarrow> ('cb, 'm) proc_scheme \<Rightarrow> halt + ('cb, 'm) proc_scheme" where
  "domain_send_msg Os fd msg s =
     (let (r, s) = sys Os s in
      if r = -1 then Inl (Exit (-1)) else Inr (emit (SentMsg fd (take (nat r) msg) None) s))"

definition SOL_SOCKET :: int where "SOL_SOCKET = 1"
definition SCM_RIGHTS :: int where "SCM_RIGHTS = 1"

text \<open>\<open>CMSG_LEN\<close> on a 64-bit system: the header of 16 bytes and the data.\<close>

definition CMSG_LEN :: "nat \<Rightarrow> nat" where "CMSG_LEN n = 16 + n"

definition rights_of :: "int \<Rightarrow> cmsg" where
  "rights_of fd = \<lparr>cmsg_len = CMSG_LEN 4, cmsg_level = SOL_SOCKET, cmsg_type = SCM_RIGHTS, cmsg_data = fd\<rparr>"

definition domain_send_fd :: "osenv \<Rightarrow> int \<Rightarrow> int \<Rightarrow> ('cb, 'm) proc_scheme \<Rightarrow> halt + ('cb, 'm) proc_scheme" where
  "domain_send_fd Os sock fd s =
     (let (r, s) = sys Os s in
      if r = -1 then Inl (Exit (-1))
      else Inr (emit (SentMsg sock (take (nat r) (bytes_of ''$'')) (Some (rights_of fd))) s))"

text \<open>The new value of \<open>recvfd\<close>, and the message, which has the size of the buffer.\<close>

definition domain_recv_msg :: "osenv \<Rightarrow> sysin \<Rightarrow> int \<Rightarrow> halt + (int \<times> bytes option)" where
  "domain_recv_msg Os x recvfd =
     (case in_recv x of
        None \<Rightarrow> Inl (Exit (-1))
      | Some d \<Rightarrow>
          if d = [] then Inr (recvfd, None)
          else
            (case in_control x of
               Some c \<Rightarrow>
                 if cmsg_len c = CMSG_LEN 4 \<and> cmsg_level c = SOL_SOCKET \<and> cmsg_type c = SCM_RIGHTS
                 then Inr (cmsg_data c, None)
                 else Inr (recvfd, Some (take MAX_BUFFER d @ drop (length d) (junk_buffer Os)))
             | None \<Rightarrow> Inr (recvfd, Some (take MAX_BUFFER d @ drop (length d) (junk_buffer Os)))))"

subsection \<open>Messages survive the wire\<close>

lemma serialized_length [simp]: "length (serialized m) = 8"
  by (simp add: serialized_def)

lemma read_serialized:
  "read_msg_id (serialized m @ v) = Inr (msg_id m)"
  "read_msg_arg (serialized m @ v) = Inr (msg_arg m)"
  "deserialized (serialized m @ v) = Inr m"
  by (simp_all add: read_msg_id_def read_msg_arg_def deserialized_def serialized_def of_le32_le32)

interpretation internal: codec "\<lambda>m. Inr (serialized m)" deserialized "\<lambda>_. True"
  using read_serialized(3) [of _ "[]"] by unfold_locales simp

lemma domain_recv_msg_size:
  assumes "domain_recv_msg Os x fd = Inr (fd', Some v)"
  shows "length v = MAX_BUFFER"
  using assms by (auto simp: domain_recv_msg_def split: option.splits if_splits)

text \<open>Two messages in one \<open>recv\<close> of the stream: only the first is read.\<close>

lemma read_first_only: "deserialized (take MAX_BUFFER (serialized a @ serialized b)) = Inr a"
  using read_serialized(3) [of a "serialized b"] by (simp add: MAX_BUFFER_def)

text \<open>
  C12. What domain_send_fd puts on the socket, received with the descriptor installed under another
  number, makes domain_recv_msg return that number and no message.
\<close>

theorem fd_passing:
  assumes "0 < os_ret Os (calls s)" "domain_send_fd Os sock fd s = Inr t"
  shows "\<exists>d c. effects t = effects s @ [SentMsg sock d (Some c)] \<and> d \<noteq> []
    \<and> (\<forall>x install. in_recv x = Some d \<longrightarrow> in_control x = Some (c\<lparr>cmsg_data := install (cmsg_data c)\<rparr>) \<longrightarrow>
         domain_recv_msg Os' x r = Inr (install fd, None))"
  using assms
  by (auto simp: domain_send_fd_def sys_def emit_def rights_of_def domain_recv_msg_def bytes_of_def nat_eq_iff
      split: if_splits)

subsection \<open>Opening sockets\<close>

text \<open>A system where every call succeeds, returning at least \<open>n\<close>.\<close>

definition all_succeed :: "osenv \<Rightarrow> int \<Rightarrow> bool" where
  "all_succeed Os n \<longleftrightarrow> (\<forall>i. n \<le> os_ret Os i)"

lemma all_succeedD: "all_succeed Os n \<Longrightarrow> 0 \<le> n \<Longrightarrow> \<not> os_ret Os i < 0 \<and> os_ret Os i \<noteq> -1 \<and> nat n \<le> nat (os_ret Os i)"
  by (auto simp: all_succeed_def not_less intro: order_trans nat_mono) (metis leD neg_less_0_iff_less order.strict_trans1 zero_less_one)

lemma local_name_fits: "length (c_str (local_name Os)) < SUN_PATH_SIZE"
proof -
  have "unat (os_pid Os) < 10 ^ Suc 9" using unsigned_less [of "os_pid Os", where ?'a = nat] by simp
  then have "length (local_name Os) < SUN_PATH_SIZE"
    using decimal_length [of _ 9] by (simp add: local_name_def bytes_of_def SUN_PATH_SIZE_def) fastforce
  then show ?thesis
    using length_takeWhile_le [of _ "local_name Os"] unfolding c_str_def by (rule le_less_trans [rotated])
qed

lemma server_socket_opened:
  assumes "all_succeed Os n" "0 \<le> n" "length (c_str name) < SUN_PATH_SIZE"
  shows "domain_socket_new Os name SERVER_DOMAIN_SOCKET s = Inr (os_ret Os (calls s),
    s\<lparr>calls := calls s + 3, effects := effects s @ [Unlinked (c_str name), Unlinked (c_str name),
      Bound (os_ret Os (calls s)) (c_str name), Listening (os_ret Os (calls s))]\<rparr>)"
  using all_succeedD [OF assms(1,2)] assms(3)
  by (simp add: domain_socket_new_def domain_create_def domain_bind_def domain_listen_def sys_def Let_def emit_def
      numeral_3_eq_3)

lemma client_socket_opened:
  assumes "all_succeed Os n" "0 \<le> n" "length (c_str name) < SUN_PATH_SIZE"
  shows "domain_socket_new Os name CLIENT_DOMAIN_SOCKET s = Inr (os_ret Os (calls s),
    s\<lparr>calls := calls s + 3, effects := effects s @ [Unlinked (c_str (local_name Os)), Unlinked (c_str (local_name Os)),
      Bound (os_ret Os (calls s)) (c_str (local_name Os)), Connected (os_ret Os (calls s)) (c_str name)]\<rparr>)"
  using all_succeedD [OF assms(1,2)] assms(3) local_name_fits
  by (simp add: domain_socket_new_def domain_create_def domain_bind_def domain_connect_def sys_def Let_def emit_def
      numeral_3_eq_3)

end
