(* ===== verification/DomainEndpoints.thy ===== *)
theory DomainEndpoints
  imports DomainSocket
begin

section \<open>Domain socket endpoints (DomainSocketServerEndpoint.cpp, DomainSocketClientEndpoint.cpp)\<close>

text \<open>
  The two endpoint classes that tie a domain socket to the event loop. The callbacks they register are
  parameters (\<open>cb_accept\<close>, \<open>cb_receive\<close>); a received message is returned, for the handler the owner
  has registered.
\<close>

subsection \<open>Server\<close>

record server_endpoint =
  listen_fd :: int
  conn_client_fds :: "int list"

text \<open>The return code and the new \<open>listen_fd\<close>.\<close>

definition dse_listen :: "osenv \<Rightarrow> bytes \<Rightarrow> ('cb, 'm) proc_scheme \<Rightarrow> halt + (int \<times> int \<times> ('cb, 'm) proc_scheme)"
where
  "dse_listen Os servername s =
     (let (fd, s) = sys Os s in
      if fd < 0 then Inr (-1, fd, s)
      else
        let s = emit (Unlinked (c_str servername)) s in
        bindE (guardE (length (c_str servername) < SUN_PATH_SIZE) BadAccess) (\<lambda>_.
          let (r, s) = sys Os s in
          if r < 0 then Inr (-2, 0, emit (Closed fd) s)
          else
            let s = emit (Bound fd (c_str servername)) s;
                (r, s) = sys Os s
            in if r < 0 then Inr (-3, 0, emit (Closed fd) s)
               else Inr (0, fd, emit (Listening fd) s)))"

text \<open>The constructor registers \<open>listen_fd\<close> whatever the return code was.\<close>

definition dse_new :: "osenv \<Rightarrow> bytes \<Rightarrow> 'cb \<Rightarrow> ('cb, 'm) proc_scheme
    \<Rightarrow> halt + (server_endpoint \<times> ('cb, 'm) proc_scheme)" where
  "dse_new Os servername cb_accept s =
     bindE (dse_listen Os servername s) (\<lambda>(_, fd, s).
       Inr (\<lparr>listen_fd = fd, conn_client_fds = []\<rparr>, register_fd Os fd cb_accept s))"

definition dse_accept :: "osenv \<Rightarrow> 'cb \<Rightarrow> sysin \<Rightarrow> server_endpoint \<Rightarrow> ('cb, 'm) proc_scheme
    \<Rightarrow> int \<times> server_endpoint \<times> ('cb, 'm) proc_scheme" where
  "dse_accept Os cb_receive x e s =
     (if in_accept x < 0 then (-1, e, s)
      else (0, e\<lparr>conn_client_fds := conn_client_fds e @ [in_accept x]\<rparr>,
            register_fd Os (in_accept x) cb_receive s))"

text \<open>The callback of the listening descriptor.\<close>

definition dse_on_listen :: "osenv \<Rightarrow> 'cb \<Rightarrow> int \<Rightarrow> sysin \<Rightarrow> server_endpoint \<Rightarrow> ('cb, 'm) proc_scheme
    \<Rightarrow> server_endpoint \<times> ('cb, 'm) proc_scheme" where
  "dse_on_listen Os cb_receive sock_fd x e s =
     (if sock_fd \<noteq> listen_fd e then (e, s)
      else let (_, e, s) = dse_accept Os cb_receive x e s in (e, s))"

text \<open>A failed \<open>recv\<close> makes a vector of negative length.\<close>

definition dse_receive :: "int \<Rightarrow> sysin \<Rightarrow> ('cb, 'm) proc_scheme \<Rightarrow> halt + (bytes option \<times> ('cb, 'm) proc_scheme)"
where
  "dse_receive sock_fd x s =
     (case in_recv x of
        None \<Rightarrow> Inl LengthError
      | Some d \<Rightarrow> if d = [] then Inr (None, deregister_fd sock_fd s)
                  else Inr (Some (take MAX_BUFFER d), s))"

fun dse_publish :: "osenv \<Rightarrow> bytes \<Rightarrow> int list \<Rightarrow> ('cb, 'm) proc_scheme \<Rightarrow> ('cb, 'm) proc_scheme" where
  "dse_publish Os msg [] s = s"
| "dse_publish Os msg (fd # fds) s =
     (let (r, s) = sys Os s;
          s = (if r < 0 then s else emit (Sent fd (take (nat r) msg)) s)
      in dse_publish Os msg fds s)"

definition dse_publish_msg :: "osenv \<Rightarrow> bytes \<Rightarrow> server_endpoint \<Rightarrow> ('cb, 'm) proc_scheme \<Rightarrow> ('cb, 'm) proc_scheme"
where
  "dse_publish_msg Os msg e s = dse_publish Os msg (conn_client_fds e) s"

definition get_client_num :: "server_endpoint \<Rightarrow> nat" where
  "get_client_num e = length (conn_client_fds e)"

definition close_all :: "int list \<Rightarrow> ('cb, 'm) proc_scheme \<Rightarrow> ('cb, 'm) proc_scheme" where
  "close_all fds s = foldl (\<lambda>s fd. emit (Closed fd) s) s fds"

definition dse_close :: "server_endpoint \<Rightarrow> ('cb, 'm) proc_scheme \<Rightarrow> server_endpoint \<times> ('cb, 'm) proc_scheme" where
  "dse_close e s =
     (let (e, s) = (if listen_fd e > 0 then (e\<lparr>listen_fd := 0\<rparr>, emit (Closed (listen_fd e)) s) else (e, s))
      in (e, close_all (conn_client_fds e) s))"

subsection \<open>Client\<close>

text \<open>\<open>sprintf\<close> with \<open>%05d\<close>.\<close>

definition dce_local_name :: "osenv \<Rightarrow> bytes" where
  "dce_local_name Os =
     (let d = decimal (unat (os_pid Os))
      in bytes_of ''./tmp/tmp'' @ replicate (5 - length d) 48 @ d @ bytes_of ''.sock'')"

definition dce_connect :: "osenv \<Rightarrow> bytes \<Rightarrow> ('cb, 'm) proc_scheme \<Rightarrow> halt + (int \<times> ('cb, 'm) proc_scheme)" where
  "dce_connect Os servername s =
     (let (fd, s) = sys Os s in
      if fd < 0 then Inr (-1, s)
      else
        let s = emit (Unlinked (dce_local_name Os)) s;
            (r, s) = sys Os s
        in if r < 0 then Inr (-2, emit (Closed fd) s)
           else
             let s = emit (Bound fd (dce_local_name Os)) s in
             bindE (guardE (length (c_str servername) < SUN_PATH_SIZE) BadAccess) (\<lambda>_.
               let (r, s) = sys Os s in
               if r < 0 then Inr (-4, emit (Closed fd) s)
               else Inr (fd, emit (Connected fd (c_str servername)) s)))"

definition dce_new :: "osenv \<Rightarrow> bytes \<Rightarrow> 'cb \<Rightarrow> ('cb, 'm) proc_scheme \<Rightarrow> halt + (int \<times> ('cb, 'm) proc_scheme)" where
  "dce_new Os servername cb_receive s =
     bindE (dce_connect Os servername s) (\<lambda>(fd, s).
       if fd < 0 then Inl (Exit 0) else Inr (fd, register_fd Os fd cb_receive s))"

definition dce_receive :: "sysin \<Rightarrow> halt + bytes" where
  "dce_receive x =
     (case in_recv x of
        None \<Rightarrow> Inl LengthError
      | Some d \<Rightarrow> if d = [] then Inl (Exit 0) else Inr (take MAX_BUFFER d))"

definition dce_send_msg :: "osenv \<Rightarrow> int \<Rightarrow> bytes \<Rightarrow> ('cb, 'm) proc_scheme \<Rightarrow> ('cb, 'm) proc_scheme" where
  "dce_send_msg Os conn_fd msg s =
     (let (r, s) = sys Os s in if r < 0 then s else emit (Sent conn_fd (take (nat r) msg)) s)"

definition dce_close :: "int \<Rightarrow> ('cb, 'm) proc_scheme \<Rightarrow> ('cb, 'm) proc_scheme" where
  "dce_close conn_fd s = emit (Closed conn_fd) s"

subsection \<open>Properties\<close>

text \<open>Whether a descriptor is open, from the effects: opened by this call, closed or not.\<close>

theorem dse_failed_listen_polls_stdin:
  assumes "paired s" "0 \<le> os_ret Os (calls s)" "length (c_str servername) < SUN_PATH_SIZE"
    and "os_ret Os (calls s + 1) < 0 \<or> os_ret Os (calls s + 2) < 0"
  shows "\<exists>e t. dse_new Os servername cb s = Inr (e, t) \<and> listen_fd e = 0
    \<and> registry t = registry s @ [(0, cb)]
    \<and> Closed (os_ret Os (calls s)) \<in> set (effects t)"
  using assms
  by (auto simp: dse_new_def dse_listen_def sys_def Let_def mux.view_reg)
     (auto simp: register_fd_def emit_def)

text \<open>A peer that went away is no longer polled, but still counted and still written to.\<close>

theorem dse_lost_client_kept:
  assumes "paired s" "distinct (map fst (registry s))" "in_recv x = Some []" "fd \<in> set (conn_client_fds e)"
  shows "\<exists>t. dse_receive fd x s = Inr (None, t) \<and> fd \<notin> fst ` set (registry t)
    \<and> effects t = effects s \<and> fd \<in> set (conn_client_fds e)"
  using assms mux.dereg_gone(1) [OF assms(1,2), of fd]
  by (auto simp: dse_receive_def deregister_fd_def split: option.splits)

text \<open>Every client gets one message, in the order of their connection.\<close>

lemma dse_publish_sent:
  assumes "\<forall>i. 0 \<le> os_ret Os i"
  shows "\<exists>ds. length ds = length fds \<and> effects (dse_publish Os msg fds s) = effects s @ map2 Sent fds ds"
proof (induction fds arbitrary: s)
  case (Cons fd fds)
  let ?d = "take (nat (os_ret Os (calls s))) msg"
  let ?t = "emit (Sent fd ?d) (s\<lparr>calls := Suc (calls s)\<rparr>)"
  obtain ds where "length ds = length fds" "effects (dse_publish Os msg fds ?t) = effects ?t @ map2 Sent fds ds"
    using Cons.IH by blast
  moreover have "\<not> os_ret Os (calls s) < 0" using assms by (simp add: not_less)
  ultimately show ?case
    by (intro exI [of _ "?d # ds"]) (simp add: sys_def)
qed simp

text \<open>The client's connection attempt leaves no descriptor open when it fails.\<close>

theorem dce_connect_closes_on_failure:
  assumes "dce_connect Os servername s = Inr (r, t)" "0 \<le> os_ret Os (calls s)"
  shows "if r < 0 then last (effects t) = Closed (os_ret Os (calls s))
    else r = os_ret Os (calls s) \<and> last (effects t) = Connected r (c_str servername)"
  using assms
  by (auto simp: dce_connect_def sys_def Let_def bindE_eq_Inr emit_def split: if_splits)

end
