(* ===== verification/Sctp.thy ===== *)
theory Sctp
  imports DomainSocket
begin

section \<open>SCTP sockets and endpoints (SctpSocket.cpp, SctpServerEndpoint.cpp, SctpClientEndpoint.cpp)\<close>

text \<open>
  The socket class, the envelope of a received message (\<open>SctpMessage.hpp\<close>) and the two endpoint classes.
  \<open>inet_ntop\<close> and the kernel's notifications are the system's: \<open>sin_addr\<close> is the text of the peer's
  address, and the layout and the constants of \<open>netinet/sctp.h\<close> are those of Linux.
\<close>

subsection \<open>Messages\<close>

definition AF_INET :: int where "AF_INET = 2"
definition MSG_NOTIFICATION :: "32 word" where "MSG_NOTIFICATION = 0x8000"
definition MY_PORT_NUM :: "32 word" where "MY_PORT_NUM = 18005"

definition ntohs :: "16 word \<Rightarrow> 16 word" where
  "ntohs w = push_bit 8 w OR drop_bit 8 w"

record envelope =
  ipaddr :: bytes
  port :: "16 word"
  asso_id :: "32 word"
  stream :: "16 word"
  env_flags :: "32 word"
  payload :: bytes

definition envelope_new :: "bytes \<Rightarrow> sctp_info \<Rightarrow> halt + envelope" where
  "envelope_new readbuf i =
     bindE (guardE (sin_family i = AF_INET) (Exit 0)) (\<lambda>_.
       Inr \<lparr>ipaddr = sin_addr i, port = ntohs (sin_port i), asso_id = sinfo_assoc_id i,
            stream = sinfo_stream i, env_flags = msg_flags i, payload = readbuf\<rparr>)"

subsection \<open>The socket\<close>

definition sctp_create :: "osenv \<Rightarrow> ('cb, 'm) proc_scheme \<Rightarrow> halt + (int \<times> ('cb, 'm) proc_scheme)" where
  "sctp_create Os s = (let (fd, s) = sys Os s in if fd < 0 then Inl (Exit (-1)) else Inr (fd, s))"

definition sctp_opt_set :: "osenv \<Rightarrow> ('cb, 'm) proc_scheme \<Rightarrow> halt + ('cb, 'm) proc_scheme" where
  "sctp_opt_set Os s = (let (r, s) = sys Os s in if r = -1 then Inl (Exit (-1)) else Inr s)"

text \<open>A failing \<open>listen\<close> is only logged.\<close>

definition bind_listen_to :: "osenv \<Rightarrow> int \<Rightarrow> bytes \<Rightarrow> 32 word \<Rightarrow> ('cb, 'm) proc_scheme \<Rightarrow> halt + ('cb, 'm) proc_scheme"
where
  "bind_listen_to Os fd ip p s =
     (let (r, s) = sys Os s in
      if r = -1 then Inl (Exit (-1))
      else
        let s = emit (SctpBound fd ip p) s;
            (r, s) = sys Os s
        in Inr (if r = -1 then s else emit (Listening fd) s))"

definition sctp_connect :: "osenv \<Rightarrow> int \<Rightarrow> bytes \<Rightarrow> 32 word \<Rightarrow> ('cb, 'm) proc_scheme \<Rightarrow> halt + ('cb, 'm) proc_scheme"
where
  "sctp_connect Os fd ip p s =
     (let (r, s) = sys Os s in
      if r = -1 then Inl (Exit (-1)) else Inr (emit (SctpConnected fd ip p) s))"

datatype sctp_type = SERVER_SCTP_SOCKET | CLIENT_SCTP_SOCKET

definition sctp_socket_new :: "osenv \<Rightarrow> bytes \<Rightarrow> 32 word \<Rightarrow> sctp_type \<Rightarrow> ('cb, 'm) proc_scheme
    \<Rightarrow> halt + (int \<times> ('cb, 'm) proc_scheme)" where
  "sctp_socket_new Os ip p ty s =
     bindE (sctp_create Os s) (\<lambda>(fd, s).
     bindE (sctp_opt_set Os s) (\<lambda>s.
     bindE (case ty of
              SERVER_SCTP_SOCKET \<Rightarrow> bind_listen_to Os fd ip p s
            | CLIENT_SCTP_SOCKET \<Rightarrow> sctp_connect Os fd ip p s)
       (\<lambda>s. Inr (fd, s))))"

definition sctp_close :: "int \<Rightarrow> ('cb, 'm) proc_scheme \<Rightarrow> ('cb, 'm) proc_scheme" where
  "sctp_close fd s = emit (Closed fd) s"

text \<open>The vector has the size of \<open>readBuf\<close>, one more than what is received into.\<close>

definition read_buf :: "osenv \<Rightarrow> bytes \<Rightarrow> bytes" where
  "read_buf Os d = take MAX_BUFFER d @ drop (length (take MAX_BUFFER d)) (map (os_junk Os) [0..<Suc MAX_BUFFER])"

definition sctp_read :: "osenv \<Rightarrow> sysin \<Rightarrow> halt + envelope option" where
  "sctp_read Os x =
     (case in_recv x of
        None \<Rightarrow> Inr None
      | Some d \<Rightarrow> bindE (envelope_new (read_buf Os d) (in_info x)) (\<lambda>m. Inr (Some m)))"

definition sctp_write :: "osenv \<Rightarrow> int \<Rightarrow> bytes \<Rightarrow> ('cb, 'm) proc_scheme \<Rightarrow> ('cb, 'm) proc_scheme" where
  "sctp_write Os fd msg s =
     (let (r, s) = sys Os s in if r < 0 then s else emit (SctpSent fd 1 (take (nat r) msg)) s)"

subsection \<open>Notifications\<close>

text \<open>16-bit and 32-bit members of \<open>sctp_notification\<close> at their offsets.\<close>

definition le16_at :: "nat \<Rightarrow> bytes \<Rightarrow> 16 word" where
  "le16_at k v = ucast (v ! k) OR push_bit 8 (ucast (v ! Suc k))"

definition sn_type :: "bytes \<Rightarrow> 16 word" where "sn_type v = le16_at 0 v"
definition sac_state :: "bytes \<Rightarrow> 16 word" where "sac_state v = le16_at 8 v"

definition SCTP_ASSOC_CHANGE :: "16 word" where "SCTP_ASSOC_CHANGE = 0x8001"
definition SCTP_COMM_UP :: "16 word" where "SCTP_COMM_UP = 0"
definition SCTP_SHUTDOWN_COMP :: "16 word" where "SCTP_SHUTDOWN_COMP = 3"

subsection \<open>The client endpoint\<close>

definition sce_new :: "osenv \<Rightarrow> bytes \<Rightarrow> 32 word \<Rightarrow> 'cb \<Rightarrow> ('cb, 'm) proc_scheme
    \<Rightarrow> halt + (int \<times> ('cb, 'm) proc_scheme)" where
  "sce_new Os ip p cb s =
     bindE (sctp_socket_new Os ip p CLIENT_SCTP_SOCKET s) (\<lambda>(fd, s). Inr (fd, register_fd Os fd cb s))"

text \<open>The endpoint over a descriptor received from another process.\<close>

definition sce_attach :: "osenv \<Rightarrow> int \<Rightarrow> 'cb \<Rightarrow> ('cb, 'm) proc_scheme \<Rightarrow> int \<times> ('cb, 'm) proc_scheme" where
  "sce_attach Os fd cb s = (fd, register_fd Os fd cb s)"

definition sce_delete :: "int \<Rightarrow> ('cb, 'm) proc_scheme \<Rightarrow> ('cb, 'm) proc_scheme" where
  "sce_delete fd s = sctp_close fd (deregister_fd fd s)"

text \<open>The handler only logs; the result is \<open>-1\<close> after a failed receive.\<close>

definition sce_handler :: "osenv \<Rightarrow> sysin \<Rightarrow> halt + int" where
  "sce_handler Os x =
     bindE (sctp_read Os x) (\<lambda>m. case m of None \<Rightarrow> Inr (-1) | Some m \<Rightarrow> Inr 0)"

definition sce_send_msg :: "osenv \<Rightarrow> int \<Rightarrow> bytes \<Rightarrow> ('cb, 'm) proc_scheme \<Rightarrow> ('cb, 'm) proc_scheme" where
  "sce_send_msg Os fd msg s = sctp_write Os fd msg s"

subsection \<open>The server endpoint\<close>

record asso_info =
  asso_ip :: bytes
  asso_port :: "16 word"
  asso_stream :: "16 word"

record sctp_server =
  sctp_listen :: int
  sctp_conn :: "int option"
  asso_info :: "asso_info option"

definition sse_new :: "osenv \<Rightarrow> bytes \<Rightarrow> 32 word \<Rightarrow> 'cb \<Rightarrow> ('cb, 'm) proc_scheme
    \<Rightarrow> halt + (sctp_server \<times> ('cb, 'm) proc_scheme)" where
  "sse_new Os ip p cb s =
     bindE (sctp_socket_new Os ip p SERVER_SCTP_SOCKET s) (\<lambda>(fd, s).
       Inr (\<lparr>sctp_listen = fd, sctp_conn = None, asso_info = None\<rparr>, register_fd Os fd cb s))"

definition sse_delete :: "sctp_server \<Rightarrow> ('cb, 'm) proc_scheme \<Rightarrow> ('cb, 'm) proc_scheme" where
  "sse_delete e s =
     (let s = deregister_fd (sctp_listen e) s;
          s = (case sctp_conn e of None \<Rightarrow> s | Some fd \<Rightarrow> sctp_close fd (deregister_fd fd s))
      in sctp_close (sctp_listen e) s)"

text \<open>The stream member of a new \<open>AssociationInfo\<close> is set by \<open>make_unique\<close>'s value-initialisation.\<close>

definition sse_notification :: "envelope \<Rightarrow> sctp_server \<Rightarrow> ('cb, 'm) proc_scheme
    \<Rightarrow> halt + (sctp_server \<times> ('cb, 'm) proc_scheme)" where
  "sse_notification m e s =
     (if sn_type (payload m) = SCTP_ASSOC_CHANGE then
        if sac_state (payload m) = SCTP_COMM_UP then
          Inr (e\<lparr>asso_info := Some \<lparr>asso_ip = ipaddr m, asso_port = port m, asso_stream = 0\<rparr>\<rparr>, s)
        else if sac_state (payload m) = SCTP_SHUTDOWN_COMP then
          bindE (fetchE NullAccess (sctp_conn e)) (\<lambda>fd. Inr (e, deregister_fd fd s))
        else Inr (e, s)
      else Inr (e, s))"

definition sse_message :: "envelope \<Rightarrow> sctp_server \<Rightarrow> halt + sctp_server" where
  "sse_message m e =
     bindE (fetchE NullAccess (asso_info e)) (\<lambda>a.
       Inr (e\<lparr>asso_info := Some (a\<lparr>asso_stream := stream m\<rparr>)\<rparr>))"

text \<open>\<open>newconn\<close> is the handler the owner has registered for new connections.\<close>

definition sse_handler :: "osenv \<Rightarrow> (int \<Rightarrow> ('cb, 'm) proc_scheme \<Rightarrow> halt + ('cb, 'm) proc_scheme) \<Rightarrow> int \<Rightarrow> sysin
    \<Rightarrow> sctp_server \<Rightarrow> ('cb, 'm) proc_scheme \<Rightarrow> halt + (sctp_server \<times> ('cb, 'm) proc_scheme)" where
  "sse_handler Os newconn sock_fd x e s =
     (if sock_fd = sctp_listen e then bindE (newconn (in_accept x) s) (\<lambda>s. Inr (e, s))
      else
        bindE (fetchE NullAccess (sctp_conn e)) (\<lambda>conn.
          if sock_fd = conn then
            bindE (sctp_read Os x) (\<lambda>m.
              case m of
                None \<Rightarrow> Inl (Exit 0)
              | Some m \<Rightarrow>
                  if env_flags m AND MSG_NOTIFICATION \<noteq> 0 then sse_notification m e s
                  else bindE (sse_message m e) (\<lambda>e. Inr (e, s)))
          else Inr (e, s)))"

definition sse_send_msg :: "osenv \<Rightarrow> bytes \<Rightarrow> sctp_server \<Rightarrow> ('cb, 'm) proc_scheme \<Rightarrow> halt + ('cb, 'm) proc_scheme" where
  "sse_send_msg Os msg e s =
     bindE (fetchE NullAccess (sctp_conn e)) (\<lambda>fd. Inr (sctp_write Os fd msg s))"

subsection \<open>Properties\<close>

lemma read_buf_length [simp]: "length (read_buf Os d) = Suc MAX_BUFFER"
  by (simp add: read_buf_def)

text \<open>Whatever was received, the application sees 257 bytes.\<close>

lemma sctp_read_size: "sctp_read Os x = Inr (Some m) \<Longrightarrow> length (payload m) = Suc MAX_BUFFER"
  by (auto simp: sctp_read_def envelope_new_def bindE_eq_Inr split: option.splits)

text \<open>A server endpoint never gets a connection socket.\<close>

lemma sse_conn_None:
  "sse_new Os ip p cb s = Inr (e, t) \<Longrightarrow> sctp_conn e = None"
  "sse_handler Os newconn fd x e s = Inr (e', t) \<Longrightarrow> sctp_conn e = None \<Longrightarrow> e' = e"
  by (auto simp: sse_new_def sse_handler_def bindE_eq_Inr split: if_splits)

end
