(* ===== verification/Herd_Master.thy ===== *)
theory Herd_Master
  imports Sctp "HOL-Library.Multiset"
begin

section \<open>The master process (master.cpp)\<close>

text \<open>
  The class \<open>master\<close>: its callbacks are the four lambdas it or its SCTP endpoint registers with the
  event loop. A \<open>DomainSocket\<close> is its descriptor, so the map \<open>workers_socket_connect\<close> from descriptors
  to sockets is the increasing list of its keys. \<open>run\<close> is given the rounds of \<open>poll\<close> and the results of
  the \<open>wait\<close> calls; running out of either is waiting forever (\<open>Blocked\<close>).
\<close>

subsection \<open>State\<close>

datatype master_cb = OnTester | OnWorkerListen | OnWorker | OnSctp

record master = "master_cb proc" +
  sctp_endpoint :: "sctp_server option"
  test_socket_client :: int
  worker_socket_listen :: "int option"
  workers_socket_connect :: "int list"
  workers_pid :: "int list"
  is_terminated :: bool
  worker_count :: int

definition TEST_MASTER_SOCKET_NAME :: bytes where
  "TEST_MASTER_SOCKET_NAME = bytes_of ''./tmp/test_master.sock''"

definition MASTER_WORKER_SOCKET_NAME :: bytes where
  "MASTER_WORKER_SOCKET_NAME = bytes_of ''./tmp/master_worker.sock''"

definition server_ip :: bytes where
  "server_ip = bytes_of ''127.0.0.1''"

subsection \<open>Operations\<close>

definition indicate_test_framework :: "osenv \<Rightarrow> master \<Rightarrow> halt + master" where
  "indicate_test_framework Os s =
     domain_send_msg Os (test_socket_client s)
       (serialized \<lparr>msg_id = MASTER_READY_MSG_ID, msg_arg = os_pid Os\<rparr>) s"

text \<open>The handler registered for new SCTP connections: the descriptor goes to every worker.\<close>

definition pass_to_workers :: "osenv \<Rightarrow> int \<Rightarrow> master \<Rightarrow> halt + master" where
  "pass_to_workers Os fd s =
     bindE (forE (\<lambda>w. domain_send_fd Os w fd) (workers_socket_connect s) s) (\<lambda>s.
       Inr (emit (Closed fd) s))"

text \<open>The new endpoint is constructed before the old one, if any, is destroyed.\<close>

definition master_ready_forwork :: "osenv \<Rightarrow> master \<Rightarrow> halt + master" where
  "master_ready_forwork Os s =
     bindE (sse_new Os server_ip MY_PORT_NUM OnSctp s) (\<lambda>(e, s).
       let s = (case sctp_endpoint s of None \<Rightarrow> s | Some old \<Rightarrow> sse_delete old s);
           s = s\<lparr>sctp_endpoint := Some e\<rparr>
       in indicate_test_framework Os s)"

text \<open>\<open>std::map::insert\<close> of a key that is there drops, and so closes, the new socket.\<close>

definition woker_connect_handler :: "osenv \<Rightarrow> int \<Rightarrow> master \<Rightarrow> master" where
  "woker_connect_handler Os conn_fd s =
     (let s = register_fd Os conn_fd OnWorker s in
      if conn_fd \<in> set (workers_socket_connect s) then domain_close conn_fd s
      else s\<lparr>workers_socket_connect := insort conn_fd (workers_socket_connect s)\<rparr>)"

definition worker_msg_handler :: "osenv \<Rightarrow> int \<Rightarrow> sysin \<Rightarrow> master \<Rightarrow> halt + master" where
  "worker_msg_handler Os fd x s =
     bindE (guardE (fd \<in> set (workers_socket_connect s)) OutOfBounds) (\<lambda>_.
     bindE (domain_read x) (\<lambda>msg.
       case msg of
         None \<Rightarrow> Inr (deregister_fd fd s)
       | Some v \<Rightarrow>
           bindE (read_msg_id v) (\<lambda>i.
           bindE (if i = WORKER_READY_MSG_ID
                  then bindE (read_msg_arg v) (\<lambda>_. Inr (s\<lparr>worker_count := worker_count s + 1\<rparr>))
                  else Inr s) (\<lambda>s.
             if worker_count s = int (length (workers_pid s)) then master_ready_forwork Os s
             else Inr s))))"

definition master_msg_handler :: "bytes \<Rightarrow> master \<Rightarrow> halt + master" where
  "master_msg_handler v s =
     bindE (deserialized v) (\<lambda>m.
       Inr (if msg_id m = MASTER_TERMINATE_MSG_ID then s\<lparr>is_terminated := True\<rparr> else s))"

definition on_tester :: "int \<Rightarrow> sysin \<Rightarrow> master \<Rightarrow> halt + master" where
  "on_tester fd x s =
     (if fd \<noteq> test_socket_client s then Inr s
      else bindE (domain_read x) (\<lambda>msg.
        case msg of None \<Rightarrow> Inl (Exit 0) | Some v \<Rightarrow> master_msg_handler v s))"

definition on_sctp :: "osenv \<Rightarrow> int \<Rightarrow> sysin \<Rightarrow> master \<Rightarrow> halt + master" where
  "on_sctp Os fd x s =
     bindE (fetchE NullAccess (sctp_endpoint s)) (\<lambda>e.
     bindE (sse_handler Os (pass_to_workers Os) fd x e s) (\<lambda>(e, s).
       Inr (s\<lparr>sctp_endpoint := Some e\<rparr>)))"

definition master_call :: "osenv \<Rightarrow> master_cb \<Rightarrow> int \<Rightarrow> sysin \<Rightarrow> master \<Rightarrow> halt + master" where
  "master_call Os cb fd x s =
     (case cb of
        OnTester \<Rightarrow> on_tester fd x s
      | OnWorkerListen \<Rightarrow> bindE (domain_accept x) (\<lambda>conn. Inr (woker_connect_handler Os conn s))
      | OnWorker \<Rightarrow> worker_msg_handler Os fd x s
      | OnSctp \<Rightarrow> on_sctp Os fd x s)"

definition master_new :: "osenv \<Rightarrow> int list \<Rightarrow> halt + master" where
  "master_new Os workers =
     (let s = proc.extend new_proc
        (master.fields None (-1) None [] workers False 0) in
      bindE (domain_socket_new Os TEST_MASTER_SOCKET_NAME CLIENT_DOMAIN_SOCKET s) (\<lambda>(fd, s).
        let s = register_fd Os fd OnTester (s\<lparr>test_socket_client := fd\<rparr>) in
        if workers_pid s \<noteq> [] then
          bindE (domain_socket_new Os MASTER_WORKER_SOCKET_NAME SERVER_DOMAIN_SOCKET s) (\<lambda>(fd, s).
            Inr (register_fd Os fd OnWorkerListen (s\<lparr>worker_socket_listen := Some fd\<rparr>)))
        else master_ready_forwork Os s))"

fun master_loop :: "osenv \<Rightarrow> poll_round list \<Rightarrow> master \<Rightarrow> halt + master" where
  "master_loop Os rounds s =
     (if is_terminated s then Inr s
      else case rounds of
             [] \<Rightarrow> Inl Blocked
           | r # rounds \<Rightarrow> bindE (io_poll (master_call Os) r s) (master_loop Os rounds))"

declare master_loop.simps [simp del]

text \<open>\<open>serial_msg\<close> is moved from in the first turn of the loop: \<open>None\<close> afterwards.\<close>

fun terminate_workers :: "osenv \<Rightarrow> bytes option \<Rightarrow> int list \<Rightarrow> master \<Rightarrow> halt + master" where
  "terminate_workers Os serial_msg [] s = Inr s"
| "terminate_workers Os serial_msg (fd # fds) s =
     bindE (fetchE NullAccess serial_msg) (\<lambda>m. terminate_workers Os None fds (domain_write Os fd m s))"

definition send_terminate_to_worker :: "osenv \<Rightarrow> master \<Rightarrow> halt + master" where
  "send_terminate_to_worker Os s =
     terminate_workers Os (Some (serialized \<lparr>msg_id = WORKER_TERMINATE_MSG_ID, msg_arg = junk_int Os\<rparr>))
       (workers_socket_connect s) s"

fun wait_until_workers_closed :: "int list \<Rightarrow> master \<Rightarrow> halt + master" where
  "wait_until_workers_closed waits s =
     (if workers_pid s = [] then Inr s
      else case waits of
             [] \<Rightarrow> Inl Blocked
           | pid # waits \<Rightarrow>
               wait_until_workers_closed waits (s\<lparr>workers_pid := remove1 pid (workers_pid s)\<rparr>))"

declare wait_until_workers_closed.simps [simp del]

definition master_run :: "osenv \<Rightarrow> poll_round list \<Rightarrow> int list \<Rightarrow> master \<Rightarrow> halt + master" where
  "master_run Os rounds waits s =
     bindE (master_loop Os rounds s) (\<lambda>s.
     bindE (send_terminate_to_worker Os s) (wait_until_workers_closed waits))"

subsection \<open>Every registered worker is in the map\<close>

definition master_ok :: "master \<Rightarrow> bool" where
  "master_ok s \<longleftrightarrow> paired s \<and> (\<forall>fd. (fd, OnWorker) \<in> set (registry s) \<longrightarrow> fd \<in> set (workers_socket_connect s))"

text \<open>The ends the process is not to have: indices out of range, vectors of negative length, other exits.\<close>

definition strange :: "halt \<Rightarrow> bool" where
  "strange f \<longleftrightarrow> f \<notin> {Exit 0, Exit (-1), NullAccess, BadAccess, Blocked}"

lemma strange_simps [simp]:
  "strange (Exit n) \<longleftrightarrow> n \<notin> {0, -1}" "\<not> strange NullAccess" "\<not> strange BadAccess" "\<not> strange Blocked"
  by (simp_all add: strange_def)

abbreviation in_range :: "('a \<Rightarrow> bool) \<Rightarrow> halt + 'a \<Rightarrow> bool" where
  "in_range \<equiv> wpE strange"

lemma workers_frames [simp]:
  "workers_socket_connect (emit x s) = workers_socket_connect s"
  "workers_socket_connect (register_fd Os fd cb s) = workers_socket_connect s"
  "workers_socket_connect (deregister_fd fd s) = workers_socket_connect s"
  "workers_socket_connect (report ready s) = workers_socket_connect s"
  by (simp_all add: emit_def register_fd_def deregister_fd_def report_def split: option.split)

lemma master_ok_frames [simp]:
  "master_ok (emit x s) = master_ok s" "master_ok (s\<lparr>calls := n\<rparr>) = master_ok s"
  "master_ok (s\<lparr>test_socket_client := n'\<rparr>) = master_ok s" "master_ok (s\<lparr>worker_count := c\<rparr>) = master_ok s"
  "master_ok (s\<lparr>sctp_endpoint := e\<rparr>) = master_ok s" "master_ok (s\<lparr>is_terminated := b\<rparr>) = master_ok s"
  "master_ok (s\<lparr>worker_socket_listen := l\<rparr>) = master_ok s" "master_ok (s\<lparr>workers_pid := p\<rparr>) = master_ok s"
  "master_ok (report ready s) = master_ok s"
  by (simp_all add: master_ok_def) (simp_all add: registry_def paired_def)

lemma master_ok_register:
  "master_ok s \<Longrightarrow> cb \<noteq> OnWorker \<or> fd \<in> set (workers_socket_connect s) \<Longrightarrow> master_ok (register_fd Os fd cb s)"
  by (auto simp: master_ok_def mux.view_reg mux.good_reg)

lemma master_ok_deregister: "master_ok s \<Longrightarrow> master_ok (deregister_fd fd s)"
  using set_without_first [of fd "registry s"] by (auto simp: master_ok_def mux.view_dereg mux.good_dereg)

lemma domain_socket_new_range:
  assumes "\<And>x s. P (emit x s) = P s" "\<And>n s. P (s\<lparr>calls := n\<rparr>) = P s" "P s"
  shows "in_range (\<lambda>(fd, t). P t) (domain_socket_new Os n ty s)"
  using assms(3)
  by (cases ty) (simp_all add: domain_socket_new_def domain_create_def domain_bind_def domain_listen_def
      domain_connect_def sys_def Let_def assms(1,2))

lemma sse_new_range:
  assumes "master_ok s"
  shows "in_range (\<lambda>(e, t). master_ok t) (sse_new Os ip p OnSctp s)"
  using assms
  by (simp add: sse_new_def sctp_socket_new_def sctp_create_def sctp_opt_set_def bind_listen_to_def sys_def
      Let_def master_ok_register)

lemma sse_delete_ok: "master_ok s \<Longrightarrow> master_ok (sse_delete e s)"
  by (simp add: sse_delete_def sctp_close_def master_ok_deregister Let_def split: option.split)

lemma indicate_range: "master_ok s \<Longrightarrow> in_range master_ok (indicate_test_framework Os s)"
  by (simp add: indicate_test_framework_def domain_send_msg_def sys_def)

lemma ready_range:
  assumes "master_ok s"
  shows "in_range master_ok (master_ready_forwork Os s)"
  unfolding master_ready_forwork_def wpE_bindE
  by (rule wpE_mono [OF sse_new_range [OF assms]])
    (auto simp: Let_def intro!: indicate_range sse_delete_ok split: option.split)

lemma pass_range: "master_ok s \<Longrightarrow> in_range master_ok (pass_to_workers Os fd s)"
  unfolding pass_to_workers_def wpE_bindE
  by (rule wpE_mono [OF wpE_forE [of master_ok]]) (auto simp: domain_send_fd_def sys_def)

lemma connect_ok:
  assumes "master_ok s"
  shows "master_ok (woker_connect_handler Os fd s)"
proof -
  let ?t = "register_fd Os fd OnWorker s"
  have "registry (?t\<lparr>workers_socket_connect := ws\<rparr>) = registry s @ [(fd, OnWorker)]"
    "paired (?t\<lparr>workers_socket_connect := ws\<rparr>)" for ws
    using assms mux.view_reg [of s Os fd OnWorker] mux.good_reg [of s Os fd OnWorker]
    by (simp_all add: master_ok_def registry_def paired_def)
  then show ?thesis
    using assms
    by (auto simp: woker_connect_handler_def Let_def domain_close_def master_ok_register)
       (auto simp: master_ok_def set_insort_key)
qed

lemma worker_msg_range:
  assumes "master_ok s" "(fd, OnWorker) \<in> set (registry s)"
  shows "in_range master_ok (worker_msg_handler Os fd x s)"
proof -
  have "fd \<in> set (workers_socket_connect s)" using assms by (simp add: master_ok_def)
  then show ?thesis
    using assms(1)
    by (auto simp: worker_msg_handler_def domain_read_def read_msg_id_def read_msg_arg_def
        intro: ready_range master_ok_deregister split: option.split)
qed

lemma on_sctp_range: "master_ok s \<Longrightarrow> in_range master_ok (on_sctp Os fd x s)"
  unfolding on_sctp_def
  by (auto simp: sse_handler_def sctp_read_def envelope_new_def sse_notification_def sse_message_def
      intro: wpE_mono [OF pass_range] master_ok_deregister split: option.split)

lemma master_call_range:
  assumes "master_ok s" "(fd, cb) \<in> set (registry s)"
  shows "in_range master_ok (master_call Os cb fd x s)"
  using assms
  by (cases cb) (auto simp: master_call_def domain_accept_def on_tester_def domain_read_def master_msg_handler_def
      deserialized_def read_msg_id_def read_msg_arg_def intro: worker_msg_range on_sctp_range connect_ok split: option.split)

lemma master_poll_range: "master_ok s \<Longrightarrow> in_range master_ok (io_poll (master_call Os) r s)"
  by (rule io_poll_keeps) (auto intro: master_call_range simp: master_ok_def)

lemma master_loop_range: "master_ok s \<Longrightarrow> in_range master_ok (master_loop Os rounds s)"
proof (induction rounds arbitrary: s)
  case (Cons r rounds)
  then show ?case
    by (subst master_loop.simps) (auto intro: wpE_mono [OF master_poll_range])
qed (simp add: master_loop.simps [of _ "[]"])


lemma terminate_range: "in_range (\<lambda>_. True) (terminate_workers Os m fds s)"
  by (induction Os m fds s rule: terminate_workers.induct) (auto split: option.split)

lemma domain_socket_new_ok: "master_ok s \<Longrightarrow> in_range (\<lambda>(fd, t). master_ok t) (domain_socket_new Os n ty s)"
  by (rule domain_socket_new_range) simp_all

lemma master_new_range: "in_range master_ok (master_new Os ws)"
proof -
  let ?s = "proc.extend new_proc (master.fields None (-1) None [] ws False 0)"
  have start: "master_ok ?s"
    by (simp add: master_ok_def registry_def paired_def new_proc_def proc.extend_def master.fields_def)
  show ?thesis
    unfolding master_new_def Let_def wpE_bindE
  proof (rule wpE_mono [OF domain_socket_new_ok [OF start]])
    fix r :: "int \<times> master" assume "case r of (fd, t) \<Rightarrow> master_ok t"
    then obtain fd t where r: "r = (fd, t)" and t: "master_ok t" by (cases r) auto
    have "master_ok (register_fd Os fd OnTester (t\<lparr>test_socket_client := fd\<rparr>))" (is "master_ok ?u")
      using t by (simp add: master_ok_register)
    moreover have "in_range (\<lambda>x. in_range master_ok ((\<lambda>(fd, s). Inr (register_fd Os fd OnWorkerListen
        (s\<lparr>worker_socket_listen := Some fd\<rparr>))) x)) (domain_socket_new Os n ty u)" if "master_ok u" for n ty u
      by (rule wpE_mono [OF domain_socket_new_ok [OF that]]) (auto simp: master_ok_register)
    ultimately show "in_range master_ok (case r of (fd, s) \<Rightarrow>
        if workers_pid (register_fd Os fd OnTester (s\<lparr>test_socket_client := fd\<rparr>)) \<noteq> []
        then bindE (domain_socket_new Os MASTER_WORKER_SOCKET_NAME SERVER_DOMAIN_SOCKET
            (register_fd Os fd OnTester (s\<lparr>test_socket_client := fd\<rparr>))) (\<lambda>(fd, s).
              Inr (register_fd Os fd OnWorkerListen (s\<lparr>worker_socket_listen := Some fd\<rparr>)))
        else master_ready_forwork Os (register_fd Os fd OnTester (s\<lparr>test_socket_client := fd\<rparr>)))"
      unfolding r by (simp add: ready_range)
  qed
qed

lemma master_run_range:
  "in_range (\<lambda>s. workers_pid s = []) (bindE (master_new Os ws) (master_run Os rounds waits))"
proof -
  have "in_range (\<lambda>s. workers_pid s = []) (wait_until_workers_closed waits s)" for s
  proof (induction waits arbitrary: s)
    case (Cons pid waits)
    then show ?case by (subst wait_until_workers_closed.simps) simp
  qed (simp add: wait_until_workers_closed.simps [of "[]"])
  then show ?thesis
    unfolding master_run_def send_terminate_to_worker_def wpE_bindE
    by (intro wpE_mono [OF master_new_range] wpE_mono [OF master_loop_range] wpE_mono [OF terminate_range])
qed

theorem master_ends:
  "case bindE (master_new Os ws) (master_run Os rounds waits) of
     Inl f \<Rightarrow> f \<in> {Exit 0, Exit (-1), NullAccess, BadAccess, Blocked}
   | Inr s \<Rightarrow> workers_pid s = []"
  using master_run_range [of Os ws rounds waits]
  by (cases "bindE (master_new Os ws) (master_run Os rounds waits)") (simp_all add: strange_def)

subsection \<open>The start of service\<close>

definition worker_ready :: "32 word \<Rightarrow> internal_msg" where
  "worker_ready pid = \<lparr>msg_id = WORKER_READY_MSG_ID, msg_arg = pid\<rparr>"

lemma worker_ready_msg:
  assumes "fd \<in> set (workers_socket_connect s)" "in_recv x = Some (serialized (worker_ready pid))"
  shows "worker_msg_handler Os fd x s =
    (let s = s\<lparr>worker_count := worker_count s + 1\<rparr> in
     if worker_count s = int (length (workers_pid s)) then master_ready_forwork Os s else Inr s)"
proof -
  have "take MAX_BUFFER (serialized (worker_ready pid)) = serialized (worker_ready pid)"
    "serialized (worker_ready pid) \<noteq> []"
    by (simp_all add: MAX_BUFFER_def) (simp add: serialized_def le32_def)
  with assms read_serialized [of "worker_ready pid" "[]"] show ?thesis
    by (simp add: worker_msg_handler_def domain_read_def worker_ready_def Let_def)
qed

text \<open>The handler over the messages of a list of workers.\<close>

definition hear :: "osenv \<Rightarrow> (int \<times> sysin) list \<Rightarrow> master \<Rightarrow> halt + master" where
  "hear Os = forE (\<lambda>(fd, x). worker_msg_handler Os fd x)"

definition is_ready :: "master \<Rightarrow> int \<times> sysin \<Rightarrow> bool" where
  "is_ready s = (\<lambda>(fd, x). fd \<in> set (workers_socket_connect s)
     \<and> (\<exists>pid. in_recv x = Some (serialized (worker_ready pid))))"

lemma hear_ready:
  assumes "\<forall>m \<in> set ms. is_ready s m" "worker_count s + int (length ms) < int (length (workers_pid s))"
  shows "hear Os ms s = Inr (s\<lparr>worker_count := worker_count s + int (length ms)\<rparr>)"
  using assms
proof (induction ms arbitrary: s)
  case (Cons m ms)
  obtain fd x where m: "m = (fd, x)" by (cases m)
  with Cons.prems(1) have "fd \<in> set (workers_socket_connect s)"
    "\<exists>pid. in_recv x = Some (serialized (worker_ready pid))" by (simp_all add: is_ready_def)
  then have "worker_msg_handler Os fd x s = Inr (s\<lparr>worker_count := worker_count s + 1\<rparr>)"
    using Cons.prems(2) by (auto simp: worker_ready_msg)
  with Cons.IH [of "s\<lparr>worker_count := worker_count s + 1\<rparr>"] Cons.prems show ?case
    by (simp add: hear_def m is_ready_def algebra_simps)
qed (simp add: hear_def)

theorem service_starts_with_last_ready:
  assumes "worker_count s = 0" "\<forall>m \<in> set ms. is_ready s m" "ms \<noteq> []" "length ms \<le> length (workers_pid s)"
  shows "hear Os ms s =
    (if length ms < length (workers_pid s) then Inr (s\<lparr>worker_count := int (length ms)\<rparr>)
     else master_ready_forwork Os (s\<lparr>worker_count := int (length (workers_pid s))\<rparr>))"
proof (cases "length ms < length (workers_pid s)")
  case True
  with hear_ready [of ms s Os] assms show ?thesis by simp
next
  case False
  obtain ns m where ms: "ms = ns @ [m]" using assms(3) by (metis rev_exhaust)
  obtain fd x where m: "m = (fd, x)" by (cases m)
  have "hear Os ns s = Inr (s\<lparr>worker_count := int (length ns)\<rparr>)"
    using hear_ready [of ns s Os] assms ms by simp
  moreover have "fd \<in> set (workers_socket_connect s)" "\<exists>pid. in_recv x = Some (serialized (worker_ready pid))"
    using assms(2) ms m by (simp_all add: is_ready_def)
  moreover have "int (length (workers_pid s)) = int (length ns) + 1" using False assms(4) ms by simp
  ultimately show ?thesis
    using ms m by (auto simp: hear_def forE_append worker_ready_msg)
qed

text \<open>What starting the service does: the listening SCTP socket, then the message to the tester.\<close>

lemma master_ready_effects:
  assumes "all_succeed Os 8" "sctp_endpoint s = None"
  shows "\<exists>e t. master_ready_forwork Os s = Inr t \<and> sctp_endpoint t = Some e
    \<and> sctp_listen e = os_ret Os (calls s) 
    \<and> effects t = effects s @ [SctpBound (sctp_listen e) server_ip MY_PORT_NUM, Listening (sctp_listen e),
        SentMsg (test_socket_client s) (serialized \<lparr>msg_id = MASTER_READY_MSG_ID, msg_arg = os_pid Os\<rparr>) None]
    \<and> workers_socket_connect t = workers_socket_connect s \<and> worker_count t = worker_count s \<and> workers_pid t = workers_pid s"
  using all_succeedD [OF assms(1)] assms(2)
  by (simp add: master_ready_forwork_def sse_new_def sctp_socket_new_def sctp_create_def sctp_opt_set_def
      bind_listen_to_def sys_def Let_def indicate_test_framework_def domain_send_msg_def register_fd_def emit_def)

text \<open>A message that is no announcement, once every worker is ready, starts the service again.\<close>

theorem service_starts_again:
  assumes "fd \<in> set (workers_socket_connect s)" "worker_count s = int (length (workers_pid s))"
    and "in_recv x = Some (serialized m)" "msg_id m \<noteq> WORKER_READY_MSG_ID"
  shows "worker_msg_handler Os fd x s = master_ready_forwork Os s
    \<and> (0 \<le> os_ret Os (calls s) \<and> os_ret Os (calls s + 1) = 0 \<and> os_ret Os (calls s + 2) = -1 \<longrightarrow>
        worker_msg_handler Os fd x s = Inl (Exit (-1)))"
proof -
  have "take MAX_BUFFER (serialized m) = serialized m" "serialized m \<noteq> []"
    by (simp_all add: MAX_BUFFER_def) (simp add: serialized_def le32_def)
  with assms read_serialized [of m "[]"] have "worker_msg_handler Os fd x s = master_ready_forwork Os s"
    by (simp add: worker_msg_handler_def domain_read_def)
  then show ?thesis
    by (simp add: master_ready_forwork_def sse_new_def sctp_socket_new_def sctp_create_def
        sctp_opt_set_def bind_listen_to_def sys_def Let_def)
qed

subsection \<open>New connections\<close>

text \<open>Every worker gets the descriptor, in the order of the map, and the master closes its own.\<close>

lemma send_fds:
  assumes "all_succeed Os 1"
  shows "\<exists>c. forE (\<lambda>w. domain_send_fd Os w fd) ws s =
    Inr (s\<lparr>calls := c, effects := effects s @ map (\<lambda>w. SentMsg w (bytes_of ''$'') (Some (rights_of fd))) ws\<rparr>)"
proof (induction ws arbitrary: s)
  case (Cons w ws)
  let ?t = "s\<lparr>calls := Suc (calls s), effects := effects s @ [SentMsg w (bytes_of ''$'') (Some (rights_of fd))]\<rparr>"
  have "domain_send_fd Os w fd s = Inr ?t"
    using all_succeedD [OF assms, of "calls s"]
    by (simp add: domain_send_fd_def sys_def bytes_of_def emit_def)
  with Cons.IH [of ?t] show ?case by auto
next
  case Nil
  show ?case by (rule exI [of _ "calls s"]) simp
qed

lemma on_sctp_new_connection:
  assumes "sctp_endpoint s = Some e" "fd = sctp_listen e" "all_succeed Os 1"
  shows "\<exists>c. on_sctp Os fd x s = Inr (s\<lparr>calls := c, effects := effects s
    @ map (\<lambda>w. SentMsg w (bytes_of ''$'') (Some (rights_of (in_accept x)))) (workers_socket_connect s)
    @ [Closed (in_accept x)]\<rparr>)"
proof -
  obtain c where "forE (\<lambda>w. domain_send_fd Os w (in_accept x)) (workers_socket_connect s) s =
    Inr (s\<lparr>calls := c, effects := effects s @ map (\<lambda>w. SentMsg w (bytes_of ''$'') (Some (rights_of (in_accept x))))
        (workers_socket_connect s)\<rparr>)"
    using send_fds [OF assms(3)] by blast
  moreover have "s\<lparr>sctp_endpoint := Some e\<rparr> = s" using assms(1) by (cases s) simp
  ultimately show ?thesis
    using assms(1,2)
    by (intro exI [of _ c]) (simp add: on_sctp_def sse_handler_def pass_to_workers_def emit_def)
qed

subsection \<open>The end\<close>

text \<open>The order to stop is sent once: to a single worker. With two the moved-from pointer is used.\<close>

theorem stopping_the_workers:
  assumes "is_terminated s"
  shows "master_run Os rounds waits s =
    (case workers_socket_connect s of
       [] \<Rightarrow> wait_until_workers_closed waits s
     | [fd] \<Rightarrow> wait_until_workers_closed waits
         (domain_write Os fd (serialized \<lparr>msg_id = WORKER_TERMINATE_MSG_ID, msg_arg = junk_int Os\<rparr>) s)
     | _ \<Rightarrow> Inl NullAccess)"
proof -
  have "master_loop Os rounds s = Inr s" using assms by (simp add: master_loop.simps)
  then show ?thesis
    by (auto simp: master_run_def send_terminate_to_worker_def split: list.split)
qed

text \<open>The wait ends exactly when every worker is reaped, as often as it is in the list.\<close>

theorem wait_needs_every_worker:
  "(\<exists>t. wait_until_workers_closed waits s = Inr t) \<longleftrightarrow> mset (workers_pid s) \<subseteq># mset waits"
proof (induction waits arbitrary: s)
  case (Cons pid waits)
  show ?case
    using Cons.IH [of "s\<lparr>workers_pid := remove1 pid (workers_pid s)\<rparr>"]
    by (subst wait_until_workers_closed.simps) (simp add: subset_eq_diff_conv)
qed (simp add: wait_until_workers_closed.simps [of "[]"])

subsection \<open>Instances\<close>

definition demo_os :: osenv where
  "demo_os = \<lparr>os_ret = (\<lambda>i. 8 + int i), os_pid = 77, os_revents = (\<lambda>_. 0), os_junk = (\<lambda>_. 0)\<rparr>"

definition no_info :: sctp_info where
  "no_info = \<lparr>sin_family = AF_INET, sin_addr = [], sin_port = 0, sinfo_assoc_id = 0, sinfo_stream = 0, msg_flags = 0\<rparr>"

definition arrival :: "bytes \<Rightarrow> sysin" where
  "arrival d = \<lparr>in_accept = 30, in_recv = Some d, in_control = None, in_info = no_info\<rparr>"

definition demo_master :: master where
  "demo_master = proc.extend new_proc (master.fields None 8 (Some 9) [20, 21] [501, 502] False 0)"

lemma demo_os_succeeds: "all_succeed demo_os 8" "all_succeed demo_os 1"
  by (simp_all add: all_succeed_def demo_os_def)

lemma demo_master_fields [simp]:
  "workers_socket_connect demo_master = [20, 21]" "workers_pid demo_master = [501, 502]"
  "worker_count demo_master = 0" "sctp_endpoint demo_master = None" "is_terminated demo_master = False"
  "calls demo_master = 0"
  by (simp_all add: demo_master_def new_proc_def proc.extend_def master.fields_def)

lemma service_starts_witness:
  "is_ready demo_master (20, arrival (serialized (worker_ready 501)))
   \<and> hear demo_os [(20, arrival (serialized (worker_ready 501))), (21, arrival (serialized (worker_ready 502)))] demo_master
     = master_ready_forwork demo_os (demo_master\<lparr>worker_count := 2\<rparr>)"
proof -
  have "is_ready demo_master (20, arrival (serialized (worker_ready 501)))"
    "is_ready demo_master (21, arrival (serialized (worker_ready 502)))"
    by (auto simp: is_ready_def arrival_def)
  with service_starts_with_last_ready [of demo_master "[(20, arrival (serialized (worker_ready 501))),
    (21, arrival (serialized (worker_ready 502)))]" demo_os] show ?thesis by simp
qed

text \<open>The second \<open>sctp_bindx\<close> of the port fails: the master exits.\<close>

lemma service_starts_again_witness:
  "worker_msg_handler (demo_os\<lparr>os_ret := (\<lambda>i. [10, 0, -1] ! i)\<rparr>) 20
     (arrival (serialized \<lparr>msg_id = WORKER_TERMINATE_MSG_ID, msg_arg = 0\<rparr>)) (demo_master\<lparr>worker_count := 2\<rparr>)
   = Inl (Exit (-1))"
  using service_starts_again [of 20 "demo_master\<lparr>worker_count := 2\<rparr>"
    "arrival (serialized \<lparr>msg_id = WORKER_TERMINATE_MSG_ID, msg_arg = 0\<rparr>)"
    "\<lparr>msg_id = WORKER_TERMINATE_MSG_ID, msg_arg = 0\<rparr>" "demo_os\<lparr>os_ret := (\<lambda>i. [10, 0, -1] ! i)\<rparr>"]
  by (simp add: arrival_def WORKER_TERMINATE_MSG_ID_def WORKER_READY_MSG_ID_def) metis

lemma connection_reaches_witness:
  "\<exists>c. on_sctp demo_os 10 (arrival [])
     (demo_master\<lparr>sctp_endpoint := Some \<lparr>sctp_listen = 10, sctp_conn = None, asso_info = None\<rparr>\<rparr>) =
   Inr (demo_master\<lparr>sctp_endpoint := Some \<lparr>sctp_listen = 10, sctp_conn = None, asso_info = None\<rparr>, calls := c,
     effects := [SentMsg 20 [36] (Some (rights_of 30)), SentMsg 21 [36] (Some (rights_of 30)), Closed 30]\<rparr>)"
  using on_sctp_new_connection [of "demo_master\<lparr>sctp_endpoint := Some \<lparr>sctp_listen = 10,
    sctp_conn = None, asso_info = None\<rparr>\<rparr>" "\<lparr>sctp_listen = 10, sctp_conn = None, asso_info = None\<rparr>" 10 demo_os "arrival []"]
    demo_os_succeeds(2)
  by (simp add: demo_master_def proc.extend_def master.fields_def new_proc_def arrival_def bytes_of_def)

lemma stopping_witness:
  "master_run demo_os [] [501, 502] (demo_master\<lparr>is_terminated := True\<rparr>) = Inl NullAccess"
  using stopping_the_workers [of "demo_master\<lparr>is_terminated := True\<rparr>" demo_os "[]" "[501, 502]"] by simp

end
