(* ===== verification/Herd_Worker.thy ===== *)
theory Herd_Worker
  imports Herd_Master
begin

section \<open>The worker process (worker.cpp)\<close>

text \<open>
  The class \<open>worker\<close>. Its endpoint is the \<open>SctpClientEndpoint\<close> over the last descriptor the master
  passed, kept as that descriptor; \<open>process\<close> is given the rounds of \<open>poll\<close>.
\<close>

subsection \<open>State and operations\<close>

datatype worker_cb = OnMaster | OnClient

record worker = "worker_cb proc" +
  master_socket_client :: int
  worker_endpoint :: "int option"
  continue_poll :: bool

definition worker_new :: worker where
  "worker_new = proc.extend new_proc (worker.fields (-1) None True)"

definition msg_handler :: "osenv \<Rightarrow> sysin \<Rightarrow> worker \<Rightarrow> halt + worker" where
  "msg_handler Os x s =
     bindE (domain_recv_msg Os x (-1)) (\<lambda>(fd, serial_msg).
       if fd > 0 then
         let (e, s) = sce_attach Os fd OnClient s;
             s = (case worker_endpoint s of None \<Rightarrow> s | Some old \<Rightarrow> sce_delete old s)
         in Inr (s\<lparr>worker_endpoint := Some e\<rparr>)
       else
         case serial_msg of
           None \<Rightarrow> Inl (Exit 0)
         | Some v \<Rightarrow>
             bindE (read_msg_id v) (\<lambda>i.
               Inr (if i = WORKER_TERMINATE_MSG_ID then s\<lparr>continue_poll := False\<rparr> else s)))"

definition send_worker_is_ready :: "osenv \<Rightarrow> worker \<Rightarrow> worker" where
  "send_worker_is_ready Os s =
     domain_write Os (master_socket_client s) (serialized \<lparr>msg_id = WORKER_READY_MSG_ID, msg_arg = os_pid Os\<rparr>) s"

definition worker_call :: "osenv \<Rightarrow> worker_cb \<Rightarrow> int \<Rightarrow> sysin \<Rightarrow> worker \<Rightarrow> halt + worker" where
  "worker_call Os cb fd x s =
     (case cb of
        OnMaster \<Rightarrow> msg_handler Os x s
      | OnClient \<Rightarrow> bindE (sce_handler Os x) (\<lambda>_. Inr s))"

fun worker_loop :: "osenv \<Rightarrow> poll_round list \<Rightarrow> worker \<Rightarrow> halt + worker" where
  "worker_loop Os rounds s =
     (if \<not> continue_poll s then Inr s
      else case rounds of
             [] \<Rightarrow> Inl Blocked
           | r # rounds \<Rightarrow> bindE (io_poll (worker_call Os) r s) (worker_loop Os rounds))"

declare worker_loop.simps [simp del]

definition worker_process :: "osenv \<Rightarrow> poll_round list \<Rightarrow> worker \<Rightarrow> halt + worker" where
  "worker_process Os rounds s =
     bindE (domain_socket_new Os MASTER_WORKER_SOCKET_NAME CLIENT_DOMAIN_SOCKET s) (\<lambda>(fd, s).
       let s = register_fd Os fd OnMaster (s\<lparr>master_socket_client := fd\<rparr>);
           s = send_worker_is_ready Os s
       in worker_loop Os rounds s)"

subsection \<open>One connection at a time\<close>

text \<open>What is registered: the socket to the master, and the connection if there is one.\<close>

definition worker_ok :: "worker \<Rightarrow> bool" where
  "worker_ok s \<longleftrightarrow> paired s \<and> registry s = (master_socket_client s, OnMaster) #
     (case worker_endpoint s of None \<Rightarrow> [] | Some fd \<Rightarrow> [(fd, OnClient)])
   \<and> worker_endpoint s \<noteq> Some (master_socket_client s)"

definition passed :: "int \<Rightarrow> sysin" where
  "passed fd = (arrival (bytes_of ''$''))\<lparr>in_control := Some (rights_of fd)\<rparr>"

lemma worker_fields [simp]:
  "worker_endpoint (register_fd Os fd cb s) = worker_endpoint s"
  "worker_endpoint (deregister_fd fd s) = worker_endpoint s"
  "worker_endpoint (emit ev s) = worker_endpoint s"
  "master_socket_client (register_fd Os fd cb s) = master_socket_client s"
  "master_socket_client (deregister_fd fd s) = master_socket_client s"
  "master_socket_client (emit ev s) = master_socket_client s"
  "continue_poll (register_fd Os fd cb s) = continue_poll s"
  "continue_poll (deregister_fd fd s) = continue_poll s"
  "continue_poll (emit ev s) = continue_poll s"
  "effects (register_fd Os fd cb s) = effects s" "effects (deregister_fd fd s) = effects s"
  by (simp_all add: emit_def register_fd_def deregister_fd_def split: option.split)

lemma registry_endpoint [simp]:
  "registry (s\<lparr>worker_endpoint := e\<rparr>) = registry s" "paired (s\<lparr>worker_endpoint := e\<rparr>) = paired s"
  "registry (s\<lparr>master_socket_client := m\<rparr>) = registry s" "paired (s\<lparr>master_socket_client := m\<rparr>) = paired s"
  by (simp_all add: registry_def paired_def)

text \<open>A new connection takes the place of the one before, which is closed.\<close>

lemma connection_replaced:
  assumes "worker_ok s" "0 < fd" "fd \<noteq> master_socket_client s" "worker_endpoint s \<noteq> Some fd"
  shows "\<exists>t. msg_handler Os (passed fd) s = Inr t \<and> worker_ok t \<and> worker_endpoint t = Some fd
    \<and> effects t = effects s @ map Closed (case worker_endpoint s of None \<Rightarrow> [] | Some old \<Rightarrow> [old])
    \<and> master_socket_client t = master_socket_client s \<and> continue_poll t = continue_poll s"
  using assms
  by (auto simp: msg_handler_def passed_def arrival_def domain_recv_msg_def rights_of_def bytes_of_def
      sce_attach_def sce_delete_def sctp_close_def worker_ok_def mux.view_reg mux.good_reg mux.view_dereg
      mux.good_dereg Let_def split: option.splits)

text \<open>The descriptors the worker holds in turn: all but the last are closed again.\<close>

theorem only_the_last_connection:
  assumes "worker_ok s" "worker_endpoint s = None" "fds \<noteq> []"
    and "distinct (master_socket_client s # fds)" "\<forall>fd \<in> set fds. 0 < fd"
  shows "\<exists>t. forE (\<lambda>fd. msg_handler Os (passed fd)) fds s = Inr t
    \<and> registry t = [(master_socket_client s, OnMaster), (last fds, OnClient)]
    \<and> effects t = effects s @ map Closed (butlast fds)"
proof -
  have "\<exists>t. forE (\<lambda>fd. msg_handler Os (passed fd)) fds s = Inr t \<and> worker_ok t
      \<and> worker_endpoint t = (if fds = [] then worker_endpoint s else Some (last fds))
      \<and> effects t = effects s @ map Closed (if fds = [] then [] else
          (case worker_endpoint s of None \<Rightarrow> [] | Some old \<Rightarrow> [old]) @ butlast fds)
      \<and> master_socket_client t = master_socket_client s"
    if "worker_ok s" "distinct (master_socket_client s # fds)" "\<forall>fd \<in> set fds. 0 < fd"
      "\<forall>fd. worker_endpoint s = Some fd \<longrightarrow> fd \<notin> set fds" for s
    using that
  proof (induction fds arbitrary: s)
    case (Cons fd fds)
    obtain t where t: "msg_handler Os (passed fd) s = Inr t" "worker_ok t" "worker_endpoint t = Some fd"
      "effects t = effects s @ map Closed (case worker_endpoint s of None \<Rightarrow> [] | Some old \<Rightarrow> [old])"
      "master_socket_client t = master_socket_client s"
      using connection_replaced [of s fd Os] Cons.prems by (auto split: option.splits)
    then show ?case
      using Cons.IH [of t] Cons.prems by (cases fds) auto
  qed simp
  from this [of s] assms show ?thesis by (auto simp: worker_ok_def)
qed

lemma msg_handler_message:
  assumes "in_recv x = Some (serialized m)" "in_control x = None"
  shows "msg_handler Os x s = Inr (if msg_id m = WORKER_TERMINATE_MSG_ID then s\<lparr>continue_poll := False\<rparr> else s)"
proof -
  have "take MAX_BUFFER (serialized m) @ drop (length (serialized m)) (junk_buffer Os)
      = serialized m @ drop 8 (junk_buffer Os)" "serialized m \<noteq> []"
    by (simp_all add: MAX_BUFFER_def) (simp add: serialized_def le32_def)
  with assms read_serialized [of m "drop 8 (junk_buffer Os)"] show ?thesis
    by (simp add: msg_handler_def domain_recv_msg_def)
qed

text \<open>The start: connected, announced, and then polling the one socket.\<close>

lemma worker_process_start:
  assumes "all_succeed Os 8"
  shows "\<exists>t. worker_process Os rounds worker_new = worker_loop Os rounds t \<and> worker_ok t
    \<and> worker_endpoint t = None \<and> continue_poll t \<and> master_socket_client t = os_ret Os 0
    \<and> last (effects t) = Sent (os_ret Os 0) (serialized \<lparr>msg_id = WORKER_READY_MSG_ID, msg_arg = os_pid Os\<rparr>)
    \<and> last (butlast (effects t)) = Connected (os_ret Os 0) MASTER_WORKER_SOCKET_NAME"
proof -
  have name: "c_str MASTER_WORKER_SOCKET_NAME = MASTER_WORKER_SOCKET_NAME"
    "length (c_str MASTER_WORKER_SOCKET_NAME) < SUN_PATH_SIZE"
    by (simp_all add: MASTER_WORKER_SOCKET_NAME_def bytes_of_def c_str_def SUN_PATH_SIZE_def)
  have start: "calls worker_new = 0" "paired worker_new" "registry worker_new = []" "worker_endpoint worker_new = None"
    "continue_poll worker_new"
    by (simp_all add: worker_new_def proc.extend_def worker.fields_def new_proc_def paired_def registry_def)
  show ?thesis
    using client_socket_opened [OF assms _ name(2), of worker_new] all_succeedD [OF assms] start
    by (simp add: worker_process_def name(1) send_worker_is_ready_def domain_write_def sys_def Let_def)
      (rule exI, rule conjI, rule refl, simp add: worker_ok_def mux.view_reg mux.good_reg butlast_append)
qed

subsection \<open>Instances\<close>

definition idle_worker :: worker where
  "idle_worker = register_fd demo_os 8 OnMaster (worker_new\<lparr>master_socket_client := 8\<rparr>)"

lemma idle_worker_ok: "worker_ok idle_worker" "worker_endpoint idle_worker = None" "effects idle_worker = []"
  "master_socket_client idle_worker = 8"
  by (simp_all add: idle_worker_def worker_ok_def worker_new_def register_fd_def registry_def paired_def new_proc_def
      proc.extend_def worker.fields_def)

lemma only_the_last_witness:
  "\<exists>t. forE (\<lambda>fd. msg_handler demo_os (passed fd)) [31, 32, 33] idle_worker = Inr t
    \<and> registry t = [(8, OnMaster), (33, OnClient)] \<and> effects t = [Closed 31, Closed 32]"
  using only_the_last_connection [of idle_worker "[31, 32, 33]" demo_os] idle_worker_ok by simp

lemma worker_stops_witness:
  "msg_handler demo_os (arrival (serialized \<lparr>msg_id = WORKER_TERMINATE_MSG_ID, msg_arg = 5\<rparr>)) idle_worker
    = Inr (idle_worker\<lparr>continue_poll := False\<rparr>)"
  using msg_handler_message [of "arrival (serialized \<lparr>msg_id = WORKER_TERMINATE_MSG_ID, msg_arg = 5\<rparr>)"
    "\<lparr>msg_id = WORKER_TERMINATE_MSG_ID, msg_arg = 5\<rparr>" demo_os idle_worker]
  by (simp add: arrival_def)

lemma worker_announces_witness: "worker_process demo_os [] worker_new = Inl Blocked"
  using worker_process_start [OF demo_os_succeeds(1), of "[]"] by (auto simp: worker_loop.simps [of _ "[]"])

end
