(* ===== verification/Herd_Tester.thy ===== *)
theory Herd_Tester
  imports Herd_Master
begin

section \<open>The tester (tester.cpp, loadAndTest.cpp)\<close>

text \<open>
  The class \<open>tester\<close>, the parent of the server process: it listens for the master, reads commands from
  its standard input, and opens SCTP connections to the server. Each \<open>SctpClientEndpoint\<close> is its
  descriptor. The two loops of \<open>test_case\<close> are over \<open>MAX_NUM_CONNECTION = 1\<close> connection and one message.
\<close>

subsection \<open>State and operations\<close>

datatype tester_cb = OnSutConnect | OnStdin | OnSut | OnEndpoint

record tester = "tester_cb proc" +
  sut_listen :: int
  sut_connect :: "int option"
  sctp_endpoints :: "int list"
  continue_poll :: bool
  is_sut_ready :: bool

definition STDIN :: int where "STDIN = 0"
definition MAX_NUM_CONNECTION :: nat where "MAX_NUM_CONNECTION = 1"

definition tester_new :: "osenv \<Rightarrow> halt + tester" where
  "tester_new Os =
     (let s = proc.extend new_proc (tester.fields (-1) None [] True False) in
      bindE (domain_socket_new Os TEST_MASTER_SOCKET_NAME SERVER_DOMAIN_SOCKET s) (\<lambda>(fd, s).
        Inr (register_fd Os STDIN OnStdin (register_fd Os fd OnSutConnect (s\<lparr>sut_listen := fd\<rparr>)))))"

text \<open>The socket of an earlier connection is closed, but stays in the poll set.\<close>

definition sut_connect_handler :: "osenv \<Rightarrow> sysin \<Rightarrow> tester \<Rightarrow> halt + tester" where
  "sut_connect_handler Os x s =
     bindE (domain_accept x) (\<lambda>conn.
       let s = (case sut_connect s of None \<Rightarrow> s | Some old \<Rightarrow> domain_close old s)
       in Inr (register_fd Os conn OnSut (s\<lparr>sut_connect := Some conn\<rparr>)))"

definition hello :: "nat \<Rightarrow> bytes" where
  "hello msg_cnt = bytes_of ''helloworld: !'' @ decimal msg_cnt"

definition open_endpoint :: "osenv \<Rightarrow> nat \<Rightarrow> tester \<Rightarrow> halt + tester" where
  "open_endpoint Os i s =
     bindE (sce_new Os server_ip MY_PORT_NUM OnEndpoint s) (\<lambda>(fd, s).
       Inr (s\<lparr>sctp_endpoints := sctp_endpoints s @ [fd]\<rparr>))"

definition send_hello :: "osenv \<Rightarrow> nat \<Rightarrow> nat \<Rightarrow> tester \<Rightarrow> halt + tester" where
  "send_hello Os msg_cnt i s =
     bindE (guardE (i < length (sctp_endpoints s)) OutOfBounds) (\<lambda>_.
       Inr (sce_send_msg Os (sctp_endpoints s ! i) (hello msg_cnt) s))"

definition test_case :: "osenv \<Rightarrow> tester \<Rightarrow> halt + tester" where
  "test_case Os s =
     bindE (forE (open_endpoint Os) [0..<MAX_NUM_CONNECTION] s) (\<lambda>s.
       forE (\<lambda>msg_cnt. forE (send_hello Os msg_cnt) [0..<MAX_NUM_CONNECTION]) [0..<1] s)"

definition test_msg_handler :: "osenv \<Rightarrow> bytes \<Rightarrow> tester \<Rightarrow> halt + tester" where
  "test_msg_handler Os v s =
     bindE (read_msg_id v) (\<lambda>i.
       if i = MASTER_READY_MSG_ID then test_case Os (s\<lparr>is_sut_ready := True\<rparr>) else Inr s)"

text \<open>The \<open>recvfd\<close> handed to \<open>domain_recv_msg\<close> is not initialised, and not used.\<close>

definition on_sut :: "osenv \<Rightarrow> int \<Rightarrow> sysin \<Rightarrow> tester \<Rightarrow> halt + tester" where
  "on_sut Os fd x s =
     bindE (fetchE NullAccess (sut_connect s)) (\<lambda>_.
     bindE (domain_recv_msg Os x (sint (junk_int Os))) (\<lambda>(_, msg).
       case msg of
         None \<Rightarrow> Inr (deregister_fd fd s)
       | Some v \<Rightarrow> test_msg_handler Os v s))"

text \<open>The result of \<open>read\<close> is not looked at: at the end of the input the character is what was there.\<close>

definition read_char :: "osenv \<Rightarrow> sysin \<Rightarrow> byte" where
  "read_char Os x = (case in_recv x of Some (c # _) \<Rightarrow> c | _ \<Rightarrow> os_junk Os 0)"

definition ReadUserCmd :: "osenv \<Rightarrow> sysin \<Rightarrow> tester \<Rightarrow> halt + tester" where
  "ReadUserCmd Os x s =
     (let buf = read_char Os x in
      if buf = 48 then Inr (s\<lparr>continue_poll := False\<rparr>)
      else if buf = 49 then (if is_sut_ready s then test_case Os s else Inr s)
      else Inr s)"

definition tester_call :: "osenv \<Rightarrow> tester_cb \<Rightarrow> int \<Rightarrow> sysin \<Rightarrow> tester \<Rightarrow> halt + tester" where
  "tester_call Os cb fd x s =
     (case cb of
        OnSutConnect \<Rightarrow> sut_connect_handler Os x s
      | OnStdin \<Rightarrow> ReadUserCmd Os x s
      | OnSut \<Rightarrow> on_sut Os fd x s
      | OnEndpoint \<Rightarrow> bindE (sce_handler Os x) (\<lambda>_. Inr s))"

definition indicate_sut_to_quit :: "osenv \<Rightarrow> tester \<Rightarrow> halt + tester" where
  "indicate_sut_to_quit Os s =
     bindE (fetchE NullAccess (sut_connect s)) (\<lambda>fd.
       Inr (domain_write Os fd (serialized \<lparr>msg_id = MASTER_TERMINATE_MSG_ID, msg_arg = junk_int Os\<rparr>) s))"

text \<open>\<open>None\<close>: the server never ends.\<close>

definition tester_terminate :: "osenv \<Rightarrow> int option \<Rightarrow> tester \<Rightarrow> halt + tester" where
  "tester_terminate Os waited s =
     bindE (indicate_sut_to_quit Os s) (\<lambda>s. case waited of None \<Rightarrow> Inl Blocked | Some _ \<Rightarrow> Inr s)"

fun tester_loop :: "osenv \<Rightarrow> poll_round list \<Rightarrow> tester \<Rightarrow> halt + tester" where
  "tester_loop Os rounds s =
     (if \<not> continue_poll s then Inr s
      else case rounds of
             [] \<Rightarrow> Inl Blocked
           | r # rounds \<Rightarrow> bindE (io_poll (tester_call Os) r s) (tester_loop Os rounds))"

declare tester_loop.simps [simp del]

definition tester_run :: "osenv \<Rightarrow> poll_round list \<Rightarrow> int option \<Rightarrow> tester \<Rightarrow> halt + tester" where
  "tester_run Os rounds waited s = bindE (tester_loop Os rounds s) (tester_terminate Os waited)"

text \<open>\<open>prepare_test_env\<close>: \<open>access\<close> and, when it fails, \<open>mkdir\<close>, for each of the two directories.\<close>

definition prepare_dir :: "osenv \<Rightarrow> ('cb, 'm) proc_scheme \<Rightarrow> halt + ('cb, 'm) proc_scheme" where
  "prepare_dir Os s =
     (let (r, s) = sys Os s in
      if r \<noteq> 0 then (let (r, s) = sys Os s in if r = 0 then Inr s else Inl (Exit (-1))) else Inr s)"

definition prepare_test_env :: "osenv \<Rightarrow> ('cb, 'm) proc_scheme \<Rightarrow> halt + ('cb, 'm) proc_scheme" where
  "prepare_test_env Os s = bindE (prepare_dir Os s) (prepare_dir Os)"

subsection \<open>Tests\<close>

lemma test_case_effects:
  fixes s :: tester
  assumes "all_succeed Os 14"
  defines "fd \<equiv> os_ret Os (calls s)"
  shows "\<exists>t. test_case Os s = Inr t \<and> sctp_endpoints t = sctp_endpoints s @ [fd] \<and> calls t = calls s + 4
    \<and> effects t = effects s @ [SctpConnected fd server_ip MY_PORT_NUM,
        SctpSent (hd (sctp_endpoints s @ [fd])) 1 (hello 0)]
    \<and> is_sut_ready t = is_sut_ready s"
proof -
  have "length (hello 0) = 14" by (simp add: hello_def bytes_of_def decimal.simps)
  then show ?thesis
    using all_succeedD [OF assms(1)] unfolding fd_def
    by (cases "sctp_endpoints s")
      (simp_all add: test_case_def MAX_NUM_CONNECTION_def open_endpoint_def send_hello_def sce_new_def
        sctp_socket_new_def sctp_create_def sctp_opt_set_def sctp_connect_def sys_def Let_def register_fd_def
        sce_send_msg_def sctp_write_def emit_def)
qed

text \<open>
  A test opens a new connection, but sends over the first one ever opened (\<open>at(i)\<close> with \<open>i\<close> below
  \<open>MAX_NUM_CONNECTION\<close>): the connections of later tests carry nothing.
\<close>

theorem tests_send_on_first_connection:
  assumes "all_succeed Os 14" "sctp_endpoints s = []"
  shows "\<exists>t. forE (\<lambda>_. test_case Os) [0..<n] s = Inr t
    \<and> sctp_endpoints t = map (\<lambda>k. os_ret Os (calls s + 4 * k)) [0..<n]
    \<and> effects t = effects s @ concat (map (\<lambda>k.
        [SctpConnected (os_ret Os (calls s + 4 * k)) server_ip MY_PORT_NUM,
         SctpSent (os_ret Os (calls s)) 1 (hello 0)]) [0..<n])"
proof -
  have "\<exists>t. forE (\<lambda>_. test_case Os) [0..<n] s = Inr t
    \<and> sctp_endpoints t = map (\<lambda>k. os_ret Os (calls s + 4 * k)) [0..<n]
    \<and> effects t = effects s @ concat (map (\<lambda>k.
        [SctpConnected (os_ret Os (calls s + 4 * k)) server_ip MY_PORT_NUM,
         SctpSent (os_ret Os (calls s)) 1 (hello 0)]) [0..<n]) \<and> calls t = calls s + 4 * n"
  proof (induction n)
    case 0
    then show ?case using assms(2) by simp
  next
    case (Suc n)
    then obtain t where t: "forE (\<lambda>_. test_case Os) [0..<n] s = Inr t"
      "sctp_endpoints t = map (\<lambda>k. os_ret Os (calls s + 4 * k)) [0..<n]"
      "effects t = effects s @ concat (map (\<lambda>k.
        [SctpConnected (os_ret Os (calls s + 4 * k)) server_ip MY_PORT_NUM,
         SctpSent (os_ret Os (calls s)) 1 (hello 0)]) [0..<n])" "calls t = calls s + 4 * n"
      by blast
    have "hd (sctp_endpoints t @ [os_ret Os (calls t)]) = os_ret Os (calls s)"
      using t(2,4) by (cases n) (simp_all add: upt_rec)
    then show ?case
      using test_case_effects [OF assms(1), of t] t by (auto simp: forE_append)
  qed
  then show ?thesis by blast
qed

text \<open>When the master is ready, the first test is run.\<close>

lemma on_sut_ready:
  assumes "all_succeed Os 14" "sut_connect s = Some c" "sctp_endpoints s = []"
    and "in_recv x = Some (serialized \<lparr>msg_id = MASTER_READY_MSG_ID, msg_arg = pid\<rparr>)" "in_control x = None"
  shows "\<exists>t. on_sut Os fd x s = Inr t \<and> is_sut_ready t
    \<and> effects t = effects s @ [SctpConnected (os_ret Os (calls s)) server_ip MY_PORT_NUM,
        SctpSent (os_ret Os (calls s)) 1 (hello 0)]"
proof -
  let ?m = "\<lparr>msg_id = MASTER_READY_MSG_ID, msg_arg = pid\<rparr>"
  have "take MAX_BUFFER (serialized ?m) @ drop (length (serialized ?m)) (junk_buffer Os)
      = serialized ?m @ drop 8 (junk_buffer Os)" "serialized ?m \<noteq> []"
    by (simp_all add: MAX_BUFFER_def) (simp add: serialized_def le32_def)
  then have "on_sut Os fd x s = test_case Os (s\<lparr>is_sut_ready := True\<rparr>)"
    using assms(2,4,5) read_serialized(1) [of ?m "drop 8 (junk_buffer Os)"]
    by (simp add: on_sut_def domain_recv_msg_def test_msg_handler_def)
  then show ?thesis using test_case_effects [OF assms(1), of "s\<lparr>is_sut_ready := True\<rparr>"] assms(3) by auto
qed

text \<open>Told to exit before the server has connected, the tester uses a socket it does not have.\<close>

theorem early_exit_crashes:
  assumes "all_succeed Os 1"
  shows "bindE (tester_new Os) (tester_run Os
    (PollReady (\<lambda>fd. if fd = STDIN then POLLIN else 0) [arrival (bytes_of ''0'')] # rounds) waited) = Inl NullAccess"
proof -
  have name: "length (c_str TEST_MASTER_SOCKET_NAME) < SUN_PATH_SIZE"
    by (simp add: TEST_MASTER_SOCKET_NAME_def bytes_of_def c_str_def SUN_PATH_SIZE_def)
  have "os_ret Os 0 \<noteq> 0" using all_succeedD [OF assms, of 0] by auto
  then show ?thesis
    using all_succeedD [OF assms]
    by (simp add: tester_new_def server_socket_opened [OF assms _ name] new_proc_def proc.extend_def tester.fields_def
        Let_def register_fd_def tester_run_def tester_loop.simps io_poll_def report_def poll_events.simps STDIN_def
        POLLIN_def tester_call_def ReadUserCmd_def read_char_def arrival_def bytes_of_def tester_terminate_def
        indicate_sut_to_quit_def)
qed

subsection \<open>Instances\<close>

definition tester_os :: osenv where
  "tester_os = demo_os\<lparr>os_ret := (\<lambda>i. 14 + int i)\<rparr>"

lemma tester_os_succeeds: "all_succeed tester_os 14" "all_succeed tester_os 1"
  by (simp_all add: all_succeed_def tester_os_def)

definition demo_tester :: tester where
  "demo_tester = proc.extend new_proc (tester.fields 8 (Some 9) [] True False)"

lemma demo_tester_fields [simp]:
  "sut_connect demo_tester = Some 9" "sctp_endpoints demo_tester = []" "calls demo_tester = 0" "effects demo_tester = []"
  by (simp_all add: demo_tester_def proc.extend_def tester.fields_def new_proc_def)

lemma tests_send_witness:
  "\<exists>t. forE (\<lambda>_. test_case tester_os) [0..<2] demo_tester = Inr t \<and> sctp_endpoints t = [14, 18]
    \<and> effects t = [SctpConnected 14 server_ip MY_PORT_NUM, SctpSent 14 1 (hello 0),
        SctpConnected 18 server_ip MY_PORT_NUM, SctpSent 14 1 (hello 0)]"
  using tests_send_on_first_connection [OF tester_os_succeeds(1), of demo_tester 2]
  by (simp add: numeral_2_eq_2) (simp add: tester_os_def)

lemma test_starts_witness:
  "\<exists>t. on_sut tester_os 9 (arrival (serialized \<lparr>msg_id = MASTER_READY_MSG_ID, msg_arg = 77\<rparr>)) demo_tester = Inr t
    \<and> is_sut_ready t \<and> effects t = [SctpConnected 14 server_ip MY_PORT_NUM, SctpSent 14 1 (hello 0)]"
  using on_sut_ready [OF tester_os_succeeds(1), of demo_tester 9
    "arrival (serialized \<lparr>msg_id = MASTER_READY_MSG_ID, msg_arg = 77\<rparr>)" 77 9]
  by (simp add: arrival_def) (simp add: tester_os_def)

lemma early_exit_witness:
  "bindE (tester_new tester_os) (tester_run tester_os
    [PollReady (\<lambda>fd. if fd = STDIN then POLLIN else 0) [arrival (bytes_of ''0'')]] (Some 0)) = Inl NullAccess"
  by (rule early_exit_crashes [OF tester_os_succeeds(2)])

end
