(* ===== verification/Herd_System.thy ===== *)
theory Herd_System
  imports Herd_Worker Herd_Tester
begin

section \<open>The three processes together (main.cpp)\<close>

text \<open>
  The server process forks its workers and becomes the master. What one process sends is what another
  receives: \<open>wire\<close> turns an effect into the answer of the receiving call, a passed descriptor being
  installed under a number the receiving system chooses.
\<close>

subsection \<open>The server process\<close>

definition WORKER_NUM :: nat where "WORKER_NUM = 1"

text \<open>What \<open>fork\<close> returns: 0 in the child, which runs as a worker and does not return.\<close>

definition spawn_worker_process :: "osenv \<Rightarrow> poll_round list \<Rightarrow> int \<Rightarrow> halt + int" where
  "spawn_worker_process Os rounds pid =
     (if pid = 0 then bindE (worker_process Os rounds worker_new) (\<lambda>_. Inl (Exit 0))
      else if pid = -1 then Inl (Exit 0)
      else Inr pid)"

definition server_main :: "osenv \<Rightarrow> (nat \<Rightarrow> int) \<Rightarrow> poll_round list \<Rightarrow> int list \<Rightarrow> halt + master" where
  "server_main Os fork rounds waits =
     bindE (forE (\<lambda>i pids. bindE (spawn_worker_process Os rounds (fork i)) (\<lambda>pid. Inr (pids @ [pid])))
       [0..<WORKER_NUM] [])
     (\<lambda>pids. bindE (master_new Os pids) (master_run Os rounds waits))"

subsection \<open>Messages between the processes\<close>

definition wire :: "(int \<Rightarrow> int) \<Rightarrow> effect \<Rightarrow> sysin" where
  "wire install e =
     (case e of
        Sent _ d \<Rightarrow> arrival d
      | SentMsg _ d c \<Rightarrow> (arrival d)\<lparr>in_control := map_option (\<lambda>c. c\<lparr>cmsg_data := install (cmsg_data c)\<rparr>) c\<rparr>
      | _ \<Rightarrow> arrival [])"

text \<open>
  The start: the worker connects and announces itself, the master opens the SCTP port and tells the
  tester, and the tester connects and sends its first message.
\<close>

theorem start_of_service:
  assumes "all_succeed W 8" "all_succeed M 8" "all_succeed T 14"
    and "length (workers_pid m) = WORKER_NUM" "worker_count m = 0" "sctp_endpoint m = None"
    and "fd \<in> set (workers_socket_connect m)" "sut_connect t = Some c" "sctp_endpoints t = []"
  shows "\<exists>w m' t'. worker_process W rounds worker_new = worker_loop W rounds w
    \<and> worker_msg_handler M fd (wire install (last (effects w))) m = Inr m'
    \<and> on_sut T c (wire install (last (effects m'))) t = Inr t'
    \<and> SctpBound (os_ret M (calls m)) server_ip MY_PORT_NUM \<in> set (effects m')
    \<and> is_sut_ready t' \<and> last (effects t') = SctpSent (os_ret T (calls t)) 1 (hello 0)"
proof -
  obtain w where w: "worker_process W rounds worker_new = worker_loop W rounds w"
    "last (effects w) = Sent (os_ret W 0) (serialized (worker_ready (os_pid W)))"
    using worker_process_start [OF assms(1), of rounds] by (auto simp: worker_ready_def)
  have "worker_msg_handler M fd (wire install (last (effects w))) m = master_ready_forwork M (m\<lparr>worker_count := 1\<rparr>)"
    using worker_ready_msg [OF assms(7), of "wire install (last (effects w))" "os_pid W" M] assms(4,5) w(2)
    by (simp add: wire_def arrival_def WORKER_NUM_def)
  moreover obtain m' where m': "master_ready_forwork M (m\<lparr>worker_count := 1\<rparr>) = Inr m'"
    "SctpBound (os_ret M (calls m)) server_ip MY_PORT_NUM \<in> set (effects m')"
    "last (effects m') = SentMsg (test_socket_client m) (serialized \<lparr>msg_id = MASTER_READY_MSG_ID, msg_arg = os_pid M\<rparr>) None"
    using master_ready_effects [OF assms(2), of "m\<lparr>worker_count := 1\<rparr>"] assms(6) by auto
  moreover obtain t' where "on_sut T c (wire install (last (effects m'))) t = Inr t'" "is_sut_ready t'"
    "last (effects t') = SctpSent (os_ret T (calls t)) 1 (hello 0)"
    using on_sut_ready [OF assms(3,8,9), of "wire install (last (effects m'))" "os_pid M" c] m'(3)
    by (auto simp: wire_def arrival_def)
  ultimately show ?thesis using w(1) by metis
qed

text \<open>The stop: the order travels from the tester to the master and from there to the worker.\<close>

lemma received_whole: "take MAX_BUFFER (serialized a) = serialized a" "serialized a \<noteq> []"
  by (simp_all add: MAX_BUFFER_def) (simp add: serialized_def le32_def)

theorem stop_of_service:
  assumes "all_succeed T 8" "all_succeed M 8"
    and "sut_connect t = Some c" "test_socket_client m = fd" "workers_socket_connect m = [v]"
  shows "\<exists>t' m' m''. indicate_sut_to_quit T t = Inr t'
    \<and> on_tester fd (wire install (last (effects t'))) m = Inr m' \<and> is_terminated m'
    \<and> send_terminate_to_worker M m' = Inr m''
    \<and> msg_handler W (wire install (last (effects m''))) w = Inr (w\<lparr>worker.continue_poll := False\<rparr>)"
proof -
  let ?stop = "\<lparr>msg_id = MASTER_TERMINATE_MSG_ID, msg_arg = junk_int T\<rparr>"
  let ?quit = "\<lparr>msg_id = WORKER_TERMINATE_MSG_ID, msg_arg = junk_int M\<rparr>"
  obtain t' where t': "indicate_sut_to_quit T t = Inr t'" "last (effects t') = Sent c (serialized ?stop)"
    using all_succeedD [OF assms(1), of "calls t"] assms(3)
    by (auto simp: indicate_sut_to_quit_def domain_write_def sys_def)
  have m': "on_tester fd (wire install (last (effects t'))) m = Inr (m\<lparr>is_terminated := True\<rparr>)"
    using assms(4) t'(2) received_whole [of ?stop] read_serialized(3) [of ?stop "[]"]
    by (simp add: on_tester_def wire_def arrival_def domain_read_def master_msg_handler_def)
  obtain m'' where m'': "send_terminate_to_worker M (m\<lparr>is_terminated := True\<rparr>) = Inr m''"
    "last (effects m'') = Sent v (serialized ?quit)"
    using all_succeedD [OF assms(2), of "calls m"] assms(5)
    by (auto simp: send_terminate_to_worker_def domain_write_def sys_def)
  have "msg_handler W (wire install (last (effects m''))) w = Inr (w\<lparr>worker.continue_poll := False\<rparr>)"
    using msg_handler_message [of "wire install (last (effects m''))" ?quit W w] m''(2)
    by (simp add: wire_def arrival_def)
  then show ?thesis using t'(1) m' m''(1)
    by (intro exI [of _ t'] exI [of _ "m\<lparr>is_terminated := True\<rparr>"] exI [of _ m'']) simp
qed

text \<open>The herd: one connection, accepted once, wakes every worker and becomes the connection of each.\<close>

text \<open>
  C11. When the SCTP server of the master accepts a connection, every registered worker is sent the
  descriptor, and each of them, having received it under the number its system gives it, makes it
  its connection: all are woken by one client.
\<close>

theorem connection_wakes_the_herd:
  assumes "all_succeed M 1" "sctp_endpoint m = Some e"
    and "\<forall>i < length (workers_socket_connect m). worker_ok (w i) \<and> 0 < install i conn
      \<and> install i conn \<noteq> master_socket_client (w i) \<and> worker_endpoint (w i) \<noteq> Some (install i conn)"
  shows "\<exists>m'. on_sctp M (sctp_listen e) ((arrival [])\<lparr>in_accept := conn\<rparr>) m = Inr m'
    \<and> (\<forall>i < length (workers_socket_connect m). \<exists>t.
         msg_handler (W i) (wire (install i) (effects m' ! (length (effects m) + i))) (w i) = Inr t
         \<and> worker_endpoint t = Some (install i conn))"
proof -
  let ?x = "(arrival [])\<lparr>in_accept := conn\<rparr>"
  let ?ws = "workers_socket_connect m"
  obtain m' where m': "on_sctp M (sctp_listen e) ?x m = Inr m'"
    "effects m' = effects m @ map (\<lambda>v. SentMsg v (bytes_of ''$'') (Some (rights_of conn))) ?ws @ [Closed conn]"
    using on_sctp_new_connection [OF assms(2) refl assms(1), of ?x] by auto
  have "\<exists>t. msg_handler (W i) (wire (install i) (effects m' ! (length (effects m) + i))) (w i) = Inr t
      \<and> worker_endpoint t = Some (install i conn)" if i: "i < length ?ws" for i
  proof -
    have "effects m' ! (length (effects m) + i) = SentMsg (?ws ! i) (bytes_of ''$'') (Some (rights_of conn))"
      using m'(2) i by (simp add: nth_append)
    then have "wire (install i) (effects m' ! (length (effects m) + i)) = passed (install i conn)"
      by (simp add: wire_def passed_def rights_of_def)
    then show ?thesis
      using connection_replaced [of "w i" "install i conn" "W i"] assms(3) i by auto
  qed
  with m'(1) show ?thesis by blast
qed

subsection \<open>Instances\<close>

lemma tester_os_8: "all_succeed tester_os 8"
  by (simp add: all_succeed_def tester_os_def)

definition lone_master :: master where
  "lone_master = demo_master\<lparr>workers_pid := [501], workers_socket_connect := [20]\<rparr>"

lemma lone_master_fields [simp]:
  "workers_pid lone_master = [501]" "workers_socket_connect lone_master = [20]" "worker_count lone_master = 0"
  "sctp_endpoint lone_master = None" "calls lone_master = 0" "test_socket_client lone_master = 8"
  "effects lone_master = []"
  by (simp_all add: lone_master_def demo_master_def proc.extend_def master.fields_def new_proc_def)

lemma start_of_service_witness:
  "\<exists>w m' t'. worker_process tester_os [] worker_new = worker_loop tester_os [] w
    \<and> worker_msg_handler tester_os 20 (wire (\<lambda>n. n) (last (effects w))) lone_master = Inr m'
    \<and> on_sut tester_os 9 (wire (\<lambda>n. n) (last (effects m'))) demo_tester = Inr t'
    \<and> SctpBound 14 server_ip MY_PORT_NUM \<in> set (effects m')
    \<and> is_sut_ready t' \<and> last (effects t') = SctpSent 14 1 (hello 0)"
  using start_of_service [OF tester_os_8 tester_os_8 tester_os_succeeds(1), of lone_master 20 demo_tester 9 "[]" "\<lambda>n. n"]
  by (simp add: WORKER_NUM_def) (simp add: tester_os_def)

lemma stop_of_service_witness:
  "\<exists>t' m' m''. indicate_sut_to_quit tester_os demo_tester = Inr t'
    \<and> on_tester 8 (wire (\<lambda>n. n) (last (effects t'))) lone_master = Inr m' \<and> is_terminated m'
    \<and> send_terminate_to_worker tester_os m' = Inr m''
    \<and> msg_handler demo_os (wire (\<lambda>n. n) (last (effects m''))) idle_worker = Inr (idle_worker\<lparr>worker.continue_poll := False\<rparr>)"
  using stop_of_service [OF tester_os_8 tester_os_8, of demo_tester 9 lone_master 8 20 "\<lambda>n. n" demo_os idle_worker] by simp

lemma herd_witness:
  "\<exists>m'. on_sctp demo_os 10 ((arrival [])\<lparr>in_accept := 40\<rparr>)
      (demo_master\<lparr>sctp_endpoint := Some \<lparr>sctp_listen = 10, sctp_conn = None, asso_info = None\<rparr>\<rparr>) = Inr m'
    \<and> (\<forall>i < 2. \<exists>t. msg_handler demo_os (wire (\<lambda>n. n + int i) (effects m' ! i)) idle_worker = Inr t
         \<and> worker_endpoint t = Some (40 + int i))"
proof -
  let ?e = "\<lparr>sctp_listen = 10, sctp_conn = None, asso_info = None\<rparr>"
  have "effects demo_master = []" by (simp add: demo_master_def proc.extend_def new_proc_def)
  then show ?thesis
    using connection_wakes_the_herd [OF demo_os_succeeds(2), of "demo_master\<lparr>sctp_endpoint := Some ?e\<rparr>" ?e
      "\<lambda>_. idle_worker" "\<lambda>i n. n + int i" 40 "\<lambda>_. demo_os"] idle_worker_ok
    by (simp add: numeral_2_eq_2)
qed

end
