(* ===== verification/Herd_Examples.thy ===== *)
theory Herd_Examples
  imports DomainEndpoints Herd_System
begin

section \<open>Instances of the shared parts\<close>

text \<open>Concrete processes and rounds at which the theorems on the event loop, the domain sockets and the
  endpoints apply.\<close>

definition three_items :: "(nat, unit) proc_scheme" where
  "three_items = new_proc\<lparr>poll_items := [\<lparr>pfd = 5, revents = 1\<rparr>, \<lparr>pfd = 6, revents = 1\<rparr>, \<lparr>pfd = 7, revents = 0\<rparr>],
     cb_lists := [0, 1, 2]\<rparr>"

text \<open>A callback that only sends its number.\<close>

definition note_call :: "nat \<Rightarrow> int \<Rightarrow> sysin \<Rightarrow> (nat, unit) proc_scheme \<Rightarrow> halt + (nat, unit) proc_scheme" where
  "note_call cb fd x s = Inr (emit (Listening fd) s)"

lemma round_calls_witness:
  "poll_events note_call 0 [arrival [], arrival []] three_items =
    Inr (three_items\<lparr>effects := [Listening 5, Listening 6]\<rparr>)"
proof -
  have "readable three_items = [(5, 0), (6, 1)]"
    by (simp add: readable_def three_items_def registry_def POLLIN_def)
  moreover have "keeps_registry note_call" "paired three_items" "effects three_items = []"
    by (auto simp: keeps_registry_def note_call_def paired_def three_items_def new_proc_def)
  ultimately show ?thesis
    using round_calls_readable [of note_call three_items "[arrival [], arrival []]"]
    by (simp add: note_call_def emit_def)
qed

definition drop_call :: "nat \<Rightarrow> int \<Rightarrow> sysin \<Rightarrow> (nat, unit) proc_scheme \<Rightarrow> halt + (nat, unit) proc_scheme" where
  "drop_call cb fd x s = Inr (deregister_fd fd s)"

lemma deregistering_skips_witness:
  "\<exists>t. poll_events drop_call 0 [arrival [], arrival []] three_items = poll_events drop_call 1 [arrival []] t
    \<and> poll_items t ! 0 = \<lparr>pfd = 6, revents = 1\<rparr> \<and> cb_lists t ! 0 = 1 \<and> length (poll_items t) = 2"
  using deregistering_skips_next [of three_items 0 drop_call "arrival []" "[arrival []]"]
  by (simp add: three_items_def paired_def drop_call_def POLLIN_def numeral_2_eq_2)

lemma fd_passing_witness:
  "\<exists>d c. effects (snd (0 :: nat, emit (SentMsg 20 (bytes_of ''$'') (Some (rights_of 30))) (three_items\<lparr>calls := 1\<rparr>))) =
      effects three_items @ [SentMsg 20 d (Some c)] \<and> d \<noteq> []
    \<and> (\<forall>x install. in_recv x = Some d \<longrightarrow> in_control x = Some (c\<lparr>cmsg_data := install (cmsg_data c)\<rparr>) \<longrightarrow>
         domain_recv_msg demo_os x (-1) = Inr (install 30, None))"
  using fd_passing [of demo_os three_items 20 30 "emit (SentMsg 20 (bytes_of ''$'') (Some (rights_of 30))) (three_items\<lparr>calls := 1\<rparr>)" demo_os "-1"]
  by (simp add: three_items_def new_proc_def demo_os_def domain_send_fd_def sys_def bytes_of_def)

lemma dse_failed_witness:
  "\<exists>e t. dse_new (demo_os\<lparr>os_ret := (\<lambda>i. [10, -1] ! i)\<rparr>) TEST_MASTER_SOCKET_NAME 4 (new_proc :: (nat, unit) proc_scheme) = Inr (e, t)
    \<and> listen_fd e = 0 \<and> registry t = [(0, 4)] \<and> Closed 10 \<in> set (effects t)"
proof -
  have "length (c_str TEST_MASTER_SOCKET_NAME) < SUN_PATH_SIZE"
    by (simp add: TEST_MASTER_SOCKET_NAME_def bytes_of_def c_str_def SUN_PATH_SIZE_def)
  then show ?thesis
    using dse_failed_listen_polls_stdin [of "new_proc :: (nat, unit) proc_scheme" "demo_os\<lparr>os_ret := (\<lambda>i. [10, -1] ! i)\<rparr>"
      TEST_MASTER_SOCKET_NAME 4]
    by (simp add: new_proc_def paired_def registry_def)
qed

lemma dse_lost_witness:
  "\<exists>t. dse_receive 6 (arrival []) three_items = Inr (None, t) \<and> 6 \<notin> fst ` set (registry t) \<and> effects t = []
    \<and> 6 \<in> set (conn_client_fds \<lparr>listen_fd = 5, conn_client_fds = [6]\<rparr>)"
  using dse_lost_client_kept [of three_items "arrival []" 6 "\<lparr>listen_fd = 5, conn_client_fds = [6]\<rparr>"]
  by (simp add: three_items_def new_proc_def paired_def registry_def arrival_def)

lemma dce_connect_witness:
  "last (effects (snd (case dce_connect (demo_os\<lparr>os_ret := (\<lambda>i. [10, -1] ! i)\<rparr>) TEST_MASTER_SOCKET_NAME
      (new_proc :: (nat, unit) proc_scheme) of Inr r \<Rightarrow> r))) = Closed 10"
proof -
  obtain t where "dce_connect (demo_os\<lparr>os_ret := (\<lambda>i. [10, -1] ! i)\<rparr>) TEST_MASTER_SOCKET_NAME
      (new_proc :: (nat, unit) proc_scheme) = Inr (-2, t)"
    by (simp add: dce_connect_def sys_def new_proc_def Let_def)
  then show ?thesis
    using dce_connect_closes_on_failure [of "demo_os\<lparr>os_ret := (\<lambda>i. [10, -1] ! i)\<rparr>" TEST_MASTER_SOCKET_NAME
      "new_proc :: (nat, unit) proc_scheme" "-2" t]
    by (simp add: new_proc_def)
qed

end
