(* ===== verification/Pirate_Queue.thy ===== *)
theory Pirate_Queue
  imports Mdp
begin

section \<open>The pirate queues (spqueue.cpp, ppqueue.cpp)\<close>

text \<open>
  The two queues of \<open>Common/zmq/example\<close> between clients and workers: the Simple Pirate queue, and the
  Paranoid Pirate queue, which drops workers it has not heard of. Messages are those of \<open>zmsg.hpp\<close> in that
  directory, whose send loop starts at part 0. A turn of a loop is given what arrived on the two sockets;
  the frontend is polled only if a worker is available. What is handed to the sockets is appended to
  \<open>to_clients\<close> and \<open>to_workers\<close>.
\<close>

subsection \<open>The Paranoid Pirate queue\<close>

definition PP_LIVENESS :: int where "PP_LIVENESS = 3"
definition PP_INTERVAL :: int where "PP_INTERVAL = 1000"

record worker_t =
  identity :: bytes
  expiry :: int

record ppqueue =
  queue :: "worker_t list"
  heartbeat_at :: int
  ticks :: nat
  to_clients :: "wire list"
  to_workers :: "wire list"

definition pp_clock :: "(nat \<Rightarrow> timeval) \<Rightarrow> ppqueue \<Rightarrow> int \<times> ppqueue" where
  "pp_clock clk s = (s_clock (clk (ticks s)), s\<lparr>ticks := Suc (ticks s)\<rparr>)"

text \<open>The clock is only read when the worker is not there yet.\<close>

definition s_worker_append :: "(nat \<Rightarrow> timeval) \<Rightarrow> bytes \<Rightarrow> ppqueue \<Rightarrow> ppqueue" where
  "s_worker_append clk w s =
     (if \<exists>x \<in> set (queue s). identity x = w then s
      else let (t, s) = pp_clock clk s
           in s\<lparr>queue := queue s @ [\<lparr>identity = w, expiry = t + PP_INTERVAL * PP_LIVENESS\<rparr>]\<rparr>)"

fun delete_first :: "bytes \<Rightarrow> worker_t list \<Rightarrow> worker_t list" where
  "delete_first w [] = []"
| "delete_first w (x # xs) = (if identity x = w then xs else x # delete_first w xs)"

definition s_worker_delete :: "bytes \<Rightarrow> ppqueue \<Rightarrow> ppqueue" where
  "s_worker_delete w s = s\<lparr>queue := delete_first w (queue s)\<rparr>"

fun refresh_first :: "bytes \<Rightarrow> int \<Rightarrow> worker_t list \<Rightarrow> worker_t list" where
  "refresh_first w t [] = []"
| "refresh_first w t (x # xs) = (if identity x = w then x\<lparr>expiry := t\<rparr> # xs else x # refresh_first w t xs)"

definition s_worker_refresh :: "(nat \<Rightarrow> timeval) \<Rightarrow> bytes \<Rightarrow> ppqueue \<Rightarrow> ppqueue" where
  "s_worker_refresh clk w s =
     (if \<exists>x \<in> set (queue s). identity x = w
      then let (t, s) = pp_clock clk s
           in s\<lparr>queue := refresh_first w (t + PP_INTERVAL * PP_LIVENESS) (queue s)\<rparr>
      else s)"

definition s_worker_dequeue :: "ppqueue \<Rightarrow> fault + (bytes \<times> ppqueue)" where
  "s_worker_dequeue s =
     (case queue s of
        [] \<Rightarrow> Inl AssertFail
      | x # xs \<Rightarrow> Inr (identity x, s\<lparr>queue := xs\<rparr>))"

fun purge_from :: "int \<Rightarrow> worker_t list \<Rightarrow> worker_t list" where
  "purge_from clock [] = []"
| "purge_from clock (x # xs) = (if clock > expiry x then purge_from clock xs else x # purge_from clock xs)"

definition s_queue_purge :: "(nat \<Rightarrow> timeval) \<Rightarrow> ppqueue \<Rightarrow> ppqueue" where
  "s_queue_purge clk s = (let (clock, s) = pp_clock clk s in s\<lparr>queue := purge_from clock (queue s)\<rparr>)"

definition send_client :: "zmsg \<Rightarrow> ppqueue \<Rightarrow> fault + ppqueue" where
  "send_client m s = bindE (zmsg_send send_start_example m) (\<lambda>(w, _). Inr (s\<lparr>to_clients := to_clients s @ [w]\<rparr>))"

definition send_worker :: "zmsg \<Rightarrow> ppqueue \<Rightarrow> fault + ppqueue" where
  "send_worker m s = bindE (zmsg_send send_start_example m) (\<lambda>(w, _). Inr (s\<lparr>to_workers := to_workers s @ [w]\<rparr>))"

text \<open>A message of a worker: an announcement, a heartbeat, or a reply for a client.\<close>

definition pp_backend :: "(nat \<Rightarrow> timeval) \<Rightarrow> incoming \<Rightarrow> ppqueue \<Rightarrow> fault + ppqueue" where
  "pp_backend clk r s =
     bindE (zmsg_recv r zmsg_new) (\<lambda>(_, msg).
     bindE (unwrap msg) (\<lambda>(w, msg).
       if parts msg = 1 then
         Inr (if address_of msg = Some (bytes_of ''READY'') then s_worker_append clk w (s_worker_delete w s)
              else if address_of msg = Some (bytes_of ''HEARTBEAT'') then s_worker_refresh clk w s
              else s)
       else bindE (send_client msg s) (\<lambda>s. Inr (s_worker_append clk w s))))"

definition pp_frontend :: "incoming \<Rightarrow> ppqueue \<Rightarrow> fault + ppqueue" where
  "pp_frontend r s =
     bindE (zmsg_recv r zmsg_new) (\<lambda>(_, msg).
     bindE (s_worker_dequeue s) (\<lambda>(w, s). send_worker (push_front w msg) s))"

definition pp_beat :: "worker_t \<Rightarrow> ppqueue \<Rightarrow> fault + ppqueue" where
  "pp_beat x = send_worker (wrap (identity x) None (zmsg_of_body (bytes_of ''HEARTBEAT'')))"

definition pp_heartbeats :: "(nat \<Rightarrow> timeval) \<Rightarrow> ppqueue \<Rightarrow> fault + ppqueue" where
  "pp_heartbeats clk s =
     (let (t, s) = pp_clock clk s in
      if t > heartbeat_at s then
        bindE (forE pp_beat (queue s) s) (\<lambda>s.
          let (t, s) = pp_clock clk s in Inr (s\<lparr>heartbeat_at := t + PP_INTERVAL\<rparr>))
      else Inr s)"

text \<open>One turn: what the poll found on the backend, and what waits at the frontend.\<close>

definition pp_turn :: "(nat \<Rightarrow> timeval) \<Rightarrow> incoming option \<times> incoming option \<Rightarrow> ppqueue \<Rightarrow> fault + ppqueue" where
  "pp_turn clk io s =
     (let fe = (if queue s \<noteq> [] then snd io else None) in
      bindE (case fst io of None \<Rightarrow> Inr s | Some r \<Rightarrow> pp_backend clk r s) (\<lambda>s.
      bindE (case fe of None \<Rightarrow> Inr s | Some r \<Rightarrow> pp_frontend r s) (\<lambda>s.
      bindE (pp_heartbeats clk s) (\<lambda>s. Inr (s_queue_purge clk s)))))"

definition pp_start :: "(nat \<Rightarrow> timeval) \<Rightarrow> ppqueue" where
  "pp_start clk =
     (let (t, s) = pp_clock clk \<lparr>queue = [], heartbeat_at = 0, ticks = 0, to_clients = [], to_workers = []\<rparr>
      in s\<lparr>heartbeat_at := t + PP_INTERVAL\<rparr>)"

definition pp_run :: "(nat \<Rightarrow> timeval) \<Rightarrow> (incoming option \<times> incoming option) list \<Rightarrow> fault + ppqueue" where
  "pp_run clk ios = forE (pp_turn clk) ios (pp_start clk)"

subsection \<open>The Simple Pirate queue\<close>

definition MAX_WORKERS :: nat where "MAX_WORKERS = 100"

record spqueue =
  worker_queue :: "bytes list"
  sp_to_clients :: "wire list"
  sp_to_workers :: "wire list"

definition sp_backend :: "incoming \<Rightarrow> spqueue \<Rightarrow> fault + spqueue" where
  "sp_backend r s =
     bindE (zmsg_recv r zmsg_new) (\<lambda>(_, zm).
     bindE (guardE (length (worker_queue s) < MAX_WORKERS) AssertFail) (\<lambda>_.
     bindE (unwrap zm) (\<lambda>(w, zm).
     let s = s\<lparr>worker_queue := worker_queue s @ [w]\<rparr> in
     bindE (fetchE NullDeref (address_of zm)) (\<lambda>a.
       if a = bytes_of ''READY'' then Inr s
       else bindE (zmsg_send send_start_example zm) (\<lambda>(f, _).
         Inr (s\<lparr>sp_to_clients := sp_to_clients s @ [f]\<rparr>))))))"

definition sp_pop :: "spqueue \<Rightarrow> fault + (bytes \<times> spqueue)" where
  "sp_pop s =
     (case worker_queue s of
        [] \<Rightarrow> Inl Dangling
      | w # ws \<Rightarrow> Inr (w, s\<lparr>worker_queue := ws\<rparr>))"

definition sp_frontend :: "incoming \<Rightarrow> spqueue \<Rightarrow> fault + spqueue" where
  "sp_frontend r s =
     bindE (zmsg_recv r zmsg_new) (\<lambda>(_, zm).
     bindE (sp_pop s) (\<lambda>(w, s).
     bindE (zmsg_send send_start_example (wrap w (Some []) zm)) (\<lambda>(f, _).
       Inr (s\<lparr>sp_to_workers := sp_to_workers s @ [f]\<rparr>))))"

definition sp_turn :: "incoming option \<times> incoming option \<Rightarrow> spqueue \<Rightarrow> fault + spqueue" where
  "sp_turn io s =
     (let fe = (if worker_queue s \<noteq> [] then snd io else None) in
      bindE (case fst io of None \<Rightarrow> Inr s | Some r \<Rightarrow> sp_backend r s) (\<lambda>s.
        case fe of None \<Rightarrow> Inr s | Some r \<Rightarrow> sp_frontend r s))"

definition sp_run :: "(incoming option \<times> incoming option) list \<Rightarrow> fault + spqueue" where
  "sp_run ios = forE sp_turn ios \<lparr>worker_queue = [], sp_to_clients = [], sp_to_workers = []\<rparr>"

subsection \<open>The queue of workers\<close>

text \<open>
  What both loops rely on: who waits, in order; a worker that is not waiting and becomes ready waits last;
  the one that waited longest is taken.
\<close>

locale worker_pool =
  fixes waiting :: "'s \<Rightarrow> bytes list"
    and ready :: "bytes \<Rightarrow> 's \<Rightarrow> 's"
    and take_worker :: "'s \<Rightarrow> fault + (bytes \<times> 's)"
  assumes waiting_ready: "w \<notin> set (waiting s) \<Longrightarrow> waiting (ready w s) = waiting s @ [w]"
    and take_waiting: "waiting s = w # ws \<Longrightarrow> \<exists>t. take_worker s = Inr (w, t) \<and> waiting t = ws"
begin

fun take_n :: "nat \<Rightarrow> 's \<Rightarrow> fault + (bytes list \<times> 's)" where
  "take_n 0 s = Inr ([], s)"
| "take_n (Suc n) s = bindE (take_worker s) (\<lambda>(w, s). bindE (take_n n s) (\<lambda>(ws, s). Inr (w # ws, s)))"

lemma ready_all: "distinct (waiting s @ ws) \<Longrightarrow> waiting (fold ready ws s) = waiting s @ ws"
  by (induction ws arbitrary: s) (simp_all add: waiting_ready)

lemma take_order: "n \<le> length (waiting s) \<Longrightarrow>
  \<exists>t. take_n n s = Inr (take n (waiting s), t) \<and> waiting t = drop n (waiting s)"
proof (induction n arbitrary: s)
  case (Suc n)
  then obtain w ws where w: "waiting s = w # ws" by (cases "waiting s") auto
  from take_waiting [OF this] obtain t where t: "take_worker s = Inr (w, t)" "waiting t = ws" by blast
  then obtain u where "take_n n t = Inr (take n ws, u)" "waiting u = drop n ws"
    using Suc.IH [of t] Suc.prems w by auto
  with t w show ?case by simp
qed simp

text \<open>Workers are used in the order in which they became ready.\<close>

lemma least_recently_used:
  assumes "waiting s = []" "distinct ws"
  shows "\<exists>t. take_n (length ws) (fold ready ws s) = Inr (ws, t) \<and> waiting t = []"
  using take_order [of "length ws" "fold ready ws s"] ready_all [of s ws] assms by simp

end

text \<open>A broker over such a pool: each request goes to the worker that waited longest.\<close>

locale lru_broker = worker_pool waiting ready take_worker
  for waiting :: "'s \<Rightarrow> bytes list" and ready and take_worker +
  fixes dispatch :: "bytes list \<Rightarrow> 's \<Rightarrow> fault + 's"
    and out :: "'s \<Rightarrow> wire list"
    and assignment :: "bytes \<Rightarrow> bytes list \<Rightarrow> wire"
    and acceptable :: "bytes \<Rightarrow> bytes list \<Rightarrow> bool"
  assumes out_ready: "out (ready w s) = out s"
    and dispatch_first: "waiting s = w # ws \<Longrightarrow> acceptable w r \<Longrightarrow>
      \<exists>t. dispatch r s = Inr t \<and> waiting t = ws \<and> out t = out s @ [assignment w r]"
begin

lemma out_ready_all: "out (fold ready ws s) = out s"
  by (induction ws arbitrary: s) (simp_all add: out_ready)

lemma dispatch_all:
  "list_all2 acceptable (waiting s) rs \<Longrightarrow>
   \<exists>t. forE dispatch rs s = Inr t \<and> waiting t = [] \<and> out t = out s @ map2 assignment (waiting s) rs"
proof (induction rs arbitrary: s)
  case (Cons r rs)
  then obtain w ws where w: "waiting s = w # ws" "acceptable w r" "list_all2 acceptable ws rs"
    by (auto simp: list_all2_Cons2)
  from dispatch_first [OF w(1,2)] obtain t where t: "dispatch r s = Inr t" "waiting t = ws"
    "out t = out s @ [assignment w r]" by blast
  with Cons.IH [of t] w show ?case by auto
qed simp

lemma lru_order:
  assumes "waiting s = []" "distinct ws" "list_all2 acceptable ws rs"
  shows "\<exists>t. forE dispatch rs (fold ready ws s) = Inr t \<and> waiting t = []
    \<and> out t = out s @ map2 assignment ws rs"
  using dispatch_all [of "fold ready ws s" rs] ready_all [of s ws] out_ready_all [of ws s] assms by simp

end

lemma delete_first_absent: "w \<notin> identity ` set xs \<Longrightarrow> delete_first w xs = xs"
  by (induction xs) auto

text \<open>The frame a part is sent as, and requests that pass unchanged.\<close>

definition frame_of :: "bytes \<Rightarrow> bytes" where
  "frame_of p = (case send_part p of Inl _ \<Rightarrow> [] | Inr d \<Rightarrow> d)"

definition plain_request :: "bytes \<Rightarrow> bytes list \<Rightarrow> bool" where
  "plain_request w r \<longleftrightarrow> nul_free w \<and> r \<noteq> [] \<and> (\<forall>d \<in> set r. \<not> is_uuid_part d)"

lemma send_frame_of: "nul_free w \<Longrightarrow> send_part w = Inr (frame_of w)"
  using send_part_fault_iff [of w] by (cases "send_part w") (auto simp: frame_of_def)

lemma relay_plain:
  assumes "plain_request w r"
  obtains ps where "zmsg_recv (deliver r) zmsg_new = Inr (True, ps)" "mapE send_part ps = Inr r"
proof -
  have "bindE (mapE recv_part r) (mapE send_part) = Inr r"
    using assms by (intro frame.dec_enc_list) (auto simp: plain_request_def)
  then obtain ps where "mapE recv_part r = Inr ps" "mapE send_part ps = Inr r" by (auto simp: bindE_eq_Inr)
  with that assms show thesis by (simp add: recv_deliver plain_request_def)
qed

lemma pp_dispatch:
  assumes "queue s = x # xs" "plain_request (identity x) r"
  shows "pp_frontend (deliver r) s =
    Inr (s\<lparr>queue := xs, to_workers := to_workers s @ [with_more (frame_of (identity x) # r)]\<rparr>)"
proof -
  obtain ps where ps: "zmsg_recv (deliver r) zmsg_new = Inr (True, ps)" "mapE send_part ps = Inr r"
    using assms(2) by (rule relay_plain)
  have "c_str (identity x) = identity x" "send_part (identity x) = Inr (frame_of (identity x))"
    using assms(2) by (simp_all add: plain_request_def c_str_nul_free send_frame_of)
  with ps assms(1) show ?thesis
    by (simp add: pp_frontend_def s_worker_dequeue_def send_worker_def push_front_def zmsg_send_eq send_start_example_def)
qed

interpretation pp: lru_broker "\<lambda>s. map identity (queue s)" "\<lambda>w s. s_worker_append clk w (s_worker_delete w s)"
  s_worker_dequeue "\<lambda>r. pp_frontend (deliver r)" to_workers "\<lambda>w r. with_more (frame_of w # r)" plain_request
proof unfold_locales
  fix w and s :: ppqueue
  assume "w \<notin> set (map identity (queue s))"
  then show "map identity (queue (s_worker_append clk w (s_worker_delete w s))) = map identity (queue s) @ [w]"
    by (auto simp: s_worker_append_def s_worker_delete_def delete_first_absent pp_clock_def Let_def)
next
  fix s :: ppqueue and w ws
  assume "map identity (queue s) = w # ws"
  then show "\<exists>t. s_worker_dequeue s = Inr (w, t) \<and> map identity (queue t) = ws"
    by (auto simp: s_worker_dequeue_def)
next
  fix w and s :: ppqueue
  show "to_workers (s_worker_append clk w (s_worker_delete w s)) = to_workers s"
    by (simp add: s_worker_append_def s_worker_delete_def pp_clock_def Let_def)
next
  fix s :: ppqueue and w ws r
  assume "map identity (queue s) = w # ws" "plain_request w r"
  then show "\<exists>t. pp_frontend (deliver r) s = Inr t \<and> map identity (queue t) = ws
      \<and> to_workers t = to_workers s @ [with_more (frame_of w # r)]"
    using pp_dispatch by (auto simp: map_eq_Cons_conv)
qed

lemma sp_dispatch:
  assumes "worker_queue s = w # ws" "plain_request w r"
  shows "sp_frontend (deliver r) s =
    Inr (s\<lparr>worker_queue := ws, sp_to_workers := sp_to_workers s @ [with_more (frame_of w # [] # r)]\<rparr>)"
proof -
  obtain ps where ps: "zmsg_recv (deliver r) zmsg_new = Inr (True, ps)" "mapE send_part ps = Inr r"
    using assms(2) by (rule relay_plain)
  have "c_str w = w" "send_part w = Inr (frame_of w)"
    using assms(2) by (simp_all add: plain_request_def c_str_nul_free send_frame_of)
  moreover have "send_part [] = Inr []" by (simp add: send_part_def is_uuid_part_def)
  ultimately show ?thesis using ps assms(1)
    by (simp add: sp_frontend_def sp_pop_def wrap_def push_front_def zmsg_send_eq send_start_example_def)
qed

interpretation sp: lru_broker worker_queue "\<lambda>w s. s\<lparr>worker_queue := worker_queue s @ [w]\<rparr>" sp_pop
  "\<lambda>r. sp_frontend (deliver r)" sp_to_workers "\<lambda>w r. with_more (frame_of w # [] # r)" plain_request
  by unfold_locales (auto simp: sp_pop_def sp_dispatch)

subsection \<open>The loop does not fault\<close>

definition clean_turn :: "incoming option \<times> incoming option \<Rightarrow> bool" where
  "clean_turn io \<longleftrightarrow> pred_option clean (fst io) \<and> pred_option clean (snd io)"

text \<open>Every worker waits once, under a name without NUL.\<close>

definition pp_ok :: "ppqueue \<Rightarrow> bool" where
  "pp_ok s \<longleftrightarrow> distinct (map identity (queue s)) \<and> list_all nul_free (map identity (queue s))"

lemma delete_first_set: "distinct (map identity xs) \<Longrightarrow>
  set (delete_first w xs) = {x \<in> set xs. identity x \<noteq> w} \<and> distinct (map identity (delete_first w xs))"
  by (induction xs) (auto simp: rev_image_eqI)

lemma refresh_first_ids [simp]: "map identity (refresh_first w t xs) = map identity xs"
  by (induction xs) auto

lemma refresh_first_Nil [simp]: "refresh_first w t xs = [] \<longleftrightarrow> xs = []"
  by (cases xs) simp_all

lemma purge_from_filter: "purge_from c xs = filter (\<lambda>x. c \<le> expiry x) xs"
  by (induction xs) auto

lemma pp_ok_delete: "pp_ok s \<Longrightarrow> pp_ok (s_worker_delete w s)"
  using delete_first_set [of "queue s" w] by (auto simp: pp_ok_def s_worker_delete_def list_all_iff)

lemma pp_ok_append: "pp_ok s \<Longrightarrow> nul_free w \<Longrightarrow> pp_ok (s_worker_append clk w s)"
  by (auto simp: pp_ok_def s_worker_append_def pp_clock_def list_all_iff)

lemma pp_ok_refresh: "pp_ok s \<Longrightarrow> pp_ok (s_worker_refresh clk w s)"
  by (simp add: pp_ok_def s_worker_refresh_def pp_clock_def)

abbreviation succeeds :: "('s \<Rightarrow> bool) \<Rightarrow> fault + 's \<Rightarrow> bool" where
  "succeeds \<equiv> wpE (\<lambda>_. True)"

lemma send_client_clean:
  "\<forall>p \<in> set m. sendable p \<Longrightarrow> \<exists>w. send_client m s = Inr (s\<lparr>to_clients := to_clients s @ [w]\<rparr>)"
  using send_clean [of m send_start_example] by (auto simp: send_client_def)

lemma send_worker_clean:
  "\<forall>p \<in> set m. sendable p \<Longrightarrow> \<exists>w. send_worker m s = Inr (s\<lparr>to_workers := to_workers s @ [w]\<rparr>)"
  using send_clean [of m send_start_example] by (auto simp: send_worker_def)

lemma pp_backend_ok:
  assumes "pp_ok s" "clean r"
  shows "succeeds (\<lambda>t. pp_ok t \<and> (queue s \<noteq> [] \<longrightarrow> queue t \<noteq> [])) (pp_backend clk r s)"
proof -
  obtain b ps where ps: "zmsg_recv r zmsg_new = Inr (b, ps)" "ps \<noteq> []" "\<forall>p \<in> set ps. sendable p"
    using assms(2) by (rule recv_clean)
  obtain w m where m: "unwrap ps = Inr (w, m)" "nul_free w" "\<forall>p \<in> set m. sendable p"
    using ps(2,3) by (rule unwrap_clean)
  obtain f where f: "send_client m s = Inr (s\<lparr>to_clients := to_clients s @ [f]\<rparr>)"
    using send_client_clean [OF m(3)] by blast
  have "queue s \<noteq> [] \<Longrightarrow> queue (s_worker_refresh clk w s) \<noteq> []"
    by (simp add: s_worker_refresh_def pp_clock_def)
  moreover have "queue u \<noteq> [] \<Longrightarrow> queue (s_worker_append clk w u) \<noteq> []" for u
    by (simp add: s_worker_append_def pp_clock_def)
  moreover have "queue (s_worker_append clk w (s_worker_delete w s)) \<noteq> []"
    by (auto simp: s_worker_append_def pp_clock_def Let_def)
  moreover have "pp_ok (s\<lparr>to_clients := to_clients s @ [f]\<rparr>)" using assms(1) by (simp add: pp_ok_def)
  ultimately show ?thesis
    using assms(1) ps(1) m f
    by (auto simp: pp_backend_def pp_ok_append pp_ok_refresh pp_ok_delete)
qed

lemma pp_frontend_ok:
  assumes "pp_ok s" "clean r" "queue s \<noteq> []"
  shows "succeeds pp_ok (pp_frontend r s)"
proof -
  obtain b ps where ps: "zmsg_recv r zmsg_new = Inr (b, ps)" "\<forall>p \<in> set ps. sendable p"
    using assms(2) by (rule recv_clean)
  obtain x xs where q: "queue s = x # xs" using assms(3) by (cases "queue s") auto
  have "\<forall>p \<in> set (push_front (identity x) ps). sendable p" using ps(2) by (simp add: push_front_def)
  from send_worker_clean [OF this, of "s\<lparr>queue := xs\<rparr>"] show ?thesis
    using assms(1) ps(1) q by (auto simp: pp_frontend_def s_worker_dequeue_def pp_ok_def)
qed

text \<open>Every waiting worker is sent one heartbeat when it is time.\<close>

definition heartbeat_to :: "bytes \<Rightarrow> wire" where
  "heartbeat_to w = [(w, True), (bytes_of ''HEARTBEAT'', False)]"

lemma send_heartbeat:
  assumes "nul_free w" "\<not> is_uuid_part w"
  shows "send_worker (wrap w None (zmsg_of_body (bytes_of ''HEARTBEAT''))) s =
    Inr (s\<lparr>to_workers := to_workers s @ [heartbeat_to w]\<rparr>)"
  using assms
  by (simp add: send_worker_def zmsg_of_body_def zmsg_defs c_str_nul_free send_example_plain heartbeat_to_def
      is_uuid_part_def bytes_of_def c_str_Cons)

lemma beat_keeps: "succeeds (\<lambda>t. queue t = queue s) (pp_beat x s)"
proof -
  have "\<forall>p \<in> set (wrap (identity x) None (zmsg_of_body (bytes_of ''HEARTBEAT''))). sendable p"
    by (auto simp: zmsg_of_body_def zmsg_defs bytes_of_def)
  from send_worker_clean [OF this, of s] show ?thesis by (auto simp: pp_beat_def)
qed

lemma beats_keep: "succeeds (\<lambda>t. queue t = queue s) (forE pp_beat xs s)"
proof (induction xs arbitrary: s)
  case (Cons x xs)
  have "succeeds (\<lambda>t. queue t = queue s) (forE pp_beat xs u)" if "queue u = queue s" for u
    using Cons.IH [of u] that by simp
  then show ?case using beat_keeps [of s x] by (auto intro: wpE_mono)
qed simp

lemma pp_heartbeats_keep: "succeeds (\<lambda>t. queue t = queue s) (pp_heartbeats clk s)"
proof -
  let ?u = "snd (pp_clock clk s)"
  have "succeeds (\<lambda>t. queue t = queue ?u) (forE pp_beat (queue ?u) ?u)" by (rule beats_keep)
  then show ?thesis
    by (auto simp: pp_heartbeats_def pp_clock_def Let_def intro: wpE_mono)
qed

lemma pp_heartbeats_ok: "pp_ok s \<Longrightarrow> succeeds (\<lambda>t. pp_ok t \<and> queue t = queue s) (pp_heartbeats clk s)"
  by (rule wpE_mono [OF pp_heartbeats_keep]) (simp add: pp_ok_def)

lemma pp_purged: "\<forall>x \<in> set (queue (s_queue_purge clk s)). s_clock (clk (ticks (s_queue_purge clk s) - 1)) \<le> expiry x"
  by (auto simp: s_queue_purge_def pp_clock_def purge_from_filter)

lemma pp_turn_ok:
  assumes "pp_ok s" "clean_turn io"
  shows "succeeds (\<lambda>t. pp_ok t \<and> (\<forall>x \<in> set (queue t). s_clock (clk (ticks t - 1)) \<le> expiry x)) (pp_turn clk io s)"
proof -
  have purge: "pp_ok t \<Longrightarrow> pp_ok (s_queue_purge clk t)" for t
    by (auto simp: pp_ok_def s_queue_purge_def pp_clock_def purge_from_filter distinct_map inj_on_def list_all_iff)
  have rest: "succeeds (\<lambda>t. pp_ok t \<and> (\<forall>x \<in> set (queue t). s_clock (clk (ticks t - 1)) \<le> expiry x))
      (bindE (pp_heartbeats clk u) (\<lambda>s. Inr (s_queue_purge clk s)))" if "pp_ok u" for u
    using pp_purged purge by (auto intro: wpE_mono [OF pp_heartbeats_ok [OF that]])
  have frontend: "succeeds pp_ok (case (if queue s \<noteq> [] then snd io else None) of None \<Rightarrow> Inr u | Some r \<Rightarrow> pp_frontend r u)"
    if "pp_ok u" "queue s \<noteq> [] \<longrightarrow> queue u \<noteq> []" for u
    using that assms(2) pp_frontend_ok [of u] by (auto simp: clean_turn_def split: option.split)
  have backend: "succeeds (\<lambda>u. pp_ok u \<and> (queue s \<noteq> [] \<longrightarrow> queue u \<noteq> []))
      (case fst io of None \<Rightarrow> Inr s | Some r \<Rightarrow> pp_backend clk r s)"
    using assms pp_backend_ok [of s] by (auto simp: clean_turn_def split: option.split)
  show ?thesis
    unfolding pp_turn_def Let_def wpE_bindE
    by (rule wpE_mono [OF backend], rule wpE_mono [OF frontend])
      (use rest in \<open>auto\<close>)
qed

text \<open>No sendable input makes the loop fault; after a turn nobody waits whose time was over.\<close>

text \<open>
  C14. On messages with a part at least, none of them a text UUID with a NUL in it, the loop of
  ppqueue never fails an assertion and never takes a worker from an empty queue; no worker is in
  the queue twice, and after a turn none whose expiry is before the last reading of the clock.
\<close>

theorem pp_never_faults:
  assumes "\<forall>io \<in> set ios. clean_turn io"
  shows "\<exists>t. pp_run clk ios = Inr t \<and> distinct (map identity (queue t))
    \<and> (ios \<noteq> [] \<longrightarrow> (\<forall>x \<in> set (queue t). s_clock (clk (ticks t - 1)) \<le> expiry x))"
proof -
  have start: "pp_ok (pp_start clk)" by (simp add: pp_ok_def pp_start_def pp_clock_def)
  have run: "succeeds pp_ok (forE (pp_turn clk) js (pp_start clk))" if "set js \<subseteq> set ios" for js
    using that start assms by (intro wpE_forE) (auto intro: wpE_mono [OF pp_turn_ok])
  show ?thesis
  proof (cases ios rule: rev_cases)
    case Nil
    then show ?thesis using start by (simp add: pp_run_def pp_ok_def)
  next
    case (snoc js io)
    have "succeeds (\<lambda>t. pp_ok t \<and> (\<forall>x \<in> set (queue t). s_clock (clk (ticks t - 1)) \<le> expiry x)) (pp_run clk ios)"
      unfolding pp_run_def snoc forE_append wpE_bindE
      by (rule wpE_mono [OF run]) (use snoc assms pp_turn_ok in auto)
    then show ?thesis by (cases "pp_run clk ios") (auto simp: pp_ok_def)
  qed
qed

subsection \<open>Silent workers\<close>

text \<open>A message of another worker, or of nobody.\<close>

definition not_from :: "bytes \<Rightarrow> incoming option \<Rightarrow> bool" where
  "not_from w i \<longleftrightarrow> (\<forall>r b ps v m. i = Some r \<longrightarrow> zmsg_recv r zmsg_new = Inr (b, ps) \<longrightarrow> unwrap ps = Inr (v, m) \<longrightarrow> v \<noteq> w)"

definition due_by :: "bytes \<Rightarrow> int \<Rightarrow> ppqueue \<Rightarrow> bool" where
  "due_by w e s \<longleftrightarrow> (\<forall>x \<in> set (queue s). identity x = w \<longrightarrow> expiry x \<le> e)"

lemma due_by_append: "due_by w e s \<Longrightarrow> v \<noteq> w \<Longrightarrow> due_by w e (s_worker_append clk v s)"
  by (auto simp: due_by_def s_worker_append_def pp_clock_def)

lemma due_by_delete: "due_by w e s \<Longrightarrow> due_by w e (s_worker_delete v s)"
proof -
  have "set (delete_first v xs) \<subseteq> set xs" for xs by (induction xs) auto
  then show "due_by w e s \<Longrightarrow> due_by w e (s_worker_delete v s)"
    by (auto simp: due_by_def s_worker_delete_def)
qed

lemma due_by_refresh: "due_by w e s \<Longrightarrow> v \<noteq> w \<Longrightarrow> due_by w e (s_worker_refresh clk v s)"
proof -
  have "\<forall>x \<in> set (refresh_first v t xs). identity x = w \<longrightarrow> expiry x \<le> e"
    if "\<forall>x \<in> set xs. identity x = w \<longrightarrow> expiry x \<le> e" "v \<noteq> w" for t xs
    using that by (induction xs) auto
  then show "due_by w e s \<Longrightarrow> v \<noteq> w \<Longrightarrow> due_by w e (s_worker_refresh clk v s)"
    by (simp add: due_by_def s_worker_refresh_def pp_clock_def)
qed

lemma due_by_sent [simp]: "due_by w e (s\<lparr>to_clients := f\<rparr>) = due_by w e s"
  by (simp add: due_by_def)

lemma due_by_turn:
  assumes "due_by w e s" "not_from w (fst io)" "pp_turn clk io s = Inr t"
  shows "due_by w e t"
proof -
  obtain u where u: "(case fst io of None \<Rightarrow> Inr s | Some r \<Rightarrow> pp_backend clk r s) = Inr u"
    using assms(3) by (auto simp: pp_turn_def bindE_eq_Inr Let_def)
  have "due_by w e u"
    using u assms(1,2)
    by (cases "fst io") (auto simp: pp_backend_def not_from_def bindE_eq_Inr send_client_def due_by_append
        due_by_delete due_by_refresh due_by_sent split: if_splits)
  moreover obtain v where v: "(case (if queue s \<noteq> [] then snd io else None) of None \<Rightarrow> Inr u | Some r \<Rightarrow> pp_frontend r u) = Inr v"
    "bindE (pp_heartbeats clk v) (\<lambda>s. Inr (s_queue_purge clk s)) = Inr t"
    using u assms(3) by (auto simp: pp_turn_def bindE_eq_Inr Let_def)
  moreover have "due_by w e v" if "due_by w e u"
    using v(1) that
    by (auto simp: pp_frontend_def s_worker_dequeue_def send_worker_def bindE_eq_Inr due_by_def
        split: option.splits if_splits list.splits)
  moreover have "succeeds (\<lambda>a. queue a = queue v) (pp_heartbeats clk v)" by (rule pp_heartbeats_keep)
  ultimately show ?thesis
    by (auto simp: bindE_eq_Inr due_by_def s_queue_purge_def pp_clock_def purge_from_filter Let_def)
qed

text \<open>A worker that sends nothing is dropped by the first purge after its expiry.\<close>

text \<open>
  C15. Whatever other workers and clients send: a worker that sends nothing during some turns, the
  last of which reads the clock after the expiry the worker had before them, is not in the queue at
  their end.
\<close>

theorem silent_worker_dropped:
  assumes "forE (pp_turn clk) ios s = Inr t" "ios \<noteq> []" "\<forall>io \<in> set ios. not_from w (fst io)"
    and "\<forall>x \<in> set (queue s). identity x = w \<longrightarrow> expiry x < s_clock (clk (ticks t - 1))"
  shows "w \<notin> identity ` set (queue t)"
proof -
  let ?e = "s_clock (clk (ticks t - 1)) - 1"
  have due: "due_by w ?e t"
  proof -
    have "due_by w ?e s" using assms(4) by (force simp: due_by_def)
    then have "wpE (\<lambda>_. False) (due_by w ?e) (forE (pp_turn clk) ios s)"
      using assms(3) due_by_turn by (intro wpE_forE) (auto simp: wpE_def split: sum.splits)
    then show ?thesis using assms(1) by simp
  qed
  obtain js io u where "ios = js @ [io]" "pp_turn clk io u = Inr t"
    using assms(1,2) by (cases ios rule: rev_cases) (auto simp: forE_append bindE_eq_Inr)
  then have "\<forall>x \<in> set (queue t). s_clock (clk (ticks t - 1)) \<le> expiry x"
    using pp_purged by (auto simp: pp_turn_def bindE_eq_Inr Let_def)
  then show ?thesis using due by (force simp: due_by_def)
qed

subsection \<open>Least recently used\<close>

text \<open>The announcement of a worker with the identity frame \<open>f\<close>.\<close>

definition announces :: "bytes \<Rightarrow> bytes \<Rightarrow> bool" where
  "announces f w \<longleftrightarrow> recv_part f = Inr w \<and> nul_free w \<and> \<not> is_uuid_part f"

lemma announces_frame: "announces f w \<Longrightarrow> frame_of w = f"
  using recv_part_send_part [of f] by (simp add: announces_def frame_of_def)

definition plain :: "bytes list \<Rightarrow> bool" where
  "plain r \<longleftrightarrow> r \<noteq> [] \<and> (\<forall>d \<in> set r. \<not> is_uuid_part d)"

lemma plain_requests:
  "list_all2 announces fs ws \<Longrightarrow> list_all plain rs \<Longrightarrow> length rs = length fs \<Longrightarrow>
   list_all2 plain_request ws rs \<and> map2 (\<lambda>w r. g (frame_of w) r) ws rs = map2 g fs rs"
proof (induction fs ws arbitrary: rs rule: list_all2_induct)
  case (Cons f fs w ws)
  then show ?case
    by (cases rs) (auto simp: announces_frame plain_request_def plain_def, simp add: announces_def)
qed simp

lemma recv_announcement:
  "announces f w \<Longrightarrow> length d < 17 \<Longrightarrow> zmsg_recv (MoreFrame f (LastFrame d)) zmsg_new = Inr (True, [w, d])"
  by (simp add: zmsg_recv_def clear_def announces_def recv_part_def is_uuid_frame_def)

text \<open>Replies go back to the client they are addressed to, and the worker waits again, last.\<close>

definition addressed :: "bytes \<Rightarrow> bool" where
  "addressed c \<longleftrightarrow> is_uuid_frame c \<or> c \<noteq> [] \<and> c ! 0 \<noteq> 0"

lemma addressed_text: "addressed c \<Longrightarrow> recv_part c = Inr p \<Longrightarrow> c_str p \<noteq> []"
  using encode_uuid_text [of c]
  by (cases c) (auto simp: addressed_def recv_part_def c_str_Cons c_str_nul_free is_uuid_part_def split: if_splits)

lemma unaddressed_text: "\<not> addressed c \<Longrightarrow> recv_part c = Inr c \<and> c_str c = []"
  by (cases c) (auto simp: addressed_def recv_part_def c_str_Cons)

text \<open>\<open>unwrap\<close> also takes the name of the client away if that reads as the empty string.\<close>

lemma pp_reply_message:
  assumes "announces f w" "plain (c # r)" "r \<noteq> []" "addressed c \<or> 2 \<le> length r"
  shows "pp_backend clk (deliver (f # c # r)) s =
    Inr (s_worker_append clk w (s\<lparr>to_clients := to_clients s @ [with_more ((if addressed c then [c] else []) @ r)]\<rparr>))"
proof -
  have "bindE (mapE recv_part (f # c # r)) (mapE send_part) = Inr (f # c # r)"
    using assms(1,2) by (intro frame.dec_enc_list) (auto simp: announces_def plain_def)
  then obtain p ps where ps: "recv_part c = Inr p" "mapE recv_part r = Inr ps" "mapE send_part (p # ps) = Inr (c # r)"
    using assms(1) by (auto simp: bindE_eq_Inr announces_def)
  have "length ps = length r" using mapE_length [OF ps(2)] .
  moreover have "zmsg_recv (deliver (f # c # r)) zmsg_new = Inr (True, w # p # ps)"
    using ps assms(1) recv_deliver [of "f # c # r"] by (simp add: announces_def)
  moreover have "c_str p = [] \<longleftrightarrow> \<not> addressed c"
    using addressed_text [OF _ ps(1)] unaddressed_text [of c] ps(1) by auto
  moreover have "mapE send_part ps = Inr r" using ps(3) by (auto simp: bindE_eq_Inr)
  ultimately show ?thesis
    using ps(3) assms(1,3,4)
    by (auto simp: pp_backend_def unwrap_def address_of_def parts_def c_str_nul_free announces_def send_client_def
        zmsg_send_eq send_start_example_def)
qed

text \<open>Heartbeats: one for each worker that waits, in their order.\<close>

lemma pp_heartbeat_round:
  assumes "s_clock (clk (ticks s)) > heartbeat_at s" "\<forall>x \<in> set (queue s). nul_free (identity x) \<and> \<not> is_uuid_part (identity x)"
  shows "pp_heartbeats clk s = Inr (s\<lparr>ticks := ticks s + 2,
    heartbeat_at := s_clock (clk (Suc (ticks s))) + PP_INTERVAL,
    to_workers := to_workers s @ map (heartbeat_to \<circ> identity) (queue s)\<rparr>)"
proof -
  have "forE pp_beat xs u = Inr (u\<lparr>to_workers := to_workers u @ map (heartbeat_to \<circ> identity) xs\<rparr>)"
    if "\<forall>x \<in> set xs. nul_free (identity x) \<and> \<not> is_uuid_part (identity x)" for xs and u :: ppqueue
    using that by (induction xs arbitrary: u) (simp_all add: pp_beat_def send_heartbeat)
  from this [OF assms(2)] show ?thesis
    using assms(1) by (simp add: pp_heartbeats_def pp_clock_def Let_def)
qed

lemma pp_ready_message:
  assumes "announces f w"
  shows "pp_backend clk (MoreFrame f (LastFrame (bytes_of ''READY''))) s
    = Inr (s_worker_append clk w (s_worker_delete w s))"
  using recv_announcement [OF assms, of "bytes_of ''READY''"] assms
  by (simp add: pp_backend_def announces_def unwrap_def address_of_def parts_def c_str_nul_free bytes_of_def c_str_Cons)

theorem pp_least_recently_used:
  assumes "queue s = []" "distinct ws" "list_all2 announces fs ws" "list_all plain rs" "length rs = length fs"
  shows "\<exists>t u. forE (\<lambda>f. pp_backend clk (deliver [f, bytes_of ''READY''])) fs s = Inr t
    \<and> forE (\<lambda>r. pp_frontend (deliver r)) rs t = Inr u \<and> queue u = []
    \<and> to_workers u = to_workers s @ map2 (\<lambda>f r. with_more (f # r)) fs rs"
proof -
  have "forE (\<lambda>f. pp_backend clk (deliver [f, bytes_of ''READY''])) fs s
      = Inr (fold (\<lambda>w s. s_worker_append clk w (s_worker_delete w s)) ws s)"
    using assms(3) by (induction fs ws arbitrary: s rule: list_all2_induct) (simp_all add: pp_ready_message)
  moreover have "list_all2 plain_request ws rs"
    "map2 (\<lambda>w r. with_more (frame_of w # r)) ws rs = map2 (\<lambda>f r. with_more (f # r)) fs rs"
    using plain_requests [OF assms(3-5), of "\<lambda>f r. with_more (f # r)"] by blast+
  ultimately show ?thesis
    using pp.lru_order [of s ws rs] assms(1,2) by fastforce
qed

text \<open>The Simple Pirate queue, up to its limit of workers; the workers' REQ sockets add and expect an empty
  frame.\<close>

lemma sp_ready_message:
  assumes "announces f w" "length (worker_queue s) < MAX_WORKERS"
  shows "sp_backend (MoreFrame f (MoreFrame [] (LastFrame (bytes_of ''READY'')))) s
    = Inr (s\<lparr>worker_queue := worker_queue s @ [w]\<rparr>)"
proof -
  have "zmsg_recv (MoreFrame f (MoreFrame [] (LastFrame (bytes_of ''READY'')))) zmsg_new = Inr (True, [w, [], bytes_of ''READY''])"
    using assms(1) by (simp add: zmsg_recv_def clear_def announces_def recv_part_def is_uuid_frame_def bytes_of_def)
  then show ?thesis
    using assms by (simp add: sp_backend_def announces_def unwrap_def address_of_def c_str_nul_free bytes_of_def c_str_Cons)
qed

theorem sp_least_recently_used:
  assumes "worker_queue s = []" "distinct ws" "list_all2 announces fs ws" "list_all plain rs" "length rs = length fs"
    and "length fs \<le> MAX_WORKERS"
  shows "\<exists>t u. forE (\<lambda>f. sp_backend (deliver [f, [], bytes_of ''READY''])) fs s = Inr t
    \<and> forE (\<lambda>r. sp_frontend (deliver r)) rs t = Inr u \<and> worker_queue u = []
    \<and> sp_to_workers u = sp_to_workers s @ map2 (\<lambda>f r. with_more (f # [] # r)) fs rs"
proof -
  have "forE (\<lambda>f. sp_backend (deliver [f, [], bytes_of ''READY''])) fs s
      = Inr (fold (\<lambda>w s. s\<lparr>worker_queue := worker_queue s @ [w]\<rparr>) ws s)"
    if "length (worker_queue s) + length fs \<le> MAX_WORKERS" for s
    using assms(3) that by (induction fs ws arbitrary: s rule: list_all2_induct) (simp_all add: sp_ready_message)
  moreover have "list_all2 plain_request ws rs"
    "map2 (\<lambda>w r. with_more (frame_of w # [] # r)) ws rs = map2 (\<lambda>f r. with_more (f # [] # r)) fs rs"
    using plain_requests [OF assms(3-5), of "\<lambda>f r. with_more (f # [] # r)"] by blast+
  ultimately show ?thesis
    using sp.lru_order [of s ws rs] assms(1,2,6) by fastforce
qed

end
