(* ===== verification/Pirate_Worker.thy ===== *)
theory Pirate_Worker
  imports Pirate_Queue
begin

section \<open>The pirate workers (ppworker.cpp, spworker.cpp)\<close>

text \<open>
  The workers behind the two queues: they send every request back as its reply, and now and then simulate
  a crash or an overload. A run is given what each poll returns, the readings of the clock, the identities
  \<open>s_set_id\<close> makes, and the numbers \<open>within (5)\<close> returns; what is done to the socket is a trace of actions.
\<close>

subsection \<open>The Paranoid Pirate worker\<close>

definition INTERVAL_INIT :: nat where "INTERVAL_INIT = 1000"
definition INTERVAL_MAX :: nat where "INTERVAL_MAX = 32000"
definition PP_WORKER_LIVENESS :: nat where "PP_WORKER_LIVENESS = 3"

record ppworker =
  pw_liveness :: nat
  pw_interval :: nat
  pw_heartbeat_at :: int
  pw_cycles :: int
  pw_ticks :: nat
  pw_connects :: nat
  pw_draws :: nat
  pw_trace :: "action list"

record pirate_env =
  pe_clock :: "nat \<Rightarrow> timeval"
  pe_rand :: "nat \<Rightarrow> nat \<times> nat"
  pe_within5 :: "nat \<Rightarrow> nat"

definition pw_clock :: "pirate_env \<Rightarrow> ppworker \<Rightarrow> int \<times> ppworker" where
  "pw_clock E s = (s_clock (pe_clock E (pw_ticks s)), s\<lparr>pw_ticks := Suc (pw_ticks s)\<rparr>)"

definition pw_within5 :: "pirate_env \<Rightarrow> ppworker \<Rightarrow> nat \<times> ppworker" where
  "pw_within5 E s = (pe_within5 E (pw_draws s), s\<lparr>pw_draws := Suc (pw_draws s)\<rparr>)"

definition pw_act :: "action \<Rightarrow> ppworker \<Rightarrow> ppworker" where
  "pw_act a s = s\<lparr>pw_trace := pw_trace s @ [a]\<rparr>"

text \<open>\<open>s_send\<close>: one frame.\<close>

definition pw_send :: "bytes \<Rightarrow> ppworker \<Rightarrow> ppworker" where
  "pw_send d s = pw_act (SendFrames [(d, False)]) s"

definition s_worker_socket :: "pirate_env \<Rightarrow> ppworker \<Rightarrow> ppworker" where
  "s_worker_socket E s =
     pw_send (bytes_of ''READY'')
       (pw_act (ConnectTo (set_id_text (pe_rand E (pw_connects s))) (bytes_of ''tcp://localhost:5556''))
         (s\<lparr>pw_connects := Suc (pw_connects s)\<rparr>))"

text \<open>A message with three parts is a request. \<open>None\<close> is the simulated crash, which ends the loop; the
  second draw is only made if the first does not crash.\<close>

definition pw_request :: "pirate_env \<Rightarrow> zmsg \<Rightarrow> ppworker \<Rightarrow> fault + ppworker option" where
  "pw_request E msg s =
     (let s = s\<lparr>pw_cycles := pw_cycles s + 1\<rparr>;
          (crash, s) = (if pw_cycles s > 3 then (let (n, s) = pw_within5 E s in (n = 0, s)) else (False, s)) in
      if crash then Inr None
      else
        let (slow, s) = (if pw_cycles s > 3 then (let (n, s) = pw_within5 E s in (n = 0, s)) else (False, s));
            s = (if slow then pw_act (SleepFor 5000) s else s)
        in bindE (zmsg_send send_start_example msg) (\<lambda>(w, _).
             Inr (Some (pw_act (SleepFor 1000) ((pw_act (SendFrames w) s)\<lparr>pw_liveness := PP_WORKER_LIVENESS\<rparr>)))))"

definition pw_message :: "pirate_env \<Rightarrow> incoming \<Rightarrow> ppworker \<Rightarrow> fault + ppworker option" where
  "pw_message E r s =
     bindE (zmsg_recv r zmsg_new) (\<lambda>(_, msg).
     bindE (if parts msg = 3 then pw_request E msg s
            else if parts msg = 1 \<and> body_of msg = Some (bytes_of ''HEARTBEAT'')
            then Inr (Some (s\<lparr>pw_liveness := PP_WORKER_LIVENESS\<rparr>))
            else Inr (Some s)) (\<lambda>s.
       Inr (map_option (\<lambda>s. s\<lparr>pw_interval := INTERVAL_INIT\<rparr>) s)))"

definition pw_silence :: "pirate_env \<Rightarrow> ppworker \<Rightarrow> ppworker" where
  "pw_silence E s =
     (let s = s\<lparr>pw_liveness := pw_liveness s - 1\<rparr> in
      if pw_liveness s = 0 then
        let s = pw_act (SleepFor (int (pw_interval s))) s;
            s = (if pw_interval s < INTERVAL_MAX then s\<lparr>pw_interval := pw_interval s * 2\<rparr> else s)
        in (s_worker_socket E s)\<lparr>pw_liveness := PP_WORKER_LIVENESS\<rparr>
      else s)"

definition pw_heartbeat :: "pirate_env \<Rightarrow> ppworker \<Rightarrow> ppworker" where
  "pw_heartbeat E s =
     (let (t, s) = pw_clock E s in
      if t > pw_heartbeat_at s then
        let (t, s) = pw_clock E s
        in pw_send (bytes_of ''HEARTBEAT'') (s\<lparr>pw_heartbeat_at := t + PP_INTERVAL\<rparr>)
      else s)"

text \<open>The loop over what the polls return; the flag says whether it was left by the simulated crash.\<close>

fun pw_loop :: "pirate_env \<Rightarrow> incoming option list \<Rightarrow> ppworker \<Rightarrow> fault + bool \<times> ppworker" where
  "pw_loop E [] s = Inr (False, s)"
| "pw_loop E (None # polls) s = pw_loop E polls (pw_heartbeat E (pw_silence E s))"
| "pw_loop E (Some r # polls) s =
     bindE (pw_message E r s) (\<lambda>o1.
       case o1 of None \<Rightarrow> Inr (True, s) | Some s \<Rightarrow> pw_loop E polls (pw_heartbeat E s))"

definition pw_start :: "pirate_env \<Rightarrow> ppworker" where
  "pw_start E =
     (let s = s_worker_socket E \<lparr>pw_liveness = PP_WORKER_LIVENESS, pw_interval = INTERVAL_INIT, pw_heartbeat_at = 0,
                pw_cycles = 0, pw_ticks = 0, pw_connects = 0, pw_draws = 0, pw_trace = []\<rparr>;
          (t, s) = pw_clock E s
      in s\<lparr>pw_heartbeat_at := t + PP_INTERVAL\<rparr>)"

definition ppworker_main :: "pirate_env \<Rightarrow> incoming option list \<Rightarrow> fault + bool \<times> ppworker" where
  "ppworker_main E polls = pw_loop E polls (pw_start E)"

subsection \<open>The Simple Pirate worker\<close>

text \<open>The trace of the frames it sends, and whether it ended in the simulated crash.\<close>

fun sw_loop :: "(nat \<Rightarrow> nat) \<Rightarrow> int \<Rightarrow> nat \<Rightarrow> incoming list \<Rightarrow> fault + bool \<times> wire list" where
  "sw_loop within5 cycles draws [] = Inr (False, [])"
| "sw_loop within5 cycles draws (r # rs) =
     bindE (zmsg_recv r zmsg_new) (\<lambda>(_, zm).
     let cycles = cycles + 1 in
     if cycles > 3 \<and> within5 draws = 0 then Inr (True, [])
     else
       bindE (zmsg_send send_start_example zm) (\<lambda>(w, _).
       bindE (sw_loop within5 cycles (if cycles > 3 then draws + 2 else draws) rs) (\<lambda>(crashed, ws).
         Inr (crashed, w # ws))))"

definition spworker_main :: "(nat \<Rightarrow> nat) \<Rightarrow> incoming list \<Rightarrow> fault + bool \<times> wire list" where
  "spworker_main within5 rs =
     bindE (sw_loop within5 0 0 rs) (\<lambda>(crashed, ws). Inr (crashed, [(bytes_of ''READY'', False)] # ws))"

subsection \<open>Exponential backoff\<close>

text \<open>The pauses of a worker that hears nothing.\<close>

definition backoff :: "nat \<Rightarrow> int" where
  "backoff i = min 32000 (1000 * 2 ^ i)"

fun pauses :: "action list \<Rightarrow> int list" where
  "pauses [] = []"
| "pauses (SleepFor n # acts) = n # pauses acts"
| "pauses (_ # acts) = pauses acts"

lemma pauses_append [simp]: "pauses (as @ bs) = pauses as @ pauses bs"
  by (induction as rule: pauses.induct) simp_all

definition backing_off :: "nat \<Rightarrow> ppworker \<Rightarrow> bool" where
  "backing_off k s \<longleftrightarrow> pw_liveness s = 3 - k mod 3 \<and> int (pw_interval s) = backoff (k div 3)
     \<and> pw_connects s = 1 + k div 3 \<and> pauses (pw_trace s) = map backoff [0..<k div 3]"

lemma backoff_next:
  assumes "int n = backoff i"
  shows "int (if n < INTERVAL_MAX then n * 2 else n) = backoff (Suc i)"
proof (cases "i < 5")
  case True
  then have "i = 0 \<or> i = 1 \<or> i = 2 \<or> i = 3 \<or> i = 4" by linarith
  with assms show ?thesis by (auto simp: backoff_def INTERVAL_MAX_def)
next
  case False
  then have "(2 :: int) ^ 5 \<le> 2 ^ i" by (intro power_increasing) simp_all
  with assms show ?thesis by (simp add: backoff_def INTERVAL_MAX_def)
qed

lemma backing_off_heartbeat: "backing_off k s \<Longrightarrow> backing_off k (pw_heartbeat E s)"
  by (simp add: backing_off_def pw_heartbeat_def pw_clock_def pw_send_def pw_act_def Let_def)

lemma backing_off_silence:
  assumes "backing_off k s"
  shows "backing_off (Suc k) (pw_silence E s)"
proof (cases "k mod 3 = 2")
  case True
  then have "Suc k mod 3 = 0" "Suc k div 3 = Suc (k div 3)" by presburger+
  then show ?thesis
    using assms True backoff_next [of "pw_interval s" "k div 3"]
    by (auto simp: backing_off_def pw_silence_def s_worker_socket_def pw_send_def pw_act_def PP_WORKER_LIVENESS_def Let_def)
next
  case False
  then have "Suc k mod 3 = Suc (k mod 3)" "Suc k div 3 = k div 3" "k mod 3 < 2" by presburger+
  then show ?thesis
    using assms by (auto simp: backing_off_def pw_silence_def Let_def)
qed

theorem silent_queue_backoff:
  "\<exists>s. ppworker_main E (replicate k None) = Inr (False, s) \<and> pw_connects s = 1 + k div 3
     \<and> pauses (pw_trace s) = map backoff [0..<k div 3]"
proof -
  have "backing_off j s \<Longrightarrow> \<exists>t. pw_loop E (replicate n None) s = Inr (False, t) \<and> backing_off (j + n) t" for n j s
  proof (induction n arbitrary: j s)
    case (Suc n)
    then show ?case
      using Suc.IH [of "Suc j" "pw_heartbeat E (pw_silence E s)"] backing_off_silence backing_off_heartbeat by auto
  qed simp
  moreover have "backing_off 0 (pw_start E)"
    by (simp add: backing_off_def pw_start_def s_worker_socket_def pw_send_def pw_act_def pw_clock_def Let_def
        PP_WORKER_LIVENESS_def INTERVAL_INIT_def backoff_def)
  ultimately obtain t where "pw_loop E (replicate k None) (pw_start E) = Inr (False, t)" "backing_off (0 + k) t" by blast
  then show ?thesis by (simp add: ppworker_main_def backing_off_def)
qed

subsection \<open>A request served\<close>


text \<open>
  The round trip: the request goes to the worker that waited longest, comes back as the reply, and goes
  to the client that sent it; the worker then waits last. The sockets take away and add the worker's identity.
\<close>


subsection \<open>Instances\<close>

definition tick_clock :: "nat \<Rightarrow> timeval" where
  "tick_clock n = \<lparr>tv_sec = int n, tv_usec = 0\<rparr>"


definition pirate_pool :: ppqueue where
  "pirate_pool = \<lparr>queue = [\<lparr>identity = [65], expiry = 5000\<rparr>, \<lparr>identity = [66], expiry = 6000\<rparr>], heartbeat_at = 9000,
     ticks = 4, to_clients = [], to_workers = []\<rparr>"

lemma announces_short: "nul_free f \<Longrightarrow> length f < 17 \<Longrightarrow> announces f f"
  by (simp add: announces_def recv_part_def is_uuid_frame_def is_uuid_part_def)

lemma plain_short: "r \<noteq> [] \<Longrightarrow> \<forall>d \<in> set r. length d < 33 \<Longrightarrow> plain r"
  by (auto simp: plain_def is_uuid_part_def)



lemma pp_least_recently_used_witness:
  "\<exists>t u. forE (\<lambda>f. pp_backend tick_clock (deliver [f, bytes_of ''READY''])) [[65], [66]] (pp_start tick_clock) = Inr t
    \<and> forE (\<lambda>r. pp_frontend (deliver r)) [[[67], [], [1]], [[68], [], [2]]] t = Inr u \<and> queue u = []
    \<and> to_workers u = [with_more [[65], [67], [], [1]], with_more [[66], [68], [], [2]]]"
  using pp_least_recently_used [of "pp_start tick_clock" "[[65], [66]]" "[[65], [66]]" "[[[67], [], [1]], [[68], [], [2]]]" tick_clock]
    announces_short [of "[65]"] announces_short [of "[66]"] plain_short [of "[[67], [], [1]]"] plain_short [of "[[68], [], [2]]"]
  by (simp add: pp_start_def pp_clock_def)

lemma pp_never_faults_witness:
  "\<exists>t. pp_run tick_clock [(Some (deliver [[65], bytes_of ''READY'']), None), (None, Some (deliver [[67], [], [1]]))] = Inr t
    \<and> distinct (map identity (queue t)) \<and> (\<forall>x \<in> set (queue t). s_clock (tick_clock (ticks t - 1)) \<le> expiry x)"
  using pp_never_faults [of "[(Some (deliver [[65], bytes_of ''READY'']), None), (None, Some (deliver [[67], [], [1]]))]" tick_clock]
  by (simp add: clean_turn_def clean_def sendable_def is_uuid_part_def bytes_of_def)

text \<open>Two turns in which nothing arrives: the first worker's time is over at the clock's reading 5, the
  second's at 7.\<close>

lemma silent_worker_dropped_witness:
  "\<exists>t. forE (pp_turn tick_clock) [(None, None), (None, None)] pirate_pool = Inr t \<and> [65] \<notin> identity ` set (queue t)"
proof -
  have run: "forE (pp_turn tick_clock) [(None, None), (None, None)] pirate_pool = Inr (pirate_pool\<lparr>queue := [], ticks := 8\<rparr>)"
    by (simp add: pp_turn_def pp_heartbeats_def pp_clock_def s_queue_purge_def pirate_pool_def tick_clock_def s_clock_def Let_def)
  then show ?thesis
    using silent_worker_dropped [of tick_clock "[(None, None), (None, None)]" pirate_pool "pirate_pool\<lparr>queue := [], ticks := 8\<rparr>" "[65]"]
    by (simp add: not_from_def pirate_pool_def tick_clock_def s_clock_def)
qed

text \<open>The Simple Pirate queue at two workers.\<close>

lemma sp_least_recently_used_witness:
  "\<exists>t u. forE (\<lambda>f. sp_backend (deliver [f, [], bytes_of ''READY''])) [[65], [66]]
      \<lparr>worker_queue = [], sp_to_clients = [], sp_to_workers = []\<rparr> = Inr t
    \<and> forE (\<lambda>r. sp_frontend (deliver r)) [[[67], [], [1]], [[68], [], [2]]] t = Inr u \<and> worker_queue u = []
    \<and> sp_to_workers u = [with_more [[65], [], [67], [], [1]], with_more [[66], [], [68], [], [2]]]"
  using sp_least_recently_used [of "\<lparr>worker_queue = [], sp_to_clients = [], sp_to_workers = []\<rparr>" "[[65], [66]]" "[[65], [66]]"
      "[[[67], [], [1]], [[68], [], [2]]]"]
    announces_short [of "[65]"] announces_short [of "[66]"] plain_short [of "[[67], [], [1]]"] plain_short [of "[[68], [], [2]]"]
  by (simp add: MAX_WORKERS_def)

end
