(* ===== verification/Pirate_Client.thy ===== *)
theory Pirate_Client
  imports Mdp Digits
begin

section \<open>The Lazy Pirate client (lpclient.cpp)\<close>

text \<open>
  The client numbers its requests and sends one again, over a new socket, whenever no reply comes within
  the timeout; after \<open>REQUEST_RETRIES\<close> timeouts without a good reply it gives up. A run is given what
  each poll of the inner loop returns: a reply, or nothing.
\<close>

subsection \<open>Definitions\<close>

definition REQUEST_RETRIES :: int where "REQUEST_RETRIES = 3"

datatype lp_action =
    Connect
  | SendText bytes
  | SleepSeconds nat

record lpclient =
  sequence_nr :: nat
  retries_left :: int
  lp_trace :: "lp_action list"

definition lp_act :: "lp_action \<Rightarrow> lpclient \<Rightarrow> lpclient" where
  "lp_act a c = c\<lparr>lp_trace := lp_trace c @ [a]\<rparr>"

definition s_client_socket :: "lpclient \<Rightarrow> lpclient" where
  "s_client_socket c = lp_act Connect c"

definition lp_send :: "lpclient \<Rightarrow> lpclient" where
  "lp_send c = lp_act (SendText (decimal (sequence_nr c))) c"

text \<open>The start of the outer loop's body: the next request.\<close>

definition lp_next :: "lpclient \<Rightarrow> lpclient" where
  "lp_next c = lp_act (SleepSeconds 1) (lp_send (c\<lparr>sequence_nr := Suc (sequence_nr c)\<rparr>))"

text \<open>Both loops over the polls; the flag says whether the client gave up.\<close>

fun lp_loop :: "bytes option list \<Rightarrow> lpclient \<Rightarrow> bool \<times> lpclient" where
  "lp_loop [] c = (False, c)"
| "lp_loop (Some reply # polls) c =
     (if atoi (c_str reply) = int (sequence_nr c) then lp_loop polls (lp_next (c\<lparr>retries_left := REQUEST_RETRIES\<rparr>))
      else lp_loop polls c)"
| "lp_loop (None # polls) c =
     (let c = c\<lparr>retries_left := retries_left c - 1\<rparr> in
      if retries_left c = 0 then (True, c) else lp_loop polls (lp_send (s_client_socket c)))"

definition lpclient_main :: "bytes option list \<Rightarrow> bool \<times> lpclient" where
  "lpclient_main polls =
     lp_loop polls (lp_next (s_client_socket \<lparr>sequence_nr = 0, retries_left = REQUEST_RETRIES, lp_trace = []\<rparr>))"

subsection \<open>Retries\<close>

text \<open>A server that answers each request with its text, after fewer timeouts than there are retries.\<close>

definition answered :: "nat \<Rightarrow> nat \<Rightarrow> bytes option list" where
  "answered n j = replicate j None @ [Some (decimal n)]"

definition resends :: "nat \<Rightarrow> nat \<Rightarrow> lp_action list" where
  "resends n j = concat (replicate j [Connect, SendText (decimal n)])"

lemma lp_silent:
  assumes "int j < retries_left c"
  shows "lp_loop (replicate j None @ polls) c = lp_loop polls
    (c\<lparr>retries_left := retries_left c - int j, lp_trace := lp_trace c @ resends (sequence_nr c) j\<rparr>)"
  using assms
proof (induction j arbitrary: c)
  case 0
  then show ?case by (simp add: resends_def)
next
  case (Suc j)
  then show ?case
    by (simp add: lp_send_def s_client_socket_def lp_act_def Let_def resends_def diff_diff_eq)
qed

fun answers :: "nat \<Rightarrow> nat list \<Rightarrow> bytes option list" where
  "answers n [] = []"
| "answers n (j # js) = answered n j @ answers (Suc n) js"

fun session :: "nat \<Rightarrow> nat list \<Rightarrow> lp_action list" where
  "session n [] = []"
| "session n (j # js) = resends n j @ [SendText (decimal (Suc n)), SleepSeconds 1] @ session (Suc n) js"

lemma lp_answers:
  assumes "\<forall>j \<in> set js. j < 3" "sequence_nr c = n" "retries_left c = 3"
  shows "lp_loop (answers n js) c =
    (False, c\<lparr>sequence_nr := n + length js, retries_left := 3, lp_trace := lp_trace c @ session n js\<rparr>)"
  using assms
proof (induction js arbitrary: n c)
  case (Cons j js)
  let ?d = "c\<lparr>retries_left := 3, sequence_nr := Suc n,
    lp_trace := lp_trace c @ resends n j @ [SendText (decimal (Suc n)), SleepSeconds 1]\<rparr>"
  have "lp_loop (answers n (j # js)) c = lp_loop (answers (Suc n) js) ?d"
    using Cons.prems lp_silent [of j c "Some (decimal n) # answers (Suc n) js"]
    by (simp add: answered_def atoi_decimal lp_next_def lp_send_def lp_act_def REQUEST_RETRIES_def)
  then show ?case using Cons.prems Cons.IH [of ?d "Suc n"] by simp
qed simp

theorem every_request_answered:
  assumes "\<forall>j \<in> set js. j < 3"
  shows "lpclient_main (answers 1 js) =
    (False, \<lparr>sequence_nr = Suc (length js), retries_left = 3,
       lp_trace = [Connect, SendText (decimal 1), SleepSeconds 1] @ session 1 js\<rparr>)"
  using lp_answers [OF assms, of _ 1]
  by (simp add: lpclient_main_def s_client_socket_def lp_next_def lp_send_def lp_act_def REQUEST_RETRIES_def)

lemma lp_unanswered:
  assumes "\<forall>r. Some r \<in> set polls \<longrightarrow> atoi (c_str r) \<noteq> int (sequence_nr c)" "retries_left c = int (Suc k)"
  shows "fst (lp_loop polls c) \<longleftrightarrow> k < length (filter (\<lambda>p. p = None) polls)"
  using assms
proof (induction polls arbitrary: c k)
  case (Cons p polls)
  show ?case
  proof (cases p)
    case None
    then show ?thesis
      using Cons.prems Cons.IH [of "lp_send (s_client_socket (c\<lparr>retries_left := retries_left c - 1\<rparr>))" "k - 1"]
      by (cases k) (simp_all add: lp_send_def s_client_socket_def lp_act_def Let_def)
  next
    case (Some r)
    then show ?thesis using Cons.prems Cons.IH [of c k] by simp
  qed
qed simp

theorem gives_up_after_three_timeouts:
  assumes "\<forall>r. Some r \<in> set polls \<longrightarrow> atoi (c_str r) \<noteq> 1"
  shows "fst (lpclient_main polls) \<longleftrightarrow> 3 \<le> length (filter (\<lambda>p. p = None) polls)"
  using lp_unanswered [of polls "lp_next (s_client_socket \<lparr>sequence_nr = 0, retries_left = REQUEST_RETRIES, lp_trace = []\<rparr>)" 2] assms
  by (simp add: lpclient_main_def s_client_socket_def lp_next_def lp_send_def lp_act_def REQUEST_RETRIES_def Suc_le_eq numeral_3_eq_3 numeral_2_eq_2)

lemma every_request_answered_witness:
  "fst (lpclient_main (answers 1 [0, 2])) = False \<and> sequence_nr (snd (lpclient_main (answers 1 [0, 2]))) = 3"
  using every_request_answered [of "[0, 2]"] by simp

lemma gives_up_witness: "fst (lpclient_main [None, Some [55], None, None])"
proof -
  have "atoi (c_str [55]) = 7"
    by (simp add: atoi_def c_str_Cons is_space_def digits_value_def is_digit_def)
  then show ?thesis using gives_up_after_three_timeouts [of "[None, Some [55], None, None]"] by simp
qed

end
