(* ===== verification/Lru_Broker.thy ===== *)
theory Lru_Broker
  imports Pirate_Queue
begin

section \<open>The load-balancing broker (lbbroker.cpp)\<close>

text \<open>
  The broker of \<open>Common/zmq/example/lbbroker.cpp\<close> between ten clients and three workers of the same process,
  written over single frames: \<open>s_recv\<close> takes the next frame of a socket, whatever message it belongs to.
  The state holds the frames that have arrived and are not yet taken.
\<close>

subsection \<open>Definitions\<close>

record lbbroker =
  lb_queue :: "bytes list"
  client_nbr :: int
  backend_in :: "bytes list"
  frontend_in :: "bytes list"
  frontend_out :: "wire list"
  backend_out :: "wire list"

definition recv_backend :: "lbbroker \<Rightarrow> fault + (bytes \<times> lbbroker)" where
  "recv_backend s = bindE (s_recv (backend_in s)) (\<lambda>(d, ds). Inr (d, s\<lparr>backend_in := ds\<rparr>))"

definition recv_frontend :: "lbbroker \<Rightarrow> fault + (bytes \<times> lbbroker)" where
  "recv_frontend s = bindE (s_recv (frontend_in s)) (\<lambda>(d, ds). Inr (d, s\<lparr>frontend_in := ds\<rparr>))"

text \<open>A worker's message: an announcement, or a reply for a client. The flag says that the last client has its
  reply.\<close>

definition lb_backend :: "lbbroker \<Rightarrow> fault + (bool \<times> lbbroker)" where
  "lb_backend s =
     bindE (recv_backend s) (\<lambda>(w, s).
     let s = s\<lparr>lb_queue := lb_queue s @ [w]\<rparr> in
     bindE (recv_backend s) (\<lambda>(blank, s).
     bindE (guardE (length blank = 0) AssertFail) (\<lambda>_.
     bindE (recv_backend s) (\<lambda>(client_addr, s).
     if client_addr = bytes_of ''READY'' then Inr (False, s)
     else
       bindE (recv_backend s) (\<lambda>(blank, s).
       bindE (guardE (length blank = 0) AssertFail) (\<lambda>_.
       bindE (recv_backend s) (\<lambda>(reply, s).
       let s = s\<lparr>frontend_out := frontend_out s @ [with_more [client_addr, [], reply]],
                 client_nbr := client_nbr s - 1\<rparr>
       in Inr (client_nbr s = 0, s))))))))"

definition lb_pop :: "lbbroker \<Rightarrow> fault + (bytes \<times> lbbroker)" where
  "lb_pop s =
     (case lb_queue s of
        [] \<Rightarrow> Inl Dangling
      | w # ws \<Rightarrow> Inr (w, s\<lparr>lb_queue := ws\<rparr>))"

definition lb_frontend :: "lbbroker \<Rightarrow> fault + lbbroker" where
  "lb_frontend s =
     bindE (recv_frontend s) (\<lambda>(client_addr, s).
     bindE (recv_frontend s) (\<lambda>(blank, s).
     bindE (guardE (length blank = 0) AssertFail) (\<lambda>_.
     bindE (recv_frontend s) (\<lambda>(request, s).
     bindE (lb_pop s) (\<lambda>(worker_addr, s).
       Inr (s\<lparr>backend_out := backend_out s @ [with_more [worker_addr, [], client_addr, [], request]]\<rparr>))))))"

text \<open>One turn, with the frames that arrived before its poll. The flag is that of \<open>lb_backend\<close>.\<close>

definition lb_turn :: "bytes list \<times> bytes list \<Rightarrow> lbbroker \<Rightarrow> fault + (bool \<times> lbbroker)" where
  "lb_turn io s =
     (let s = s\<lparr>backend_in := backend_in s @ fst io, frontend_in := frontend_in s @ snd io\<rparr>;
          fe = (lb_queue s \<noteq> [] \<and> frontend_in s \<noteq> []) in
      bindE (if backend_in s \<noteq> [] then lb_backend s else Inr (False, s)) (\<lambda>(stop, s).
        if stop then Inr (True, s)
        else bindE (if fe then lb_frontend s else Inr s) (\<lambda>s. Inr (False, s))))"

fun lb_loop :: "(bytes list \<times> bytes list) list \<Rightarrow> lbbroker \<Rightarrow> fault + (bool \<times> lbbroker)" where
  "lb_loop [] s = Inr (False, s)"
| "lb_loop (io # ios) s =
     bindE (lb_turn io s) (\<lambda>(stop, s). if stop then Inr (True, s) else lb_loop ios s)"

definition lb_start :: lbbroker where
  "lb_start = \<lparr>lb_queue = [], client_nbr = 10, backend_in = [], frontend_in = [], frontend_out = [], backend_out = []\<rparr>"

definition lb_main :: "(bytes list \<times> bytes list) list \<Rightarrow> fault + (bool \<times> lbbroker)" where
  "lb_main ios = lb_loop ios lb_start"

text \<open>The worker threads: what they send, given the frames they receive (at the end of the list they wait for more); and
  the clients.\<close>

fun worker_replies :: "bytes list \<Rightarrow> fault + wire list" where
  "worker_replies [] = Inr []"
| "worker_replies (address # blank # request # ds) =
     bindE (guardE (length blank = 0) AssertFail) (\<lambda>_.
     bindE (worker_replies ds) (\<lambda>ws. Inr (with_more [address, [], bytes_of ''OK''] # ws)))"
| "worker_replies (address # blank # []) = bindE (guardE (length blank = 0) AssertFail) (\<lambda>_. Inl Blocks)"
| "worker_replies _ = Inl Blocks"

definition client_request :: wire where
  "client_request = [(bytes_of ''HELLO'', False)]"

subsection \<open>Least recently used\<close>

text \<open>The third queue of workers, over frames.\<close>

definition lb_request :: "bytes \<Rightarrow> bytes list \<Rightarrow> bool" where
  "lb_request w r \<longleftrightarrow> (\<exists>c q. r = [c, [], q])"

interpretation lb: lru_broker lb_queue "\<lambda>w s. s\<lparr>lb_queue := lb_queue s @ [w]\<rparr>" lb_pop
  "\<lambda>r s. lb_frontend (s\<lparr>frontend_in := r\<rparr>)" backend_out "\<lambda>w r. with_more (w # [] # r)" lb_request
  by unfold_locales
    (auto simp: lb_pop_def lb_request_def lb_frontend_def recv_frontend_def)

subsection \<open>Whole messages\<close>

text \<open>As long as only whole messages arrive, none of the assertions fails and nothing is read too far.\<close>

datatype worker_msg = Announce bytes | Reply bytes bytes bytes

fun worker_frames :: "worker_msg \<Rightarrow> bytes list" where
  "worker_frames (Announce w) = [w, [], bytes_of ''READY'']"
| "worker_frames (Reply w c r) = [w, [], c, [], r]"

text \<open>Requests that have arrived: messages of a client, an empty frame and a text.\<close>

inductive requests :: "bytes list \<Rightarrow> bool" where
  no_request: "requests []"
| request: "requests ds \<Longrightarrow> requests (c # [] # q # ds)"

inductive_cases requestsE: "requests (d # ds)"

lemma requests_append: "requests ds \<Longrightarrow> requests es \<Longrightarrow> requests (ds @ es)"
  by (induction ds rule: requests.induct) (simp_all add: request)

text \<open>A turn's input: at most one message of a worker, and whole requests.\<close>

definition whole :: "worker_msg option \<times> bytes list \<Rightarrow> bytes list \<times> bytes list" where
  "whole io = ((case fst io of None \<Rightarrow> [] | Some m \<Rightarrow> worker_frames m), snd io)"

definition well_formed :: "worker_msg option \<times> bytes list \<Rightarrow> bool" where
  "well_formed io \<longleftrightarrow> requests (snd io) \<and> (\<forall>m. fst io = Some m \<longrightarrow> (case m of Announce w \<Rightarrow> True | Reply w c r \<Rightarrow> c \<noteq> bytes_of ''READY''))"

definition lb_ok :: "lbbroker \<Rightarrow> bool" where
  "lb_ok s \<longleftrightarrow> backend_in s = [] \<and> requests (frontend_in s)"

lemma lb_frontend_ok:
  assumes "lb_queue s = w # ws" "frontend_in s \<noteq> []" "requests (frontend_in s)" "backend_in s = []"
  shows "\<exists>t. lb_frontend s = Inr t \<and> lb_ok t \<and> client_nbr t = client_nbr s \<and> frontend_out t = frontend_out s"
  using assms(2,3)
  by (cases "frontend_in s") (auto simp: lb_frontend_def recv_frontend_def lb_pop_def lb_ok_def assms elim!: requestsE)

definition replying :: "worker_msg option \<times> bytes list \<Rightarrow> bool" where
  "replying io \<longleftrightarrow> (\<exists>w c r. fst io = Some (Reply w c r))"

lemma lb_backend_ok:
  assumes "backend_in s = worker_frames m" "requests (frontend_in s)" "well_formed (Some m, fs)"
  shows "\<exists>stop t. lb_backend s = Inr (stop, t) \<and> lb_ok t \<and> lb_queue t \<noteq> [] \<and> frontend_in t = frontend_in s
    \<and> client_nbr t = client_nbr s - (if replying (Some m, fs) then 1 else 0)
    \<and> stop = (replying (Some m, fs) \<and> client_nbr t = 0)
    \<and> length (frontend_out t) = length (frontend_out s) + (if replying (Some m, fs) then 1 else 0)"
proof (cases m)
  case (Announce w)
  then show ?thesis
    using assms by (auto simp: lb_backend_def recv_backend_def replying_def lb_ok_def Let_def)
next
  case (Reply w c r)
  then show ?thesis
    using assms by (simp add: lb_backend_def recv_backend_def replying_def lb_ok_def well_formed_def Let_def)
qed

lemma lb_turn_ok:
  assumes "lb_ok s" "well_formed io"
  shows "\<exists>stop t. lb_turn (whole io) s = Inr (stop, t) \<and> (\<not> stop \<longrightarrow> lb_ok t)
    \<and> client_nbr t = client_nbr s - (if replying io then 1 else 0)
    \<and> stop = (replying io \<and> client_nbr t = 0)
    \<and> length (frontend_out t) = length (frontend_out s) + (if replying io then 1 else 0)"
proof -
  obtain mo fs where io: "io = (mo, fs)" by (cases io)
  let ?s = "s\<lparr>backend_in := fst (whole io), frontend_in := frontend_in s @ fs\<rparr>"
  let ?fe = "lb_queue s \<noteq> [] \<and> frontend_in ?s \<noteq> []"
  have rq: "requests (frontend_in ?s)"
    using assms io by (simp add: lb_ok_def well_formed_def requests_append)
  have front: "\<exists>t. (if ?fe then lb_frontend u else Inr u) = Inr t \<and> lb_ok t \<and> client_nbr t = client_nbr u
      \<and> frontend_out t = frontend_out u"
    if "lb_ok u" "lb_queue s \<noteq> [] \<longrightarrow> lb_queue u \<noteq> []" "frontend_in u = frontend_in ?s" for u
    using that lb_frontend_ok [of u] by (cases "lb_queue u") (auto simp: lb_ok_def)
  have turn: "lb_turn (whole io) s = bindE (if backend_in ?s \<noteq> [] then lb_backend ?s else Inr (False, ?s)) (\<lambda>(stop, s).
        if stop then Inr (True, s) else bindE (if ?fe then lb_frontend s else Inr s) (\<lambda>s. Inr (False, s)))"
    using assms(1) unfolding lb_turn_def Let_def by (simp add: lb_ok_def whole_def io cong: if_cong)
  show ?thesis
  proof (cases mo)
    case None
    then show ?thesis
      using front [of ?s] rq unfolding turn by (auto simp: whole_def io replying_def lb_ok_def)
  next
    case (Some m)
    have "backend_in ?s = worker_frames m" "backend_in ?s \<noteq> []"
      using Some by (cases m; simp add: whole_def io)+
    moreover from this lb_backend_ok [of ?s m fs] rq assms(2) obtain stop u where
      u: "lb_backend ?s = Inr (stop, u)" "lb_ok u" "lb_queue u \<noteq> []" "frontend_in u = frontend_in ?s"
        "client_nbr u = client_nbr s - (if replying io then 1 else 0)" "stop = (replying io \<and> client_nbr u = 0)"
        "length (frontend_out u) = length (frontend_out s) + (if replying io then 1 else 0)"
      using Some io by auto
    moreover obtain t where "(if ?fe then lb_frontend u else Inr u) = Inr t" "lb_ok t" "client_nbr t = client_nbr u"
      "frontend_out t = frontend_out u"
      using front [of u] u by auto
    ultimately show ?thesis unfolding turn by (cases stop) auto
  qed
qed

text \<open>The broker ends with the tenth reply, and not before; every reply counted was sent to its client.\<close>

theorem ten_replies:
  assumes "\<forall>io \<in> set ios. well_formed io"
  shows "\<exists>stop t. lb_main (map whole ios) = Inr (stop, t) \<and> stop = (10 \<le> length (filter replying ios))
    \<and> length (frontend_out t) = min 10 (length (filter replying ios))"
proof -
  have "\<exists>stop t. lb_loop (map whole ios) s = Inr (stop, t) \<and> stop = (Suc k \<le> length (filter replying ios))
    \<and> length (frontend_out t) = length (frontend_out s) + min (Suc k) (length (filter replying ios))"
    if "lb_ok s" "client_nbr s = int (Suc k)" for s k
    using assms that
  proof (induction ios arbitrary: s k)
    case (Cons io ios)
    obtain stop t where t: "lb_turn (whole io) s = Inr (stop, t)" "\<not> stop \<longrightarrow> lb_ok t"
      "client_nbr t = client_nbr s - (if replying io then 1 else 0)" "stop = (replying io \<and> client_nbr t = 0)"
      "length (frontend_out t) = length (frontend_out s) + (if replying io then 1 else 0)"
      using lb_turn_ok [of s io] Cons.prems by auto
    show ?case
    proof (cases "replying io")
      case True
      show ?thesis
      proof (cases k)
        case 0
        with True t Cons.prems show ?thesis by auto
      next
        case (Suc j)
        with True t Cons.prems Cons.IH [of t j] show ?thesis by auto
      qed
    next
      case False
      with t Cons.prems Cons.IH [of t k] show ?thesis by auto
    qed
  qed auto
  from this [of lb_start 9] show ?thesis
    by (simp add: lb_main_def lb_start_def lb_ok_def no_request)
qed

lemma ten_replies_witness:
  "\<exists>t. lb_main [([[65], [], bytes_of ''READY''], [[67], [], [1]]), ([], []), ([[65], [], [67], [], [2]], [])] = Inr (False, t)
    \<and> length (frontend_out t) = 1"
  using ten_replies [of "[(Some (Announce [65]), [[67], [], [1]]), (None, []), (Some (Reply [65] [67] [2]), [])]"]
  by (auto simp: well_formed_def whole_def replying_def no_request request bytes_of_def)

text \<open>Requests go to the workers in the order of their announcements.\<close>

lemma lb_order:
  "lb_queue s = [] \<Longrightarrow> distinct ws \<Longrightarrow> list_all2 lb_request ws rs \<Longrightarrow>
   \<exists>t. forE (\<lambda>r s. lb_frontend (s\<lparr>frontend_in := r\<rparr>)) rs (fold (\<lambda>w s. s\<lparr>lb_queue := lb_queue s @ [w]\<rparr>) ws s) = Inr t
     \<and> lb_queue t = [] \<and> backend_out t = backend_out s @ map2 (\<lambda>w r. with_more (w # [] # r)) ws rs"
  by (rule lb.lru_order)

end
