(* ===== verification/Load_Balancing.thy ===== *)
theory Load_Balancing
  imports Lru_Broker
begin

section \<open>The broker over CZMQ and the abstract load balancer (lbbroker2.cpp)\<close>

text \<open>
  \<open>lbbroker2.cpp\<close> claims to do what \<open>lbbroker.cpp\<close> does, with the lists and messages of CZMQ. Both are
  compared with an abstract load balancer, and with each other. A message of CZMQ is the list of its
  frames. \<open>memcmp\<close> is given five bytes of a frame whatever its length: \<open>behind\<close> is what follows it in
  memory.
\<close>

subsection \<open>The broker\<close>

record lbbroker2 =
  workers :: "bytes list"
  client_left :: int
  arrived :: "bytes list list"
  to_frontend :: "wire list"
  to_backend :: "wire list"

definition READY :: bytes where "READY = bytes_of ''READY''"

text \<open>\<open>zmsg_pop\<close>: nothing is popped from an empty message.\<close>

definition zmsg_pop :: "bytes list \<Rightarrow> bytes option \<times> bytes list" where
  "zmsg_pop m = (case m of [] \<Rightarrow> (None, []) | d # ds \<Rightarrow> (Some d, ds))"

text \<open>\<open>zframe_data\<close> asserts that there is a frame, \<open>zlist_append\<close> that the item is not null.\<close>

definition lb2_backend :: "bytes \<Rightarrow> bytes list \<Rightarrow> lbbroker2 \<Rightarrow> fault + (bool \<times> lbbroker2)" where
  "lb2_backend behind m s =
     (let (identity, m) = zmsg_pop m; (delimiter, m) = zmsg_pop m in
      bindE (fetchE AssertFail identity) (\<lambda>w.
      let s = s\<lparr>workers := workers s @ [w]\<rparr> in
      bindE (fetchE AssertFail (case m of [] \<Rightarrow> None | d # _ \<Rightarrow> Some d)) (\<lambda>frame.
      if take 5 (frame @ behind) = READY then Inr (False, s)
      else
        let s = s\<lparr>to_frontend := to_frontend s @ [with_more m], client_left := client_left s - 1\<rparr>
        in Inr (client_left s = 0, s))))"

text \<open>\<open>zmsg_push\<close> asserts that there is a frame.\<close>

definition lb2_frontend :: "bytes list \<Rightarrow> lbbroker2 \<Rightarrow> fault + lbbroker2" where
  "lb2_frontend m s =
     (case workers s of
        [] \<Rightarrow> Inl AssertFail
      | w # ws \<Rightarrow> Inr (s\<lparr>workers := ws, to_backend := to_backend s @ [with_more (w # [] # m)]\<rparr>))"

definition lb2_turn :: "bytes \<Rightarrow> bytes list option \<times> bytes list list \<Rightarrow> lbbroker2 \<Rightarrow> fault + (bool \<times> lbbroker2)" where
  "lb2_turn behind io s =
     (let s = s\<lparr>arrived := arrived s @ snd io\<rparr>;
          fe = (workers s \<noteq> [] \<and> arrived s \<noteq> []) in
      bindE (case fst io of None \<Rightarrow> Inr (False, s) | Some m \<Rightarrow> lb2_backend behind m s) (\<lambda>(stop, s).
        if stop then Inr (True, s)
        else if fe then bindE (lb2_frontend (hd (arrived s)) (s\<lparr>arrived := tl (arrived s)\<rparr>)) (\<lambda>s. Inr (False, s))
        else Inr (False, s)))"

fun lb2_loop :: "bytes \<Rightarrow> (bytes list option \<times> bytes list list) list \<Rightarrow> lbbroker2 \<Rightarrow> fault + (bool \<times> lbbroker2)" where
  "lb2_loop behind [] s = Inr (False, s)"
| "lb2_loop behind (io # ios) s =
     bindE (lb2_turn behind io s) (\<lambda>(stop, s). if stop then Inr (True, s) else lb2_loop behind ios s)"

definition lb2_start :: lbbroker2 where
  "lb2_start = \<lparr>workers = [], client_left = 10, arrived = [], to_frontend = [], to_backend = []\<rparr>"

definition lb2_main :: "bytes \<Rightarrow> (bytes list option \<times> bytes list list) list \<Rightarrow> fault + (bool \<times> lbbroker2)" where
  "lb2_main behind ios = lb2_loop behind ios lb2_start"

text \<open>A worker answers with the message it got, its last frame replaced; and what a client sends.\<close>

definition lb2_worker_reply :: "bytes list \<Rightarrow> fault + wire" where
  "lb2_worker_reply m = (if m = [] then Inl AssertFail else Inr (with_more (butlast m @ [bytes_of ''OK''])))"

definition lb2_worker_start :: wire where
  "lb2_worker_start = [(READY, False)]"

definition lb2_client_request :: wire where
  "lb2_client_request = [(bytes_of ''HELLO'', False)]"

subsection \<open>The abstract load balancer\<close>

text \<open>Workers that are ready, in the order in which they became ready; what was assigned to whom, and what was
  replied to whom.\<close>

record balancer =
  ready_workers :: "bytes list"
  assigned :: "(bytes \<times> bytes \<times> bytes) list"
  replied :: "(bytes \<times> bytes) list"

datatype event = FromWorker worker_msg | FromClient bytes bytes

fun balance :: "event \<Rightarrow> balancer \<Rightarrow> balancer" where
  "balance (FromWorker (Announce w)) b = b\<lparr>ready_workers := ready_workers b @ [w]\<rparr>"
| "balance (FromWorker (Reply w c r)) b =
     b\<lparr>ready_workers := ready_workers b @ [w], replied := replied b @ [(c, r)]\<rparr>"
| "balance (FromClient c q) b =
     (case ready_workers b of
        [] \<Rightarrow> b
      | w # ws \<Rightarrow> b\<lparr>ready_workers := ws, assigned := assigned b @ [(w, c, q)]\<rparr>)"

text \<open>What an implementation may be given: a request only when a worker is ready, and no client whose address is
  taken for the announcement of a worker.\<close>

definition allowed :: "(bytes \<Rightarrow> bool) \<Rightarrow> event \<Rightarrow> balancer \<Rightarrow> bool" where
  "allowed address e b =
     (case e of
        FromWorker (Announce w) \<Rightarrow> True
      | FromWorker (Reply w c r) \<Rightarrow> address c
      | FromClient c q \<Rightarrow> ready_workers b \<noteq> [])"

definition assignment_wire :: "bytes \<times> bytes \<times> bytes \<Rightarrow> wire" where
  "assignment_wire = (\<lambda>(w, c, q). with_more [w, [], c, [], q])"

definition reply_wire :: "bytes \<times> bytes \<Rightarrow> wire" where
  "reply_wire = (\<lambda>(c, r). with_more [c, [], r])"

fun all_allowed :: "(bytes \<Rightarrow> bool) \<Rightarrow> event list \<Rightarrow> balancer \<Rightarrow> bool" where
  "all_allowed address [] b = True"
| "all_allowed address (e # es) b = (allowed address e b \<and> all_allowed address es (balance e b))"

text \<open>The queue and the traffic on the two sockets that a state of the balancer stands for.\<close>

definition balancer_view :: "balancer \<Rightarrow> bytes list \<times> wire list \<times> wire list" where
  "balancer_view b = (ready_workers b, map assignment_wire (assigned b), map reply_wire (replied b))"

text \<open>The contract of an implementation: every step keeps the correspondence with the abstract
  balancer. Runs then keep it as well.\<close>

locale balancing =
  fixes perform :: "event \<Rightarrow> 's \<Rightarrow> fault + 's"
    and abs :: "'s \<Rightarrow> bytes list \<times> wire list \<times> wire list"
    and address :: "bytes \<Rightarrow> bool"
  assumes simulates: "abs s = balancer_view b \<Longrightarrow> allowed address e b \<Longrightarrow>
      \<exists>t. perform e s = Inr t \<and> abs t = balancer_view (balance e b)"
begin

lemma run_simulates:
  assumes "abs s = balancer_view b" "all_allowed address es b"
  shows "\<exists>t. forE perform es s = Inr t \<and> abs t = balancer_view (fold balance es b)"
  using assms
proof (induction es arbitrary: s b)
  case (Cons e es)
  then obtain t where "perform e s = Inr t" "abs t = balancer_view (balance e b)"
    using simulates [of s b e] by auto
  with Cons.IH [of t "balance e b"] Cons.prems show ?case by auto
qed auto

end

subsection \<open>Both brokers are load balancers\<close>

definition lb_perform :: "event \<Rightarrow> lbbroker \<Rightarrow> fault + lbbroker" where
  "lb_perform e s =
     (case e of
        FromWorker m \<Rightarrow> bindE (lb_backend (s\<lparr>backend_in := worker_frames m\<rparr>)) (\<lambda>(stop, s). Inr s)
      | FromClient c q \<Rightarrow> lb_frontend (s\<lparr>frontend_in := [c, [], q]\<rparr>))"

definition lb2_perform :: "bytes \<Rightarrow> event \<Rightarrow> lbbroker2 \<Rightarrow> fault + lbbroker2" where
  "lb2_perform behind e s =
     (case e of
        FromWorker m \<Rightarrow> bindE (lb2_backend behind (worker_frames m) s) (\<lambda>(stop, s). Inr s)
      | FromClient c q \<Rightarrow> lb2_frontend [c, [], q] s)"

lemmas lb_step_defs = lb_perform_def lb_backend_def lb_frontend_def lb_pop_def recv_backend_def recv_frontend_def
  lb2_perform_def lb2_backend_def lb2_frontend_def zmsg_pop_def

lemma perform_cases:
  fixes e :: event
  obtains (announce) w where "e = FromWorker (Announce w)"
    | (reply) w c r where "e = FromWorker (Reply w c r)"
    | (request) c q where "e = FromClient c q"
  by (metis event.exhaust worker_msg.exhaust)

lemma length_READY: "length READY = 5"
  by (simp add: READY_def bytes_of_def)

interpretation balanced: balancing lb_perform "\<lambda>s. (lb_queue s, backend_out s, frontend_out s)" "\<lambda>c. c \<noteq> READY"
proof unfold_locales
  fix s :: lbbroker and b :: balancer and e
  assume "(lb_queue s, backend_out s, frontend_out s) = balancer_view b" "allowed (\<lambda>c. c \<noteq> READY) e b"
  then show "\<exists>t. lb_perform e s = Inr t \<and> (lb_queue t, backend_out t, frontend_out t) = balancer_view (balance e b)"
    by (cases e rule: perform_cases; cases "ready_workers b")
      (auto simp: lb_step_defs allowed_def assignment_wire_def reply_wire_def balancer_view_def READY_def Let_def)
qed

interpretation balanced2: balancing "lb2_perform behind" "\<lambda>s. (workers s, to_backend s, to_frontend s)"
  "\<lambda>c. take 5 (c @ behind) \<noteq> READY"
proof unfold_locales
  fix s :: lbbroker2 and b :: balancer and e
  assume "(workers s, to_backend s, to_frontend s) = balancer_view b"
    "allowed (\<lambda>c. take 5 (c @ behind) \<noteq> READY) e b"
  then show "\<exists>t. lb2_perform behind e s = Inr t \<and> (workers t, to_backend t, to_frontend t) = balancer_view (balance e b)"
    using length_READY
    by (cases e rule: perform_cases; cases "ready_workers b")
      (auto simp: lb_step_defs allowed_def assignment_wire_def reply_wire_def balancer_view_def
        READY_def [symmetric] Let_def)
qed

text \<open>Both refine the balancer: from states that agree with it, they take every sequence of events it allows, and end
  in states that agree with it again.\<close>

text \<open>
  C16. From states that show the same queue and traffic as the abstract balancer, lbbroker and
  lbbroker2 both take every sequence of worker messages and client requests that the balancer
  allows without failing, and their queues and the messages on both sockets are those of the
  balancer.
\<close>

theorem brokers_refine_balancer:
  assumes "(lb_queue s, backend_out s, frontend_out s) = balancer_view b" "all_allowed (\<lambda>c. c \<noteq> READY) es b"
    and "(workers u, to_backend u, to_frontend u) = balancer_view b"
    and "all_allowed (\<lambda>c. take 5 (c @ behind) \<noteq> READY) es b"
  shows "\<exists>t v. forE lb_perform es s = Inr t \<and> forE (lb2_perform behind) es u = Inr v
    \<and> (lb_queue t, backend_out t, frontend_out t) = balancer_view (fold balance es b)
    \<and> (workers v, to_backend v, to_frontend v) = balancer_view (fold balance es b)"
  using balanced.run_simulates [OF assms(1,2)] balanced2.run_simulates [OF assms(3,4)] by blast

subsection \<open>The two programs do the same\<close>

definition request_frames :: "bytes \<times> bytes \<Rightarrow> bytes list" where
  "request_frames = (\<lambda>(c, q). [c, [], q])"

type_synonym traffic = "worker_msg option \<times> (bytes \<times> bytes) list"

definition as_frames :: "traffic \<Rightarrow> bytes list \<times> bytes list" where
  "as_frames io = ((case fst io of None \<Rightarrow> [] | Some m \<Rightarrow> worker_frames m), concat (map request_frames (snd io)))"

definition as_messages :: "traffic \<Rightarrow> bytes list option \<times> bytes list list" where
  "as_messages io = (map_option worker_frames (fst io), map request_frames (snd io))"

definition same_state :: "lbbroker \<Rightarrow> lbbroker2 \<Rightarrow> bool" where
  "same_state s u \<longleftrightarrow> lb_queue s = workers u \<and> client_nbr s = client_left u \<and> backend_in s = []
     \<and> frontend_in s = concat (arrived u) \<and> set (arrived u) \<subseteq> range request_frames
     \<and> frontend_out s = to_frontend u \<and> backend_out s = to_backend u"

definition addresses_ok :: "bytes \<Rightarrow> traffic \<Rightarrow> bool" where
  "addresses_ok behind io \<longleftrightarrow> (\<forall>w c r. fst io = Some (Reply w c r) \<longrightarrow> take 5 (c @ behind) \<noteq> READY)"

lemma same_backend:
  assumes "same_state s u" "addresses_ok behind (Some m, rs)"
  shows "\<exists>stop t v. lb_backend (s\<lparr>backend_in := worker_frames m\<rparr>) = Inr (stop, t)
    \<and> lb2_backend behind (worker_frames m) u = Inr (stop, v) \<and> same_state t v \<and> workers v \<noteq> []
    \<and> arrived v = arrived u"
proof (cases m)
  case (Announce w)
  then show ?thesis
    using assms length_READY by (auto simp: lb_step_defs same_state_def READY_def [symmetric] Let_def)
next
  case (Reply w c r)
  with assms(2) have "take 5 (c @ behind) \<noteq> READY" by (simp add: addresses_ok_def)
  moreover from this length_READY have "c \<noteq> READY" by auto
  ultimately show ?thesis
    using assms(1) Reply by (auto simp: lb_step_defs same_state_def READY_def [symmetric] Let_def)
qed

lemma same_frontend:
  assumes "same_state s u" "workers u \<noteq> []" "arrived u \<noteq> []"
  shows "\<exists>t v. lb_frontend s = Inr t \<and> lb2_frontend (hd (arrived u)) (u\<lparr>arrived := tl (arrived u)\<rparr>) = Inr v
    \<and> same_state t v"
proof -
  from assms obtain w ws c q ms where "workers u = w # ws" "arrived u = [c, [], q] # ms"
    by (cases "workers u"; cases "arrived u") (auto simp: same_state_def request_frames_def)
  then show ?thesis
    using assms(1) by (auto simp: lb_step_defs same_state_def)
qed

lemma same_arrived: "same_state s u \<Longrightarrow> frontend_in s \<noteq> [] \<longleftrightarrow> arrived u \<noteq> []"
  by (cases "arrived u") (auto simp: same_state_def request_frames_def)

lemma same_turn:
  assumes "same_state s u" "addresses_ok behind io"
  shows "\<exists>stop t v. lb_turn (as_frames io) s = Inr (stop, t) \<and> lb2_turn behind (as_messages io) u = Inr (stop, v)
    \<and> frontend_out t = to_frontend v \<and> backend_out t = to_backend v \<and> lb_queue t = workers v
    \<and> (\<not> stop \<longrightarrow> same_state t v)"
proof -
  obtain mo rs where io: "io = (mo, rs)" by (cases io)
  let ?s = "s\<lparr>frontend_in := frontend_in s @ concat (map request_frames rs)\<rparr>"
  let ?u = "u\<lparr>arrived := arrived u @ map request_frames rs\<rparr>"
  have su: "same_state ?s ?u" using assms(1) by (auto simp: same_state_def)
  have ne: "frontend_in ?s \<noteq> [] \<longleftrightarrow> arrived ?u \<noteq> []"
    by (rule same_arrived [OF su])
  define X where "X = s\<lparr>backend_in := backend_in s @ fst (as_frames io), frontend_in := frontend_in s @ snd (as_frames io)\<rparr>"
  define Y where "Y = u\<lparr>arrived := arrived u @ snd (as_messages io)\<rparr>"
  have X: "X = ?s\<lparr>backend_in := fst (as_frames io)\<rparr>" and Y: "Y = ?u"
    using assms(1) io by (simp_all add: X_def Y_def same_state_def as_frames_def as_messages_def)
  have "\<exists>stop t v. (if backend_in X \<noteq> [] then lb_backend X else Inr (False, X)) = Inr (stop, t)
      \<and> (case fst (as_messages io) of None \<Rightarrow> Inr (False, Y) | Some m \<Rightarrow> lb2_backend behind m Y) = Inr (stop, v)
      \<and> same_state t v \<and> arrived v = arrived Y \<and> (workers u \<noteq> [] \<longrightarrow> workers v \<noteq> [])"
  proof (cases mo)
    case None
    then show ?thesis using su io X Y by (auto simp: as_frames_def as_messages_def same_state_def)
  next
    case (Some m)
    have "worker_frames m \<noteq> []" by (cases m) simp_all
    then show ?thesis
      using same_backend [OF su, of behind m rs] assms(2) io Some X Y by (auto simp: as_frames_def as_messages_def)
  qed
  then obtain stop t v where tv: "same_state t v" "arrived v = arrived Y" "workers u \<noteq> [] \<longrightarrow> workers v \<noteq> []"
    and b1: "(if backend_in X \<noteq> [] then lb_backend X else Inr (False, X)) = Inr (stop, t)"
    and b2: "(case fst (as_messages io) of None \<Rightarrow> Inr (False, Y) | Some m \<Rightarrow> lb2_backend behind m Y) = Inr (stop, v)"
    by blast
  have fe: "lb_queue X \<noteq> [] \<and> frontend_in X \<noteq> [] \<longleftrightarrow> workers Y \<noteq> [] \<and> arrived Y \<noteq> []"
  proof -
    have "lb_queue X = workers Y" "frontend_in X = frontend_in ?s" "arrived Y = arrived ?u"
      using assms(1) by (simp_all add: X Y same_state_def)
    then show ?thesis by (simp only: ne)
  qed
  have t1: "lb_turn (as_frames io) s = (if stop then Inr (True, t) else
      bindE (if workers Y \<noteq> [] \<and> arrived Y \<noteq> [] then lb_frontend t else Inr t) (\<lambda>s. Inr (False, s)))"
    unfolding lb_turn_def Let_def X_def [symmetric] b1 fe by simp
  have t2: "lb2_turn behind (as_messages io) u = (if stop then Inr (True, v)
      else if workers Y \<noteq> [] \<and> arrived Y \<noteq> []
        then bindE (lb2_frontend (hd (arrived v)) (v\<lparr>arrived := tl (arrived v)\<rparr>)) (\<lambda>s. Inr (False, s))
      else Inr (False, v))"
    unfolding lb2_turn_def Let_def Y_def [symmetric] b2 by simp
  have "workers Y = workers u" by (simp add: Y)
  then show ?thesis
    using same_frontend [OF tv(1)] tv unfolding t1 t2
    by (cases stop; cases "workers Y \<noteq> [] \<and> arrived Y \<noteq> []") (auto simp: same_state_def)
qed

text \<open>
  C17. Run from their starts on the same traffic of workers and clients, in the same polls, the
  broker that reads frame by frame and the one that reads messages of CZMQ stop in the same poll,
  with the same queue of workers, and have sent the same messages to clients and to workers,
  provided no client has an address that begins with READY.
\<close>

theorem brokers_equivalent:
  assumes "\<forall>io \<in> set ios. addresses_ok behind io"
  shows "\<exists>stop s u. lb_main (map as_frames ios) = Inr (stop, s) \<and> lb2_main behind (map as_messages ios) = Inr (stop, u)
    \<and> frontend_out s = to_frontend u \<and> backend_out s = to_backend u \<and> lb_queue s = workers u"
proof -
  have "\<exists>stop t v. lb_loop (map as_frames ios) s = Inr (stop, t) \<and> lb2_loop behind (map as_messages ios) u = Inr (stop, v)
      \<and> frontend_out t = to_frontend v \<and> backend_out t = to_backend v \<and> lb_queue t = workers v"
    if "same_state s u" for s u
    using that assms
  proof (induction ios arbitrary: s u)
    case Nil
    then show ?case by (auto simp: same_state_def)
  next
    case (Cons io ios)
    then obtain stop t v where "lb_turn (as_frames io) s = Inr (stop, t)" "lb2_turn behind (as_messages io) u = Inr (stop, v)"
      "frontend_out t = to_frontend v \<and> backend_out t = to_backend v \<and> lb_queue t = workers v"
      "\<not> stop \<longrightarrow> same_state t v"
      using same_turn [of s u behind io] by auto
    with Cons.IH [of t v] Cons.prems show ?case by (cases stop) auto
  qed
  from this [of lb_start lb2_start] show ?thesis
    by (simp add: lb_main_def lb2_main_def lb_start_def lb2_start_def same_state_def)
qed

lemma brokers_equivalent_witness:
  "\<exists>stop s u. lb_main (map as_frames [(Some (Announce [65]), [([67], [1])]), (None, []), (Some (Reply [65] [67] [2]), [])]) = Inr (stop, s)
    \<and> lb2_main [0, 0, 0, 0, 0] (map as_messages [(Some (Announce [65]), [([67], [1])]), (None, []), (Some (Reply [65] [67] [2]), [])]) = Inr (stop, u)
    \<and> frontend_out s = to_frontend u"
  using brokers_equivalent [of "[(Some (Announce [65]), [([67], [1])]), (None, []), (Some (Reply [65] [67] [2]), [])]" "[0, 0, 0, 0, 0]"]
  by (auto simp: addresses_ok_def READY_def bytes_of_def)

definition idle :: balancer where
  "idle = \<lparr>ready_workers = [], assigned = [], replied = []\<rparr>"

lemma brokers_refine_balancer_witness:
  "\<exists>t v. forE lb_perform [FromWorker (Announce [65]), FromClient [67] [1]] lb_start = Inr t
    \<and> forE (lb2_perform [0]) [FromWorker (Announce [65]), FromClient [67] [1]] lb2_start = Inr v
    \<and> backend_out t = [with_more [[65], [], [67], [], [1]]] \<and> to_backend v = backend_out t"
  using brokers_refine_balancer [of lb_start idle "[FromWorker (Announce [65]), FromClient [67] [1]]" lb2_start "[0]"]
  by (auto simp: lb_start_def lb2_start_def idle_def balancer_view_def allowed_def assignment_wire_def)

end
