(* ===== verification/Console.thy ===== *)
theory Console
  imports Posix Digits
begin

section \<open>The keyboard of a program that reads it twice over\<close>

text \<open>
  The programs of \<open>control_stream\<close> and \<open>terminate_association\<close> take single bytes of the standard input
  with \<open>read\<close> and words and numbers with \<open>std::cin\<close>, which has a buffer of its own. What will be typed is
  \<open>pending\<close>, in the pieces a call of \<open>read\<close> gets to see (lines, on a terminal; an empty piece is the end
  of the input); when it is used up the process waits. \<open>cin_ok\<close> says that no state bit of \<open>std::cin\<close>
  is set.
\<close>

record console =
  pending :: "bytes list"
  cin_buf :: bytes
  cin_ok :: bool

definition console_of :: "bytes list \<Rightarrow> console" where
  "console_of ks = \<lparr>pending = ks, cin_buf = [], cin_ok = True\<rparr>"

text \<open>\<open>read\<close> of one byte: it goes past the buffer of \<open>std::cin\<close>.\<close>

definition kbd_char :: "console \<Rightarrow> halt + (byte option \<times> console)" where
  "kbd_char c =
     (case pending c of
        [] \<Rightarrow> Inl Blocked
      | [] # ks \<Rightarrow> Inr (None, c\<lparr>pending := ks\<rparr>)
      | (b # bs) # ks \<Rightarrow> Inr (Some b, c\<lparr>pending := (if bs = [] then ks else bs # ks)\<rparr>))"

text \<open>What \<open>>>\<close> does first; an empty result is the end of the input.\<close>

fun skip_space :: "bytes \<Rightarrow> bytes list \<Rightarrow> halt + (bytes \<times> bytes list)" where
  "skip_space buf [] =
     (case dropWhile is_space buf of [] \<Rightarrow> Inl Blocked | b # bs \<Rightarrow> Inr (b # bs, []))"
| "skip_space buf (k # ks) =
     (case dropWhile is_space buf of
        [] \<Rightarrow> if k = [] then Inr ([], ks) else skip_space k ks
      | b # bs \<Rightarrow> Inr (b # bs, k # ks))"

text \<open>The longest run of characters of a class; the flag is false if the input ended behind it.\<close>

fun take_run :: "(byte \<Rightarrow> bool) \<Rightarrow> bytes \<Rightarrow> bytes list \<Rightarrow> halt + (bytes \<times> bytes \<times> bytes list \<times> bool)" where
  "take_run p buf [] =
     (case dropWhile p buf of [] \<Rightarrow> Inl Blocked | b # bs \<Rightarrow> Inr (takeWhile p buf, b # bs, [], True))"
| "take_run p buf (k # ks) =
     (case dropWhile p buf of
        [] \<Rightarrow>
          if k = [] then Inr (buf, [], ks, False)
          else bindE (take_run p k ks) (\<lambda>(w, rest, ks, more). Inr (buf @ w, rest, ks, more))
      | b # bs \<Rightarrow> Inr (takeWhile p buf, b # bs, k # ks, True))"

text \<open>\<open>std::cin >> word\<close>; \<open>None\<close> if nothing is stored.\<close>

definition cin_word :: "console \<Rightarrow> halt + (bytes option \<times> console)" where
  "cin_word c =
     (if \<not> cin_ok c then Inr (None, c)
      else
        bindE (skip_space (cin_buf c) (pending c)) (\<lambda>(buf, ks).
          if buf = [] then Inr (None, c\<lparr>cin_buf := [], pending := ks, cin_ok := False\<rparr>)
          else
            bindE (take_run (\<lambda>b. \<not> is_space b) buf ks) (\<lambda>(w, rest, ks, more).
              Inr (Some w, c\<lparr>cin_buf := rest, pending := ks, cin_ok := more\<rparr>))))"

definition INT_MAX :: int where "INT_MAX = 2147483647"
definition INT_MIN :: int where "INT_MIN = -2147483648"

text \<open>\<open>std::cin >> number\<close> for an \<open>int\<close>: zero is stored if there is no number, the nearest bound if it
  does not fit; both set the fail bit.\<close>

definition cin_int :: "console \<Rightarrow> halt + (int option \<times> console)" where
  "cin_int c =
     (if \<not> cin_ok c then Inr (None, c)
      else
        bindE (skip_space (cin_buf c) (pending c)) (\<lambda>(buf, ks).
          if buf = [] then Inr (None, c\<lparr>cin_buf := [], pending := ks, cin_ok := False\<rparr>)
          else
            let signed = (hd buf = 43 \<or> hd buf = 45); negative = (hd buf = 45) in
            bindE (take_run is_digit (if signed then tl buf else buf) ks) (\<lambda>(ds, rest, ks, more).
              let c = c\<lparr>cin_buf := rest, pending := ks\<rparr>;
                  v = (if negative then - digits_value ds else digits_value ds)
              in if ds = [] then Inr (Some 0, c\<lparr>cin_ok := False\<rparr>)
                 else if v < INT_MIN then Inr (Some INT_MIN, c\<lparr>cin_ok := False\<rparr>)
                 else if v > INT_MAX then Inr (Some INT_MAX, c\<lparr>cin_ok := False\<rparr>)
                 else Inr (Some v, c\<lparr>cin_ok := more\<rparr>))))"

subsection \<open>Lines\<close>

text \<open>Words without spaces, as they are typed.\<close>

definition plain_word :: "bytes \<Rightarrow> bool" where
  "plain_word w \<longleftrightarrow> w \<noteq> [] \<and> (\<forall>b \<in> set w. \<not> is_space b)"

lemma is_space_newline [simp]: "is_space 10"
  by (simp add: is_space_def)

lemma dropWhile_run: "\<forall>b \<in> set w. p b \<Longrightarrow> \<not> p x \<Longrightarrow> dropWhile p (w @ x # xs) = x # xs"
  by (induction w) simp_all

lemma takeWhile_run: "\<forall>b \<in> set w. p b \<Longrightarrow> \<not> p x \<Longrightarrow> takeWhile p (w @ x # xs) = w"
  by (induction w) simp_all

lemma take_run_word: "\<forall>b \<in> set w. p b \<Longrightarrow> \<not> p x \<Longrightarrow> take_run p (w @ x # xs) ks = Inr (w, x # xs, ks, True)"
  by (cases ks) (simp_all add: dropWhile_run takeWhile_run)

lemma skip_space_word: "b # bs = buf \<Longrightarrow> \<not> is_space b \<Longrightarrow> skip_space buf ks = Inr (buf, ks)"
  by (cases ks) auto

lemma skip_space_line:
  assumes "\<forall>b \<in> set buf. is_space b" "w \<noteq> []" "\<not> is_space (hd w)"
  shows "skip_space buf ((w @ [10]) # ks) = Inr (w @ [10], ks)"
proof -
  from assms(1) have "dropWhile is_space buf = []" by (simp add: dropWhile_eq_Nil_conv)
  then have "skip_space buf ((w @ [10]) # ks) = skip_space (w @ [10]) ks" by (simp del: dropWhile_eq_Nil_conv)
  with assms(2,3) show ?thesis by (cases w) (simp_all add: skip_space_word)
qed

lemma plain_word_hd: "plain_word w \<Longrightarrow> \<not> is_space (hd w)"
  by (cases w) (simp_all add: plain_word_def)

text \<open>The next word \<open>std::cin\<close> sees is \<open>w\<close>, at the end of its line.\<close>

definition next_word :: "console \<Rightarrow> bytes \<Rightarrow> bytes list \<Rightarrow> bool" where
  "next_word c w ks \<longleftrightarrow> cin_ok c \<and> w \<noteq> [] \<and> skip_space (cin_buf c) (pending c) = Inr (w @ [10], ks)"

lemma next_word_line:
  assumes "cin_ok c" "\<forall>b \<in> set (cin_buf c). is_space b" "pending c = (w @ [10]) # ks" "plain_word w"
  shows "next_word c w ks"
  using assms skip_space_line [of "cin_buf c" w ks] plain_word_hd [of w]
  by (simp add: next_word_def plain_word_def)

text \<open>The end of the line whose first character \<open>read\<close> has taken comes first.\<close>

lemma next_word_behind_command:
  assumes "cin_ok c" "\<forall>b \<in> set (cin_buf c). is_space b" "pending c = [10] # (w @ [10]) # ks" "plain_word w"
  shows "next_word c w ks"
proof -
  from assms(2) have "dropWhile is_space (cin_buf c) = []" by (simp add: dropWhile_eq_Nil_conv)
  then have "skip_space (cin_buf c) (pending c) = skip_space [10] ((w @ [10]) # ks)"
    unfolding assms(3) by (simp del: dropWhile_eq_Nil_conv)
  moreover have "skip_space [10] ((w @ [10]) # ks) = Inr (w @ [10], ks)"
    by (rule skip_space_line) (use assms(4) plain_word_hd in \<open>auto simp: plain_word_def\<close>)
  ultimately show ?thesis using assms(1,4) by (simp add: next_word_def plain_word_def)
qed

lemma cin_word_line:
  assumes "next_word c w ks" "plain_word w"
  shows "cin_word c = Inr (Some w, c\<lparr>cin_buf := [10], pending := ks\<rparr>)"
proof -
  have "take_run (\<lambda>b. \<not> is_space b) (w @ [10]) ks = Inr (w, [10], ks, True)"
    using assms(2) by (intro take_run_word) (simp_all add: plain_word_def)
  then show ?thesis
    using assms(1) by (cases c) (simp add: cin_word_def next_word_def)
qed

lemma cin_int_line:
  assumes "next_word c ds ks" "\<forall>b \<in> set ds. is_digit b" "digits_value ds \<le> INT_MAX" "0 \<le> digits_value ds"
  shows "cin_int c = Inr (Some (digits_value ds), c\<lparr>cin_buf := [10], pending := ks\<rparr>)"
proof -
  have "is_digit b \<Longrightarrow> b \<noteq> 43 \<and> b \<noteq> 45" for b by (auto simp: is_digit_def)
  then have "hd ds \<noteq> 43" "hd ds \<noteq> 45"
    using assms(1,2) by (auto simp: next_word_def dest: hd_in_set)
  moreover have "take_run is_digit (ds @ [10]) ks = Inr (ds, [10], ks, True)"
    using assms(2) by (intro take_run_word) (simp_all add: is_digit_def)
  ultimately show ?thesis
    using assms(1,3,4) by (cases c) (simp add: cin_int_def next_word_def Let_def hd_append INT_MIN_def)
qed

text \<open>A word that does not start like a number stores zero and stops \<open>std::cin\<close> for good.\<close>

lemma cin_int_no_number:
  assumes "next_word c w ks" "\<not> is_digit (hd w)" "hd w \<noteq> 43" "hd w \<noteq> 45"
  shows "cin_int c = Inr (Some 0, c\<lparr>cin_buf := w @ [10], pending := ks, cin_ok := False\<rparr>)"
proof -
  obtain b bs where w: "w = b # bs" using assms(1) by (cases w) (simp_all add: next_word_def)
  have "take_run is_digit (w @ [10]) ks = Inr ([], w @ [10], ks, True)"
    using take_run_word [of "[]" is_digit b "bs @ [10]" ks] assms(2) w by simp
  then show ?thesis
    using assms(1,3,4) w by (cases c) (simp add: cin_int_def next_word_def Let_def)
qed

lemma cin_stopped [simp]: "\<not> cin_ok c \<Longrightarrow> cin_word c = Inr (None, c)" "\<not> cin_ok c \<Longrightarrow> cin_int c = Inr (None, c)"
  by (simp_all add: cin_word_def cin_int_def)

end
