(* ===== verification/Sctp_Chat.thy ===== *)
theory Sctp_Chat
  imports Sctp Console
begin

section \<open>Server and client with a keyboard (control_stream, terminate_association)\<close>

text \<open>
  The programs of \<open>LinuxSocket/sctp_socket/control_stream\<close>: a one-to-many SCTP server that remembers the
  client that came up last and answers it from the keyboard, and a client whose keyboard sends messages,
  aborts or ends the association. \<open>terminate_association\<close> has the same files but for the client's
  \<open>SendMsg\<close>, which is \<open>ta_send_msg\<close> here. Their event loop calls one callback in a round. Errors of the
  socket calls are only printed. What is printed of a message is \<open>shown\<close>, the notifications it tells apart are
  \<open>noticed\<close>; other output is not modelled.
\<close>

subsection \<open>State\<close>

definition CHAT_BUFFER :: nat where "CHAT_BUFFER = 512"
definition CHAT_PORT :: "32 word" where "CHAT_PORT = 18002"
definition SCTP_ABORT :: "32 word" where "SCTP_ABORT = 4"
definition SCTP_EOF :: "32 word" where "SCTP_EOF = 0x200"

record chat_info = sctp_info +
  sinfo_ssn :: "16 word"

record chat_envelope =
  peerIp :: bytes
  peerPort :: "16 word"
  associationId :: "32 word"
  peerStream :: "16 word"
  msgSsn :: "16 word"
  chat_flags :: "32 word"
  payloadData :: bytes

text \<open>A call of \<open>sctp_sendmsg\<close>, and a message as it is printed.\<close>

record sendmsg_call =
  to_ip :: bytes
  to_port :: "16 word"
  send_flags :: "32 word"
  send_stream :: "16 word"
  send_data :: bytes

record shown_msg =
  msg_text :: bytes
  from_ip :: bytes
  from_port :: "16 word"
  from_assoc :: "32 word"
  from_stream :: "16 word"
  ssn_shown :: "16 word option"

datatype notice =
    CommUp
  | CommLost
  | Restarted
  | ShutdownComplete
  | CantStartAssoc
  | UnknownChange "16 word"
  | OtherNotification "16 word"

datatype chat_cb = OnSocket | OnKeyboard

record chat = "chat_cb proc" +
  sock_fd :: int
  continuepoll :: bool
  con :: console
  shown :: "shown_msg list"
  noticed :: "notice list"
  sends :: "sendmsg_call list"

record association =
  assoc_ip :: bytes
  assoc_port :: "16 word"
  assoc_stream :: "16 word"

record chat_server = chat +
  assoInfo :: "association option"

text \<open>What \<open>sctp_recvmsg\<close> will return when the socket's callback runs.\<close>

record chat_in =
  recvd :: "bytes option"
  recv_info :: chat_info

subsection \<open>The event loop\<close>

definition RegisterFd :: "osenv \<Rightarrow> int \<Rightarrow> 'cb \<Rightarrow> ('cb, 'm) proc_scheme \<Rightarrow> ('cb, 'm) proc_scheme" where
  "RegisterFd Os fd cb s =
     s\<lparr>poll_items := poll_items s @ [\<lparr>pfd = fd, revents = os_revents Os (regs s)\<rparr>],
       cb_lists := cb_lists s @ [cb], regs := Suc (regs s)\<rparr>"

fun first_readable :: "pollfd list \<Rightarrow> nat option" where
  "first_readable [] = None"
| "first_readable (x # xs) =
     (if revents x AND POLLIN \<noteq> 0 then Some 0 else map_option Suc (first_readable xs))"

definition PollEventHandler :: "('cb \<Rightarrow> int \<Rightarrow> ('cb, 'm) proc_scheme \<Rightarrow> halt + ('cb, 'm) proc_scheme)
    \<Rightarrow> ('cb, 'm) proc_scheme \<Rightarrow> halt + ('cb, 'm) proc_scheme" where
  "PollEventHandler call s =
     (case first_readable (poll_items s) of
        None \<Rightarrow> Inr s
      | Some i \<Rightarrow>
          if i < length (cb_lists s) then call (cb_lists s ! i) (pfd (poll_items s ! i)) s else Inl OutOfBounds)"

datatype chat_round =
    ChatPollError
  | ChatPollTimeout
  | ChatReady "int \<Rightarrow> 16 word" chat_in

definition chat_poll :: "('cb \<Rightarrow> int \<Rightarrow> chat_in \<Rightarrow> ('cb, 'm) proc_scheme \<Rightarrow> halt + ('cb, 'm) proc_scheme)
    \<Rightarrow> chat_round \<Rightarrow> ('cb, 'm) proc_scheme \<Rightarrow> halt + ('cb, 'm) proc_scheme" where
  "chat_poll call r s =
     (case r of
        ChatPollError \<Rightarrow> Inr s
      | ChatPollTimeout \<Rightarrow> Inr s
      | ChatReady ready x \<Rightarrow> PollEventHandler (\<lambda>cb fd. call cb fd x) (report ready s))"

subsection \<open>The socket\<close>

text \<open>The errors of all these calls are only printed.\<close>

definition sock_op_new :: "osenv \<Rightarrow> ('cb, 'm) proc_scheme \<Rightarrow> int \<times> ('cb, 'm) proc_scheme" where
  "sock_op_new Os s = sys Os s"

definition SetSocketOpt :: "osenv \<Rightarrow> ('cb, 'm) proc_scheme \<Rightarrow> ('cb, 'm) proc_scheme" where
  "SetSocketOpt Os s = snd (sys Os s)"

text \<open>\<open>htons\<close> takes the lower 16 bits of the port.\<close>

definition Bind :: "osenv \<Rightarrow> int \<Rightarrow> bytes \<Rightarrow> 32 word \<Rightarrow> ('cb, 'm) proc_scheme \<Rightarrow> ('cb, 'm) proc_scheme" where
  "Bind Os fd localIp p s =
     (let (r, s) = sys Os s;
          s = (if r = -1 then s else emit (SctpBound fd localIp (ucast (ucast p :: 16 word))) s);
          (r, s) = sys Os s
      in if r = -1 then s else emit (Listening fd) s)"

definition sock_op_delete :: "int \<Rightarrow> ('cb, 'm) proc_scheme \<Rightarrow> ('cb, 'm) proc_scheme" where
  "sock_op_delete fd s = emit (Closed fd) s"

text \<open>Without an address of the Internet family \<open>inet_ntop\<close> writes nothing into the 20 bytes of \<open>ip\<close>.\<close>

definition chat_envelope_new :: "osenv \<Rightarrow> bytes \<Rightarrow> chat_info \<Rightarrow> halt + chat_envelope" where
  "chat_envelope_new Os readbuf i =
     bindE (if sin_family i = AF_INET then Inr (sin_addr i)
            else let ip = map (os_junk Os) [0..<20]
                 in bindE (guardE (\<not> nul_free ip) BadAccess) (\<lambda>_. Inr (c_str ip))) (\<lambda>ip.
       Inr \<lparr>peerIp = ip, peerPort = ntohs (sin_port i), associationId = sinfo_assoc_id i,
            peerStream = sinfo_stream i, msgSsn = sinfo_ssn i, chat_flags = msg_flags i,
            payloadData = readbuf\<rparr>)"

definition chat_buf :: "osenv \<Rightarrow> bytes \<Rightarrow> bytes" where
  "chat_buf Os d =
     take CHAT_BUFFER d @ drop (length (take CHAT_BUFFER d)) (map (os_junk Os) [0..<Suc CHAT_BUFFER])"

definition Receive :: "osenv \<Rightarrow> chat_in \<Rightarrow> halt + chat_envelope option" where
  "Receive Os x =
     (case recvd x of
        None \<Rightarrow> Inr None
      | Some d \<Rightarrow> bindE (chat_envelope_new Os (chat_buf Os d) (recv_info x)) (\<lambda>m. Inr (Some m)))"

text \<open>The 512 bytes at the pointer of a C string: what is behind the string is whatever is in memory.\<close>

definition message_bytes :: "osenv \<Rightarrow> bytes \<Rightarrow> bytes" where
  "message_bytes Os m = take CHAT_BUFFER (m @ 0 # map (os_junk Os) [0..<CHAT_BUFFER])"

text \<open>\<open>std::string msgpayload {msg->payloadData ()}\<close> reads to the first NUL.\<close>

definition payload_text :: "chat_envelope \<Rightarrow> halt + bytes" where
  "payload_text m = bindE (guardE (\<not> nul_free (payloadData m)) BadAccess) (\<lambda>_. Inr (c_str (payloadData m)))"

definition printed :: "bytes \<Rightarrow> chat_envelope \<Rightarrow> 16 word option \<Rightarrow> shown_msg" where
  "printed t m n = \<lparr>msg_text = t, from_ip = peerIp m, from_port = peerPort m, from_assoc = associationId m,
     from_stream = peerStream m, ssn_shown = n\<rparr>"

text \<open>The cases both programs print, by the type of the notification and the state of the association.\<close>

definition notification_kind :: "bytes \<Rightarrow> notice" where
  "notification_kind v =
     (if sn_type v = SCTP_ASSOC_CHANGE then
        if sac_state v = SCTP_COMM_UP then CommUp
        else if sac_state v = 1 then CommLost
        else if sac_state v = 2 then Restarted
        else if sac_state v = SCTP_SHUTDOWN_COMP then ShutdownComplete
        else if sac_state v = 4 then CantStartAssoc
        else UnknownChange (sac_state v)
      else OtherNotification (sn_type v))"

subsection \<open>The server\<close>

definition server_notification :: "chat_envelope \<Rightarrow> chat_server \<Rightarrow> chat_server" where
  "server_notification m s =
     (let n = notification_kind (payloadData m);
          s = s\<lparr>noticed := noticed s @ [n]\<rparr>
      in if n = CommUp
         then s\<lparr>assoInfo := Some \<lparr>assoc_ip = peerIp m, assoc_port = peerPort m, assoc_stream = 0\<rparr>\<rparr>
         else s)"

definition server_message :: "chat_envelope \<Rightarrow> chat_server \<Rightarrow> halt + chat_server" where
  "server_message m s =
     bindE (payload_text m) (\<lambda>t.
     bindE (fetchE NullAccess (assoInfo s)) (\<lambda>a.
       Inr (s\<lparr>assoInfo := Some (a\<lparr>assoc_stream := peerStream m\<rparr>), shown := shown s @ [printed t m (Some (msgSsn m))]\<rparr>)))"

definition server_msg_handler :: "osenv \<Rightarrow> chat_in \<Rightarrow> chat_server \<Rightarrow> halt + (int \<times> chat_server)" where
  "server_msg_handler Os x s =
     bindE (Receive Os x) (\<lambda>r.
       case r of
         None \<Rightarrow> Inr (-1, s)
       | Some m \<Rightarrow>
           if chat_flags m AND MSG_NOTIFICATION \<noteq> 0 then Inr (0, server_notification m s)
           else bindE (server_message m s) (\<lambda>s. Inr (0, s)))"

definition server_send_msg :: "osenv \<Rightarrow> chat_server \<Rightarrow> halt + chat_server" where
  "server_send_msg Os s =
     (case assoInfo s of
        None \<Rightarrow> Inr s
      | Some a \<Rightarrow>
          bindE (cin_word (con s)) (\<lambda>(w, c).
            let message = (case w of None \<Rightarrow> [] | Some w \<Rightarrow> w)
            in Inr (s\<lparr>con := c, sends := sends s @
                 [\<lparr>to_ip = assoc_ip a, to_port = assoc_port a, send_flags = 0, send_stream = assoc_stream a,
                   send_data = message_bytes Os message\<rparr>]\<rparr>)))"

text \<open>The byte that \<open>read\<close> does not write at the end of the input is not initialised.\<close>

definition typed :: "osenv \<Rightarrow> byte option \<Rightarrow> byte" where
  "typed Os b = (case b of None \<Rightarrow> os_junk Os 0 | Some b \<Rightarrow> b)"

definition server_read_cmd :: "osenv \<Rightarrow> chat_server \<Rightarrow> halt + chat_server" where
  "server_read_cmd Os s =
     bindE (kbd_char (con s)) (\<lambda>(b, c).
       let s = s\<lparr>con := c\<rparr>; buf = typed Os b in
       if buf = of_char (CHR ''0'') then Inr (s\<lparr>continuepoll := False\<rparr>)
       else if buf = of_char (CHR ''1'') then server_send_msg Os s
       else Inr s)"

definition server_call :: "osenv \<Rightarrow> chat_cb \<Rightarrow> int \<Rightarrow> chat_in \<Rightarrow> chat_server \<Rightarrow> halt + chat_server" where
  "server_call Os cb fd x s =
     (case cb of
        OnSocket \<Rightarrow>
          bindE (server_msg_handler Os x s) (\<lambda>(r, s). Inr (if r = -1 then s\<lparr>continuepoll := False\<rparr> else s))
      | OnKeyboard \<Rightarrow> server_read_cmd Os s)"

definition chat_new :: "console \<Rightarrow> chat" where
  "chat_new c = \<lparr>poll_items = [], cb_lists = [], regs = 0, calls = 0, effects = [],
     sock_fd = -1, continuepoll = True, con = c, shown = [], noticed = [], sends = []\<rparr>"

definition server_new :: "osenv \<Rightarrow> bytes \<Rightarrow> 32 word \<Rightarrow> console \<Rightarrow> chat_server" where
  "server_new Os localIp p c =
     (let s = chat.extend (chat_new c) \<lparr>assoInfo = None\<rparr>;
          (fd, s) = sock_op_new Os s;
          s = Bind Os fd localIp p (SetSocketOpt Os (s\<lparr>sock_fd := fd\<rparr>))
      in RegisterFd Os 0 OnKeyboard (RegisterFd Os fd OnSocket s))"

fun server_start :: "osenv \<Rightarrow> chat_round list \<Rightarrow> chat_server \<Rightarrow> halt + chat_server" where
  "server_start Os [] s = (if continuepoll s then Inl Blocked else Inr s)"
| "server_start Os (r # rs) s =
     (if continuepoll s then bindE (chat_poll (server_call Os) r s) (server_start Os rs) else Inr s)"

definition chat_server_main :: "osenv \<Rightarrow> console \<Rightarrow> chat_round list \<Rightarrow> halt + chat_server" where
  "chat_server_main Os c rs =
     bindE (server_start Os rs (server_new Os (bytes_of ''127.0.0.1'') CHAT_PORT c)) (\<lambda>s.
       Inr (sock_op_delete (sock_fd s) s))"

subsection \<open>The client\<close>

definition client_message :: "chat_envelope \<Rightarrow> chat \<Rightarrow> halt + chat" where
  "client_message m s = bindE (payload_text m) (\<lambda>t. Inr (s\<lparr>shown := shown s @ [printed t m None]\<rparr>))"

definition client_notification :: "chat_envelope \<Rightarrow> chat \<Rightarrow> chat" where
  "client_notification m s = s\<lparr>noticed := noticed s @ [notification_kind (payloadData m)]\<rparr>"

text \<open>The result of the handler is ignored, and so a failed receive has no consequence.\<close>

definition client_msg_handler :: "osenv \<Rightarrow> chat_in \<Rightarrow> chat \<Rightarrow> halt + chat" where
  "client_msg_handler Os x s =
     bindE (Receive Os x) (\<lambda>r.
       case r of
         None \<Rightarrow> Inr s
       | Some m \<Rightarrow> 
           if chat_flags m AND MSG_NOTIFICATION \<noteq> 0 then Inr (client_notification m s) else client_message m s)"

definition to_server :: "32 word \<Rightarrow> bytes \<Rightarrow> sendmsg_call" where
  "to_server flags d = \<lparr>to_ip = bytes_of ''127.0.0.1'', to_port = ucast CHAT_PORT, send_flags = flags,
     send_stream = 1, send_data = d\<rparr>"

text \<open>\<open>option\<close> is not initialised: if nothing can be extracted it is what is in memory.\<close>

definition option_read :: "osenv \<Rightarrow> int option \<Rightarrow> int" where
  "option_read Os n = (case n of None \<Rightarrow> sint (of_le32 (map (os_junk Os) [0..<4])) | Some n \<Rightarrow> n)"

definition client_send_msg :: "osenv \<Rightarrow> chat \<Rightarrow> halt + chat" where
  "client_send_msg Os s =
     bindE (cin_int (con s)) (\<lambda>(n, c).
       let s = s\<lparr>con := c\<rparr>; option = option_read Os n in
       if option = 1 then
         bindE (cin_word (con s)) (\<lambda>(w, c).
           let message = (case w of None \<Rightarrow> [] | Some w \<Rightarrow> w)
           in Inr (s\<lparr>con := c, sends := sends s @
                map (\<lambda>i. to_server 0 (message_bytes Os (message @ decimal i))) [0..<5]\<rparr>))
       else if option = 0 then Inr (s\<lparr>sends := sends s @ [to_server SCTP_ABORT (message_bytes Os [])]\<rparr>)
       else if option = 2 then Inr (s\<lparr>sends := sends s @ [to_server SCTP_EOF (message_bytes Os [])]\<rparr>)
       else Inr s)"

definition client_read_cmd :: "osenv \<Rightarrow> (chat \<Rightarrow> halt + chat) \<Rightarrow> chat \<Rightarrow> halt + chat" where
  "client_read_cmd Os send_msg s =
     bindE (kbd_char (con s)) (\<lambda>(b, c).
       let s = s\<lparr>con := c\<rparr>; buf = typed Os b in
       if buf = of_char (CHR ''0'') then Inr (s\<lparr>continuepoll := False\<rparr>)
       else if buf = of_char (CHR ''1'') then send_msg s
       else Inr s)"

definition client_call :: "osenv \<Rightarrow> (chat \<Rightarrow> halt + chat) \<Rightarrow> chat_cb \<Rightarrow> int \<Rightarrow> chat_in \<Rightarrow> chat \<Rightarrow> halt + chat" where
  "client_call Os send_msg cb fd x s =
     (case cb of
        OnSocket \<Rightarrow> client_msg_handler Os x s
      | OnKeyboard \<Rightarrow> client_read_cmd Os send_msg s)"

definition client_new :: "osenv \<Rightarrow> console \<Rightarrow> chat" where
  "client_new Os c =
     (let (fd, s) = sock_op_new Os (chat_new c);
          s = SetSocketOpt Os (s\<lparr>sock_fd := fd\<rparr>)
      in RegisterFd Os 0 OnKeyboard (RegisterFd Os fd OnSocket s))"

fun client_start :: "osenv \<Rightarrow> (chat \<Rightarrow> halt + chat) \<Rightarrow> chat_round list \<Rightarrow> chat \<Rightarrow> halt + chat" where
  "client_start Os send_msg [] s = (if continuepoll s then Inl Blocked else Inr s)"
| "client_start Os send_msg (r # rs) s =
     (if continuepoll s then bindE (chat_poll (client_call Os send_msg) r s) (client_start Os send_msg rs) else Inr s)"

definition chat_client_main :: "osenv \<Rightarrow> (chat \<Rightarrow> halt + chat) \<Rightarrow> console \<Rightarrow> chat_round list \<Rightarrow> halt + chat" where
  "chat_client_main Os send_msg c rs =
     bindE (client_start Os send_msg rs (client_new Os c)) (\<lambda>s. Inr (sock_op_delete (sock_fd s) s))"

text \<open>
  The client of \<open>terminate_association\<close>: \<open>message\<close> is an array of 513 bytes, into which \<open>std::cin\<close> writes
  words of any length.
\<close>

definition ta_buffer :: "osenv \<Rightarrow> bytes option \<Rightarrow> halt + bytes" where
  "ta_buffer Os w =
     (let junk = map (os_junk Os) [0..<Suc CHAT_BUFFER] in
      case w of
        None \<Rightarrow> Inr junk
      | Some w \<Rightarrow>
          bindE (guardE (length w < Suc CHAT_BUFFER) BadAccess) (\<lambda>_. Inr (w @ 0 # drop (Suc (length w)) junk)))"

definition ta_send_msg :: "osenv \<Rightarrow> chat \<Rightarrow> halt + chat" where
  "ta_send_msg Os s =
     bindE (cin_int (con s)) (\<lambda>(n, c).
       let s = s\<lparr>con := c\<rparr>; option = option_read Os n; junk = map (os_junk Os) [0..<CHAT_BUFFER] in
       if option = 1 then
         bindE (cin_word (con s)) (\<lambda>(w, c).
         bindE (ta_buffer Os w) (\<lambda>message.
           Inr (s\<lparr>con := c, sends := sends s @ [to_server 0 (take CHAT_BUFFER message)]\<rparr>)))
       else if option = 0 then Inr (s\<lparr>sends := sends s @ [to_server SCTP_ABORT junk]\<rparr>)
       else if option = 2 then Inr (s\<lparr>sends := sends s @ [to_server SCTP_EOF junk]\<rparr>)
       else Inr s)"

subsection \<open>Messages on their way\<close>

lemma length_message_bytes [simp]: "length (message_bytes Os m) = CHAT_BUFFER"
  by (simp add: message_bytes_def)

lemma chat_buf_message: "chat_buf Os (message_bytes Os' m) = message_bytes Os' m @ [os_junk Os CHAT_BUFFER]"
  by (simp add: chat_buf_def drop_map)

lemma message_bytes_text:
  assumes "nul_free m" "length m < CHAT_BUFFER"
  shows "c_str (message_bytes Os m @ xs) = m" "\<not> nul_free (message_bytes Os m @ xs)"
proof -
  have m: "message_bytes Os m = m @ 0 # take (CHAT_BUFFER - Suc (length m)) (map (os_junk Os) [0..<CHAT_BUFFER])"
    using assms(2) by (simp add: message_bytes_def take_Cons')
  show "\<not> nul_free (message_bytes Os m @ xs)"
    unfolding m by (simp add: nul_free_def)
  show "c_str (message_bytes Os m @ xs) = m"
    unfolding m using assms(1) by (simp add: c_str_def, intro takeWhile_run) (auto simp: nul_free_def)
qed

text \<open>Delivery by SCTP: the data and the number of the stream arrive as they were sent.\<close>

definition delivered :: "chat_info \<Rightarrow> sendmsg_call \<Rightarrow> chat_in" where
  "delivered i m = \<lparr>recvd = Some (send_data m), recv_info = i\<lparr>sinfo_stream := send_stream m\<rparr>\<rparr>"

text \<open>The messages of an association: SCTP numbers those of each stream one after the other, modulo \<open>2\<^sup>1\<^sup>6\<close>; \<open>ssn\<close> says
  which number the next message of a stream has.\<close>

fun deliveries :: "chat_info \<Rightarrow> (16 word \<Rightarrow> 16 word) \<Rightarrow> sendmsg_call list \<Rightarrow> chat_in list" where
  "deliveries i ssn [] = []"
| "deliveries i ssn (m # ms) = delivered (i\<lparr>sinfo_ssn := ssn (send_stream m)\<rparr>) m
     # deliveries i (ssn(send_stream m := ssn (send_stream m) + 1)) ms"

definition from_peer :: "chat_info \<Rightarrow> bool" where
  "from_peer i \<longleftrightarrow> sin_family i = AF_INET \<and> msg_flags i AND MSG_NOTIFICATION = 0"

definition seen :: "chat_info \<Rightarrow> 16 word \<Rightarrow> 16 word option \<Rightarrow> bytes \<Rightarrow> shown_msg" where
  "seen i n ssn t = \<lparr>msg_text = t, from_ip = sin_addr i, from_port = ntohs (sin_port i),
     from_assoc = sinfo_assoc_id i, from_stream = n, ssn_shown = ssn\<rparr>"

lemma receive_message:
  assumes "nul_free t" "length t < CHAT_BUFFER" "from_peer i" "send_data m = message_bytes Os' t"
  shows "\<exists>e. Receive Os (delivered i m) = Inr (Some e) \<and> payload_text e = Inr t
    \<and> chat_flags e AND MSG_NOTIFICATION = 0 \<and> peerStream e = send_stream m \<and> msgSsn e = sinfo_ssn i
    \<and> (\<forall>ssn. printed t e ssn = seen i (send_stream m) ssn t)"
  using assms(3) message_bytes_text [OF assms(1,2), of Os' "[os_junk Os CHAT_BUFFER]"]
  by (auto simp: Receive_def delivered_def chat_envelope_new_def payload_text_def from_peer_def assms(4)
      chat_buf_message printed_def seen_def)

lemma server_hears:
  assumes "nul_free t" "length t < CHAT_BUFFER" "from_peer i" "send_data m = message_bytes Os' t"
    and "assoInfo s = Some a"
  shows "server_call Os OnSocket fd (delivered i m) s
    = Inr (s\<lparr>assoInfo := Some (a\<lparr>assoc_stream := send_stream m\<rparr>),
             shown := shown s @ [seen i (send_stream m) (Some (sinfo_ssn i)) t]\<rparr>)"
  using receive_message [OF assms(1-4), of Os] assms(5)
  by (auto simp: server_call_def server_msg_handler_def server_message_def)

lemma client_hears:
  assumes "nul_free t" "length t < CHAT_BUFFER" "from_peer i" "send_data m = message_bytes Os' t"
  shows "client_call Os f OnSocket fd (delivered i m) s = Inr (s\<lparr>shown := shown s @ [seen i (send_stream m) None t]\<rparr>)"
  using receive_message [OF assms, of Os]
  by (auto simp: client_call_def client_msg_handler_def client_message_def)

text \<open>The command and the option of the client, as lines of the keyboard.\<close>

abbreviation line :: "bytes \<Rightarrow> bytes" where
  "line w \<equiv> w @ [10]"

lemma plain_digit [simp]: "plain_word [49]"
  by (simp add: plain_word_def is_space_def)

text \<open>The command and the number of the option, typed on lines of their own.\<close>

lemma typed_option:
  assumes "cin_ok c" "\<forall>b \<in> set (cin_buf c). is_space b" "pending c = line (bytes_of ''1'') # line (bytes_of ''1'') # ks"
  shows "kbd_char c = Inr (Some 49, c\<lparr>pending := [10] # line (bytes_of ''1'') # ks\<rparr>)"
    "cin_int (c\<lparr>pending := [10] # line (bytes_of ''1'') # ks\<rparr>) = Inr (Some 1, c\<lparr>cin_buf := [10], pending := ks\<rparr>)"
proof -
  show "kbd_char c = Inr (Some 49, c\<lparr>pending := [10] # line (bytes_of ''1'') # ks\<rparr>)"
    by (simp add: kbd_char_def assms(3) bytes_of_def)
  have "next_word (c\<lparr>pending := [10] # line (bytes_of ''1'') # ks\<rparr>) (bytes_of ''1'') ks"
    by (rule next_word_behind_command) (use assms(1,2) in \<open>simp_all add: bytes_of_def\<close>)
  moreover have "digits_value (bytes_of ''1'') = 1" by (simp add: digits_value_def bytes_of_def)
  ultimately show "cin_int (c\<lparr>pending := [10] # line (bytes_of ''1'') # ks\<rparr>) = Inr (Some 1, c\<lparr>cin_buf := [10], pending := ks\<rparr>)"
    using cin_int_line [of "c\<lparr>pending := [10] # line (bytes_of ''1'') # ks\<rparr>" "bytes_of ''1''" ks]
    by (simp add: bytes_of_def is_digit_def INT_MAX_def)
qed

lemma client_sends:
  assumes "cin_ok (con c)" "\<forall>b \<in> set (cin_buf (con c)). is_space b" "plain_word w"
    and "pending (con c) = line (bytes_of ''1'') # line (bytes_of ''1'') # line w # ks"
  shows "client_read_cmd Os (client_send_msg Os) c = Inr (c\<lparr>con := (con c)\<lparr>cin_buf := [10], pending := ks\<rparr>,
      sends := sends c @ map (\<lambda>i. to_server 0 (message_bytes Os (w @ decimal i))) [0..<5]\<rparr>)"
proof -
  let ?c2 = "(con c)\<lparr>cin_buf := [10], pending := line w # ks\<rparr>"
  have "cin_word ?c2 = Inr (Some w, ?c2\<lparr>pending := ks\<rparr>)"
    using cin_word_line [OF next_word_line [of ?c2 w ks] assms(3)] assms(1,3) by simp
  with typed_option [OF assms(1,2,4)] show ?thesis
    by (simp add: client_read_cmd_def typed_def client_send_msg_def option_read_def Let_def)
qed

lemma server_replies:
  assumes "cin_ok (con s)" "\<forall>b \<in> set (cin_buf (con s)). is_space b" "plain_word v"
    and "pending (con s) = line (bytes_of ''1'') # line v # ks" "assoInfo s = Some a"
  shows "server_read_cmd Os s = Inr (s\<lparr>con := (con s)\<lparr>cin_buf := [10], pending := ks\<rparr>,
      sends := sends s @ [\<lparr>to_ip = assoc_ip a, to_port = assoc_port a, send_flags = 0,
        send_stream = assoc_stream a, send_data = message_bytes Os v\<rparr>]\<rparr>)"
proof -
  let ?c1 = "(con s)\<lparr>pending := [10] # line v # ks\<rparr>"
  have "kbd_char (con s) = Inr (Some (of_char (CHR ''1'')), ?c1)"
    by (simp add: kbd_char_def assms(4) bytes_of_def)
  moreover have "cin_word ?c1 = Inr (Some v, ?c1\<lparr>cin_buf := [10], pending := ks\<rparr>)"
    by (rule cin_word_line [OF next_word_behind_command assms(3)]) (use assms(1-3) in simp_all)
  ultimately show ?thesis
    by (simp add: server_read_cmd_def typed_def server_send_msg_def assms(5) Let_def)
qed

lemma seen_number [simp]: "seen (i\<lparr>sinfo_ssn := k\<rparr>) = seen i"
  by (rule ext)+ (simp add: seen_def)

lemma from_peer_number [simp]: "from_peer (i\<lparr>sinfo_ssn := k\<rparr>) = from_peer i"
  by (simp add: from_peer_def)

lemma server_hears_all:
  assumes "from_peer i" "\<forall>t \<in> set ts. nul_free t \<and> length t < CHAT_BUFFER" "ts \<noteq> []" "assoInfo s = Some a"
  shows "forE (server_call Os OnSocket fd) (deliveries i ssn (map (\<lambda>t. to_server 0 (message_bytes Os' t)) ts)) s
    = Inr (s\<lparr>assoInfo := Some (a\<lparr>assoc_stream := 1\<rparr>),
             shown := shown s @ map (\<lambda>n. seen i 1 (Some (ssn 1 + of_nat n)) (ts ! n)) [0..<length ts]\<rparr>)"
  using assms(2-4)
proof (induction ts arbitrary: s a ssn)
  case (Cons t ts)
  have head: "server_call Os OnSocket fd (delivered (i\<lparr>sinfo_ssn := ssn 1\<rparr>) (to_server 0 (message_bytes Os' t))) s
      = Inr (s\<lparr>assoInfo := Some (a\<lparr>assoc_stream := 1\<rparr>), shown := shown s @ [seen i 1 (Some (ssn 1)) t]\<rparr>)"
    using server_hears [of t "i\<lparr>sinfo_ssn := ssn 1\<rparr>" _ Os' s a Os fd] Cons.prems assms(1) by (simp add: to_server_def)
  have stream: "send_stream (to_server 0 (message_bytes Os' t)) = 1" by (simp add: to_server_def)
  have shift: "map (\<lambda>n. seen i 1 (Some (ssn 1 + of_nat n)) ((t # ts) ! n)) [0..<length (t # ts)] = seen i 1 (Some (ssn 1)) t
      # map (\<lambda>n. seen i 1 (Some ((ssn(1 := ssn 1 + 1)) 1 + of_nat n)) (ts ! n)) [0..<length ts]"
    by (simp add: upt_conv_Cons map_Suc_upt [symmetric] o_def ac_simps del: upt_Suc)
  show ?case
  proof (cases "ts = []")
    case True
    with head stream show ?thesis by simp
  next
    case False
    let ?s = "s\<lparr>assoInfo := Some (a\<lparr>assoc_stream := 1\<rparr>), shown := shown s @ [seen i 1 (Some (ssn 1)) t]\<rparr>"
    let ?seen = "map (\<lambda>n. seen i 1 (Some ((ssn(1 := ssn 1 + 1)) 1 + of_nat n)) (ts ! n)) [0..<length ts]"
    have "forE (server_call Os OnSocket fd) (deliveries i (ssn(1 := ssn 1 + 1)) (map (\<lambda>t. to_server 0 (message_bytes Os' t)) ts)) ?s
        = Inr (?s\<lparr>assoInfo := Some ((a\<lparr>assoc_stream := 1\<rparr>)\<lparr>assoc_stream := 1\<rparr>), shown := shown ?s @ ?seen\<rparr>)"
      by (rule Cons.IH) (use Cons.prems False in simp_all)
    then show ?thesis
      unfolding shift list.map deliveries.simps forE.simps stream head bindE_simps by simp
  qed
qed simp

lemma decimal_nul_free: "nul_free (decimal n)"
proof -
  have "of_nat (48 + d) \<noteq> (0 :: byte)" if "d < 10" for d
    using that by (auto simp: word_of_nat_eq_0_iff dest: dvd_imp_le simp del: of_nat_add)
  then show ?thesis using decimal_digits [of n] by (auto simp: nul_free_def simp del: of_nat_add)
qed

text \<open>A message typed at the client, and the answer typed at the server.\<close>

text \<open>
  C18. The client on which 1, 1 and a word are typed sends five messages. SCTP numbers the messages
  of a stream one after the other, from any number, modulo 65536. The server, which has an
  association, shows the word with the digits 0 to 4 behind it, on stream 1, the n-th with the n-th
  of these numbers; the word then typed at the server is sent to the address of the association,
  and the client shows it. Both sides send 512 bytes from the start of a shorter string; what lies
  behind the string is any memory, and the receiver stops at the NUL.
\<close>

theorem chat_exchange:
  assumes "cin_ok (con c)" "\<forall>b \<in> set (cin_buf (con c)). is_space b"
    and "pending (con c) = line (bytes_of ''1'') # line (bytes_of ''1'') # line w # ks"
    and "plain_word w" "nul_free w" "length w < 511"
    and "cin_ok (con s)" "\<forall>b \<in> set (cin_buf (con s)). is_space b"
    and "pending (con s) = line (bytes_of ''1'') # line v # ls" "plain_word v" "nul_free v" "length v < 512"
    and "assoInfo s = Some a" "from_peer i" "from_peer j"
  shows "\<exists>c1 s1 s2 c2. client_read_cmd Os (client_send_msg Os) c = Inr c1
    \<and> forE (server_call Os' OnSocket fd) (deliveries i ssn (drop (length (sends c)) (sends c1))) s = Inr s1
    \<and> shown s1 = shown s @ map (\<lambda>n. seen i 1 (Some (ssn 1 + of_nat n)) (w @ decimal n)) [0..<5]
    \<and> server_read_cmd Os' s1 = Inr s2
    \<and> to_ip (last (sends s2)) = assoc_ip a \<and> to_port (last (sends s2)) = assoc_port a
    \<and> client_call Os (client_send_msg Os) OnSocket fd' (delivered j (last (sends s2))) c1 = Inr c2
    \<and> shown c2 = shown c @ [seen j 1 None v]"
proof -
  let ?ts = "map (\<lambda>n. w @ decimal n) [0..<5]"
  let ?c1 = "c\<lparr>con := (con c)\<lparr>cin_buf := [10], pending := ks\<rparr>,
    sends := sends c @ map (\<lambda>t. to_server 0 (message_bytes Os t)) ?ts\<rparr>"
  let ?s1 = "s\<lparr>assoInfo := Some (a\<lparr>assoc_stream := 1\<rparr>), shown := shown s
    @ map (\<lambda>n. seen i 1 (Some (ssn 1 + of_nat n)) (?ts ! n)) [0..<length ?ts]\<rparr>"
  have c1: "client_read_cmd Os (client_send_msg Os) c = Inr ?c1"
    using client_sends [OF assms(1,2,4,3), of Os] by (simp add: comp_def)
  have "n < 5 \<Longrightarrow> length (decimal n) = 1" for n
    by (simp add: decimal.simps)
  then have "\<forall>t \<in> set ?ts. nul_free t \<and> length t < CHAT_BUFFER"
    using assms(5,6) decimal_nul_free by (auto simp: nul_free_def CHAT_BUFFER_def)
  then have s1: "forE (server_call Os' OnSocket fd) (deliveries i ssn (drop (length (sends c)) (sends ?c1))) s = Inr ?s1"
    using server_hears_all [OF assms(14), of ?ts s a Os' fd ssn Os] assms(13) by (simp add: comp_def)
  have shown: "shown ?s1 = shown s @ map (\<lambda>n. seen i 1 (Some (ssn 1 + of_nat n)) (w @ decimal n)) [0..<5]"
    by (simp add: upt_rec)
  let ?r = "\<lparr>to_ip = assoc_ip a, to_port = assoc_port a, send_flags = 0, send_stream = 1, send_data = message_bytes Os' v\<rparr>"
  have s2: "server_read_cmd Os' ?s1 = Inr (?s1\<lparr>con := (con s)\<lparr>cin_buf := [10], pending := ls\<rparr>, sends := sends s @ [?r]\<rparr>)"
    using server_replies [of ?s1 v ls "a\<lparr>assoc_stream := 1\<rparr>" Os'] assms(7-10) by simp
  have "client_call Os (client_send_msg Os) OnSocket fd' (delivered j ?r) ?c1 = Inr (?c1\<lparr>shown := shown c @ [seen j 1 None v]\<rparr>)"
    using client_hears [of v j ?r Os' Os "client_send_msg Os" fd' ?c1] assms(11,12,15) by (simp add: CHAT_BUFFER_def)
  with c1 s1 s2 shown show ?thesis by (intro exI conjI) (assumption | simp add: comp_def)+
qed

subsection \<open>Rounds of the server\<close>

definition chat_ports :: "int \<Rightarrow> (chat_cb, 'm) proc_scheme \<Rightarrow> bool" where
  "chat_ports fd s \<longleftrightarrow> map pfd (poll_items s) = [fd, 0] \<and> cb_lists s = [OnSocket, OnKeyboard]"

lemma server_new_ports: "chat_ports (os_ret Os 0) (server_new Os ip p c)" "assoInfo (server_new Os ip p c) = None"
  "continuepoll (server_new Os ip p c)" "con (server_new Os ip p c) = c"
  by (simp_all add: server_new_def sock_op_new_def SetSocketOpt_def Bind_def RegisterFd_def chat_new_def
      sys_def emit_def chat_ports_def chat.extend_def Let_def)

lemma report_keeps [simp]:
  "assoInfo (report ready s) = assoInfo s" "con (report ready s) = con s"
  "continuepoll (report ready s) = continuepoll s" "chat_ports fd (report ready s) = chat_ports fd s"
  by (simp_all add: report_def chat_ports_def comp_def)

lemma chat_round_calls:
  assumes "chat_ports fd s"
  shows "chat_poll call (ChatReady ready x) s =
    (if ready fd AND POLLIN \<noteq> 0 then call OnSocket fd x (report ready s)
     else if ready 0 AND POLLIN \<noteq> 0 then call OnKeyboard 0 x (report ready s)
     else Inr (report ready s))"
proof -
  obtain a b where p: "poll_items s = [a, b]" "pfd a = fd" "pfd b = 0"
    using assms by (auto simp: chat_ports_def map_eq_Cons_conv)
  then show ?thesis
    using assms by (simp add: chat_poll_def PollEventHandler_def chat_ports_def report_def)
qed

lemmas server_call_defs = server_call_def server_msg_handler_def server_message_def server_notification_def
  server_read_cmd_def server_send_msg_def Let_def

text \<open>What one callback does to the ports of the server and to its association.\<close>

lemma wpE_any: "(\<And>x. Q x) \<Longrightarrow> wpE (\<lambda>_. False) Q r"
  by (cases r) simp_all

definition server_kept :: "bool \<Rightarrow> chat_server \<Rightarrow> chat_server \<Rightarrow> bool" where
  "server_kept typing s t \<longleftrightarrow> poll_items t = poll_items s \<and> cb_lists t = cb_lists s
     \<and> (assoInfo s \<noteq> None \<longrightarrow> assoInfo t \<noteq> None) \<and> (typing \<or> con t = con s)"

lemma server_kept_simps [simp]:
  "server_kept b s s" "server_kept b s (s\<lparr>continuepoll := x\<rparr>)" "server_kept True s (s\<lparr>con := c\<rparr>)"
  "server_kept True s (s\<lparr>con := c, continuepoll := x\<rparr>)"
  "server_kept True s (s\<lparr>con := c, sends := ms\<rparr>)"
  "server_kept b s (s\<lparr>noticed := ns\<rparr>)" "server_kept b s (s\<lparr>noticed := ns, assoInfo := Some a\<rparr>)"
  "server_kept b s (s\<lparr>assoInfo := Some a\<rparr>)" "server_kept b s (s\<lparr>assoInfo := Some a, shown := sh\<rparr>)"
  "server_kept b s (s\<lparr>assoInfo := Some a, continuepoll := x\<rparr>)"
  "server_kept b s (s\<lparr>assoInfo := Some a, shown := sh, continuepoll := x\<rparr>)"
  by (simp_all add: server_kept_def)

lemma server_msg_handler_keeps:
  "wpE (\<lambda>_. False) (\<lambda>(r, t). server_kept False s t \<and> (r = -1 \<longleftrightarrow> recvd x = None)
     \<and> continuepoll t = continuepoll s) (server_msg_handler Os x s)"
proof (cases "recvd x")
  case None
  then show ?thesis by (simp add: server_msg_handler_def Receive_def)
next
  case (Some d)
  have "wpE (\<lambda>_. False) (\<lambda>(r :: int, t). server_kept False s t \<and> r \<noteq> -1 \<and> continuepoll t = continuepoll s)
      (if chat_flags m AND MSG_NOTIFICATION \<noteq> 0 then Inr (0, server_notification m s)
       else bindE (server_message m s) (\<lambda>s. Inr (0, s)))" for m
    by (auto simp: server_notification_def server_message_def Let_def intro!: wpE_any split: option.split)
  then show ?thesis
    using Some by (auto simp: server_msg_handler_def Receive_def intro!: wpE_any)
qed

lemma server_read_cmd_keeps: "wpE (\<lambda>_. False) (server_kept True s) (server_read_cmd Os s)"
proof -
  have "wpE (\<lambda>_. False) (server_kept True s) (server_send_msg Os (s\<lparr>con := c\<rparr>))" for c
    by (cases "assoInfo s"; cases "cin_word c") (auto simp: server_send_msg_def Let_def)
  then show ?thesis
    by (cases "kbd_char (con s)") (auto simp: server_read_cmd_def Let_def)
qed

lemma server_call_keeps:
  assumes "server_call Os cb fd x s = Inr t"
  shows "server_kept (cb = OnKeyboard) s t" "cb = OnSocket \<Longrightarrow> recvd x \<noteq> None \<Longrightarrow> continuepoll t = continuepoll s"
proof -
  show "server_kept (cb = OnKeyboard) s t"
  proof (cases cb)
    case OnSocket
    with assms obtain r u where "server_msg_handler Os x s = Inr (r, u)"
      "t = (if r = -1 then u\<lparr>continuepoll := False\<rparr> else u)"
      by (auto simp: server_call_def bindE_eq_Inr)
    with wpE_Inr [OF server_msg_handler_keeps] OnSocket show ?thesis by (fastforce simp: server_kept_def)
  next
    case OnKeyboard
    with assms wpE_Inr [OF server_read_cmd_keeps] show ?thesis by (auto simp: server_call_def)
  qed
  assume "cb = OnSocket" "recvd x \<noteq> None"
  with assms obtain r u where u: "server_msg_handler Os x s = Inr (r, u)"
    "t = (if r = -1 then u\<lparr>continuepoll := False\<rparr> else u)"
    by (auto simp: server_call_def bindE_eq_Inr)
  with wpE_Inr [OF server_msg_handler_keeps u(1)] \<open>recvd x \<noteq> None\<close>
  show "continuepoll t = continuepoll s" by simp
qed

lemma receive_no_null: "Receive Os x \<noteq> Inl NullAccess" "payload_text m \<noteq> Inl NullAccess"
  by (auto simp: Receive_def chat_envelope_new_def payload_text_def bindE_eq_Inl Let_def split: option.splits)

lemma skip_space_ends: "skip_space buf ks = Inl f \<Longrightarrow> f = Blocked"
  by (induction buf ks rule: skip_space.induct) (auto split: list.splits if_splits)

lemma take_run_ends: "take_run p buf ks = Inl f \<Longrightarrow> f = Blocked"
  by (induction p buf ks rule: take_run.induct) (auto simp: bindE_eq_Inl split: list.splits if_splits)

lemma keyboard_ends:
  "kbd_char c = Inl f \<Longrightarrow> f = Blocked" "cin_word c = Inl f \<Longrightarrow> f = Blocked" "cin_int c = Inl f \<Longrightarrow> f = Blocked"
  by (auto simp: kbd_char_def cin_word_def cin_int_def bindE_eq_Inl Let_def
      dest: skip_space_ends take_run_ends split: list.splits if_splits)

lemma server_call_associated:
  assumes "assoInfo s \<noteq> None"
  shows "server_call Os cb fd x s \<noteq> Inl NullAccess"
  using assms receive_no_null
  by (auto simp: server_call_defs bindE_eq_Inl dest: keyboard_ends split: chat_cb.splits option.splits if_splits)

lemma chat_poll_associated:
  assumes "assoInfo s \<noteq> None"
  shows "wpE (\<lambda>f. f = NullAccess) (\<lambda>t. assoInfo t \<noteq> None) (chat_poll (server_call Os) r s)"
proof -
  have "wpE (\<lambda>f. f = NullAccess) (\<lambda>t. assoInfo t \<noteq> None) (server_call Os cb fd x (report ready s))" for cb fd x ready
    using server_call_associated [of "report ready s" Os cb fd x] server_call_keeps(1) [of Os cb fd x "report ready s"] assms
    by (cases "server_call Os cb fd x (report ready s)") (auto simp: server_kept_def)
  then show ?thesis
    using assms by (auto simp: chat_poll_def PollEventHandler_def split: chat_round.split option.split)
qed

interpretation server_loop: fallible_machine "chat_poll (server_call Os)" "\<lambda>s. assoInfo s \<noteq> None" "\<lambda>f. f = NullAccess"
  by unfold_locales (rule chat_poll_associated)

lemma server_start_ends:
  assumes "assoInfo s \<noteq> None"
  shows "server_start Os rs s \<noteq> Inl NullAccess"
  using assms
proof (induction rs arbitrary: s)
  case (Cons r rs)
  from server_loop.step_ok [of s Os r] Cons.prems
  have step: "wpE (\<lambda>f. f = NullAccess) (\<lambda>t. assoInfo t \<noteq> None) (chat_poll (server_call Os) r s)" by simp
  show ?case
  proof (cases "chat_poll (server_call Os) r s")
    case (Inl f)
    with step show ?thesis by simp
  next
    case (Inr t)
    with step Cons.IH [of t] show ?thesis by simp
  qed
qed simp

theorem association_first:
  assumes "chat_ports fd s" "continuepoll s" "ready fd AND POLLIN \<noteq> 0"
    and "from_peer i" "nul_free t" "length t < CHAT_BUFFER" "send_data m = message_bytes Os' t"
  shows "server_start Os (ChatReady ready (delivered i m) # rs) s = Inl NullAccess \<longleftrightarrow> assoInfo s = None"
proof (cases "assoInfo s")
  case None
  with receive_message [OF assms(5,6,4,7), of Os] assms(1-3) show ?thesis
    by (auto simp: chat_round_calls server_call_def server_msg_handler_def server_message_def)
next
  case (Some a)
  with server_start_ends [of s Os "ChatReady ready (delivered i m) # rs"] show ?thesis by simp
qed


text \<open>As long as the socket is readable in every round, what is typed waits.\<close>

definition message_round :: "int \<Rightarrow> chat_round \<Rightarrow> bool" where
  "message_round fd r \<longleftrightarrow> (\<exists>ready i m t Os'. r = ChatReady ready (delivered i m) \<and> ready fd AND POLLIN \<noteq> 0
     \<and> from_peer i \<and> nul_free t \<and> length t < CHAT_BUFFER \<and> send_data m = message_bytes Os' t)"

lemma message_round_kept:
  assumes "chat_ports fd s" "assoInfo s \<noteq> None" "message_round fd r"
  shows "\<exists>t. chat_poll (server_call Os) r s = Inr t \<and> con t = con s \<and> assoInfo t \<noteq> None \<and> continuepoll t = continuepoll s
    \<and> chat_ports fd t \<and> length (shown t) = Suc (length (shown s))"
proof -
  from assms(3) obtain ready i m t Os' where r: "r = ChatReady ready (delivered i m)" "ready fd AND POLLIN \<noteq> 0"
    and m: "from_peer i" "nul_free t" "length t < CHAT_BUFFER" "send_data m = message_bytes Os' t"
    by (auto simp: message_round_def)
  from assms(2) obtain a where a: "assoInfo s = Some a" by auto
  have "chat_poll (server_call Os) r s = Inr ((report ready s)\<lparr>assoInfo := Some (a\<lparr>assoc_stream := send_stream m\<rparr>),
      shown := shown s @ [seen i (send_stream m) (Some (sinfo_ssn i)) t]\<rparr>)"
    using server_hears [of t i m Os' "report ready s" a Os fd] m a r assms(1)
    by (simp add: chat_round_calls report_def)
  then show ?thesis
    using assms(1) by (auto simp: report_def chat_ports_def comp_def)
qed

theorem keyboard_waits:
  assumes "chat_ports fd s" "assoInfo s \<noteq> None" "continuepoll s" "\<forall>r \<in> set rs. message_round fd r"
  shows "\<exists>t. server_start Os (rs @ rs') s = server_start Os rs' t \<and> continuepoll t \<and> con t = con s
    \<and> length (shown t) = length (shown s) + length rs"
  using assms
proof (induction rs arbitrary: s)
  case (Cons r rs)
  then obtain t where t: "chat_poll (server_call Os) r s = Inr t" "con t = con s" "assoInfo t \<noteq> None" "continuepoll t"
    "chat_ports fd t" "length (shown t) = Suc (length (shown s))"
    using message_round_kept [of fd s r Os] by auto
  with Cons.IH [of t] Cons.prems show ?case by auto
qed auto

text \<open>A word that is no number, typed where the client asks for an option: \<open>option\<close> becomes zero.\<close>

theorem no_number_aborts:
  assumes "cin_ok (con c)" "\<forall>b \<in> set (cin_buf (con c)). is_space b" "plain_word w"
    and "pending (con c) = line (bytes_of ''1'') # line w # ks" "\<not> is_digit (hd w)" "hd w \<noteq> 43" "hd w \<noteq> 45"
  shows "\<exists>t. client_read_cmd Os (client_send_msg Os) c = Inr t
    \<and> sends t = sends c @ [to_server SCTP_ABORT (message_bytes Os [])] \<and> pending (con t) = ks
    \<and> cin_int (con t) = Inr (None, con t) \<and> cin_word (con t) = Inr (None, con t)"
proof -
  let ?c1 = "(con c)\<lparr>pending := [10] # line w # ks\<rparr>"
  have "kbd_char (con c) = Inr (Some (of_char (CHR ''1'')), ?c1)"
    by (simp add: kbd_char_def assms(4) bytes_of_def)
  moreover have "cin_int ?c1 = Inr (Some 0, ?c1\<lparr>cin_buf := w @ [10], pending := ks, cin_ok := False\<rparr>)"
    by (rule cin_int_no_number [OF next_word_behind_command]) (use assms in simp_all)
  ultimately show ?thesis
    by (simp add: client_read_cmd_def typed_def client_send_msg_def option_read_def Let_def)
qed

text \<open>The client of \<open>terminate_association\<close> takes words that fit its array.\<close>

theorem ta_word_fits:
  assumes "cin_ok (con c)" "\<forall>b \<in> set (cin_buf (con c)). is_space b" "plain_word w"
    and "pending (con c) = line (bytes_of ''1'') # line (bytes_of ''1'') # line w # ks"
  shows "client_read_cmd Os (ta_send_msg Os) c =
    (if length w \<le> CHAT_BUFFER
     then Inr (c\<lparr>con := (con c)\<lparr>cin_buf := [10], pending := ks\<rparr>,
       sends := sends c @ [to_server 0 (take CHAT_BUFFER
         (w @ 0 # drop (Suc (length w)) (map (os_junk Os) [0..<Suc CHAT_BUFFER])))]\<rparr>)
     else Inl BadAccess)"
proof -
  let ?c2 = "(con c)\<lparr>cin_buf := [10], pending := line w # ks\<rparr>"
  note typed = typed_option [OF assms(1,2,4)]
  have "cin_word ?c2 = Inr (Some w, ?c2\<lparr>pending := ks\<rparr>)"
    using cin_word_line [OF next_word_line [of ?c2 w ks] assms(3)] assms(1,3) by simp
  with typed show ?thesis
    by (simp add: client_read_cmd_def typed_def ta_send_msg_def option_read_def ta_buffer_def Let_def)
qed

subsection \<open>Instances\<close>

definition quiet_os :: osenv where
  "quiet_os = \<lparr>os_ret = \<lambda>n. int n, os_pid = 0, os_revents = \<lambda>_. 0, os_junk = \<lambda>_. 7\<rparr>"

definition peer_info :: chat_info where
  "peer_info = \<lparr>sin_family = AF_INET, sin_addr = bytes_of ''127.0.0.1'', sin_port = 0x3930, sinfo_assoc_id = 5,
     sinfo_stream = 0, msg_flags = 0, sinfo_ssn = 2\<rparr>"

definition demo_client :: "bytes list \<Rightarrow> chat" where
  "demo_client ks = client_new quiet_os (console_of ks)"

definition demo_server :: "bytes list \<Rightarrow> chat_server" where
  "demo_server ks = (server_new quiet_os (bytes_of ''127.0.0.1'') CHAT_PORT (console_of ks))
     \<lparr>assoInfo := Some \<lparr>assoc_ip = bytes_of ''127.0.0.1'', assoc_port = 12345, assoc_stream = 0\<rparr>\<rparr>"

lemma demo_client_fields [simp]:
  "con (demo_client ks) = console_of ks" "shown (demo_client ks) = []" "sends (demo_client ks) = []"
  by (simp_all add: demo_client_def client_new_def sock_op_new_def SetSocketOpt_def RegisterFd_def chat_new_def sys_def)

lemma demo_server_fields [simp]:
  "con (demo_server ks) = console_of ks" "shown (demo_server ks) = []" "sends (demo_server ks) = []"
  "assoInfo (demo_server ks) = Some \<lparr>assoc_ip = bytes_of ''127.0.0.1'', assoc_port = 12345, assoc_stream = 0\<rparr>"
  "chat_ports 0 (demo_server ks)" "continuepoll (demo_server ks)"
  using server_new_ports [of quiet_os "bytes_of ''127.0.0.1''" CHAT_PORT "console_of ks"]
  by (simp_all add: demo_server_def chat_ports_def quiet_os_def)
    (simp_all add: server_new_def sock_op_new_def SetSocketOpt_def Bind_def RegisterFd_def chat_new_def
      sys_def emit_def chat.extend_def Let_def)

lemma console_of_fields [simp]: "cin_ok (console_of ks)" "cin_buf (console_of ks) = []" "pending (console_of ks) = ks"
  by (simp_all add: console_of_def)

lemma peer_info_from_peer [simp]: "from_peer peer_info"
  by (simp add: from_peer_def peer_info_def)

lemma chat_exchange_witness:
  "\<exists>c1 s1 s2 c2. client_read_cmd quiet_os (client_send_msg quiet_os) (demo_client [[49, 10], [49, 10], [104, 105, 10]]) = Inr c1
    \<and> forE (server_call quiet_os OnSocket 0) (deliveries peer_info (\<lambda>_. 2) (sends c1)) (demo_server [[49, 10], [111, 107, 10]]) = Inr s1
    \<and> shown s1 = map (\<lambda>n. seen peer_info 1 (Some (2 + of_nat n)) ([104, 105] @ decimal n)) [0..<5]
    \<and> server_read_cmd quiet_os s1 = Inr s2
    \<and> client_call quiet_os (client_send_msg quiet_os) OnSocket 0 (delivered peer_info (last (sends s2))) c1 = Inr c2
    \<and> shown c2 = [seen peer_info 1 None [111, 107]]"
  using chat_exchange [of "demo_client [[49, 10], [49, 10], [104, 105, 10]]" "[104, 105]" "[]"
      "demo_server [[49, 10], [111, 107, 10]]" "[111, 107]" "[]" _ peer_info peer_info quiet_os quiet_os 0 "\<lambda>_. 2" 0]
  by (simp add: bytes_of_def plain_word_def is_space_def) blast

lemma association_first_witness:
  "server_start quiet_os [ChatReady (\<lambda>_. POLLIN) (delivered peer_info (to_server 0 (message_bytes quiet_os [104])))]
     (server_new quiet_os (bytes_of ''127.0.0.1'') CHAT_PORT (console_of [])) = Inl NullAccess"
  using association_first [of 0 "server_new quiet_os (bytes_of ''127.0.0.1'') CHAT_PORT (console_of [])" "\<lambda>_. POLLIN"
      peer_info "[104]" "to_server 0 (message_bytes quiet_os [104])" quiet_os quiet_os "[]"]
    server_new_ports [of quiet_os "bytes_of ''127.0.0.1''" CHAT_PORT "console_of []"]
  by (simp add: to_server_def POLLIN_def CHAT_BUFFER_def) (simp add: quiet_os_def)

lemma keyboard_waits_witness:
  "\<exists>t. server_start quiet_os (replicate 3 (ChatReady (\<lambda>_. POLLIN) (delivered peer_info (to_server 0 (message_bytes quiet_os [104])))))
      (demo_server [[48, 10]]) = server_start quiet_os [] t \<and> continuepoll t \<and> con t = console_of [[48, 10]]
    \<and> length (shown t) = 3"
proof -
  have "message_round 0 (ChatReady (\<lambda>_. POLLIN) (delivered peer_info (to_server 0 (message_bytes quiet_os [104]))))"
    unfolding message_round_def
    by (intro exI conjI, rule refl) (auto simp: to_server_def POLLIN_def CHAT_BUFFER_def intro!: exI [of _ "[104]"])
  then show ?thesis
    using keyboard_waits [of 0 "demo_server [[48, 10]]" "replicate 3 (ChatReady (\<lambda>_. POLLIN)
        (delivered peer_info (to_server 0 (message_bytes quiet_os [104]))))" quiet_os "[]"] by simp
qed

lemma no_number_aborts_witness:
  "\<exists>t. client_read_cmd quiet_os (client_send_msg quiet_os) (demo_client [[49, 10], [97, 10]]) = Inr t
    \<and> sends t = [to_server SCTP_ABORT (message_bytes quiet_os [])]"
  using no_number_aborts [of "demo_client [[49, 10], [97, 10]]" "[97]" "[]" quiet_os]
  by (auto simp: bytes_of_def plain_word_def is_space_def is_digit_def)

lemma ta_word_fits_witness:
  "client_read_cmd quiet_os (ta_send_msg quiet_os) (demo_client [[49, 10], [49, 10], replicate 513 104 @ [10]]) = Inl BadAccess"
  using ta_word_fits [of "demo_client [[49, 10], [49, 10], replicate 513 104 @ [10]]" "replicate 513 104" "[]" quiet_os]
  by (simp add: bytes_of_def plain_word_def is_space_def CHAT_BUFFER_def)

end
