(* ===== verification/Unix_Stream.thy ===== *)
theory Unix_Stream
  imports Posix Digits
begin

section \<open>Server and client over a UNIX stream socket (unixDomainSocket)\<close>

text \<open>
  The C programs of \<open>LinuxSocket/unixDomainSocket\<close>. A process has its open descriptors, \<open>errno\<close> and
  what it did on the network. The system answers its calls in their order: \<open>u_ret\<close> is the result of a
  call and \<open>u_errno\<close> the error if it fails.
\<close>

subsection \<open>Processes\<close>

record uenv =
  u_ret :: "nat \<Rightarrow> int"
  u_errno :: "nat \<Rightarrow> int"

record uproc =
  ncalls :: nat
  open_fds :: "int list"
  errno :: int
  did :: "effect list"

definition uproc_new :: uproc where
  "uproc_new = \<lparr>ncalls = 0, open_fds = [], errno = 0, did = []\<rparr>"

definition ucall :: "uenv \<Rightarrow> 'm uproc_scheme \<Rightarrow> int \<times> 'm uproc_scheme" where
  "ucall E s =
     (let r = u_ret E (ncalls s) in
      (r, s\<lparr>ncalls := Suc (ncalls s), errno := (if r < 0 then u_errno E (ncalls s) else errno s)\<rparr>))"

text \<open>A call that returns a new descriptor.\<close>

definition uopen :: "uenv \<Rightarrow> 'm uproc_scheme \<Rightarrow> int \<times> 'm uproc_scheme" where
  "uopen E s = (let (fd, s) = ucall E s in (fd, if fd < 0 then s else s\<lparr>open_fds := fd # open_fds s\<rparr>))"

definition uact :: "effect \<Rightarrow> 'm uproc_scheme \<Rightarrow> 'm uproc_scheme" where
  "uact x s = s\<lparr>did := did s @ [x]\<rparr>"

text \<open>\<open>close\<close> releases the descriptor even when it reports an error.\<close>

definition uclose :: "uenv \<Rightarrow> int \<Rightarrow> 'm uproc_scheme \<Rightarrow> 'm uproc_scheme" where
  "uclose E fd s = (let (r, s) = ucall E s in uact (Closed fd) (s\<lparr>open_fds := remove1 fd (open_fds s)\<rparr>))"

text \<open>The end of all three functions: the descriptor is closed, and \<open>errno\<close> is the one of the call that
  failed.\<close>

definition fail_close :: "uenv \<Rightarrow> int \<Rightarrow> int \<Rightarrow> 'm uproc_scheme \<Rightarrow> int \<times> 'm uproc_scheme" where
  "fail_close E fd rval s = (let err = errno s; s = uclose E fd s in (rval, s\<lparr>errno := err\<rparr>))"

subsection \<open>The server\<close>

definition SUN_PATH :: nat where "SUN_PATH = 108"

text \<open>\<open>strcpy\<close> into \<open>sun_path\<close>, which has 108 bytes.\<close>

definition copy_path :: "bytes \<Rightarrow> halt + bytes" where
  "copy_path name = bindE (guardE (length (c_str name) < SUN_PATH) BadAccess) (\<lambda>_. Inr (c_str name))"

definition unix_socket_listen :: "uenv \<Rightarrow> bytes \<Rightarrow> uproc \<Rightarrow> halt + (int \<times> uproc)" where
  "unix_socket_listen E servername s =
     (let (fd, s) = uopen E s in
      if fd < 0 then Inr (-1, s)
      else
        bindE (copy_path servername) (\<lambda>path.
          let (r, s) = ucall E s in
          if r < 0 then Inr (fail_close E fd (-2) s)
          else
            let s = uact (Bound fd path) s; (r, s) = ucall E s in
            if r < 0 then Inr (fail_close E fd (-3) s)
            else Inr (fd, uact (Listening fd) s)))"

text \<open>What \<open>accept\<close> says of the peer, and \<open>stat\<close> of the file it names. The length counts the two bytes of the
  family; \<open>sun_path[len]\<close> is written whatever it is.\<close>

record peer =
  addr_len :: int
  st_uid :: "32 word"
  is_sock :: bool

definition unix_socket_accept :: "uenv \<Rightarrow> peer \<Rightarrow> uproc \<Rightarrow> halt + (int \<times> 32 word option \<times> uproc)" where
  "unix_socket_accept E p s =
     (let (clifd, s) = uopen E s in
      if clifd < 0 then Inr (-1, None, s)
      else
        let len = addr_len p - 2 in
        bindE (guardE (0 \<le> len \<and> len < int SUN_PATH) BadAccess) (\<lambda>_.
          let (r, s) = ucall E s in
          if r < 0 then (let (rval, s) = fail_close E clifd (-2) s in Inr (rval, None, s))
          else if is_sock p then Inr (clifd, Some (st_uid p), s)
          else (let (rval, s) = fail_close E clifd (-3) s in Inr (rval, None, s))))"

definition unix_socket_close :: "uenv \<Rightarrow> int \<Rightarrow> uproc \<Rightarrow> uproc" where
  "unix_socket_close E fd s = uclose E fd s"

text \<open>
  The loop of \<open>main\<close>: \<open>None\<close> is a failed receive. The size and the first and last byte are printed,
  the last one as \<open>rvbuf[size-1]\<close>.
\<close>

fun receive_blocks :: "nat \<Rightarrow> bytes option list \<Rightarrow> (nat \<times> byte \<times> byte) list \<Rightarrow> halt + (nat \<times> byte \<times> byte) list" where
  "receive_blocks 0 rs out = Inr out"
| "receive_blocks (Suc n) [] out = Inl Blocked"
| "receive_blocks (Suc n) (None # rs) out = Inr out"
| "receive_blocks (Suc n) (Some d # rs) out =
     (let d = take 2047 d in
      if d = [] then Inl BadAccess else receive_blocks n rs (out @ [(length d, hd d, last d)]))"

definition unix_server_main :: "uenv \<Rightarrow> peer \<Rightarrow> bytes option list \<Rightarrow> uproc \<Rightarrow> halt + ((nat \<times> byte \<times> byte) list \<times> uproc)"
where
  "unix_server_main E p rs s =
     bindE (unix_socket_listen E (bytes_of ''foo.sock'') s) (\<lambda>(listenfd, s).
       if listenfd < 0 then Inr ([], s)
       else
         bindE (unix_socket_accept E p s) (\<lambda>(connfd, uid, s).
           let s = unix_socket_close E listenfd s in
           if connfd < 0 then Inr ([], s)
           else bindE (receive_blocks 2 rs []) (\<lambda>out. Inr (out, unix_socket_close E connfd s))))"

subsection \<open>The client\<close>

text \<open>\<open>%05d\<close> of the process id.\<close>

definition pad5 :: "nat \<Rightarrow> bytes" where
  "pad5 n = zero_pad 5 (decimal n)"

definition unix_socket_conn :: "uenv \<Rightarrow> nat \<Rightarrow> bytes \<Rightarrow> uproc \<Rightarrow> halt + (int \<times> uproc)" where
  "unix_socket_conn E pid servername s =
     (let (fd, s) = uopen E s in
      if fd < 0 then Inr (-1, s)
      else
        let own = bytes_of ''scktmp'' @ pad5 pid; (r, s) = ucall E s in
        if r < 0 then Inr (fail_close E fd (-2) s)
        else
          let s = uact (Bound fd own) s in
          bindE (copy_path servername) (\<lambda>path.
            let (r, s) = ucall E s in
            if r < 0 then Inr (fail_close E fd (-4) s)
            else Inr (fd, uact (Connected fd path) s)))"

definition client_block :: bytes where
  "client_block = replicate 2047 97 @ [98]"

text \<open>The results of \<open>send\<close>: the number of bytes taken.\<close>

fun send_loop :: "uenv \<Rightarrow> int \<Rightarrow> nat \<Rightarrow> uproc \<Rightarrow> uproc" where
  "send_loop E fd 0 s = s"
| "send_loop E fd (Suc n) s =
     (let (r, s) = ucall E s in
      if r = -1 then s
      else send_loop E fd n (if r \<ge> 0 then uact (Sent fd (take (nat r) client_block)) s else s))"

definition unix_client_main :: "uenv \<Rightarrow> nat \<Rightarrow> uproc \<Rightarrow> halt + uproc" where
  "unix_client_main E pid s =
     bindE (unix_socket_conn E pid (bytes_of ''foo.sock'') s) (\<lambda>(connfd, s).
       if connfd < 0 then Inr s
       else Inr (unix_socket_close E connfd (send_loop E connfd 10 s)))"

subsection \<open>Descriptors and errors\<close>

lemma ucall_simps [simp]:
  "fst (ucall E s) = u_ret E (ncalls s)" "ncalls (snd (ucall E s)) = Suc (ncalls s)"
  "open_fds (snd (ucall E s)) = open_fds s" "did (snd (ucall E s)) = did s"
  "errno (snd (ucall E s)) = (if u_ret E (ncalls s) < 0 then u_errno E (ncalls s) else errno s)"
  by (simp_all add: ucall_def Let_def)

lemma uact_simps [simp]:
  "ncalls (uact x s) = ncalls s" "open_fds (uact x s) = open_fds s" "errno (uact x s) = errno s"
  "did (uact x s) = did s @ [x]"
  by (simp_all add: uact_def)

lemma uclose_simps [simp]:
  "open_fds (uclose E fd s) = remove1 fd (open_fds s)" "did (uclose E fd s) = did s @ [Closed fd]"
  by (simp_all add: uclose_def case_prod_beta Let_def)

lemma fail_close_simps [simp]:
  "fst (fail_close E fd rval s) = rval" "open_fds (snd (fail_close E fd rval s)) = remove1 fd (open_fds s)"
  "errno (snd (fail_close E fd rval s)) = errno s"
  by (simp_all add: fail_close_def Let_def)

lemma uopen_simps [simp]:
  "fst (uopen E s) = u_ret E (ncalls s)" "ncalls (snd (uopen E s)) = Suc (ncalls s)"
  "open_fds (snd (uopen E s)) = (if u_ret E (ncalls s) < 0 then open_fds s else u_ret E (ncalls s) # open_fds s)"
  "errno (snd (uopen E s)) = (if u_ret E (ncalls s) < 0 then u_errno E (ncalls s) else errno s)"
  by (simp_all add: uopen_def case_prod_beta Let_def)

lemmas unix_defs = unix_socket_listen_def unix_socket_accept_def unix_socket_conn_def case_prod_beta Let_def

lemma fail_close_eq [simp]: "fail_close E fd rval s = (r, t) \<longleftrightarrow> r = rval \<and> t = snd (fail_close E fd rval s)"
  by (auto simp: fail_close_def Let_def)

text \<open>The contract of the three functions that return a descriptor: a result below zero is one of their codes
  and leaves no descriptor behind; any other result is the one new descriptor.\<close>

locale descriptor_opener =
  fixes opener :: "uenv \<Rightarrow> uproc \<Rightarrow> halt + (int \<times> uproc)"
    and codes :: "int set"
  assumes opened: "opener E s = Inr (r, t) \<Longrightarrow> r \<notin> codes \<Longrightarrow> 0 \<le> r \<and> open_fds t = r # open_fds s"
    and not_opened: "opener E s = Inr (r, t) \<Longrightarrow> r \<in> codes \<Longrightarrow> r < 0 \<and> open_fds t = open_fds s"
begin

lemma codes_iff: "opener E s = Inr (r, t) \<Longrightarrow> r < 0 \<longleftrightarrow> r \<in> codes"
  using opened not_opened by fastforce

lemma fds_after: "opener E s = Inr (r, t) \<Longrightarrow> open_fds t = (if r < 0 then open_fds s else r # open_fds s)"
  using opened not_opened codes_iff by fastforce

end

text \<open>For two of them \<open>errno\<close> is the error of the call the code stands for.\<close>

locale error_reporter = descriptor_opener +
  fixes failed_call :: "int \<Rightarrow> nat"
  assumes reported: "opener E s = Inr (r, t) \<Longrightarrow> r \<in> codes \<Longrightarrow> errno t = u_errno E (ncalls s + failed_call r)"
begin

lemma outcome:
  assumes "opener E s = Inr (r, t)"
  shows "0 \<le> r \<and> open_fds t = r # open_fds s
    \<or> r \<in> codes \<and> open_fds t = open_fds s \<and> errno t = u_errno E (ncalls s + failed_call r)"
  using opened [OF assms] not_opened [OF assms] reported [OF assms] by blast

end

interpretation listening: error_reporter "\<lambda>E. unix_socket_listen E name" "{-1, -2, -3}" "\<lambda>r. nat (- r - 1)"
  by unfold_locales (auto simp: unix_defs copy_path_def bindE_eq_Inr split: if_splits)

interpretation connecting: error_reporter "\<lambda>E. unix_socket_conn E pid name" "{-1, -2, -4}"
  "\<lambda>r. if r = -4 then 2 else nat (- r - 1)"
  by unfold_locales (auto simp: unix_defs copy_path_def bindE_eq_Inr split: if_splits)

definition accept_only :: "peer \<Rightarrow> uenv \<Rightarrow> uproc \<Rightarrow> halt + (int \<times> uproc)" where
  "accept_only p E s = bindE (unix_socket_accept E p s) (\<lambda>(r, uid, t). Inr (r, t))"

interpretation accepting: descriptor_opener "accept_only p" "{-1, -2, -3}"
  by unfold_locales (auto simp: accept_only_def unix_defs bindE_eq_Inr split: if_splits)

lemma accept_fds:
  "unix_socket_accept E p s = Inr (r, uid, t) \<Longrightarrow> open_fds t = (if r < 0 then open_fds s else r # open_fds s)"
  using accepting.fds_after [of p E s r t] by (simp add: accept_only_def)

subsection \<open>The two programs\<close>

text \<open>Whichever call fails, the server has closed what it opened when it ends.\<close>

text \<open>
  C19. Whatever its system calls return, if main of server.c returns, the descriptors that are open
  are those that were open before it.
\<close>

theorem server_closes_all:
  assumes "unix_server_main E p rs s = Inr (out, t)"
  shows "open_fds t = open_fds s"
proof -
  from assms obtain l u where l: "unix_socket_listen E (bytes_of ''foo.sock'') s = Inr (l, u)"
    by (auto simp: unix_server_main_def bindE_eq_Inr)
  show ?thesis
  proof (cases "l < 0")
    case True
    with assms l listening.fds_after [OF l] show ?thesis by (simp add: unix_server_main_def)
  next
    case False
    with assms l obtain c uid v where c: "unix_socket_accept E p u = Inr (c, uid, v)"
      by (auto simp: unix_server_main_def bindE_eq_Inr)
    from False listening.fds_after [OF l] accept_fds [OF c]
    have v: "open_fds (uclose E l v) = (if c < 0 then open_fds s else c # open_fds s)" by simp
    show ?thesis
      using assms l c False v by (cases "c < 0") (auto simp: unix_server_main_def unix_socket_close_def bindE_eq_Inr Let_def)
  qed
qed

theorem client_closes_all:
  assumes "unix_client_main E pid s = Inr t"
  shows "open_fds t = open_fds s"
proof -
  have loop: "open_fds (send_loop E fd n u) = open_fds u" for fd n u
    by (induction n arbitrary: u) (simp_all add: case_prod_beta Let_def)
  from assms obtain c u where "unix_socket_conn E pid (bytes_of ''foo.sock'') s = Inr (c, u)"
    "t = (if c < 0 then u else uclose E c (send_loop E c 10 u))"
    by (auto simp: unix_client_main_def unix_socket_close_def bindE_eq_Inr split: if_splits)
  with connecting.fds_after [of E pid _ s c u] show ?thesis by (simp add: loop)
qed

text \<open>When the server does not end so: it is waiting, or it reads in front of its buffer, because the
  client has closed the connection before the second message, or because of the length of the peer's address.\<close>

lemma receive_blocks_result:
  "receive_blocks n rs out =
     (let got = takeWhile (\<lambda>r. r \<noteq> None \<and> r \<noteq> Some []) (take n rs) in
      if length got = n \<or> length got < length rs \<and> rs ! length got = None
      then Inr (out @ map (\<lambda>r. let d = take 2047 (the r) in (length d, hd d, last d)) got)
      else if length got < length rs then Inl BadAccess else Inl Blocked)"
proof (induction n rs out rule: receive_blocks.induct)
  case (4 n d rs out)
  then show ?case by (cases "d = []") (auto simp: Let_def)
qed (simp_all add: Let_def)

theorem server_end_of_stream:
  assumes "unix_socket_listen E (bytes_of ''foo.sock'') s = Inr (l, u)" "0 \<le> l"
    and "unix_socket_accept E p u = Inr (c, uid, v)" "0 \<le> c"
  shows "unix_server_main E p rs s = Inl BadAccess \<longleftrightarrow>
    (\<exists>d rs'. rs = Some [] # rs' \<or> (d \<noteq> [] \<and> rs = Some d # Some [] # rs'))"
proof -
  have "unix_server_main E p rs s = Inl BadAccess \<longleftrightarrow> receive_blocks 2 rs [] = Inl BadAccess"
    using assms by (auto simp: unix_server_main_def bindE_eq_Inl)
  also have "\<dots> \<longleftrightarrow> (\<exists>d rs'. rs = Some [] # rs' \<or> (d \<noteq> [] \<and> rs = Some d # Some [] # rs'))"
  proof (cases rs)
    case Nil
    then show ?thesis by (simp add: numeral_2_eq_2)
  next
    case (Cons r rs1)
    show ?thesis
    proof (cases "r = None \<or> r = Some []")
      case True
      then show ?thesis by (auto simp: Cons numeral_2_eq_2)
    next
      case False
      then obtain d where d: "r = Some d" "d \<noteq> []" by auto
      show ?thesis
        by (cases rs1; cases "hd rs1") (auto simp: Cons d numeral_2_eq_2 Let_def)
    qed
  qed
  finally show ?thesis .
qed

text \<open>A path of 108 bytes, the longest there is, makes \<open>accept\<close> report a length for which the terminating NUL is written behind the array.\<close>

lemma accept_overruns:
  "unix_socket_accept E p s = Inl BadAccess \<longleftrightarrow> 0 \<le> u_ret E (ncalls s) \<and> (addr_len p < 2 \<or> 110 \<le> addr_len p)"
  by (auto simp: unix_defs bindE_eq_Inl SUN_PATH_def split: if_splits)

subsection \<open>Instances\<close>

definition demo_uenv :: uenv where
  "demo_uenv = \<lparr>u_ret = \<lambda>n. int n + 3, u_errno = \<lambda>n. int n\<rparr>"

definition demo_peer :: peer where
  "demo_peer = \<lparr>addr_len = 13, st_uid = 1000, is_sock = True\<rparr>"

lemma foo_sock: "copy_path (bytes_of ''foo.sock'') = Inr (bytes_of ''foo.sock'')"
  by (simp add: copy_path_def c_str_def bytes_of_def SUN_PATH_def)

lemmas demo_unix_simps = demo_uenv_def demo_peer_def unix_server_main_def unix_client_main_def unix_defs foo_sock
  ucall_def uopen_def uact_def uclose_def unix_socket_close_def uproc_new_def SUN_PATH_def

lemma server_closes_all_witness:
  "\<exists>out t. unix_server_main demo_uenv demo_peer [Some [97, 98], Some [99]] uproc_new = Inr (out, t)
    \<and> out = [(2, 97, 98), (1, 99, 99)] \<and> open_fds t = []"
proof -
  have "receive_blocks 2 [Some [97, 98], Some [99]] [] = Inr [(2, 97, 98), (1, 99, 99)]"
    by (simp add: numeral_2_eq_2)
  then obtain out t where t: "unix_server_main demo_uenv demo_peer [Some [97, 98], Some [99]] uproc_new = Inr (out, t)"
    "out = [(2, 97, 98), (1, 99, 99)]"
    by (simp add: demo_unix_simps)
  with server_closes_all [OF t(1)] show ?thesis by (simp add: uproc_new_def)
qed

lemma client_closes_all_witness:
  "\<exists>t. unix_client_main demo_uenv 77 uproc_new = Inr t \<and> open_fds t = []"
proof -
  obtain t where t: "unix_client_main demo_uenv 77 uproc_new = Inr t"
    by (simp add: demo_unix_simps)
  with client_closes_all [OF t] show ?thesis by (simp add: uproc_new_def)
qed

lemma server_end_of_stream_witness:
  "unix_server_main demo_uenv demo_peer [Some [97], Some []] uproc_new = Inl BadAccess"
proof -
  obtain u where u: "unix_socket_listen demo_uenv (bytes_of ''foo.sock'') uproc_new = Inr (3, u)" "ncalls u = 3"
    by (simp add: demo_unix_simps)
  obtain uid v where v: "unix_socket_accept demo_uenv demo_peer u = Inr (6, uid, v)"
    using u(2) by (simp add: demo_unix_simps)
  show ?thesis
    using server_end_of_stream [OF u(1) _ v] by simp
qed

end
