(* ===== verification/Sctp_Text.thy ===== *)
theory Sctp_Text
  imports Unix_Stream
begin

section \<open>Text over SCTP (one_client_one_server, multi_client_one_server)\<close>

text \<open>
  The C programs of two directories of \<open>LinuxSocket/sctp_socket\<close> (those of \<open>io_multiplex\<close> are the same files
  as the first). A client sends the line it is given; the server prints what it receives with \<open>%s\<close>. The
  names \<open>one_\<close> and \<open>multi_\<close> tell the two directories apart. \<open>gets\<close> yields a line or the end of the input.
  The servers never leave their loops: a run lists what happens to them.
\<close>

subsection \<open>The server of one client at a time\<close>

definition TEXT_BUFFER :: nat where "TEXT_BUFFER = 1024"

definition one_socket :: "uenv \<Rightarrow> uproc \<Rightarrow> int \<times> uproc" where
  "one_socket E s = uopen E s"

definition one_bind :: "uenv \<Rightarrow> int \<Rightarrow> uproc \<Rightarrow> uproc" where
  "one_bind E fd s =
     (let (r, s) = ucall E s in if r = -1 then s else uact (SctpBound fd (bytes_of ''0.0.0.0'') 18002) s)"

definition one_set_socket_opt :: "uenv \<Rightarrow> uproc \<Rightarrow> int \<times> uproc" where
  "one_set_socket_opt E s = (let (r, s) = ucall E s in (if r \<noteq> 0 then 0 else 1, s))"

definition one_listen :: "uenv \<Rightarrow> int \<Rightarrow> uproc \<Rightarrow> uproc" where
  "one_listen E fd s = (let (r, s) = ucall E s in if r < 0 then s else uact (Listening fd) s)"

definition one_accept :: "uenv \<Rightarrow> uproc \<Rightarrow> int \<times> uproc" where
  "one_accept E s = uopen E s"

definition one_close :: "uenv \<Rightarrow> int \<Rightarrow> uproc \<Rightarrow> uproc" where
  "one_close E fd s = uclose E fd s"

text \<open>
  \<open>readbuf\<close> keeps what earlier messages left in it, and \<open>%s\<close> prints it up to its first NUL. The results
  of \<open>sctp_recvmsg\<close> are \<open>None\<close> for an error and no bytes for the end of the association.
\<close>

fun sctp_recev_msg :: "bytes \<Rightarrow> bytes option list \<Rightarrow> (nat \<times> bytes) list \<Rightarrow> halt + (nat \<times> bytes) list" where
  "sctp_recev_msg readbuf [] out = Inl Blocked"
| "sctp_recev_msg readbuf (None # rs) out = Inr out"
| "sctp_recev_msg readbuf (Some d # rs) out =
     (let d = take (Suc TEXT_BUFFER) d; readbuf = d @ drop (length d) readbuf in
      if d = [] then Inr out
      else
        bindE (guardE (\<not> nul_free readbuf) BadAccess) (\<lambda>_.
          sctp_recev_msg readbuf rs (out @ [(length d, c_str readbuf)])))"

text \<open>What is in the memory of \<open>readbuf\<close> when it is called for the \<open>n\<close>-th time.\<close>

type_synonym stack = "nat \<Rightarrow> bytes"

fun one_server_loop :: "uenv \<Rightarrow> stack \<Rightarrow> nat \<Rightarrow> bytes option list list \<Rightarrow> uproc
    \<Rightarrow> (nat \<times> bytes) list list \<Rightarrow> halt + ((nat \<times> bytes) list list \<times> uproc)" where
  "one_server_loop E mem n [] s outs = Inr (outs, s)"
| "one_server_loop E mem n (rs # rss) s outs =
     (let (conn, s) = one_accept E s in
      bindE (sctp_recev_msg (mem n) (if conn < 0 then [None] else rs) []) (\<lambda>out.
        one_server_loop E mem (Suc n) rss (one_close E conn s) (outs @ [out])))"

definition one_server_start :: "uenv \<Rightarrow> uproc \<Rightarrow> int \<times> uproc" where
  "one_server_start E s =
     (let (fd, s) = one_socket E s;
          s = one_bind E fd s;
          (r, s) = one_set_socket_opt E s
      in (fd, one_listen E fd s))"

definition one_server_main :: "uenv \<Rightarrow> stack \<Rightarrow> bytes option list list \<Rightarrow> halt + ((nat \<times> bytes) list list \<times> uproc)" where
  "one_server_main E mem rss = one_server_loop E mem 0 rss (snd (one_server_start E uproc_new)) []"

subsection \<open>Its client\<close>

text \<open>\<open>gets\<close> into an array of 20 bytes.\<close>

definition gets20 :: "bytes \<Rightarrow> halt + bytes" where
  "gets20 l = bindE (guardE (length l < 20) BadAccess) (\<lambda>_. Inr l)"

text \<open>The sockets' options are set one after the other; the second call is not made if the first fails.\<close>

definition one_client_opt :: "uenv \<Rightarrow> uproc \<Rightarrow> uproc" where
  "one_client_opt E s = (let (r, s) = ucall E s in if r \<noteq> 0 then s else snd (ucall E s))"

definition one_connect :: "uenv \<Rightarrow> int \<Rightarrow> uproc \<Rightarrow> uproc" where
  "one_connect E fd s =
     (let (r, s) = ucall E s in if r = -1 then s else uact (SctpConnected fd (bytes_of ''127.0.0.1'') 18002) s)"

definition one_send_msg :: "uenv \<Rightarrow> int \<Rightarrow> bytes option \<Rightarrow> uproc \<Rightarrow> halt + uproc" where
  "one_send_msg E fd l s =
     (case l of
        None \<Rightarrow> Inr s
      | Some l \<Rightarrow>
          bindE (gets20 l) (\<lambda>buf.
            let (r, s) = ucall E s in Inr (if r < 0 then s else uact (SctpSent fd 1 (c_str buf)) s)))"

text \<open>Without a line the socket is not closed.\<close>

definition one_client_close :: "uenv \<Rightarrow> int \<Rightarrow> bytes option \<Rightarrow> uproc \<Rightarrow> halt + uproc" where
  "one_client_close E fd l s =
     (case l of
        None \<Rightarrow> Inr s
      | Some l \<Rightarrow> bindE (gets20 l) (\<lambda>_. Inr (uclose E fd s)))"

definition one_client_main :: "uenv \<Rightarrow> bytes option \<Rightarrow> bytes option \<Rightarrow> halt + uproc" where
  "one_client_main E l1 l2 =
     (let (fd, s) = uopen E uproc_new in
      bindE (one_send_msg E fd l1 (one_connect E fd (one_client_opt E s))) (one_client_close E fd l2))"

subsection \<open>Many clients\<close>

text \<open>The server of many clients receives from the listening socket, and closes it after every end or error.\<close>

definition multi_socket :: "uenv \<Rightarrow> uproc \<Rightarrow> int \<times> uproc" where
  "multi_socket E s = uopen E s"

fun multi_server_loop :: "uenv \<Rightarrow> stack \<Rightarrow> int \<Rightarrow> nat \<Rightarrow> bytes option list list \<Rightarrow> uproc
    \<Rightarrow> (nat \<times> bytes) list list \<Rightarrow> halt + ((nat \<times> bytes) list list \<times> uproc)" where
  "multi_server_loop E mem fd n [] s outs = Inr (outs, s)"
| "multi_server_loop E mem fd n (rs # rss) s outs =
     bindE (sctp_recev_msg (mem n) (if fd \<notin> set (open_fds s) then [None] else rs) []) (\<lambda>out.
       multi_server_loop E mem fd (Suc n) rss (one_close E fd s) (outs @ [out]))"

definition multi_server_main :: "uenv \<Rightarrow> stack \<Rightarrow> bytes option list list \<Rightarrow> halt + ((nat \<times> bytes) list list \<times> uproc)" where
  "multi_server_main E mem rss =
     (let (fd, s) = multi_socket E uproc_new;
          s = one_bind E fd s;
          (r, s) = one_set_socket_opt E s
      in multi_server_loop E mem fd 0 rss (one_listen E fd s) [])"

text \<open>Its client sends the whole array: the line, its NUL and what is behind them in memory.\<close>

definition multi_send_msg :: "uenv \<Rightarrow> bytes \<Rightarrow> int \<Rightarrow> bytes option \<Rightarrow> uproc \<Rightarrow> halt + uproc" where
  "multi_send_msg E mem fd l s =
     (case l of
        None \<Rightarrow> Inr s
      | Some l \<Rightarrow>
          bindE (gets20 l) (\<lambda>buf.
            let (r, s) = ucall E s
            in Inr (if r < 0 then s else uact (SctpSent fd 1 (take 20 (buf @ 0 # drop (Suc (length buf)) mem))) s)))"

definition multi_client_main :: "uenv \<Rightarrow> bytes \<Rightarrow> bytes option \<Rightarrow> bytes option \<Rightarrow> halt + uproc" where
  "multi_client_main E mem l1 l2 =
     (let (fd, s) = multi_socket E uproc_new in
      bindE (multi_send_msg E mem fd l1 (one_client_opt E s)) (one_client_close E fd l2))"

subsection \<open>What the servers print\<close>

lemma c_str_append: "nul_free w \<Longrightarrow> c_str (w @ v) = w @ c_str v"
  by (induction w) (simp_all add: c_str_Cons)

lemma nul_free_append [simp]: "nul_free (v @ w) \<longleftrightarrow> nul_free v \<and> nul_free w"
  by (auto simp: nul_free_def)

text \<open>A message without a NUL is printed with what the buffer held behind it: a shorter one shows the tail of
  the one before.\<close>

theorem shorter_message_shows_tail:
  assumes "w1 \<noteq> []" "w2 \<noteq> []" "nul_free w1" "nul_free w2" "length w2 \<le> length w1" "length w1 \<le> Suc TEXT_BUFFER"
    and "\<not> nul_free (drop (length w1) buf)"
  shows "sctp_recev_msg buf (Some w1 # Some w2 # rs) out =
    (let t1 = w1 @ c_str (drop (length w1) buf);
         t2 = w2 @ drop (length w2) t1
     in sctp_recev_msg (w2 @ drop (length w2) (w1 @ drop (length w1) buf)) rs
          (out @ [(length w1, t1), (length w2, t2)]))"
proof -
  have "c_str (drop (length w2) w1 @ drop (length w1) buf) = drop (length w2) w1 @ c_str (drop (length w1) buf)"
    using assms(3) by (intro c_str_append) (auto simp: nul_free_def dest: in_set_dropD)
  then show ?thesis
    using assms by (simp add: c_str_append Let_def)
qed

text \<open>A message that brings its NUL along is printed as it was typed, whatever the buffer holds.\<close>

lemma nul_ended_message:
  assumes "nul_free w" "length w < 20" "length (w @ 0 # v) = 20"
  shows "sctp_recev_msg buf (Some (w @ 0 # v) # rs) out
    = sctp_recev_msg (w @ 0 # v @ drop 20 buf) rs (out @ [(20, w)])"
proof -
  have "take (Suc TEXT_BUFFER) (w @ 0 # v) = w @ 0 # v"
    using assms(3) by (intro take_all) (simp add: TEXT_BUFFER_def)
  then show ?thesis
    using assms by (simp add: c_str_append c_str_Cons Let_def)
qed

theorem multi_client_text_arrives:
  assumes "nul_free l" "length l < 20" "length mem = 20" "0 \<le> u_ret E 0" "0 = u_ret E 1" "0 = u_ret E 2" "0 \<le> u_ret E 3"
  shows "\<exists>s d buf'. multi_client_main E mem (Some l) None = Inr s \<and> last (did s) = SctpSent (u_ret E 0) 1 d
    \<and> sctp_recev_msg buf (Some d # rs) out = sctp_recev_msg buf' rs (out @ [(20, l)])"
proof -
  have "multi_client_main E mem (Some l) None = Inr (let s = one_client_opt E (snd (uopen E uproc_new))
      in uact (SctpSent (u_ret E 0) 1 (take 20 (l @ 0 # drop (Suc (length l)) mem))) (snd (ucall E s)))"
    using assms by (simp add: multi_client_main_def multi_socket_def multi_send_msg_def gets20_def one_client_close_def
      one_client_opt_def uproc_new_def ucall_def uopen_def Let_def eval_nat_numeral)
  moreover have "take 20 (l @ 0 # drop (Suc (length l)) mem) = l @ 0 # drop (Suc (length l)) mem"
    using assms(2,3) by simp
  moreover have "sctp_recev_msg buf (Some (l @ 0 # drop (Suc (length l)) mem) # rs) out
      = sctp_recev_msg (l @ 0 # drop (Suc (length l)) mem @ drop 20 buf) rs (out @ [(20, l)])"
    by (rule nul_ended_message) (use assms(1-3) in simp_all)
  ultimately show ?thesis by (simp del: sctp_recev_msg.simps take_append add: Let_def) blast
qed

subsection \<open>Runs\<close>

text \<open>Once the server of many clients has seen the end of one association, or an error, its socket is closed: nobody's
  message is printed any more.\<close>

lemma multi_closed:
  "fd \<notin> set (open_fds s) \<Longrightarrow> \<exists>t. multi_server_loop E mem fd n rss s outs = Inr (outs @ replicate (length rss) [], t)"
proof (induction rss arbitrary: n s outs)
  case (Cons rs rss)
  from Cons.prems have "fd \<notin> set (open_fds (one_close E fd s))"
    by (auto simp: one_close_def dest: notin_set_remove1)
  from Cons.IH [OF this, of "Suc n" "outs @ [[]]"] Cons.prems show ?case by simp
qed simp

theorem multi_server_closes_for_good:
  assumes "multi_server_main E mem (rs # rss) = Inr (outs, t)"
  shows "\<exists>out. outs = out # replicate (length rss) []"
proof -
  let ?fd = "fst (multi_socket E uproc_new)"
  let ?s = "one_listen E ?fd (snd (one_set_socket_opt E (one_bind E ?fd (snd (multi_socket E uproc_new)))))"
  have fds: "open_fds ?s = (if u_ret E 0 < 0 then [] else [u_ret E 0])"
    by (auto simp: one_listen_def one_set_socket_opt_def one_bind_def multi_socket_def uproc_new_def ucall_def
        uopen_def uact_def Let_def)
  then have "?fd \<notin> set (open_fds (one_close E ?fd ?s))"
    by (auto simp: one_close_def multi_socket_def uproc_new_def)
  note closed = multi_closed [OF this, of E mem 1 rss]
  from assms obtain out where "multi_server_loop E mem ?fd 1 rss (one_close E ?fd ?s) [out] = Inr (outs, t)"
    by (auto simp: multi_server_main_def case_prod_beta Let_def bindE_eq_Inr)
  with closed [of "[out]"] show ?thesis by auto
qed

text \<open>The server of one client goes on with the next, as long as connections are accepted, and closes each.\<close>

theorem one_server_serves_each:
  assumes "\<forall>k. 0 \<le> u_ret E k" "length outs = length rss"
    and "\<forall>i < length rss. sctp_recev_msg (mem i) (rss ! i) [] = Inr (outs ! i)"
  shows "\<exists>t. one_server_main E mem rss = Inr (outs, t) \<and> open_fds t = [u_ret E 0]
    \<and> length (filter (\<lambda>x. \<exists>fd. x = Closed fd) (did t)) = length rss"
proof -
  have ok: "\<not> u_ret E k < 0" for k using assms(1) by (simp add: not_less)
  let ?closed = "\<lambda>s. length (filter (\<lambda>x. \<exists>fd. x = Closed fd) (did s))"
  have run: "\<exists>t. one_server_loop E mem n rss s outs0 = Inr (outs0 @ outs, t) \<and> open_fds t = open_fds s
      \<and> ?closed t = ?closed s + length rss"
    if "\<forall>i < length rss. sctp_recev_msg (mem (n + i)) (rss ! i) [] = Inr (outs ! i)" "length outs = length rss"
    for n rss s outs outs0
    using that
  proof (induction rss arbitrary: n s outs outs0)
    case (Cons rs rss)
    then obtain out outs' where outs: "outs = out # outs'" by (cases outs) auto
    let ?s = "one_close E (u_ret E (ncalls s)) (snd (one_accept E s))"
    have "sctp_recev_msg (mem n) rs [] = Inr out"
      using Cons.prems(1) outs by force
    moreover have "\<forall>i < length rss. sctp_recev_msg (mem (Suc n + i)) (rss ! i) [] = Inr (outs' ! i)"
      using Cons.prems(1) outs by force
    from Cons.IH [OF this, of ?s "outs0 @ [out]"] outs Cons.prems(2) obtain t where
      "one_server_loop E mem (Suc n) rss ?s (outs0 @ [out]) = Inr (outs0 @ outs, t)" "open_fds t = open_fds ?s"
      "?closed t = ?closed ?s + length rss" by auto
    moreover have "open_fds ?s = open_fds s" "?closed ?s = Suc (?closed s)"
      by (simp_all add: one_close_def one_accept_def uopen_def case_prod_beta Let_def ok)
    ultimately show ?case
      by (simp add: one_accept_def case_prod_beta ok)
  qed simp
  have "open_fds (snd (one_server_start E uproc_new)) = [u_ret E 0]"
    "?closed (snd (one_server_start E uproc_new)) = 0"
    by (auto simp: one_server_start_def one_listen_def one_set_socket_opt_def one_bind_def one_socket_def
        uproc_new_def ucall_def uopen_def uact_def Let_def ok)
  with run [of rss 0 outs "snd (one_server_start E uproc_new)" "[]"] assms(2,3) show ?thesis
    by (simp add: one_server_main_def)
qed

subsection \<open>Instances\<close>

definition text_env :: uenv where
  "text_env = \<lparr>u_ret = \<lambda>n. if n = 0 then 3 else 0, u_errno = \<lambda>_. 0\<rparr>"

lemma shorter_message_shows_tail_witness:
  "sctp_recev_msg [0, 0, 0, 0, 0] [Some [97, 98, 99], Some [120], None] [] = Inr [(3, [97, 98, 99]), (1, [120, 98, 99])]"
proof -
  have "length [97, 98, 99 :: byte] \<le> Suc TEXT_BUFFER" by (simp add: TEXT_BUFFER_def)
  from shorter_message_shows_tail [OF _ _ _ _ _ this, of "[120]" "[0, 0, 0, 0, 0]" "[None]" "[]"] show ?thesis
    by (simp add: c_str_Cons del: sctp_recev_msg.simps(3))
qed

lemma multi_client_text_arrives_witness:
  "\<exists>s d. multi_client_main text_env (replicate 20 7) (Some [104, 105]) None = Inr s \<and> last (did s) = SctpSent 3 1 d
    \<and> sctp_recev_msg [9] [Some d, None] [] = Inr [(20, [104, 105])]"
proof -
  have "\<exists>s d buf'. multi_client_main text_env (replicate 20 7) (Some [104, 105]) None = Inr s
      \<and> last (did s) = SctpSent (u_ret text_env 0) 1 d
      \<and> sctp_recev_msg [9] (Some d # [None]) [] = sctp_recev_msg buf' [None] ([] @ [(20, [104, 105])])"
    by (rule multi_client_text_arrives) (simp_all add: text_env_def)
  then show ?thesis
    by (simp add: text_env_def del: sctp_recev_msg.simps(3))
qed

lemma multi_server_closes_for_good_witness:
  "\<exists>out t. multi_server_main text_env (\<lambda>_. [0]) [[None], [Some [65], None]] = Inr ([out, []], t)"
proof -
  obtain outs t where r: "multi_server_main text_env (\<lambda>_. [0]) [[None], [Some [65], None]] = Inr (outs, t)"
    by (simp add: multi_server_main_def multi_socket_def one_bind_def one_set_socket_opt_def one_listen_def one_close_def
        text_env_def uopen_def ucall_def uact_def uclose_def uproc_new_def Let_def)
  from multi_server_closes_for_good [OF r] r show ?thesis by auto
qed

lemma one_server_serves_each_witness:
  "\<exists>t. one_server_main text_env (\<lambda>_. [0]) [[None], [Some []]] = Inr ([[], []], t) \<and> open_fds t = [3]"
proof -
  have "\<forall>k. 0 \<le> u_ret text_env k" "u_ret text_env 0 = 3" by (simp_all add: text_env_def)
  then show ?thesis
    using one_server_serves_each [of text_env "[[], []]" "[[None], [Some []]]" "\<lambda>_. [0]"]
    by (auto simp: nth_Cons' less_Suc_eq)
qed

end
