(* ===== verification/Sctp_Notify.thy ===== *)
theory Sctp_Notify
  imports Sctp Digits
begin

section \<open>The printer of notifications (sctpnotification.c)\<close>

text \<open>
  \<open>PrintSctpNotification\<close> of \<open>LinuxSocket/sctp_socket/backup/sctpnotification.c\<close> (the same file is in the
  other directories of C programs): the text it prints for a notification, given as the bytes of the union
  \<open>sctp_notification\<close>. Members are read at the offsets of Linux' \<open>sctp.h\<close>. \<open>inet_ntop\<close> is a parameter:
  the text for a family and the bytes of an address.
\<close>

subsection \<open>Numbers in text\<close>

text \<open>\<open>%x\<close>.\<close>

definition hex_text :: "nat \<Rightarrow> bytes" where
  "hex_text n = hex_with hex_digit n"

definition quoted :: "bytes \<Rightarrow> bytes" where
  "quoted t = 39 # t @ [39]"

subsection \<open>Members of the union\<close>

definition le32_at :: "nat \<Rightarrow> bytes \<Rightarrow> 32 word" where
  "le32_at k v = of_le32 (drop k v)"

definition hex32 :: "nat \<Rightarrow> bytes \<Rightarrow> bytes" where
  "hex32 k v = hex_text (unat (le32_at k v))"

subsection \<open>The functions\<close>

definition assoc_state_text :: "16 word \<Rightarrow> bytes" where
  "assoc_state_text st =
     (if st = SCTP_COMM_UP then bytes_of ''COMMUNICATION UP''
      else if st = 1 then bytes_of ''COMMUNICATION LOST''
      else if st = 2 then bytes_of ''SCTP RESTART''
      else if st = SCTP_SHUTDOWN_COMP then bytes_of ''SHUTDOWN COMPLETE''
      else if st = 4 then bytes_of ''CAN'' @ [39] @ bytes_of ''T START ASSOCIATION''
      else bytes_of ''UNKOWN'')"

definition print_assoc_change :: "bytes \<Rightarrow> bytes" where
  "print_assoc_change v =
     bytes_of ''[Notification]: SCTP_ASSOC_CHANGE: '' @ quoted (assoc_state_text (sac_state v))
     @ bytes_of '' received with assoc id = 0x'' @ hex32 16 v @ [10]"

text \<open>The state is the \<open>int\<close> behind the \<open>sockaddr_storage\<close> of 128 bytes at offset 8.\<close>

definition spc_state :: "bytes \<Rightarrow> 32 word" where "spc_state v = le32_at 136 v"

definition addr_state_text :: "32 word \<Rightarrow> bytes" where
  "addr_state_text st =
     (if st = 0 then bytes_of ''ADDRESS AVAILABLE''
      else if st = 1 then bytes_of ''ADDRESS UNREACHABLE''
      else if st = 2 then bytes_of ''ADDRESS REMOVED''
      else if st = 3 then bytes_of ''ADDRESS ADDED''
      else if st = 4 then bytes_of ''ADDRESS PRIMARY''
      else if st = 5 then bytes_of ''ADDRESS CONFIRMED''
      else bytes_of ''UNKNOWN'')"

definition print_peer_addr_change :: "(int \<Rightarrow> bytes \<Rightarrow> bytes) \<Rightarrow> bytes \<Rightarrow> bytes" where
  "print_peer_addr_change ntop v =
     (if spc_state v \<le> 5 then []
      else bytes_of ''[Notification]: UNKNOWN state = 0x'' @ hex32 136 v @ [10])
     @ bytes_of ''[Notification]: ip = ''
     @ (if uint (le16_at 8 v) = AF_INET then ntop AF_INET (take 4 (drop 12 v)) else ntop 10 (take 16 (drop 16 v)))
     @ [10] @ bytes_of ''[Notification]: SCTP_PEER_ADDR_CHANGE: '' @ quoted (addr_state_text (spc_state v))
     @ bytes_of '' received with assoc id = 0x'' @ hex32 144 v @ [10]"

definition print_remote_error :: "bytes \<Rightarrow> bytes" where
  "print_remote_error v =
     bytes_of ''[Notification]: SCTP_REMOTE_ERROR received with assoc id = 0x'' @ hex32 12 v
     @ bytes_of '' error= '' @ dec_text (uint (le16_at 8 v)) @ bytes_of ''!'' @ [10]"

definition print_send_failed :: "bytes \<Rightarrow> bytes" where
  "print_send_failed v =
     bytes_of ''[Notification]: SCTP_SEND_FAILED received with assoc id = 0x'' @ hex32 44 v
     @ bytes_of '' error = '' @ dec_text (sint (le32_at 8 v)) @ bytes_of '' !'' @ [10]"

definition print_adaption_indication :: "bytes \<Rightarrow> bytes" where
  "print_adaption_indication v =
     bytes_of ''[Notification]: SCTP_ADAPTION_INDICATION: 0x'' @ hex32 8 v @ bytes_of '' received!'' @ [10]"

text \<open>Neither line ends.\<close>

definition print_partial_delivery_event :: "bytes \<Rightarrow> bytes" where
  "print_partial_delivery_event v =
     (if le32_at 8 v = 0 then bytes_of ''[Notification]: SCPT_PARTIAL_DELIVERY_ABORTED!''
      else bytes_of ''[Notification]: Unkown SCPT_PARTIAL_DELIVERY_EVENT!'')"

definition print_shutdown_event :: "bytes \<Rightarrow> bytes" where
  "print_shutdown_event v = bytes_of ''[Notification]: SCTP_SHUTDOWN_EVENT: assoc id = 0x'' @ hex32 8 v @ [10]"

definition print_authentication_indication :: "bytes \<Rightarrow> bytes" where
  "print_authentication_indication v =
     bytes_of ''[Notification]: SCTP_AUTHENTICATION_INDICATION: assoc id = 0x'' @ hex32 16 v @ [10]"

definition print_sender_dry_event :: "bytes \<Rightarrow> bytes" where
  "print_sender_dry_event v =
     bytes_of ''[Notification]: SCTP_SENDER_DRY_EVENT: assoc id = 0x'' @ hex32 8 v @ [10]"

definition print_sctp_notification :: "(int \<Rightarrow> bytes \<Rightarrow> bytes) \<Rightarrow> bytes \<Rightarrow> bytes" where
  "print_sctp_notification ntop v =
     (if sn_type v = SCTP_ASSOC_CHANGE then print_assoc_change v
      else if sn_type v = 0x8002 then print_peer_addr_change ntop v
      else if sn_type v = 0x8004 then print_remote_error v
      else if sn_type v = 0x8005 then print_shutdown_event v
      else if sn_type v = 0x8003 then print_send_failed v
      else if sn_type v = 0x8007 then print_adaption_indication v
      else if sn_type v = 0x8006 then print_partial_delivery_event v
      else if sn_type v = 0x8008 then print_authentication_indication v
      else if sn_type v = 0x8009 then print_sender_dry_event v
      else bytes_of ''[Notification Err]: Unkown event type = 0x'' @ hex_text (unat (sn_type v)) @ [10])"

subsection \<open>Numbers can be read back\<close>

lemma hex_text_inj: "hex_text m = hex_text n \<Longrightarrow> m = n"
  unfolding hex_text_def by (rule hex_with_inj [of hex_digit]) (auto intro!: inj_onI hex_digit_inj)

text \<open>Two changes of associations in the same state are printed alike only if they are of the same association.\<close>

lemma assoc_change_tells_associations:
  "sac_state v = sac_state w \<Longrightarrow> print_assoc_change v = print_assoc_change w \<longleftrightarrow> le32_at 16 v = le32_at 16 w"
  by (auto simp: print_assoc_change_def hex32_def word_unat_eq_iff [of "le32_at 16 v"] dest: hex_text_inj)

end
