(* ===== verification/Sctp_Echo.thy ===== *)
theory Sctp_Echo
  imports Unix_Stream Sctp_Notify
begin

section \<open>The echo server and its client (backup)\<close>

text \<open>
  \<open>sctpsrvr.c\<close> and \<open>sctpclnt.c\<close> of \<open>LinuxSocket/sctp_socket/backup\<close>: the server sends every message back on
  its stream, and closes when the fifth byte is a \<open>C\<close>; the client sends lines of the form \<open>[stream] text\<close>
  and prints what comes back. Notifications are printed by \<open>print_sctp_notification\<close>; the debugging output
  of the server is not modelled. \<open>mem\<close> is what the arrays hold before they are written.
\<close>

subsection \<open>State\<close>

record echo_info = sctp_info +
  sinfo_ppid :: "32 word"
  sinfo_flags :: "16 word"

text \<open>A message that \<open>sctp_recvmsg\<close> yields, or its failure; what \<open>poll\<close> says before it.\<close>

type_synonym echo_msg = "(bytes \<times> echo_info) option"

datatype echo_poll =
    EchoPollError
  | EchoPollTimeout
  | EchoPollOther
  | EchoPollIn echo_msg

text \<open>The arguments of \<open>sctp_sendmsg\<close>, the port in network order.\<close>

record echo_send =
  es_ip :: bytes
  es_port :: "16 word"
  es_ppid :: "32 word"
  es_flags :: "32 word"
  es_stream :: "16 word"
  es_data :: bytes

datatype echo_line = Notified bytes | Echoed bytes

record echo = uproc +
  echo_sent :: "echo_send list"
  echo_out :: "echo_line list"

definition echo_new :: echo where
  "echo_new = uproc.extend uproc_new \<lparr>echo_sent = [], echo_out = []\<rparr>"

definition ECHO_BUFFER :: nat where "ECHO_BUFFER = 1024"

type_synonym ntop = "int \<Rightarrow> bytes \<Rightarrow> bytes"

text \<open>An array of 1025 bytes, the first of which were received.\<close>

definition echo_buf :: "(nat \<Rightarrow> byte) \<Rightarrow> bytes \<Rightarrow> bytes" where
  "echo_buf mem d = (let d = take (Suc ECHO_BUFFER) d in d @ map mem [length d..<Suc ECHO_BUFFER])"

subsection \<open>The server\<close>

text \<open>The result zero ends the server. A failed receive is not the end.\<close>

definition sctp_msg_process :: "uenv \<Rightarrow> ntop \<Rightarrow> (nat \<Rightarrow> byte) \<Rightarrow> echo_msg \<Rightarrow> echo \<Rightarrow> bool \<times> echo" where
  "sctp_msg_process E ntop mem m s =
     (case m of
        None \<Rightarrow> (True, s)
      | Some (d, i) \<Rightarrow>
          let readbuf = echo_buf mem d; d = take (Suc ECHO_BUFFER) d in
          if msg_flags i AND MSG_NOTIFICATION \<noteq> 0 then
            (True, s\<lparr>echo_out := echo_out s @ [Notified (print_sctp_notification ntop readbuf)]\<rparr>)
          else
            let (ret, s) = ucall E s in
            if ret = -1 then (False, s)
            else
              let s = s\<lparr>echo_sent := echo_sent s @
                [\<lparr>es_ip = sin_addr i, es_port = sin_port i, es_ppid = sinfo_ppid i, es_flags = ucast (sinfo_flags i),
                  es_stream = sinfo_stream i, es_data = d\<rparr>]\<rparr>
              in (readbuf ! 4 \<noteq> of_char (CHR ''C''), s))"

fun echo_server_loop :: "uenv \<Rightarrow> ntop \<Rightarrow> (nat \<Rightarrow> byte) \<Rightarrow> int \<Rightarrow> echo_poll list \<Rightarrow> echo \<Rightarrow> bool \<times> echo" where
  "echo_server_loop E ntop mem fd [] s = (False, s)"
| "echo_server_loop E ntop mem fd (EchoPollIn m # ps) s =
     (let (go, s) = sctp_msg_process E ntop mem m s in
      if go then echo_server_loop E ntop mem fd ps s else (True, uclose E fd s))"
| "echo_server_loop E ntop mem fd (_ # ps) s = echo_server_loop E ntop mem fd ps s"

definition echo_bind :: "uenv \<Rightarrow> int \<Rightarrow> echo \<Rightarrow> echo" where
  "echo_bind E fd s =
     (let (r, s) = ucall E s in if r \<noteq> 0 then s else uact (SctpBound fd (bytes_of ''0.0.0.0'') 18002) s)"

definition echo_listen :: "uenv \<Rightarrow> int \<Rightarrow> echo \<Rightarrow> echo" where
  "echo_listen E fd s = (let (r, s) = ucall E s in if r < 0 then s else uact (Listening fd) s)"

text \<open>The flag says whether the server has ended.\<close>

definition echo_server_main :: "uenv \<Rightarrow> ntop \<Rightarrow> (nat \<Rightarrow> byte) \<Rightarrow> echo_poll list \<Rightarrow> bool \<times> echo" where
  "echo_server_main E ntop mem ps =
     (let (fd, s) = uopen E echo_new;
          s = snd (ucall E (echo_bind E fd s))
      in echo_server_loop E ntop mem fd ps (echo_listen E fd s))"

subsection \<open>The client\<close>

text \<open>\<open>strtol\<close> with base 0: spaces, a sign, a prefix and digits, as far as they go.\<close>

definition c_space :: "byte \<Rightarrow> bool" where
  "c_space b \<longleftrightarrow> b \<in> {32, 9, 10, 11, 12, 13}"

definition digit_value :: "byte \<Rightarrow> nat" where
  "digit_value b =
     (if 48 \<le> b \<and> b \<le> 57 then unat b - 48
      else if 97 \<le> b \<and> b \<le> 122 then unat b - 87
      else if 65 \<le> b \<and> b \<le> 90 then unat b - 55 else 99)"

definition digits_in :: "nat \<Rightarrow> bytes \<Rightarrow> nat" where
  "digits_in base bs = foldl (\<lambda>v b. base * v + digit_value b) 0 (takeWhile (\<lambda>b. digit_value b < base) bs)"

definition magnitude :: "bytes \<Rightarrow> nat" where
  "magnitude bs =
     (if take 1 bs = [48] \<and> (take 1 (drop 1 bs) = [120] \<or> take 1 (drop 1 bs) = [88])
         \<and> drop 2 bs \<noteq> [] \<and> digit_value (bs ! 2) < 16
      then digits_in 16 (drop 2 bs)
      else if take 1 bs = [48] then digits_in 8 bs
      else digits_in 10 bs)"

definition strtol0 :: "bytes \<Rightarrow> int" where
  "strtol0 t =
     (let bs = dropWhile c_space t in
      if take 1 bs = [45] then max (- (2 ^ 63)) (- int (magnitude (drop 1 bs)))
      else min (2 ^ 63 - 1) (int (magnitude (if take 1 bs = [43] then drop 1 bs else bs))))"

text \<open>
  \<open>recvline\<close> and \<open>msg_flags\<close> outlive the rounds of the loop: after a failed receive they are what they
  were. \<open>%.*s\<close> prints at most as many bytes as were received, and without a limit if the number is
  negative.
\<close>

fun poll_msg :: "ntop \<Rightarrow> bytes \<times> 32 word \<Rightarrow> echo_poll list \<Rightarrow> echo \<Rightarrow> halt + (echo_poll list \<times> echo)" where
  "poll_msg ntop b [] s = Inl Blocked"
| "poll_msg ntop b (EchoPollTimeout # ps) s = Inr (ps, s)"
| "poll_msg ntop b (EchoPollIn None # ps) s =
     (if snd b AND MSG_NOTIFICATION \<noteq> 0 then
        poll_msg ntop b ps (s\<lparr>echo_out := echo_out s @ [Notified (print_sctp_notification ntop (fst b))]\<rparr>)
      else
        bindE (guardE (\<not> nul_free (fst b)) BadAccess) (\<lambda>_.
          poll_msg ntop b ps (s\<lparr>echo_out := echo_out s @ [Echoed (c_str (fst b))]\<rparr>)))"
| "poll_msg ntop b (EchoPollIn (Some (d, i)) # ps) s =
     (let d = take (Suc ECHO_BUFFER) d; recvline = d @ drop (length d) (fst b) in
      poll_msg ntop (recvline, msg_flags i) ps
        (s\<lparr>echo_out := echo_out s @
           [if msg_flags i AND MSG_NOTIFICATION \<noteq> 0 then Notified (print_sctp_notification ntop recvline)
            else Echoed (c_str d)]\<rparr>))"
| "poll_msg ntop b (_ # ps) s = poll_msg ntop b ps s"

text \<open>The loop over what \<open>fgets\<close> reads; the contents of the two variables of \<open>poll_msg\<close> at its start are
  \<open>stale\<close>.\<close>

fun sctpstr_cli :: "uenv \<Rightarrow> ntop \<Rightarrow> bytes \<times> 32 word \<Rightarrow> bytes list \<Rightarrow> echo_poll list \<Rightarrow> echo \<Rightarrow> halt + echo" where
  "sctpstr_cli E ntop stale [] ps s = Inr s"
| "sctpstr_cli E ntop stale (l # ls) ps s =
     (if take 1 l = [of_char (CHR ''E'')] then Inr s
      else if take 1 l \<noteq> [of_char (CHR ''['')] then sctpstr_cli E ntop stale ls ps s
      else
        let (r, s) = ucall E s;
            stream = word_of_int (strtol0 (c_str (drop 1 l)));
            s = (if r < 0 then s
                 else s\<lparr>echo_sent := echo_sent s @ [\<lparr>es_ip = bytes_of ''127.0.0.1'', es_port = ntohs 18002, es_ppid = 0,
                   es_flags = 0, es_stream = stream, es_data = c_str l\<rparr>]\<rparr>)
        in bindE (poll_msg ntop stale ps s) (\<lambda>(ps, s). sctpstr_cli E ntop stale ls ps s))"

definition echo_client_opt :: "uenv \<Rightarrow> echo \<Rightarrow> echo" where
  "echo_client_opt E s = (let (r, s) = ucall E s in if r \<noteq> 0 then s else snd (ucall E s))"

definition echo_client_main :: "uenv \<Rightarrow> ntop \<Rightarrow> bytes \<times> 32 word \<Rightarrow> bytes list \<Rightarrow> echo_poll list \<Rightarrow> halt + echo" where
  "echo_client_main E ntop stale ls ps =
     (let (fd, s) = uopen E echo_new in
      bindE (sctpstr_cli E ntop stale ls ps (echo_client_opt E s)) (\<lambda>s. Inr (uclose E fd s)))"

subsection \<open>Echo\<close>

lemma ucall_more [simp]:
  "echo_sent (snd (ucall E s)) = echo_sent s" "echo_out (snd (ucall E s)) = echo_out s"
  by (simp_all add: ucall_def Let_def)

lemma echo_buf_nth: "n \<le> ECHO_BUFFER \<Longrightarrow> echo_buf mem d ! n = (if n < length d then d ! n else mem n)"
  by (auto simp: echo_buf_def nth_append Let_def min_def simp del: upt_Suc)

definition plain_echo :: "echo_info \<Rightarrow> bool" where
  "plain_echo i \<longleftrightarrow> msg_flags i AND MSG_NOTIFICATION = 0"

lemma server_echoes:
  assumes "plain_echo i" "length d \<le> ECHO_BUFFER" "u_ret E (ncalls s) \<noteq> -1"
  shows "\<exists>t. sctp_msg_process E ntop mem (Some (d, i)) s
      = ((if 4 < length d then d ! 4 else mem 4) \<noteq> of_char (CHR ''C''), t)
    \<and> echo_sent t = echo_sent s @ [\<lparr>es_ip = sin_addr i, es_port = sin_port i, es_ppid = sinfo_ppid i,
        es_flags = ucast (sinfo_flags i), es_stream = sinfo_stream i, es_data = d\<rparr>]"
  using assms echo_buf_nth [of 4 mem d]
  by (simp add: sctp_msg_process_def plain_echo_def case_prod_beta Let_def ECHO_BUFFER_def)

text \<open>A line typed at the client comes back as it was typed, on the stream it names.\<close>

theorem sctp_echo_round_trip:
  assumes "take 1 l = [of_char (CHR ''['')]" "nul_free l" "length l \<le> ECHO_BUFFER"
    and "0 \<le> u_ret E (ncalls c)" "u_ret E' (ncalls s) \<noteq> -1" "plain_echo i" "plain_echo j"
  shows "\<exists>m t n c'. echo_sent t = echo_sent s @ [n]
    \<and> es_data m = l \<and> es_stream m = word_of_int (strtol0 (tl l))
    \<and> snd (sctp_msg_process E' ntop' mem (Some (es_data m, i\<lparr>sinfo_stream := es_stream m\<rparr>)) s) = t
    \<and> es_stream n = es_stream m \<and> es_data n = es_data m
    \<and> sctpstr_cli E ntop stale (l # ls) (EchoPollIn (Some (es_data n, j)) # EchoPollTimeout # ps) c
        = sctpstr_cli E ntop stale ls ps c'
    \<and> echo_sent c' = echo_sent c @ [m] \<and> echo_out c' = echo_out c @ [Echoed l]"
proof -
  let ?m = "\<lparr>es_ip = bytes_of ''127.0.0.1'', es_port = ntohs 18002, es_ppid = 0, es_flags = 0,
    es_stream = word_of_int (strtol0 (tl l)), es_data = l\<rparr>"
  have l: "c_str l = l" "c_str (drop 1 l) = tl l" "take (Suc ECHO_BUFFER) l = l"
    using assms(2,3) by (cases l; simp add: c_str_nul_free)+
  have "plain_echo (i\<lparr>sinfo_stream := es_stream ?m\<rparr>)"
    using assms(6) by (simp add: plain_echo_def)
  from server_echoes [OF this assms(3,5), of ntop' mem] obtain t n where
    t: "snd (sctp_msg_process E' ntop' mem (Some (l, i\<lparr>sinfo_stream := es_stream ?m\<rparr>)) s) = t"
      "echo_sent t = echo_sent s @ [n]" "es_data n = l" "es_stream n = es_stream ?m"
    by auto
  obtain c' where "sctpstr_cli E ntop stale (l # ls) (EchoPollIn (Some (l, j)) # EchoPollTimeout # ps) c
      = sctpstr_cli E ntop stale ls ps c'" "echo_sent c' = echo_sent c @ [?m]" "echo_out c' = echo_out c @ [Echoed l]"
    using assms(1,4,7) l by (simp add: plain_echo_def case_prod_beta Let_def)
  with t show ?thesis by (intro exI [of _ ?m] exI [of _ t] exI [of _ n] exI [of _ c']) simp
qed

text \<open>The server ends at the first message with a \<open>C\<close> in its fifth byte; for a message of less than five bytes
  that is a byte nobody has written.\<close>

fun cancels :: "(nat \<Rightarrow> byte) \<Rightarrow> echo_poll \<Rightarrow> bool" where
  "cancels mem (EchoPollIn (Some (d, i))) \<longleftrightarrow>
     plain_echo i \<and> (if 4 < length d then d ! 4 else mem 4) = of_char (CHR ''C'')"
| "cancels mem _ \<longleftrightarrow> False"

lemma msg_process_goes_on:
  assumes "\<forall>k. u_ret E k \<noteq> -1"
  shows "fst (sctp_msg_process E ntop mem m s) \<longleftrightarrow> \<not> cancels mem (EchoPollIn m)"
proof (cases m)
  case (Some di)
  obtain d i where di: "di = (d, i)" by (cases di)
  have "4 \<le> ECHO_BUFFER" by (simp add: ECHO_BUFFER_def)
  from echo_buf_nth [OF this, of mem d] show ?thesis
    using assms by (simp add: Some di sctp_msg_process_def plain_echo_def case_prod_beta Let_def)
qed (simp add: sctp_msg_process_def)

theorem echo_server_ends:
  assumes "\<forall>k. u_ret E k \<noteq> -1"
  shows "fst (echo_server_loop E ntop mem fd ps s) \<longleftrightarrow> (\<exists>p \<in> set ps. cancels mem p)"
proof (induction ps arbitrary: s)
  case (Cons p ps)
  then show ?case
    using msg_process_goes_on [OF assms, of ntop mem _ s]
    by (cases p) (auto simp: case_prod_beta Let_def)
qed simp

subsection \<open>Instances\<close>

definition echo_env :: uenv where
  "echo_env = \<lparr>u_ret = \<lambda>n. int n, u_errno = \<lambda>_. 0\<rparr>"

definition echo_peer :: echo_info where
  "echo_peer = \<lparr>sin_family = AF_INET, sin_addr = bytes_of ''127.0.0.1'', sin_port = 9, sinfo_assoc_id = 1,
     sinfo_stream = 0, msg_flags = 0, sinfo_ppid = 0, sinfo_flags = 0\<rparr>"

lemma stream_of_line: "strtol0 (bytes_of ''3] hi'') = 3" "strtol0 (bytes_of '' 0x1F]'') = 31" "strtol0 (bytes_of ''-1]'') = -1"
  by (simp_all add: strtol0_def magnitude_def digits_in_def digit_value_def c_space_def bytes_of_def)

lemma sctp_echo_round_trip_witness:
  "\<exists>m t n c'. echo_sent t = echo_sent echo_new @ [n] \<and> es_data m = bytes_of ''[3] hi''
    \<and> es_stream m = word_of_int (strtol0 (tl (bytes_of ''[3] hi'')))
    \<and> snd (sctp_msg_process echo_env (\<lambda>_ _. []) (\<lambda>_. 0) (Some (es_data m, echo_peer\<lparr>sinfo_stream := es_stream m\<rparr>)) echo_new) = t
    \<and> es_stream n = es_stream m \<and> es_data n = es_data m
    \<and> sctpstr_cli echo_env (\<lambda>_ _. []) ([], 0) [bytes_of ''[3] hi''] [EchoPollIn (Some (es_data n, echo_peer)), EchoPollTimeout] echo_new
        = sctpstr_cli echo_env (\<lambda>_ _. []) ([], 0) [] [] c'
    \<and> echo_sent c' = echo_sent echo_new @ [m] \<and> echo_out c' = echo_out echo_new @ [Echoed (bytes_of ''[3] hi'')]"
  by (rule sctp_echo_round_trip) (simp_all add: bytes_of_def ECHO_BUFFER_def echo_env_def echo_peer_def plain_echo_def)

lemma echo_server_ends_witness:
  "fst (echo_server_loop echo_env (\<lambda>_ _. []) (\<lambda>_. 67) 3 [EchoPollTimeout, EchoPollIn (Some ([65], echo_peer))] echo_new)"
  using echo_server_ends [of echo_env "\<lambda>_ _. []" "\<lambda>_. 67" 3 "[EchoPollTimeout, EchoPollIn (Some ([65], echo_peer))]" echo_new]
  by (simp add: echo_env_def plain_echo_def echo_peer_def)

end
