(* ===== verification/Chance.thy ===== *)
theory Chance
  imports Prelude
begin

section \<open>Random numbers (within of zhelpers.hpp)\<close>

text \<open>
  \<open>#define within(num) (int) ((float) (num) * random () / (RAND_MAX + 1.0))\<close>. The result of \<open>random\<close>, below
  \<open>2^31\<close>, is converted to \<open>float\<close>, the product is one, and the division by \<open>2^31\<close> is in \<open>double\<close> and exact.
  On natural numbers, rounding to \<open>float\<close> keeps the 24 leading bits and rounds to the nearest, halves to even.
\<close>

subsection \<open>Rounding\<close>

fun bit_len :: "nat \<Rightarrow> nat" where
  "bit_len n = (if n = 0 then 0 else Suc (bit_len (n div 2)))"

declare bit_len.simps [simp del]

definition ulp :: "nat \<Rightarrow> nat" where
  "ulp x = 2 ^ (bit_len x - 24)"

definition to_float :: "nat \<Rightarrow> nat" where
  "to_float x =
     (let u = ulp x; q = x div u; r = x mod u in
      if u < 2 * r \<or> u = 2 * r \<and> odd q then Suc q * u else q * u)"

text \<open>\<open>RAND_MAX + 1\<close> is \<open>2^31\<close>.\<close>

definition random_within :: "nat \<Rightarrow> nat \<Rightarrow> nat" where
  "random_within num rand = to_float (to_float num * to_float rand) div 2 ^ 31"

lemma bit_len_bounds: "x < 2 ^ bit_len x" "0 < x \<Longrightarrow> 2 ^ bit_len x \<le> 2 * x"
proof (induction x rule: less_induct)
  case (less x)
  { case 1
    show ?case
    proof (cases "x = 0")
      case False
      with less(1) [of "x div 2"] show ?thesis by (simp add: bit_len.simps [of x])
    qed (simp add: bit_len.simps)
  next
    case 2
    show ?case
    proof (cases "x = 1")
      case False
      with 2 less(2) [of "x div 2"] show ?thesis by (simp add: bit_len.simps [of x])
    qed (simp add: bit_len.simps [of "Suc 0"] bit_len.simps [of 0])
  }
qed

lemma bit_len_le: "x < 2 ^ k \<Longrightarrow> bit_len x \<le> k"
proof (cases "x = 0")
  case False
  assume "x < 2 ^ k"
  with bit_len_bounds(2) [of x] False have "(2 :: nat) ^ bit_len x < 2 ^ Suc k" by simp
  then show ?thesis by (simp only: power_strict_increasing_iff)
qed (simp add: bit_len.simps)

lemma ulp_pos [simp]: "0 < ulp x"
  by (simp add: ulp_def)

lemma ulp_small: "x < 2 ^ 24 \<Longrightarrow> ulp x = 1"
  using bit_len_le [of x 24] by (simp add: ulp_def)

lemma ulp_le: "2 ^ 24 \<le> x \<Longrightarrow> 2 ^ 23 * ulp x \<le> x"
proof -
  assume x: "2 ^ 24 \<le> x"
  then have "(2 :: nat) ^ 24 < 2 ^ bit_len x" using bit_len_bounds(1) [of x] by linarith
  then have "24 < bit_len x" by (simp only: power_strict_increasing_iff)
  then have "2 ^ 24 * ulp x = (2 :: nat) ^ bit_len x"
    unfolding ulp_def by (subst power_add [symmetric]) simp
  with bit_len_bounds(2) [of x] x show ?thesis by simp
qed

lemma to_float_small: "x < 2 ^ 24 \<Longrightarrow> to_float x = x"
  by (simp add: to_float_def ulp_small)

text \<open>The error is at most half a unit.\<close>

lemma to_float_error: "2 * to_float x \<le> 2 * x + ulp x"
proof -
  define q r where "q = x div ulp x * ulp x" and "r = x mod ulp x"
  have "x = q + r" by (simp add: q_def r_def)
  moreover have "to_float x = (if ulp x < 2 * r \<or> ulp x = 2 * r \<and> odd (x div ulp x) then ulp x + q else q)"
    by (simp add: to_float_def Let_def q_def r_def)
  ultimately show ?thesis by auto
qed

lemma to_float_exact: "ulp x dvd x \<Longrightarrow> to_float x = x"
  using ulp_pos [of x] by (auto simp add: to_float_def Let_def dvd_eq_mod_eq_0 simp del: ulp_pos)

subsection \<open>What a random number becomes\<close>

lemma ulp_31: "2 ^ 30 \<le> r \<Longrightarrow> r < 2 ^ 31 \<Longrightarrow> ulp r = 128"
proof -
  assume r: "2 ^ 30 \<le> r" "r < 2 ^ 31"
  have "(2 :: nat) ^ 30 < 2 ^ bit_len r" using r(1) bit_len_bounds(1) [of r] by linarith
  then have "30 < bit_len r" by (simp only: power_strict_increasing_iff)
  with bit_len_le [OF r(2)] have "bit_len r = 31" by simp
  then show ?thesis by (simp add: ulp_def)
qed

lemma to_float_top: "2 ^ 31 - 64 \<le> r \<Longrightarrow> r < 2 ^ 31 \<Longrightarrow> to_float r = 2 ^ 31"
proof -
  assume r: "2 ^ 31 - 64 \<le> r" "r < 2 ^ 31"
  have q: "r div 128 = 16777215" using r by simp
  have "128 * (r div 128) + r mod 128 = r" by simp
  then have "2147483520 + r mod 128 = r" unfolding q by simp
  with r(1) have "64 \<le> r mod 128" by simp
  then have "128 < 2 * (r mod 128) \<or> 128 = 2 * (r mod 128)" by linarith
  with q show ?thesis
    using r ulp_31 [of r] by (auto simp: to_float_def Let_def)
qed

lemma to_float_below: "r < 2 ^ 31 - 64 \<Longrightarrow> to_float r \<le> 2 ^ 31 - 128"
proof (cases "2 ^ 30 \<le> r")
  case True
  assume r: "r < 2 ^ 31 - 64"
  with True have u: "ulp r = 128" by (intro ulp_31) simp_all
  have d: "128 * (r div 128) + r mod 128 = r" by simp
  have q: "r div 128 \<le> 16777215" using r by simp
  have "to_float r \<le> 128 * 16777215"
  proof (cases "r div 128 = 16777215")
    case True
    with d have "2147483520 + r mod 128 = r" by simp
    with r have "2 * (r mod 128) < 128" by simp
    with True u show ?thesis by (simp add: to_float_def Let_def)
  next
    case False
    with q have "Suc (r div 128) * 128 \<le> 128 * 16777215" by simp
    moreover have "to_float r \<le> Suc (r div 128) * 128" using u by (simp add: to_float_def Let_def)
    ultimately show ?thesis by linarith
  qed
  then show ?thesis by simp
next
  case False
  then have "bit_len r \<le> 30" by (intro bit_len_le) simp
  then have "ulp r \<le> 2 ^ 6" unfolding ulp_def by (intro power_increasing) simp_all
  with False to_float_error [of r] show ?thesis by simp
qed

text \<open>\<open>within (num)\<close> is at most \<open>num\<close>, and it is \<open>num\<close> for the 64 largest random numbers.\<close>

lemma within_range:
  assumes "0 < num" "num < 2 ^ 24" "rand < 2 ^ 31"
  shows "random_within num rand \<le> num \<and> (random_within num rand = num \<longleftrightarrow> 2 ^ 31 - 64 \<le> rand)"
proof (cases "2 ^ 31 - 64 \<le> rand")
  case True
  have "ulp (num * 2 ^ 31) dvd num * 2 ^ 31"
  proof -
    have "num * 2 ^ 31 < 2 ^ 55" using assms(2) by simp
    then have "bit_len (num * 2 ^ 31) - 24 \<le> 31" using bit_len_le [of _ 55] by fastforce
    then show ?thesis unfolding ulp_def by (intro dvd_mult le_imp_power_dvd)
  qed
  with True assms show ?thesis
    by (simp add: random_within_def to_float_small to_float_top to_float_exact)
next
  case False
  let ?p = "num * to_float rand"
  have p: "?p + 128 * num \<le> num * 2 ^ 31"
  proof -
    have "to_float rand + 128 \<le> 2 ^ 31" using to_float_below [of rand] False by simp
    then have "num * (to_float rand + 128) \<le> num * 2 ^ 31" by (rule mult_le_mono2)
    then show ?thesis by (simp add: algebra_simps)
  qed
  have "to_float ?p < num * 2 ^ 31"
  proof (cases "2 ^ 24 \<le> ?p")
    case True
    have "8388608 * ulp ?p \<le> ?p" using ulp_le [OF True] by simp
    moreover have "?p + 128 * num \<le> 2147483648 * num" using p by (simp only: mult.commute [of num] power_numeral) simp
    ultimately have "ulp ?p < 256 * num" using assms(1) by linarith
    with to_float_error [of ?p] p show ?thesis by linarith
  next
    case False
    with p assms(1) show ?thesis by (simp add: to_float_small)
  qed
  then have "random_within num rand < num"
    using assms(2) by (simp add: random_within_def to_float_small less_mult_imp_div_less)
  with False show ?thesis by simp
qed

text \<open>
  C20. For 0 < num < 2^24 the macro within yields at most num; rounding to float makes it num,
  which its comment excludes, for exactly the 64 largest results of random.
\<close>

theorem within_bounds:
  assumes "0 < num" "num < 2 ^ 24" "rand < 2 ^ 31"
  shows "random_within num rand \<le> num \<and> (random_within num rand = num \<longleftrightarrow> 2 ^ 31 - 64 \<le> rand)"
  using assms by (rule within_range)

lemma within_bounds_witness:
  "random_within 100 2147483583 \<le> 100 \<and> random_within 100 2147483647 = 100 \<and> random_within 5 2147483583 \<noteq> 5"
  using within_bounds [of 100 2147483583] within_bounds [of 100 2147483647] within_bounds [of 5 2147483583] by simp

end
