(* ===== verification/Interleaving.thy ===== *)
theory Interleaving
  imports Main "HOL-Library.Multiset"
begin

section \<open>Programs that run side by side\<close>

text \<open>
  Several programs that exchange messages are a relation between the states of all of them: one rule for each kind
  of step, and no assumption on the order in which they are taken. The locale \<open>stepping\<close> is the
  contract of an invariant of such a relation, \<open>settling\<close> adds a measure that every step decreases and what the
  states are in which nothing can happen any more.
\<close>

text \<open>What replacing the state of one of several programs does to their numbers.\<close>

lemma length_filter_update:
  "i < length xs \<Longrightarrow> length (filter P (xs[i := y])) + of_bool (P (xs ! i)) = length (filter P xs) + of_bool (P y)"
proof (induction xs arbitrary: i)
  case (Cons x xs)
  then show ?case by (cases i) auto
qed simp

lemma set_update: "x \<in> set (xs[i := y]) \<Longrightarrow> x \<in> set xs \<or> x = y"
  using set_update_subset_insert [of xs i y] by auto

text \<open>The names of those of several programs whose states have a property.\<close>

fun marked :: "('p \<Rightarrow> bool) \<Rightarrow> 'a list \<Rightarrow> 'p list \<Rightarrow> 'a multiset" where
  "marked P (c # cs) (p # ps) = (if P p then {# c #} else {#}) + marked P cs ps"
| "marked P _ _ = {#}"

lemma marked_update:
  "i < length ps \<Longrightarrow> length ps = length cs \<Longrightarrow>
   marked P cs (ps[i := p]) + (if P (ps ! i) then {# cs ! i #} else {#}) = marked P cs ps + (if P p then {# cs ! i #} else {#})"
proof (induction P cs ps arbitrary: i rule: marked.induct)
  case (1 P c cs q ps)
  show ?case
  proof (cases i)
    case (Suc j)
    with 1 have "marked P cs (ps[j := p]) + (if P (ps ! j) then {# cs ! j #} else {#})
        = marked P cs ps + (if P p then {# cs ! j #} else {#})" by auto
    with Suc show ?thesis by (auto simp: ac_simps)
  qed (auto simp: ac_simps)
qed auto

lemma marked_member: "length ps = length cs \<Longrightarrow> c \<in># marked P cs ps \<Longrightarrow> \<exists>i < length ps. P (ps ! i) \<and> cs ! i = c"
proof (induction P cs ps rule: marked.induct)
  case (1 P c' cs q ps)
  then consider "P q" "c = c'" | "c \<in># marked P cs ps" by (auto split: if_splits)
  then show ?case
  proof cases
    case 2
    with 1 obtain i where "i < length ps" "P (ps ! i)" "cs ! i = c" by auto
    then show ?thesis by (intro exI [of _ "Suc i"]) simp
  qed (intro exI [of _ 0], simp)
qed auto

lemma marked_nth: "i < length ps \<Longrightarrow> length ps = length cs \<Longrightarrow> P (ps ! i) \<Longrightarrow> cs ! i \<in># marked P cs ps"
proof (induction P cs ps arbitrary: i rule: marked.induct)
  case (1 P c cs q ps)
  then show ?case by (cases i) auto
qed auto

lemma size_marked: "length ps = length cs \<Longrightarrow> size (marked P cs ps) = length (filter P ps)"
  by (induction P cs ps rule: marked.induct) auto

lemma marked_none: "\<forall>p \<in> set ps. \<not> P p \<Longrightarrow> marked P cs ps = {#}"
  by (induction P cs ps rule: marked.induct) auto

text \<open>Which of the messages that wait at a socket is read, if one is: any.\<close>

inductive picks :: "'m list \<Rightarrow> 'm option \<Rightarrow> 'm list \<Rightarrow> bool" where
  none_read: "picks ms None ms"
| one_read: "picks (xs @ m # ys) (Some m) (xs @ ys)"

inductive_cases picks_NoneE: "picks ms None ms'"
inductive_cases picks_SomeE: "picks ms (Some m) ms'"

locale stepping =
  fixes step :: "'s \<Rightarrow> 's \<Rightarrow> bool"
    and inv :: "'s \<Rightarrow> bool"
  assumes step_inv: "inv s \<Longrightarrow> step s t \<Longrightarrow> inv t"
begin

lemma run_inv: "step\<^sup>*\<^sup>* s t \<Longrightarrow> inv s \<Longrightarrow> inv t"
  by (induction rule: rtranclp_induct) (auto intro: step_inv)

lemma steps_inv: "(step ^^ n) s t \<Longrightarrow> inv s \<Longrightarrow> inv t"
  using run_inv by (auto dest: relpowp_imp_rtranclp)

end

locale settling = stepping +
  fixes left :: "'s \<Rightarrow> nat"
    and final :: "'s \<Rightarrow> bool"
  assumes step_less: "inv s \<Longrightarrow> step s t \<Longrightarrow> left t < left s"
    and stuck_final: "inv s \<Longrightarrow> \<nexists>t. step s t \<Longrightarrow> final s"
begin

text \<open>No run is longer than the measure of its start.\<close>

lemma run_bounded: "(step ^^ n) s t \<Longrightarrow> inv s \<Longrightarrow> n + left t \<le> left s"
proof (induction n arbitrary: t)
  case (Suc n)
  then obtain u where u: "(step ^^ n) s u" "step u t" by auto
  with Suc have "n + left u \<le> left s" "left t < left u"
    by (auto intro: step_less steps_inv)
  then show ?case by simp
qed auto

text \<open>Every run can be continued to one that ends in a final state, and one that cannot be continued has.\<close>

lemma run_settles:
  assumes "inv s"
  shows "\<exists>t. step\<^sup>*\<^sup>* s t \<and> (\<nexists>u. step t u) \<and> final t"
  using assms
proof (induction "left s" arbitrary: s rule: less_induct)
  case less
  show ?case
  proof (cases "\<exists>t. step s t")
    case True
    then obtain t where t: "step s t" by blast
    with less.prems have "inv t" "left t < left s" by (auto intro: step_inv step_less)
    with less.hyps obtain u where "step\<^sup>*\<^sup>* t u" "\<nexists>v. step u v" "final u" by blast
    with t show ?thesis by (meson converse_rtranclp_into_rtranclp)
  next
    case False
    with less.prems stuck_final show ?thesis by blast
  qed
qed

lemma stuck_run_final: "step\<^sup>*\<^sup>* s t \<Longrightarrow> inv s \<Longrightarrow> \<nexists>u. step t u \<Longrightarrow> final t"
  using run_inv stuck_final by blast

end

end
