(* ===== verification/Task_Pipeline.thy ===== *)
theory Task_Pipeline
  imports Mdp Chance Interleaving "HOL-Library.Signed_Division"
begin

section \<open>The task pipeline (taskvent.cpp, taskwork.cpp, taskwork2.cpp, tasksink.cpp, tasksink2.cpp)\<close>

text \<open>
  A ventilator sends a hundred tasks, each the text of a number of milliseconds; workers sleep that long and send
  an empty message to the sink, which waits for the ventilator's start message and a hundred of these. The
  sockets decide which worker gets which task, and in which order messages arrive at the sink.
\<close>

subsection \<open>The ventilator\<close>

text \<open>\<open>memset\<close> and \<open>sprintf\<close> into ten bytes.\<close>

definition vent_workload :: "nat \<Rightarrow> nat" where
  "vent_workload rand = random_within 100 rand + 1"

definition vent_task :: "nat \<Rightarrow> bytes" where
  "vent_task workload = decimal workload @ replicate (10 - length (decimal workload)) 0"

text \<open>\<open>rand\<close>: what the \<open>n\<close>-th call of \<open>random\<close> returns.\<close>

function vent_loop :: "(nat \<Rightarrow> nat) \<Rightarrow> nat \<Rightarrow> nat \<Rightarrow> bytes list \<Rightarrow> nat \<times> bytes list" where
  "vent_loop rand task_nbr total_msec out =
     (if task_nbr < 100 then
        let workload = vent_workload (rand task_nbr)
        in vent_loop rand (task_nbr + 1) (total_msec + workload) (out @ [vent_task workload])
      else (total_msec, out))"
  by pat_completeness auto
termination by (relation "measure (\<lambda>(rand, n, t, out). 100 - n)") auto

declare vent_loop.simps [simp del]

text \<open>The start message has two bytes of which one is written.\<close>

record vent =
  vent_start :: bytes
  vent_tasks :: "bytes list"
  vent_total :: nat

definition vent_main :: "byte \<Rightarrow> (nat \<Rightarrow> nat) \<Rightarrow> vent" where
  "vent_main junk rand =
     (let (total, tasks) = vent_loop rand 0 0 []
      in \<lparr>vent_start = [of_char (CHR ''0''), junk], vent_tasks = tasks, vent_total = total\<rparr>)"

subsection \<open>The workers\<close>

text \<open>\<open>iss >> workload\<close> for the text of a message: \<open>workload\<close> is \<open>junk\<close>, what is in memory, if there is nothing but white
  space.\<close>

definition read_workload :: "int \<Rightarrow> bytes \<Rightarrow> int" where
  "read_workload junk d = (case fst (snd (scan_int (- 2147483648) 2147483647 d)) of None \<Rightarrow> junk | Some v \<Rightarrow> v)"

text \<open>One round: how long it sleeps, and the empty message for the sink.\<close>

definition work_one :: "int \<Rightarrow> bytes \<Rightarrow> int \<times> bytes" where
  "work_one junk d = (read_workload junk d, [])"

text \<open>The second design looks at its controller after each task; its result says that it was told to stop.\<close>

fun work2_loop :: "int \<Rightarrow> (bytes option \<times> bool) list \<Rightarrow> bool \<times> (int \<times> bytes) list" where
  "work2_loop junk [] = (False, [])"
| "work2_loop junk ((task, kill) # ps) =
     (let done = (case task of None \<Rightarrow> [] | Some d \<Rightarrow> [work_one junk d]) in
      if kill then (True, done)
      else let (stopped, rest) = work2_loop junk ps in (stopped, done @ rest))"

subsection \<open>The sink\<close>

text \<open>The progress line, and the messages that are not yet read.\<close>

function sink_loop :: "nat \<Rightarrow> bytes list \<Rightarrow> bytes \<Rightarrow> fault + (bytes \<times> bytes list)" where
  "sink_loop task_nbr msgs out =
     (if task_nbr < 100 then
        case msgs of
          [] \<Rightarrow> Inl Blocks
        | m # ms \<Rightarrow> sink_loop (task_nbr + 1) ms (out @ [of_char (if task_nbr mod 10 = 0 then CHR '':'' else CHR ''.'')])
      else Inr (out, msgs))"
  by pat_completeness auto
termination by (relation "measure (\<lambda>(n, ms, out). 100 - n)") auto

declare sink_loop.simps [simp del]

definition tv_diff :: "timeval \<Rightarrow> timeval \<Rightarrow> timeval" where
  "tv_diff tend tstart =
     (if tv_usec tend < tv_usec tstart
      then \<lparr>tv_sec = tv_sec tend - tv_sec tstart - 1, tv_usec = 1000000 + tv_usec tend - tv_usec tstart\<rparr>
      else \<lparr>tv_sec = tv_sec tend - tv_sec tstart, tv_usec = tv_usec tend - tv_usec tstart\<rparr>)"

text \<open>\<open>int total_msec = tdiff.tv_sec * 1000 + tdiff.tv_usec / 1000\<close>, computed in \<open>long\<close>.\<close>

definition elapsed_msec :: "timeval \<Rightarrow> timeval \<Rightarrow> 32 word" where
  "elapsed_msec tend tstart = (let d = tv_diff tend tstart in word_of_int (tv_sec d * 1000 + tv_usec d sdiv 1000))"

definition sink_main :: "timeval \<Rightarrow> timeval \<Rightarrow> bytes list \<Rightarrow> fault + (bytes \<times> 32 word \<times> bytes list)" where
  "sink_main tstart tend msgs =
     (case msgs of
        [] \<Rightarrow> Inl Blocks
      | start # ms \<Rightarrow>
          bindE (sink_loop 0 ms []) (\<lambda>(dots, rest). Inr (dots, elapsed_msec tend tstart, rest)))"

text \<open>The second design then tells the workers to stop.\<close>

definition sink2_main :: "timeval \<Rightarrow> timeval \<Rightarrow> bytes list \<Rightarrow> fault + (bytes \<times> 32 word \<times> bytes list \<times> bytes)" where
  "sink2_main tstart tend msgs =
     bindE (sink_main tstart tend msgs) (\<lambda>(dots, msec, rest). Inr (dots, msec, rest, bytes_of ''KILL''))"

subsection \<open>The elapsed time\<close>

definition micros :: "timeval \<Rightarrow> int" where
  "micros t = tv_sec t * 1000000 + tv_usec t"

definition valid_time :: "timeval \<Rightarrow> bool" where
  "valid_time t \<longleftrightarrow> 0 \<le> tv_usec t \<and> tv_usec t < 1000000"

text \<open>What is printed is the time between the two readings in milliseconds, rounded down, exactly if that fits an
  \<open>int\<close>, forwards or backwards: for less than 25 days.\<close>

lemma tv_diff_msec:
  assumes "valid_time a" "valid_time b"
  shows "tv_sec (tv_diff b a) * 1000 + tv_usec (tv_diff b a) sdiv 1000 = (micros b - micros a) div 1000"
proof -
  let ?d = "tv_diff b a"
  have "0 \<le> tv_usec ?d" using assms by (simp add: tv_diff_def valid_time_def)
  then have "tv_usec ?d sdiv 1000 = tv_usec ?d div 1000" by (cases "tv_usec ?d = 0") (simp_all add: signed_divide_int_def)
  moreover
  have "micros b - micros a = tv_sec ?d * 1000 * 1000 + tv_usec ?d"
    by (simp add: tv_diff_def micros_def)
  ultimately show ?thesis by simp
qed

theorem elapsed_exact:
  assumes "valid_time tstart" "valid_time tend"
  shows "sint (elapsed_msec tend tstart) = (micros tend - micros tstart) div 1000
    \<longleftrightarrow> - (2 ^ 31) * 1000 \<le> micros tend - micros tstart \<and> micros tend - micros tstart < 2 ^ 31 * 1000"
proof -
  let ?d = "(micros tend - micros tstart) div 1000"
  have "sint (elapsed_msec tend tstart) = ?d \<longleftrightarrow> signed_take_bit 31 ?d = ?d"
    unfolding elapsed_msec_def Let_def tv_diff_msec [OF assms] by (simp add: sint_sbintrunc')
  also have "\<dots> \<longleftrightarrow> - (2 ^ 31) \<le> ?d \<and> ?d < 2 ^ 31"
    by (simp add: signed_take_bit_int_eq_self_iff)
  also have "\<dots> \<longleftrightarrow> - (2 ^ 31) * 1000 \<le> micros tend - micros tstart \<and> micros tend - micros tstart < 2 ^ 31 * 1000"
    by linarith
  finally show ?thesis .
qed

subsection \<open>Tasks are read as they were written\<close>

lemma read_task: "int w < 2 ^ 31 \<Longrightarrow> read_workload junk (vent_task w) = int w"
  using scan_dec_text [of "replicate (10 - length (decimal w)) 0" "- 2147483648" "int w" 2147483647]
  by (simp add: read_workload_def vent_task_def dec_text_def is_digit_def)

lemma workload_bounds: "rand < 2 ^ 31 \<Longrightarrow> 1 \<le> vent_workload rand \<and> vent_workload rand \<le> 101"
  using within_range [of 100 rand] by (simp add: vent_workload_def)

lemma vent_loop_result:
  "vent_loop rand n t out = (t + sum_list (map (\<lambda>i. vent_workload (rand i)) [n..<100]),
     out @ map (\<lambda>i. vent_task (vent_workload (rand i))) [n..<100])"
  by (induction rand n t out rule: vent_loop.induct) (simp add: vent_loop.simps Let_def upt_conv_Cons)

lemma sink_loop_result:
  "\<exists>dots. length dots = length out + (100 - n) \<and>
     sink_loop n ms out = (if 100 - n \<le> length ms then Inr (dots, drop (100 - n) ms) else Inl Blocks)"
proof (induction n ms out rule: sink_loop.induct)
  case (1 n ms out)
  show ?case
  proof (cases ms)
    case (Cons m ms')
    show ?thesis
    proof (cases "n < 100")
      case True
      define tick where "tick = of_char (if n mod 10 = 0 then CHR '':'' else CHR ''.'') # ([] :: bytes)"
      from 1 [OF True Cons] obtain dots where dots: "length dots = length (out @ tick) + (100 - (n + 1))"
        "sink_loop (n + 1) ms' (out @ tick)
          = (if 100 - (n + 1) \<le> length ms' then Inr (dots, drop (100 - (n + 1)) ms') else Inl Blocks)"
        unfolding tick_def by blast
      have "sink_loop n ms out = sink_loop (n + 1) ms' (out @ tick)"
        using True Cons by (simp add: sink_loop.simps [of n "m # ms'"] tick_def)
      moreover have "100 - n = Suc (100 - (n + 1))" using True by simp
      ultimately show ?thesis using dots by (intro exI [of _ dots]) (simp add: Cons tick_def)
    qed (simp add: sink_loop.simps [of n ms])
  next
    case Nil
    then show ?thesis by (intro exI [of _ "out @ replicate (100 - n) 0"]) (simp add: sink_loop.simps [of n "[]"])
  qed
qed

subsection \<open>The pipeline as a whole\<close>

text \<open>The start message and the tasks that are not yet sent, a queue for each worker, the milliseconds slept, the
  messages that have arrived at the sink and those it has read. \<open>sink_waits\<close>: having read these, it is in its
  next receive.\<close>

record pipeline =
  starting :: "bytes option"
  unsent :: "bytes list"
  queues :: "bytes list list"
  slept :: int
  inbox :: "bytes list"
  taken :: "bytes list"

definition sink_waits :: "bytes list \<Rightarrow> bool" where
  "sink_waits msgs \<longleftrightarrow> (case msgs of [] \<Rightarrow> True | m # ms \<Rightarrow> length ms < 100 \<and> sink_loop 0 ms [] = Inl Blocks)"

inductive pipe_step :: "int \<Rightarrow> pipeline \<Rightarrow> pipeline \<Rightarrow> bool" for junk where
  start: "starting p = Some m \<Longrightarrow> pipe_step junk p (p\<lparr>starting := None, inbox := inbox p @ [m]\<rparr>)"
| push: "unsent p = d # ds \<Longrightarrow> i < length (queues p) \<Longrightarrow>
     pipe_step junk p (p\<lparr>unsent := ds, queues := (queues p)[i := queues p ! i @ [d]]\<rparr>)"
| work: "i < length (queues p) \<Longrightarrow> queues p ! i = d # q \<Longrightarrow> work_one junk d = (msec, m) \<Longrightarrow>
     pipe_step junk p (p\<lparr>queues := (queues p)[i := q], slept := slept p + msec, inbox := inbox p @ [m]\<rparr>)"
| collect: "inbox p = m # ms \<Longrightarrow> sink_waits (taken p) \<Longrightarrow>
     pipe_step junk p (p\<lparr>inbox := ms, taken := taken p @ [m]\<rparr>)"

definition pipe_start :: "vent \<Rightarrow> nat \<Rightarrow> pipeline" where
  "pipe_start v k = \<lparr>starting = Some (vent_start v), unsent = vent_tasks v, queues = replicate k [], slept = 0,
     inbox = [], taken = []\<rparr>"

definition waiting_tasks :: "pipeline \<Rightarrow> bytes list" where
  "waiting_tasks p = unsent p @ concat (queues p)"

definition pipe_inv :: "int \<Rightarrow> int \<Rightarrow> pipeline \<Rightarrow> bool" where
  "pipe_inv junk cost p \<longleftrightarrow> queues p \<noteq> []
     \<and> (if starting p = None then 0 else 1) + length (waiting_tasks p) + length (inbox p) + length (taken p) = 101
     \<and> slept p + sum_list (map (read_workload junk) (waiting_tasks p)) = cost"

definition pipe_left :: "pipeline \<Rightarrow> nat" where
  "pipe_left p = (if starting p = None then 0 else 2) + 3 * length (unsent p) + 2 * length (concat (queues p)) + length (inbox p)"

definition pipe_done :: "int \<Rightarrow> pipeline \<Rightarrow> bool" where
  "pipe_done cost p \<longleftrightarrow> waiting_tasks p = [] \<and> inbox p = [] \<and> length (taken p) = 101 \<and> slept p = cost"

lemma sink_waits_iff: "sink_waits msgs \<longleftrightarrow> length msgs < 101"
  using sink_loop_result [where n = 0 and ms = "tl msgs" and out = "[]"] by (cases msgs) (auto simp: sink_waits_def)

text \<open>Taking an element out of a queue or putting one in, as it shows in the sums over all queues.\<close>

lemma sum_list_update_queue:
  fixes g :: "'a \<Rightarrow> 'b :: ab_group_add"
  assumes "i < length qs"
  shows "sum_list (map g (concat (qs[i := q]))) = sum_list (map g (concat qs)) - sum_list (map g (qs ! i)) + sum_list (map g q)"
  using assms
proof (induction qs arbitrary: i)
  case (Cons x qs)
  then show ?case by (cases i) (simp_all add: algebra_simps)
qed simp

lemma length_update_queue:
  "i < length qs \<Longrightarrow> length (concat (qs[i := q])) + length (qs ! i) = length (concat qs) + length q"
proof (induction qs arbitrary: i)
  case (Cons x qs)
  then show ?case by (cases i) auto
qed simp

interpretation pipe: settling "pipe_step junk" "pipe_inv junk cost" pipe_left "pipe_done cost"
proof unfold_locales
  fix s t assume inv: "pipe_inv junk cost s" and step: "pipe_step junk s t"
  from step inv have "pipe_inv junk cost t \<and> pipe_left t < pipe_left s"
  proof (induction rule: pipe_step.induct)
    case (start p m)
    then show ?case by (auto simp: pipe_inv_def pipe_left_def waiting_tasks_def)
  next
    case (push p d ds i)
    have "length (concat ((queues p)[i := queues p ! i @ [d]])) = Suc (length (concat (queues p)))"
      using length_update_queue [OF push(2), of "queues p ! i @ [d]"] by simp
    with push show ?case
      by (auto simp: pipe_inv_def pipe_left_def waiting_tasks_def sum_list_update_queue algebra_simps)
  next
    case (work i p d q msec m)
    have "Suc (length (concat ((queues p)[i := q]))) = length (concat (queues p))"
      using length_update_queue [OF work(1), of q] work(2) by simp
    with work show ?case
      by (auto simp: pipe_inv_def pipe_left_def waiting_tasks_def sum_list_update_queue work_one_def algebra_simps)
  next
    case (collect p m ms)
    then show ?case by (auto simp: pipe_inv_def pipe_left_def waiting_tasks_def)
  qed
  then show "pipe_inv junk cost t" "pipe_left t < pipe_left s" by simp_all
next
  fix s assume inv: "pipe_inv junk cost s" and stuck: "\<nexists>t. pipe_step junk s t"
  have "starting s = None" using stuck pipe_step.start [of s] by (cases "starting s") auto
  moreover have "unsent s = []"
    using stuck pipe_step.push [of s _ _ 0] inv by (cases "unsent s") (auto simp: pipe_inv_def)
  moreover have "queues s ! i = []" if "i < length (queues s)" for i
    using stuck pipe_step.work [OF that] by (cases "queues s ! i") (auto simp: work_one_def)
  then have "concat (queues s) = []" by (auto simp: in_set_conv_nth)
  moreover have "inbox s = []"
  proof (rule ccontr)
    assume "inbox s \<noteq> []"
    then obtain m ms where m: "inbox s = m # ms" by (cases "inbox s") auto
    then have "sink_waits (taken s)" using inv by (simp add: pipe_inv_def sink_waits_iff)
    with m show False using stuck pipe_step.collect [of s] by auto
  qed
  ultimately show "pipe_done cost s"
    using inv by (simp add: pipe_inv_def pipe_done_def waiting_tasks_def del: concat_eq_Nil_conv)
qed

lemma pipe_start_inv:
  assumes "0 < k" "\<forall>i. rand i < 2 ^ 31"
  shows "pipe_inv junk (int (vent_total (vent_main b rand))) (pipe_start (vent_main b rand) k)"
proof -
  have "read_workload junk (vent_task (vent_workload (rand i))) = int (vent_workload (rand i))" for i
    using workload_bounds [of "rand i"] assms(2) by (intro read_task) (auto intro: le_less_trans)
  moreover have "sum_list (map (\<lambda>i. int (f i)) xs) = int (sum_list (map f xs))" for f and xs :: "nat list"
    by (induction xs) simp_all
  ultimately show ?thesis
    using assms(1) by (simp add: pipe_inv_def pipe_start_def vent_main_def vent_loop_result waiting_tasks_def comp_def sum_list_of_nat)
qed

text \<open>Whatever the workers and sockets do, every run of ventilator, workers and sink is finite and can be completed; the
  sink prints its line only when all tasks are done, and by then the workers have slept as long as the
  ventilator said.\<close>

theorem pipeline_settles:
  assumes "0 < k" "\<forall>i. rand i < 2 ^ 31"
  shows "(\<forall>n t. (pipe_step junk ^^ n) (pipe_start (vent_main b rand) k) t \<longrightarrow> n \<le> 302)
    \<and> (\<exists>t. (pipe_step junk)\<^sup>*\<^sup>* (pipe_start (vent_main b rand) k) t \<and> \<not> sink_waits (taken t))"
proof -
  let ?s = "pipe_start (vent_main b rand) k"
  note inv = pipe_start_inv [OF assms, of junk b]
  have "pipe_left ?s = 302"
    by (simp add: pipe_left_def pipe_start_def vent_main_def vent_loop_result)
  with pipe.run_bounded [OF _ inv] pipe.run_settles [OF inv] show ?thesis
    by (fastforce simp: pipe_done_def sink_waits_iff)
qed

text \<open>
  C21. In every interleaving of ventilator, workers and sink, the sink reaches its last line
  exactly if the start message and all tasks have been sent, worked on and collected, and the
  workers have then slept for exactly the milliseconds the ventilator expected.
\<close>

theorem pipeline_conserves_work:
  assumes "0 < k" "\<forall>i. rand i < 2 ^ 31" "(pipe_step junk)\<^sup>*\<^sup>* (pipe_start (vent_main b rand) k) t"
  shows "(\<exists>dots. sink_main tstart tend (taken t) = Inr (dots, elapsed_msec tend tstart, []) \<and> length dots = 100)
    \<longleftrightarrow> starting t = None \<and> unsent t = [] \<and> concat (queues t) = [] \<and> inbox t = [] \<and> slept t = int (vent_total (vent_main b rand))"
proof -
  have inv: "pipe_inv junk (int (vent_total (vent_main b rand))) t"
    using pipe.run_inv [OF assms(3) pipe_start_inv [OF assms(1,2)]] .
  obtain dots where dots: "length dots = 100"
    "sink_loop 0 (tl (taken t)) [] = (if 100 \<le> length (tl (taken t)) then Inr (dots, drop 100 (tl (taken t))) else Inl Blocks)"
    using sink_loop_result [where n = 0 and ms = "tl (taken t)" and out = "[]"] by auto
  then have "(\<exists>dots. sink_main tstart tend (taken t) = Inr (dots, elapsed_msec tend tstart, []) \<and> length dots = 100)
      \<longleftrightarrow> length (taken t) = 101"
    by (cases "taken t") (auto simp: sink_main_def)
  also have "\<dots> \<longleftrightarrow> starting t = None \<and> waiting_tasks t = [] \<and> inbox t = []"
    using inv by (auto simp: pipe_inv_def split: if_splits)
  also have "\<dots> \<longleftrightarrow> starting t = None \<and> unsent t = [] \<and> concat (queues t) = [] \<and> inbox t = []
      \<and> slept t = int (vent_total (vent_main b rand))"
    using inv by (auto simp: pipe_inv_def waiting_tasks_def simp del: concat_eq_Nil_conv)
  finally show ?thesis .
qed

text \<open>The workers of the second design do the same until they are told to stop, in that round as well.\<close>

lemma work2_until_kill:
  "work2_loop junk (ps @ (task, True) # rest) =
    (True, map (work_one junk) (concat (map (\<lambda>p. case fst p of None \<Rightarrow> [] | Some d \<Rightarrow> [d]) (ps @ [(task, True)]))))"
  if "\<forall>p \<in> set ps. \<not> snd p"
  using that by (induction ps) (auto split: option.splits)

subsection \<open>Instances\<close>

lemma elapsed_exact_witness:
  "sint (elapsed_msec \<lparr>tv_sec = 12, tv_usec = 1500\<rparr> \<lparr>tv_sec = 10, tv_usec = 999999\<rparr>) = 1001"
  using elapsed_exact [of "\<lparr>tv_sec = 10, tv_usec = 999999\<rparr>" "\<lparr>tv_sec = 12, tv_usec = 1500\<rparr>"]
  by (simp add: valid_time_def micros_def)

lemma pipeline_settles_witness:
  "\<exists>t. (pipe_step 0)\<^sup>*\<^sup>* (pipe_start (vent_main 0 (\<lambda>_. 7)) 2) t \<and> \<not> sink_waits (taken t)"
  using pipeline_settles [of 2 "\<lambda>_. 7"] by simp

lemma pipeline_conserves_work_witness:
  "\<exists>t dots. (pipe_step 0)\<^sup>*\<^sup>* (pipe_start (vent_main 0 (\<lambda>_. 2147483647)) 2) t
    \<and> sink_main \<lparr>tv_sec = 1, tv_usec = 0\<rparr> \<lparr>tv_sec = 2, tv_usec = 0\<rparr> (taken t)
      = Inr (dots, elapsed_msec \<lparr>tv_sec = 2, tv_usec = 0\<rparr> \<lparr>tv_sec = 1, tv_usec = 0\<rparr>, [])"
proof -
  let ?v = "vent_main 0 (\<lambda>_. 2147483647)"
  have ok: "0 < (2 :: nat)" "\<forall>i :: nat. (2147483647 :: nat) < 2 ^ 31" by simp_all
  obtain t where t: "(pipe_step 0)\<^sup>*\<^sup>* (pipe_start ?v 2) t" "\<nexists>u. pipe_step 0 t u" "pipe_done (int (vent_total ?v)) t"
    using pipe.run_settles [OF pipe_start_inv [OF ok, of 0 0]] by blast
  then have "starting t = None" using pipe_step.start [of t] by (cases "starting t") auto
  with t(3) pipeline_conserves_work [OF ok t(1), of "\<lparr>tv_sec = 1, tv_usec = 0\<rparr>" "\<lparr>tv_sec = 2, tv_usec = 0\<rparr>"] t(1)
  show ?thesis by (auto simp: pipe_done_def waiting_tasks_def)
qed

end
