(* ===== verification/Boss_Workers.thy ===== *)
theory Boss_Workers
  imports Mdp Interleaving
begin

section \<open>The boss and his workers (rtdealer.cpp, rtreq.cpp, zmqRouter.cpp)\<close>

text \<open>
  Workers announce themselves to a ROUTER socket; whoever does is told to work harder until the time is over, and
  from then on that he is fired. The boss ends when he has fired as many as there are. \<open>rtdealer.cpp\<close> and
  \<open>router/src/zmqRouter.cpp\<close> have ten and two workers with DEALER sockets, who handle the empty frame themselves;
  in \<open>rtreq.cpp\<close> they have REQ sockets (\<open>req\<close>), which add and remove it. What the sockets make of frames is given
  by \<open>link_in\<close> and \<open>link_out\<close>.
\<close>

subsection \<open>The boss\<close>

definition HI :: bytes where "HI = bytes_of ''Hi Boss''"
definition WORK :: bytes where "WORK = bytes_of ''Work harder''"
definition FIRED :: bytes where "FIRED = bytes_of ''Fired!''"

lemma work_not_fired [simp]: "WORK \<noteq> FIRED" "FIRED \<noteq> WORK"
  by (simp_all add: WORK_def FIRED_def bytes_of_def)

record boss =
  workers_fired :: nat
  boss_over :: bool
  boss_sent :: "wire list"

definition boss_start :: boss where
  "boss_start = \<lparr>workers_fired = 0, boss_over = False, boss_sent = []\<rparr>"

text \<open>\<open>s_clock () < end_time\<close> decides; \<open>end_time\<close> is five seconds after the start.\<close>

definition boss_late :: "timeval \<Rightarrow> timeval \<Rightarrow> bool" where
  "boss_late start now \<longleftrightarrow> \<not> s_clock now < s_clock start + 5000"

text \<open>One round, given the frames that are there; the rest of them stays.\<close>

definition boss_turn :: "nat \<Rightarrow> bool \<Rightarrow> bytes list \<Rightarrow> boss \<Rightarrow> fault + (bytes list \<times> boss)" where
  "boss_turn nbr late inp b =
     bindE (s_recv inp) (\<lambda>(identity, inp).
     bindE (s_recv inp) (\<lambda>(_, inp).
     bindE (s_recv inp) (\<lambda>(_, inp).
       if \<not> late then Inr (inp, b\<lparr>boss_sent := boss_sent b @ [with_more [identity, [], WORK]]\<rparr>)
       else
         let fired = workers_fired b + 1 in
         Inr (inp, b\<lparr>boss_sent := boss_sent b @ [with_more [identity, [], FIRED]], workers_fired := fired,
                     boss_over := (fired = nbr)\<rparr>))))"

subsection \<open>The workers\<close>

datatype phase = Ready | Waiting | Ended

record hand =
  phase :: phase
  tasks_done :: nat
  hand_in :: "bytes list list"

definition greeting :: "bool \<Rightarrow> wire" where
  "greeting req = (if req then [(HI, False)] else [([], True), (HI, False)])"

text \<open>What a worker does with a message; \<open>s_recv\<close> of the empty frame is not needed with a REQ socket.\<close>

definition hand_turn :: "bool \<Rightarrow> bytes list \<Rightarrow> hand \<Rightarrow> fault + (bytes list \<times> hand)" where
  "hand_turn req inp h =
     bindE (if req then Inr inp else bindE (s_recv inp) (\<lambda>(_, inp). Inr inp)) (\<lambda>inp.
     bindE (s_recv inp) (\<lambda>(workload, inp).
       if workload = FIRED then Inr (inp, h\<lparr>phase := Ended\<rparr>)
       else Inr (inp, h\<lparr>phase := Ready, tasks_done := tasks_done h + 1\<rparr>)))"

subsection \<open>All together\<close>

text \<open>The messages that wait at the socket of the boss are answered in any order.\<close>

record office =
  boss :: boss
  hands :: "hand list"
  letters :: "bytes list list"

inductive office_step :: "bool \<Rightarrow> (bytes \<Rightarrow> bytes list \<Rightarrow> bytes list) \<Rightarrow> (bytes list \<Rightarrow> bytes list) \<Rightarrow> bytes list
    \<Rightarrow> bool \<Rightarrow> office \<Rightarrow> office \<Rightarrow> bool" for req link_in link_out ids where
  greet: "i < length (hands s) \<Longrightarrow> phase (hands s ! i) = Ready \<Longrightarrow>
     office_step req link_in link_out ids late s
       (s\<lparr>hands := (hands s)[i := (hands s ! i)\<lparr>phase := Waiting\<rparr>],
          letters := letters s @ [link_in (ids ! i) (map fst (greeting req))]\<rparr>)"
| answer: "\<not> boss_over (boss s) \<Longrightarrow> letters s = xs @ m # ys \<Longrightarrow>
     boss_turn (length ids) late m (boss s) = Inr (inp, b) \<Longrightarrow> boss_sent b = boss_sent (boss s) @ [(ident, flag) # w] \<Longrightarrow>
     i < length (hands s) \<Longrightarrow> ids ! i = ident \<Longrightarrow>
     office_step req link_in link_out ids late s
       (s\<lparr>boss := b, letters := xs @ ys,
          hands := (hands s)[i := (hands s ! i)\<lparr>hand_in := hand_in (hands s ! i) @ [link_out (map fst ((ident, flag) # w))]\<rparr>]\<rparr>)"
| work: "i < length (hands s) \<Longrightarrow> phase (hands s ! i) = Waiting \<Longrightarrow> hand_in (hands s ! i) = m # ms \<Longrightarrow>
     hand_turn req m ((hands s ! i)\<lparr>hand_in := ms\<rparr>) = Inr (inp, h) \<Longrightarrow>
     office_step req link_in link_out ids late s (s\<lparr>hands := (hands s)[i := h]\<rparr>)"

definition office_start :: "nat \<Rightarrow> office" where
  "office_start nbr = \<lparr>boss = boss_start, hands = replicate nbr \<lparr>phase = Ready, tasks_done = 0, hand_in = []\<rparr>, letters = []\<rparr>"

text \<open>ROUTER puts the identity in front and takes it off; REQ adds and removes the empty frame.\<close>

definition socket_laws :: "bool \<Rightarrow> (bytes \<Rightarrow> bytes list \<Rightarrow> bytes list) \<Rightarrow> (bytes list \<Rightarrow> bytes list) \<Rightarrow> bool" where
  "socket_laws req link_in link_out \<longleftrightarrow>
     (\<forall>i fs. link_in i fs = (if req then i # [] # fs else i # fs)) \<and>
     (\<forall>i fs. link_out (i # [] # fs) = (if req then fs else [] # fs))"

subsection \<open>Who has been told what\<close>

definition letter_of :: "bytes list \<Rightarrow> nat \<Rightarrow> bytes list" where
  "letter_of ids i = [ids ! i, [], HI]"

definition order :: "bool \<Rightarrow> bytes \<Rightarrow> bytes list" where
  "order req x = (if req then [x] else [[], x])"

definition told :: "bool \<Rightarrow> hand \<Rightarrow> bool" where
  "told req h \<longleftrightarrow> phase h = Ended \<or> hand_in h = [order req FIRED]"

definition times_sent :: "bytes list \<Rightarrow> boss \<Rightarrow> nat \<Rightarrow> bytes \<Rightarrow> nat" where
  "times_sent ids b i x = length (filter (\<lambda>w. w = with_more [ids ! i, [], x]) (boss_sent b))"

definition hand_ok :: "bool \<Rightarrow> bytes list \<Rightarrow> bytes list list \<Rightarrow> boss \<Rightarrow> nat \<Rightarrow> hand \<Rightarrow> bool" where
  "hand_ok req ids ls b i h \<longleftrightarrow>
     (if phase h = Waiting \<and> letter_of ids i \<notin> set ls
      then hand_in h = [order req WORK] \<or> hand_in h = [order req FIRED] else hand_in h = [])
     \<and> (letter_of ids i \<in> set ls \<longrightarrow> phase h = Waiting)
     \<and> times_sent ids b i FIRED = (if told req h then 1 else 0)
     \<and> times_sent ids b i WORK = tasks_done h + (if hand_in h = [order req WORK] then 1 else 0)"

definition office_inv :: "bool \<Rightarrow> bytes list \<Rightarrow> office \<Rightarrow> bool" where
  "office_inv req ids s \<longleftrightarrow>
     ids \<noteq> [] \<and> distinct ids \<and> length (hands s) = length ids
     \<and> distinct (letters s) \<and> set (letters s) \<subseteq> letter_of ids ` {..<length ids}
     \<and> (\<forall>i < length ids. hand_ok req ids (letters s) (boss s) i (hands s ! i))
     \<and> workers_fired (boss s) = card {i. i < length ids \<and> told req (hands s ! i)}
     \<and> (boss_over (boss s) \<longleftrightarrow> workers_fired (boss s) = length ids)"

lemma letter_of_eq: "distinct ids \<Longrightarrow> i < length ids \<Longrightarrow> j < length ids \<Longrightarrow> letter_of ids i = letter_of ids j \<longleftrightarrow> i = j"
  by (simp add: letter_of_def nth_eq_iff_index_eq)

lemma order_eq [simp]: "order req x = order req y \<longleftrightarrow> x = y"
  by (simp add: order_def)

text \<open>One step, spelled out.\<close>

lemma boss_turn_letter:
  "boss_turn nbr late (letter_of ids i) b = Inr ([],
     if late then b\<lparr>boss_sent := boss_sent b @ [with_more [ids ! i, [], FIRED]], workers_fired := workers_fired b + 1,
                    boss_over := (workers_fired b + 1 = nbr)\<rparr>
     else b\<lparr>boss_sent := boss_sent b @ [with_more [ids ! i, [], WORK]]\<rparr>)"
  by (simp add: boss_turn_def letter_of_def)

lemma hand_turn_order:
  "hand_turn req (order req x) h = Inr ([],
     if x = FIRED then h\<lparr>phase := Ended\<rparr> else h\<lparr>phase := Ready, tasks_done := tasks_done h + 1\<rparr>)"
  by (simp add: hand_turn_def order_def)

lemma office_step_cases:
  assumes "office_step req link_in link_out ids late s t" "office_inv req ids s" "socket_laws req link_in link_out"
  obtains (greet) i where "i < length ids" "phase (hands s ! i) = Ready"
      "t = s\<lparr>hands := (hands s)[i := (hands s ! i)\<lparr>phase := Waiting\<rparr>], letters := letters s @ [letter_of ids i]\<rparr>"
  | (answer) i xs ys b where "i < length ids" "\<not> boss_over (boss s)" "letters s = xs @ letter_of ids i # ys"
      "boss_turn (length ids) late (letter_of ids i) (boss s) = Inr ([], b)"
      "t = s\<lparr>boss := b, letters := xs @ ys, hands := (hands s)[i := (hands s ! i)\<lparr>hand_in := hand_in (hands s ! i) @
           [order req (if late then FIRED else WORK)]\<rparr>]\<rparr>"
  | (work) i x ms inp h where "i < length ids" "phase (hands s ! i) = Waiting" "hand_in (hands s ! i) = x # ms"
      "hand_turn req x ((hands s ! i)\<lparr>hand_in := ms\<rparr>) = Inr (inp, h)" "t = s\<lparr>hands := (hands s)[i := h]\<rparr>"
  using assms(1)
proof (cases rule: office_step.cases)
  case (greet i)
  with that(1) [of i] assms(2,3) show ?thesis
    by (simp add: office_inv_def socket_laws_def letter_of_def greeting_def)
next
  case (answer xs m ys inp b ident flag w i)
  from answer(3) assms(2) obtain j where j: "m = letter_of ids j" "j < length ids"
    by (auto simp: office_inv_def)
  from answer(4) [unfolded j(1) boss_turn_letter] have b: "inp = []"
    "boss_sent b = boss_sent (boss s) @ [with_more [ids ! j, [], if late then FIRED else WORK]]"
    by (auto split: if_splits)
  with answer(5) have w: "(ident, flag) # w = with_more [ids ! j, [], if late then FIRED else WORK]" by simp
  with answer(6,7) j(2) assms(2) have "i = j"
    by (auto simp: office_inv_def nth_eq_iff_index_eq)
  moreover have "link_out (map fst ((ident, flag) # w)) = order req (if late then FIRED else WORK)"
    unfolding w using assms(3) by (simp add: socket_laws_def order_def)
  ultimately show ?thesis
    using that(2) [of j xs ys b] answer j b(1) by simp
next
  case (work i m ms inp h)
  with that(3) [of i m ms inp h] assms(2) show ?thesis by (simp add: office_inv_def)
qed

lemma times_sent_append:
  "boss_sent b' = boss_sent b @ [with_more [ids ! i, [], x]] \<Longrightarrow>
   times_sent ids b' j y = times_sent ids b j y + (if ids ! i = ids ! j \<and> x = y then 1 else 0)"
  by (simp add: times_sent_def)

lemma told_card:
  assumes "i < length hs" "\<And>j. j \<noteq> i \<Longrightarrow> j < length hs \<Longrightarrow> told req (hs' ! j) = told req (hs ! j)" "length hs' = length hs"
  shows "told req (hs' ! i) = told req (hs ! i) \<Longrightarrow>
      card {j. j < length hs \<and> told req (hs' ! j)} = card {j. j < length hs \<and> told req (hs ! j)}"
    and "told req (hs' ! i) \<Longrightarrow> \<not> told req (hs ! i) \<Longrightarrow>
      card {j. j < length hs \<and> told req (hs' ! j)} = Suc (card {j. j < length hs \<and> told req (hs ! j)})"
proof -
  assume "told req (hs' ! i) = told req (hs ! i)"
  with assms(2) have "{j. j < length hs \<and> told req (hs' ! j)} = {j. j < length hs \<and> told req (hs ! j)}"
    by (metis (no_types, lifting))
  then show "card {j. j < length hs \<and> told req (hs' ! j)} = card {j. j < length hs \<and> told req (hs ! j)}" by simp
next
  assume "told req (hs' ! i)" "\<not> told req (hs ! i)"
  with assms have "{j. j < length hs \<and> told req (hs' ! j)} = insert i {j. j < length hs \<and> told req (hs ! j)}"
    by auto metis
  with \<open>\<not> told req (hs ! i)\<close> show "card {j. j < length hs \<and> told req (hs' ! j)} = Suc (card {j. j < length hs \<and> told req (hs ! j)})"
    by simp
qed

lemma hands_update:
  assumes "office_inv req ids s" "i < length ids" "hands t = (hands s)[i := h]"
    and "\<And>j. j \<noteq> i \<Longrightarrow> j < length ids \<Longrightarrow> hand_ok req ids (letters t) (boss t) j (hands s ! j)"
    and "hand_ok req ids (letters t) (boss t) i h"
    and "distinct (letters t)" "set (letters t) \<subseteq> letter_of ids ` {..<length ids}"
    and "workers_fired (boss t) = workers_fired (boss s) + (if told req h \<and> \<not> told req (hands s ! i) then 1 else 0)"
    and "told req (hands s ! i) \<longrightarrow> told req h" "boss_over (boss t) \<longleftrightarrow> workers_fired (boss t) = length ids"
  shows "office_inv req ids t"
proof -
  have len: "length (hands s) = length ids" and i: "i < length (hands s)" using assms(1,2) by (simp_all add: office_inv_def)
  have "card {j. j < length ids \<and> told req (hands t ! j)} = workers_fired (boss t)"
    using told_card [of i "hands s" req "hands t"] i assms(1,3,8,9) len by (auto simp: office_inv_def)
  with assms len show ?thesis by (auto simp: office_inv_def nth_list_update)
qed

lemma office_step_inv:
  assumes "office_step req link_in link_out ids late s t" "office_inv req ids s" "socket_laws req link_in link_out"
  shows "office_inv req ids t"
proof -
  have ok: "hand_ok req ids (letters s) (boss s) i (hands s ! i)" if "i < length ids" for i
    using assms(2) that by (simp add: office_inv_def)
  have d: "distinct ids" using assms(2) by (simp add: office_inv_def)
  show ?thesis
  using assms proof (cases rule: office_step_cases)
    case (greet i)
    have "letter_of ids i \<notin> set (letters s)" using ok [OF greet(1)] greet(2) by (auto simp: hand_ok_def)
    then show ?thesis
      using greet ok [OF greet(1)] ok assms(2) d
      by (intro hands_update [OF assms(2) greet(1), where h = "(hands s ! i)\<lparr>phase := Waiting\<rparr>"])
        (auto simp: hand_ok_def told_def letter_of_eq office_inv_def)
  next
    case (answer i xs ys b)
    let ?x = "if late then FIRED else WORK"
    have l: "letter_of ids i \<in> set (letters s)" "letter_of ids i \<notin> set (xs @ ys)" "distinct (xs @ ys)"
      "set (letters s) = insert (letter_of ids i) (set (xs @ ys))"
      using assms(2) answer(3) by (auto simp: office_inv_def)
    with ok [OF answer(1)] have h: "phase (hands s ! i) = Waiting" "hand_in (hands s ! i) = []" "\<not> told req (hands s ! i)"
      by (auto simp: hand_ok_def told_def)
    have b: "boss_sent b = boss_sent (boss s) @ [with_more [ids ! i, [], ?x]]"
      "workers_fired b = workers_fired (boss s) + (if late then 1 else 0)"
      "boss_over b \<longleftrightarrow> workers_fired b = length ids"
      using answer(2,4) assms(2) by (auto simp: boss_turn_letter office_inv_def split: if_splits)
    note sent = times_sent_append [OF b(1)]
    show ?thesis
    proof (rule hands_update [OF assms(2) answer(1)])
      show "hands t = (hands s)[i := (hands s ! i)\<lparr>hand_in := [order req ?x]\<rparr>]" using answer(5) h(2) by simp
      show "hand_ok req ids (letters t) (boss t) j (hands s ! j)" if "j \<noteq> i" "j < length ids" for j
        using ok [OF that(2)] answer(1,5) l(4) that d
        by (auto simp: hand_ok_def sent nth_eq_iff_index_eq letter_of_eq)
      show "hand_ok req ids (letters t) (boss t) i ((hands s ! i)\<lparr>hand_in := [order req ?x]\<rparr>)"
        using ok [OF answer(1)] h l(2) answer(5) by (simp add: hand_ok_def sent told_def)
      show "set (letters t) \<subseteq> letter_of ids ` {..<length ids}"
        using assms(2) l(4) answer(5) by (auto simp: office_inv_def)
    qed (use answer(5) l(3) b h in \<open>auto simp: told_def\<close>)
  next
    case (work i x ms inp h)
    then have l: "letter_of ids i \<notin> set (letters s)"
      using ok [OF work(1)] by (auto simp: hand_ok_def)
    with ok [OF work(1)] work(2,3) have x: "ms = []" "x = order req WORK \<or> x = order req FIRED"
      by (auto simp: hand_ok_def)
    show ?thesis
      using work l x ok [OF work(1)] ok assms(2)
      by (intro hands_update [OF assms(2) work(1), where h = h])
        (auto simp: hand_ok_def told_def hand_turn_order office_inv_def)
  qed
qed

subsection \<open>After the end of the time\<close>

definition hand_left :: "bool \<Rightarrow> bytes list \<Rightarrow> bytes list list \<Rightarrow> nat \<Rightarrow> hand \<Rightarrow> nat" where
  "hand_left req ids ls i h =
     (case phase h of
        Ready \<Rightarrow> 4
      | Waiting \<Rightarrow> if letter_of ids i \<in> set ls then 3 else if hand_in h = [order req FIRED] then 2 else 5
      | Ended \<Rightarrow> 0)"

definition office_left :: "bool \<Rightarrow> bytes list \<Rightarrow> office \<Rightarrow> nat" where
  "office_left req ids s = (\<Sum>i<length ids. hand_left req ids (letters s) i (hands s ! i))"

definition closed_down :: "office \<Rightarrow> bool" where
  "closed_down s \<longleftrightarrow> boss_over (boss s) \<and> letters s = [] \<and> (\<forall>h \<in> set (hands s). phase h = Ended)"

lemma hand_left_le: "hand_left req ids ls i h \<le> 5"
  by (cases "phase h") (simp_all add: hand_left_def)

lemma office_left_less:
  assumes "i < length ids" "\<And>j. j < length ids \<Longrightarrow> j \<noteq> i \<Longrightarrow> hand_left req ids (letters t) j (hands t ! j)
      = hand_left req ids (letters s) j (hands s ! j)"
    and "hand_left req ids (letters t) i (hands t ! i) < hand_left req ids (letters s) i (hands s ! i)"
  shows "office_left req ids t < office_left req ids s"
  unfolding office_left_def
proof (rule sum_strict_mono_ex1)
  show "\<forall>j\<in>{..<length ids}. hand_left req ids (letters t) j (hands t ! j) \<le> hand_left req ids (letters s) j (hands s ! j)"
    using assms by (metis lessThan_iff order_le_less)
qed (use assms in auto)

lemma overtime_less:
  assumes "office_step req link_in link_out ids True s t" "office_inv req ids s" "socket_laws req link_in link_out"
  shows "office_left req ids t < office_left req ids s"
proof -
  have ok: "hand_ok req ids (letters s) (boss s) i (hands s ! i)" if "i < length ids" for i
    using assms(2) that by (simp add: office_inv_def)
  have len: "length (hands s) = length ids" and d: "distinct ids" using assms(2) by (simp_all add: office_inv_def)
  show ?thesis
  using assms proof (cases rule: office_step_cases)
    case (greet i)
    then show ?thesis
      using len d by (intro office_left_less [OF greet(1)]) (auto simp: hand_left_def letter_of_eq split: phase.split)
  next
    case (answer i xs ys b)
    have l: "letter_of ids i \<in> set (letters s)" "letter_of ids i \<notin> set (xs @ ys)"
      "set (letters s) = insert (letter_of ids i) (set (xs @ ys))"
      using assms(2) answer(3) by (auto simp: office_inv_def)
    with ok [OF answer(1)] have "phase (hands s ! i) = Waiting" "hand_in (hands s ! i) = []"
      by (auto simp: hand_ok_def)
    with answer l len d show ?thesis
      by (intro office_left_less [OF answer(1)]) (auto simp: hand_left_def letter_of_eq split: phase.split)
  next
    case (work i x ms inp h)
    then have l: "letter_of ids i \<notin> set (letters s)"
      using ok [OF work(1)] by (auto simp: hand_ok_def)
    with ok [OF work(1)] work(2,3) have "x = order req WORK \<and> ms = [] \<or> x = order req FIRED \<and> ms = []"
      by (auto simp: hand_ok_def)
    with work l len show ?thesis
      by (intro office_left_less [OF work(1)]) (auto simp: hand_left_def hand_turn_order)
  qed
qed

lemma overtime_stuck:
  assumes "\<nexists>t. office_step req link_in link_out ids True s t" "office_inv req ids s" "socket_laws req link_in link_out"
  shows "closed_down s"
proof -
  have len: "length (hands s) = length ids" using assms(2) by (simp add: office_inv_def)
  have ended: "phase (hands s ! i) = Ended" if i: "i < length ids" for i
  proof -
    have ok: "hand_ok req ids (letters s) (boss s) i (hands s ! i)" using assms(2) i by (simp add: office_inv_def)
    have "phase (hands s ! i) \<noteq> Ready"
      using office_step.greet [of i s req link_in link_out ids True] i len assms(1) by auto
    moreover have "phase (hands s ! i) \<noteq> Waiting"
    proof
      assume w: "phase (hands s ! i) = Waiting"
      show False
      proof (cases "letter_of ids i \<in> set (letters s)")
        case False
        with ok w obtain x where "hand_in (hands s ! i) = [order req x]" by (auto simp: hand_ok_def)
        obtain h where "hand_turn req (order req x) ((hands s ! i)\<lparr>hand_in := []\<rparr>) = Inr ([], h)"
          by (auto simp: hand_turn_order)
        from office_step.work [OF _ w \<open>hand_in (hands s ! i) = [order req x]\<close> this] i len
        have "office_step req link_in link_out ids True s (s\<lparr>hands := (hands s)[i := h]\<rparr>)" by simp
        with assms(1) show False by blast
      next
        case True
        then obtain xs ys where l: "letters s = xs @ letter_of ids i # ys" by (auto simp: in_set_conv_decomp)
        from True ok w have "\<not> told req (hands s ! i)" by (auto simp: hand_ok_def told_def)
        then have "{j. j < length ids \<and> told req (hands s ! j)} \<noteq> {..<length ids}" using i by auto
        then have "card {j. j < length ids \<and> told req (hands s ! j)} \<noteq> length ids"
          using card_subset_eq [of "{..<length ids}" "{j. j < length ids \<and> told req (hands s ! j)}"] by auto
        then have "\<not> boss_over (boss s)" using assms(2) by (simp add: office_inv_def)
        moreover obtain b where "boss_turn (length ids) True (letter_of ids i) (boss s) = Inr ([], b)"
          "boss_sent b = boss_sent (boss s) @ [(ids ! i, True) # [([], True), (FIRED, False)]]"
          by (auto simp: boss_turn_letter)
        ultimately have "\<exists>t. office_step req link_in link_out ids True s t"
          using l i len by - (rule exI, rule office_step.answer, auto)
        with assms(1) show False by blast
      qed
    qed
    ultimately show ?thesis by (cases "phase (hands s ! i)") auto
  qed
  then have all: "\<forall>h \<in> set (hands s). phase h = Ended" using len by (auto simp: in_set_conv_nth)
  have "{j. j < length ids \<and> told req (hands s ! j)} = {..<length ids}" using ended by (auto simp: told_def)
  then have "boss_over (boss s)" using assms(2) by (simp add: office_inv_def)
  moreover have "letters s = []"
    using assms(2) ended by (cases "letters s") (auto simp: office_inv_def hand_ok_def)
  ultimately show ?thesis using all by (simp add: closed_down_def)
qed

interpretation office: stepping "\<lambda>s t. \<exists>late. office_step req link_in link_out ids late s t"
  "\<lambda>s. office_inv req ids s \<and> socket_laws req link_in link_out"
  by unfold_locales (auto intro: office_step_inv)

interpretation overtime: settling "office_step req link_in link_out ids True"
  "\<lambda>s. office_inv req ids s \<and> socket_laws req link_in link_out" "office_left req ids" closed_down
  by unfold_locales (auto intro: office_step_inv overtime_less overtime_stuck)

lemma office_start_inv: "ids \<noteq> [] \<Longrightarrow> distinct ids \<Longrightarrow> office_inv req ids (office_start (length ids))"
  by (simp add: office_inv_def office_start_def boss_start_def hand_ok_def told_def times_sent_def)

text \<open>Nobody is fired twice, the boss goes when all have been fired, and who has ended did every task he was sent.\<close>

text \<open>
  C22. In every interleaving of the boss and his workers, with REQ or DEALER sockets, no worker is
  told twice that he is fired, the loop of the boss is over exactly if all have been told, and a
  worker who has ended did as many tasks as he was sent.
\<close>

theorem boss_fires_each_once:
  assumes "ids \<noteq> []" "distinct ids" "socket_laws req link_in link_out"
    and "(\<lambda>s t. \<exists>late. office_step req link_in link_out ids late s t)\<^sup>*\<^sup>* (office_start (length ids)) t"
  shows "(\<forall>i < length ids. times_sent ids (boss t) i FIRED \<le> 1)
    \<and> (boss_over (boss t) \<longleftrightarrow> (\<forall>i < length ids. times_sent ids (boss t) i FIRED = 1))
    \<and> (\<forall>i < length ids. phase (hands t ! i) = Ended \<longrightarrow>
         times_sent ids (boss t) i FIRED = 1 \<and> tasks_done (hands t ! i) = times_sent ids (boss t) i WORK)"
proof -
  have inv: "office_inv req ids t" and ok: "\<And>i. i < length ids \<Longrightarrow> hand_ok req ids (letters t) (boss t) i (hands t ! i)"
    using office.run_inv [OF assms(4)] office_start_inv [OF assms(1,2)] assms(3) by (auto simp: office_inv_def)
  have fired: "times_sent ids (boss t) i FIRED = (if told req (hands t ! i) then 1 else 0)" if "i < length ids" for i
    using ok [OF that] by (simp add: hand_ok_def)
  have "boss_over (boss t) \<longleftrightarrow> {i. i < length ids \<and> told req (hands t ! i)} = {..<length ids}"
    using inv card_subset_eq [of "{..<length ids}" "{i. i < length ids \<and> told req (hands t ! i)}"]
    by (auto simp: office_inv_def)
  then have "boss_over (boss t) \<longleftrightarrow> (\<forall>i < length ids. told req (hands t ! i))" by auto
  with ok fired show ?thesis by (auto simp: told_def hand_ok_def)
qed

text \<open>When the time is over, the office closes: nothing can go on for ever, and what cannot go on is closed.\<close>

text \<open>
  C23. From any state that can be reached, runs in which the five seconds are over have at most
  five steps for each worker, and one that cannot be continued has ended the boss and every worker,
  with no message left.
\<close>

theorem office_closes:
  assumes "ids \<noteq> []" "distinct ids" "socket_laws req link_in link_out"
    and "(\<lambda>s t. \<exists>late. office_step req link_in link_out ids late s t)\<^sup>*\<^sup>* (office_start (length ids)) s"
  shows "(\<forall>n t. (office_step req link_in link_out ids True ^^ n) s t \<longrightarrow> n \<le> 5 * length ids)
    \<and> (\<exists>t. (office_step req link_in link_out ids True)\<^sup>*\<^sup>* s t \<and> closed_down t)
    \<and> (\<forall>t. (office_step req link_in link_out ids True)\<^sup>*\<^sup>* s t \<longrightarrow>
         closed_down t \<or> (\<exists>u. office_step req link_in link_out ids True t u))"
proof -
  have inv: "office_inv req ids s \<and> socket_laws req link_in link_out"
    using office.run_inv [OF assms(4)] office_start_inv [OF assms(1,2)] assms(3) by auto
  have "office_left req ids s \<le> (\<Sum>i<length ids. 5)"
    unfolding office_left_def by (intro sum_mono hand_left_le)
  with overtime.run_bounded [OF _ inv] overtime.run_settles [OF inv] overtime.stuck_run_final [OF _ inv] show ?thesis
    by fastforce
qed

subsection \<open>Instances\<close>

definition demo_in :: "bytes \<Rightarrow> bytes list \<Rightarrow> bytes list" where
  "demo_in i fs = i # [] # fs"

definition demo_out :: "bytes list \<Rightarrow> bytes list" where
  "demo_out fs = drop 2 fs"

lemma demo_laws: "socket_laws True demo_in demo_out"
  by (simp add: socket_laws_def demo_in_def demo_out_def)

lemma boss_fires_each_once_witness:
  "\<exists>t. (\<lambda>s t. \<exists>late. office_step True demo_in demo_out [[65], [66]] late s t)\<^sup>*\<^sup>* (office_start 2) t
    \<and> times_sent [[65], [66]] (boss t) 1 FIRED = 1 \<and> \<not> boss_over (boss t)"
proof -
  let ?ids = "[[65], [66]] :: bytes list"
  let ?R = "\<lambda>s t. \<exists>late. office_step True demo_in demo_out ?ids late s t"
  let ?s1 = "(office_start 2)\<lparr>hands := (hands (office_start 2))[1 := (hands (office_start 2) ! 1)\<lparr>phase := Waiting\<rparr>],
    letters := [letter_of ?ids 1]\<rparr>"
  let ?b = "\<lparr>workers_fired = 1, boss_over = False, boss_sent = [with_more [[66], [], FIRED]]\<rparr>"
  let ?t = "?s1\<lparr>boss := ?b, letters := [],
    hands := (hands ?s1)[1 := (hands ?s1 ! 1)\<lparr>hand_in := [[FIRED]]\<rparr>]\<rparr>"
  have "?R (office_start 2) ?s1"
    using office_step.greet [of 1 "office_start 2" True demo_in demo_out ?ids True]
    by (auto simp: office_start_def demo_in_def letter_of_def greeting_def)
  from converse_rtranclp_into_rtranclp [of ?R, OF this r_into_rtranclp] have "?R ?s1 ?t \<Longrightarrow> ?R\<^sup>*\<^sup>* (office_start 2) ?t" .
  moreover have "?R ?s1 ?t"
    using office_step.answer [of ?s1 "[]" "letter_of ?ids 1" "[]" ?ids True "[]" ?b "[66]" True
        "[([], True), (FIRED, False)]" 1 True demo_in demo_out]
    by (auto simp: boss_turn_letter office_start_def boss_start_def demo_out_def)
  ultimately have run: "?R\<^sup>*\<^sup>* (office_start 2) ?t" by blast
  have "times_sent ?ids (boss ?t) 0 FIRED = 0" "times_sent ?ids (boss ?t) 1 FIRED = 1"
    by (simp_all add: times_sent_def)
  with boss_fires_each_once [of ?ids True demo_in demo_out ?t] demo_laws run show ?thesis
    by (intro exI [of _ ?t] conjI) (auto simp: numeral_2_eq_2)
qed

lemma office_closes_witness:
  "\<exists>t. (office_step True demo_in demo_out [[65], [66]] True)\<^sup>*\<^sup>* (office_start 2) t \<and> closed_down t"
  using office_closes [of "[[65], [66]]" True demo_in demo_out "office_start 2"] demo_laws
  by (simp add: numeral_2_eq_2)

end
