(* ===== verification/Dump.thy ===== *)
theory Dump
  imports Zmsg Digits
begin

section \<open>Printed messages (s_dump of zhelpers.hpp, zmsg::dump)\<close>

text \<open>
  Both print each part of a message in a line, as text or as hexadecimal numbers. \<open>hex\<close> is the base of the stream
  they print on: \<open>std::hex\<close> is never undone, and so it decides how later sizes are printed. In \<open>s_dump\<close> the characters
  are signed, and the numbers printed for those above 127 have eight digits.
\<close>

subsection \<open>The code\<close>

definition is_text :: "bytes \<Rightarrow> bool" where
  "is_text d \<longleftrightarrow> (\<forall>b \<in> set d. \<not> (b < 32 \<or> b > 127))"

definition size_text :: "bool \<Rightarrow> nat \<Rightarrow> bytes" where
  "size_text hex n = zero_pad 3 (if hex then hex_with hex_digit n else decimal n)"

text \<open>\<open>(unsigned int) data [char_nbr]\<close>, and \<open>(short int)\<close> of an unsigned character.\<close>

definition signed_hex :: "byte \<Rightarrow> bytes" where
  "signed_hex b = zero_pad 2 (hex_with hex_digit (unat (scast b :: 32 word)))"

definition unsigned_hex :: "byte \<Rightarrow> bytes" where
  "unsigned_hex b = zero_pad 2 (hex_with hex_digit (unat b))"

definition dump_line :: "bool \<Rightarrow> bytes \<Rightarrow> bytes" where
  "dump_line hex d = [of_char (CHR ''['')] @ size_text hex (length d) @ [of_char (CHR '']'')]
     @ (if is_text d then d else concat (map signed_hex d)) @ [10]"

definition zmsg_dump_line :: "bool \<Rightarrow> bytes \<Rightarrow> bytes" where
  "zmsg_dump_line hex d = [of_char (CHR ''['')] @ size_text hex (length d) @ [of_char (CHR '']''), of_char (CHR '' '')]
     @ (if is_text d then d else concat (map unsigned_hex d)) @ [10]"

definition base_after :: "bool \<Rightarrow> bytes \<Rightarrow> bool" where
  "base_after hex d \<longleftrightarrow> hex \<or> \<not> is_text d"

text \<open>\<open>s_dump\<close> reads frames to the end of a message; the result is what it prints, the base, and the other frames.\<close>

fun dump_parts :: "bool \<Rightarrow> wire \<Rightarrow> fault + (bytes \<times> bool \<times> wire)" where
  "dump_parts hex [] = Inl Blocks"
| "dump_parts hex ((d, more_parts) # w) =
     (if more_parts then
        bindE (dump_parts (base_after hex d) w) (\<lambda>(t, hex', w'). Inr (dump_line hex d @ t, hex', w'))
      else Inr (dump_line hex d, base_after hex d, w))"

definition s_dump :: "bool \<Rightarrow> wire \<Rightarrow> fault + (bytes \<times> bool \<times> wire)" where
  "s_dump hex w = bindE (dump_parts hex w) (\<lambda>(t, hex', w'). Inr (replicate 40 (of_char (CHR ''-'')) @ [10] @ t, hex', w'))"

fun zmsg_dump_parts :: "bool \<Rightarrow> zmsg \<Rightarrow> bytes \<times> bool" where
  "zmsg_dump_parts hex [] = ([], hex)"
| "zmsg_dump_parts hex (d # zm) =
     (let (t, hex') = zmsg_dump_parts (base_after hex d) zm in (zmsg_dump_line hex d @ t, hex'))"

definition zmsg_dump :: "bool \<Rightarrow> zmsg \<Rightarrow> bytes \<times> bool" where
  "zmsg_dump hex zm = (let (t, hex') = zmsg_dump_parts hex zm in (replicate 38 (of_char (CHR ''-'')) @ [10] @ t, hex'))"

subsection \<open>Codes that can be read from left to right\<close>

text \<open>Each element is written by itself, in a way that can depend on what came before. If the first element can be
  read off, all of them can. \<open>good\<close> says which elements this holds for.\<close>

fun coded :: "('s \<Rightarrow> 'a \<Rightarrow> 'b list) \<Rightarrow> ('s \<Rightarrow> 'a \<Rightarrow> 's) \<Rightarrow> 's \<Rightarrow> 'a list \<Rightarrow> 'b list" where
  "coded code after s [] = []"
| "coded code after s (x # xs) = code s x @ coded code after (after s x) xs"

locale prefix_code =
  fixes code :: "'s \<Rightarrow> 'a \<Rightarrow> 'b list"
    and after :: "'s \<Rightarrow> 'a \<Rightarrow> 's"
    and good :: "'a \<Rightarrow> bool"
  assumes code_ne: "code s x \<noteq> []"
    and first_unique: "good x \<Longrightarrow> good y \<Longrightarrow> code s x @ u = code s y @ v \<Longrightarrow> x = y"
begin

lemma coded_inj:
  "coded code after s xs = coded code after s ys \<Longrightarrow> \<forall>x \<in> set xs. good x \<Longrightarrow> \<forall>y \<in> set ys. good y \<Longrightarrow> xs = ys"
proof (induction xs arbitrary: s ys)
  case Nil
  then show ?case using code_ne by (cases ys) auto
next
  case (Cons x xs)
  then obtain y ys' where ys: "ys = y # ys'" using code_ne by (cases ys) auto
  with Cons.prems have "x = y" using first_unique by simp
  with Cons ys show ?case by simp
qed

end

text \<open>A part that is closed by a character it does not contain.\<close>

lemma closed_unique:
  "a @ c # u = b @ c # v \<Longrightarrow> c \<notin> set a \<Longrightarrow> c \<notin> set b \<Longrightarrow> a = b \<and> u = v"
proof (induction a arbitrary: b)
  case Nil
  then show ?case by (cases b) auto
next
  case (Cons x a)
  then show ?case by (cases b) auto
qed

subsection \<open>The hexadecimal digits of a byte\<close>

lemma scast_byte_table: "\<forall>i \<in> set [0..255]. uint (scast (word_of_int i :: byte) :: 32 word) = (if i < 128 then i else i + 4294967040)"
  by code_simp

lemma uint_scast_byte: "uint (scast (b :: byte) :: 32 word) = (if b < 128 then uint b else uint b + 4294967040)"
proof -
  have "uint b \<in> set [0..255]" using uint_bounded [of b] by simp
  from bspec [OF scast_byte_table this] show ?thesis by (simp add: word_less_def)
qed

lemma hex_with_step: "r < 16 \<Longrightarrow> 0 < q \<Longrightarrow> hex_with g (16 * q + r) = hex_with g q @ [g r]"
  by (subst hex_with.simps) simp

lemma unsigned_hex_digits: "unsigned_hex b = [hex_digit (unat b div 16), hex_digit (unat b mod 16)]"
proof (cases "unat b < 16")
  case True
  then show ?thesis by (simp add: unsigned_hex_def zero_pad_def hex_with.simps hex_digit_def)
next
  case False
  have "unat b div 16 < 16" using unsigned_less [of b, where 'a = nat] by simp
  with False show ?thesis by (simp add: unsigned_hex_def zero_pad_def hex_with.simps)
qed

lemma hex24: "hex_with hex_digit 16777215 = replicate 6 102"
  proof -
  have "hex_with hex_digit 16777215 = hex_with hex_digit (16 * (16 * (16 * (16 * (16 * 15 + 15) + 15) + 15) + 15) + 15)" by simp
  also have "\<dots> = replicate 6 (hex_digit 15)"
    by (simp only: hex_with_step) (simp add: hex_with.simps numeral_eq_Suc)
  finally show ?thesis by (simp add: hex_digit_def)
qed

lemma signed_hex_eq: "signed_hex b = (if b < 128 then unsigned_hex b else replicate 6 102 @ unsigned_hex b)"
proof (cases "b < 128")
  case True
  then have "unat (scast b :: 32 word) = unat b" using arg_cong [OF uint_scast_byte [of b], of nat] by simp
  with True show ?thesis by (simp add: signed_hex_def unsigned_hex_def)
next
  case False
  then have "unat (scast b :: 32 word) = 4294967040 + unat b"
    using arg_cong [OF uint_scast_byte [of b], of nat] by (simp add: nat_add_distrib)
  also have "\<dots> = 16 * (16 * 16777215 + unat b div 16) + unat b mod 16" by simp
  finally have v: "unat (scast b :: 32 word) = 16 * (16 * 16777215 + unat b div 16) + unat b mod 16" .
  have "unat b div 16 < 16" using unsigned_less [of b, where 'a = nat] by simp
  then have "hex_with hex_digit (unat (scast b :: 32 word))
      = (hex_with hex_digit 16777215 @ [hex_digit (unat b div 16)]) @ [hex_digit (unat b mod 16)]"
    unfolding v by (subst hex_with_step, simp, simp, subst hex_with_step, simp_all)
  with False show ?thesis by (simp add: signed_hex_def zero_pad_def hex24 unsigned_hex_digits)
qed

lemma hex_digit_chars:
  "\<forall>d \<in> set [0..<16]. hex_digit d \<notin> {10, 93} \<and> (d < 8 \<longrightarrow> hex_digit d \<noteq> 102) \<and> (is_digit (hex_digit d) \<longleftrightarrow> d < 10)"
  by code_simp

lemma hex_digit_plain: "d < 16 \<Longrightarrow> hex_digit d \<noteq> 10 \<and> hex_digit d \<noteq> 93"
  and hex_digit_low: "d < 8 \<Longrightarrow> hex_digit d \<noteq> 102"
  and hex_digit_is_digit: "d < 16 \<Longrightarrow> is_digit (hex_digit d) \<longleftrightarrow> d < 10"
  using hex_digit_chars by auto

lemma unat_byte: "unat (b :: byte) < 256"
  using unsigned_less [of b, where 'a = nat] by simp

lemma unsigned_hex_inj: "unsigned_hex a = unsigned_hex b \<Longrightarrow> a = b"
proof -
  assume "unsigned_hex a = unsigned_hex b"
  then have "unat a div 16 = unat b div 16" "unat a mod 16 = unat b mod 16"
    using unat_byte [of a] unat_byte [of b] by (auto simp: unsigned_hex_digits intro: hex_digit_inj)
  then have "unat a = unat b" by (metis mult_div_mod_eq)
  then show "a = b" by (simp add: word_unat_eq_iff)
qed

lemma signed_hex_shape: "signed_hex b \<noteq> []" "10 \<notin> set (signed_hex b)" "10 \<notin> set (unsigned_hex b)"
proof -
  have "unat b div 16 < 16" "unat b mod 16 < 16" using unat_byte [of b] by simp_all
  then have "hex_digit (unat b div 16) \<noteq> 10" "hex_digit (unat b mod 16) \<noteq> 10"
    by (simp_all add: hex_digit_plain)
  then show "signed_hex b \<noteq> []" "10 \<notin> set (signed_hex b)" "10 \<notin> set (unsigned_hex b)"
    by (auto simp: signed_hex_eq unsigned_hex_digits)
qed

lemma signed_hex_head: "b < 128 \<Longrightarrow> hd (unsigned_hex b) \<noteq> 102"
proof -
  assume "b < 128"
  then have "unat b div 16 < 8" by (simp add: word_less_nat_alt)
  then show ?thesis by (simp add: unsigned_hex_digits hex_digit_low)
qed

interpretation signed: prefix_code "\<lambda>_ :: unit. signed_hex" "\<lambda>s _. s" "\<lambda>_. True"
proof unfold_locales
  fix a b u v
  assume eq: "signed_hex a @ u = signed_hex b @ v"
  have len: "length (unsigned_hex c) = 2" for c by (simp add: unsigned_hex_digits)
  have "hd (signed_hex a) = hd (signed_hex b)"
    using eq signed_hex_shape(1) by (metis hd_append2)
  then have "a < 128 \<longleftrightarrow> b < 128"
    using signed_hex_head [of a] signed_hex_head [of b] by (auto simp: signed_hex_eq split: if_splits)
  with eq len have "unsigned_hex a = unsigned_hex b" by (auto simp: signed_hex_eq split: if_splits)
  then show "a = b" by (rule unsigned_hex_inj)
qed (rule signed_hex_shape)

interpretation unsigned: prefix_code "\<lambda>_ :: unit. unsigned_hex" "\<lambda>s _. s" "\<lambda>_. True"
proof unfold_locales
  fix a b u v
  assume "unsigned_hex a @ u = unsigned_hex b @ v"
  then have "unsigned_hex a = unsigned_hex b" by (simp add: unsigned_hex_digits)
  then show "a = b" by (rule unsigned_hex_inj)
qed (simp add: unsigned_hex_digits)

lemma coded_concat: "coded (\<lambda>_. f) g s xs = concat (map f xs)"
  by (induction xs arbitrary: s) simp_all

subsection \<open>Lines can be read back\<close>

lemma size_text_chars: "93 \<notin> set (size_text hex n)" "10 \<notin> set (size_text hex n)"
proof -
  have "c \<notin> {93, 10}" if "c \<in> set (hex_with hex_digit n)" for c
    using hex_with_digits [of hex_digit n] that hex_digit_plain by auto
  moreover have "c \<notin> {93, 10}" if "c \<in> set (decimal n)" for c
    using decimal_is_digits [of n] that by (auto simp: is_digit_def)
  ultimately show "93 \<notin> set (size_text hex n)" "10 \<notin> set (size_text hex n)"
    by (auto simp: size_text_def zero_pad_def split: if_splits)
qed

lemma size_text_inj: "size_text hex m = size_text hex n \<Longrightarrow> m = n"
proof (cases hex)
  case True
  assume "size_text hex m = size_text hex n"
  with True have "zero_pad 3 (hex_with hex_digit m) = zero_pad 3 (hex_with hex_digit n)" by (simp add: size_text_def)
  then show ?thesis
    by (intro padded_hex_inj [of hex_digit 3]) (auto intro!: inj_onI hex_digit_inj simp: hex_digit_def)
next
  case False
  assume "size_text hex m = size_text hex n"
  with False have "digits_value (decimal m) = digits_value (decimal n)"
    by (simp add: size_text_def) (metis digits_value_zero_pad)
  then show ?thesis by (simp add: digits_value_decimal)
qed

lemma is_text_no_newline: "is_text d \<Longrightarrow> 10 \<notin> set d"
  by (auto simp: is_text_def)

text \<open>A part that is no text is longer as hexadecimal numbers than it is.\<close>

lemma binary_longer:
  assumes "\<And>b. 2 \<le> length (f b)" "d \<noteq> []"
  shows "length d < length (concat (map f d))"
  using assms(2)
proof (induction d)
  case (Cons b d)
  show ?case
  proof (cases "d = []")
    case False
    with Cons.IH have "length d < length (concat (map f d))" by simp
    with assms(1) [of b] show ?thesis by simp
  qed (use assms(1) [of b] in simp)
qed simp

lemma line_unique:
  assumes "\<And>a b. concat (map f a) = concat (map f b) \<Longrightarrow> a = b" "\<And>b. 2 \<le> length (f b)" "\<And>b. 10 \<notin> set (f b)"
    and "91 # size_text hex (length d) @ 93 # gap @ (if is_text d then d else concat (map f d)) @ 10 # u
       = 91 # size_text hex (length e) @ 93 # gap @ (if is_text e then e else concat (map f e)) @ 10 # v"
  shows "d = e"
proof -
  let ?shown = "\<lambda>d. if is_text d then d else concat (map f d)"
  have "size_text hex (length d) = size_text hex (length e) \<and> gap @ ?shown d @ 10 # u = gap @ ?shown e @ 10 # v"
    using assms(4) by (intro closed_unique [of _ 93]) (auto simp: size_text_chars)
  then have len: "length d = length e" and rest: "?shown d @ 10 # u = ?shown e @ 10 # v"
    by (auto dest: size_text_inj)
  have plain: "10 \<notin> set (?shown d)" for d using assms(3) is_text_no_newline by auto
  from closed_unique [OF rest plain plain] have same: "?shown d = ?shown e" by simp
  have "is_text d \<longleftrightarrow> is_text e"
  proof (rule ccontr)
    have binary: "length c < length (concat (map f c))" if "\<not> is_text c" for c
      using that by (intro binary_longer assms(2)) (auto simp: is_text_def)
    assume "is_text d \<noteq> is_text e"
    with same len binary [of d] binary [of e] show False by (auto split: if_splits)
  qed
  with same assms(1) show ?thesis by (auto split: if_splits)
qed

interpretation lines: prefix_code dump_line base_after "\<lambda>_. True"
proof unfold_locales
  fix hex d u e v
  assume eq: "dump_line hex d @ u = dump_line hex e @ v"
  show "d = e"
  proof (rule line_unique)
    show "a = b" if "concat (map signed_hex a) = concat (map signed_hex b)" for a b
      using signed.coded_inj [of "()" a b] that by (simp add: coded_concat)
    show "2 \<le> length (signed_hex b)" for b by (simp add: signed_hex_eq unsigned_hex_digits)
    show "91 # size_text hex (length d) @ 93 # [] @ (if is_text d then d else concat (map signed_hex d)) @ 10 # u
        = 91 # size_text hex (length e) @ 93 # [] @ (if is_text e then e else concat (map signed_hex e)) @ 10 # v"
      using eq by (simp add: dump_line_def)
  qed (rule signed_hex_shape)
qed (simp add: dump_line_def)

interpretation zmsg_lines: prefix_code zmsg_dump_line base_after "\<lambda>_. True"
proof unfold_locales
  fix hex d u e v
  assume eq: "zmsg_dump_line hex d @ u = zmsg_dump_line hex e @ v"
  show "d = e"
  proof (rule line_unique)
    show "a = b" if "concat (map unsigned_hex a) = concat (map unsigned_hex b)" for a b
      using unsigned.coded_inj [of "()" a b] that by (simp add: coded_concat)
    show "2 \<le> length (unsigned_hex b)" for b by (simp add: signed_hex_eq unsigned_hex_digits)
    show "91 # size_text hex (length d) @ 93 # [32] @ (if is_text d then d else concat (map unsigned_hex d)) @ 10 # u
        = 91 # size_text hex (length e) @ 93 # [32] @ (if is_text e then e else concat (map unsigned_hex e)) @ 10 # v"
      using eq by (simp add: zmsg_dump_line_def)
  qed (rule signed_hex_shape)
qed (simp add: zmsg_dump_line_def)

subsection \<open>Whole messages\<close>

lemma dump_parts_coded:
  "ps \<noteq> [] \<Longrightarrow> dump_parts hex (with_more ps @ w) = Inr (coded dump_line base_after hex ps, foldl base_after hex ps, w)"
proof (induction ps arbitrary: hex)
  case (Cons p ps)
  then show ?case by (cases ps) simp_all
qed simp

lemma s_dump_coded:
  "ps \<noteq> [] \<Longrightarrow> s_dump hex (with_more ps @ w)
    = Inr (replicate 40 45 @ 10 # coded dump_line base_after hex ps, foldl base_after hex ps, w)"
  by (simp add: s_dump_def dump_parts_coded)

lemma zmsg_dump_coded: "zmsg_dump hex zm = (replicate 38 45 @ 10 # coded zmsg_dump_line base_after hex zm, foldl base_after hex zm)"
proof -
  have "zmsg_dump_parts hex zm = (coded zmsg_dump_line base_after hex zm, foldl base_after hex zm)" for hex
    by (induction zm arbitrary: hex) (simp_all add: Let_def)
  then show ?thesis by (simp add: zmsg_dump_def)
qed

text \<open>What is printed determines the message, whatever bytes it has.\<close>

text \<open>
  C28. Two messages that s_dump prints in the same way, from the same base of the stream, have the
  same parts, whatever their bytes; and so for zmsg::dump.
\<close>

theorem dump_readable:
  assumes "ps \<noteq> []" "qs \<noteq> []"
  shows "(\<exists>t hex'. s_dump hex (with_more ps @ w) = Inr (t, hex', w) \<and>
      (\<forall>hex''. s_dump hex (with_more qs @ w) = Inr (t, hex'', w) \<longrightarrow> ps = qs))
    \<and> (fst (zmsg_dump hex ps) = fst (zmsg_dump hex qs) \<longrightarrow> ps = qs)"
proof
  show "\<exists>t hex'. s_dump hex (with_more ps @ w) = Inr (t, hex', w) \<and>
      (\<forall>hex''. s_dump hex (with_more qs @ w) = Inr (t, hex'', w) \<longrightarrow> ps = qs)"
    using lines.coded_inj [of hex ps qs] by (auto simp: s_dump_coded [OF assms(1)] s_dump_coded [OF assms(2)])
  show "fst (zmsg_dump hex ps) = fst (zmsg_dump hex qs) \<longrightarrow> ps = qs"
    using zmsg_lines.coded_inj [of hex ps qs] by (simp add: zmsg_dump_coded)
qed

subsection \<open>Sizes\<close>

lemma foldl_base_after: "foldl base_after hex ps \<longleftrightarrow> hex \<or> (\<exists>p \<in> set ps. \<not> is_text p)"
  by (induction ps arbitrary: hex) (auto simp: base_after_def)

lemma digits_value_append: "digits_value (ds @ [c]) = 10 * digits_value ds + (int (unat c) - 48)"
  by (simp add: digits_value_def)

lemma hex_digit_value: "d < 10 \<Longrightarrow> int (unat (hex_digit d)) - 48 = int d"
  using digit_byte(2) [of d] by (simp add: hex_digit_def del: of_nat_add)

text \<open>A hexadecimal number without letters, read as a decimal one.\<close>

lemma hex_read_as_decimal:
  "\<forall>c \<in> set (hex_with hex_digit n). is_digit c \<Longrightarrow>
   digits_value (hex_with hex_digit n) \<le> int n \<and> (10 \<le> n \<longrightarrow> digits_value (hex_with hex_digit n) < int n)"
proof (induction n rule: less_induct)
  case (less n)
  show ?case
  proof (cases "n < 16")
    case True
    with less.prems have "n < 10" by (simp add: hex_with.simps [of _ n] hex_digit_is_digit)
    then show ?thesis using hex_digit_value [of n] by (simp add: hex_with.simps [of _ n] digits_value_def)
  next
    case False
    then have n: "hex_with hex_digit n = hex_with hex_digit (n div 16) @ [hex_digit (n mod 16)]"
      by (simp add: hex_with.simps [of _ n])
    with less.prems have "is_digit (hex_digit (n mod 16))" by simp
    then have "n mod 16 < 10" by (simp add: hex_digit_is_digit)
    then have v: "digits_value (hex_with hex_digit n) = 10 * digits_value (hex_with hex_digit (n div 16)) + int (n mod 16)"
      unfolding n digits_value_append by (simp only: hex_digit_value)
    have "digits_value (hex_with hex_digit (n div 16)) \<le> int (n div 16)"
      using less.IH [of "n div 16"] less.prems n False by simp
    moreover have "int n = 16 * int (n div 16) + int (n mod 16)" by (simp add: zdiv_int zmod_int)
    moreover have "0 < int (n div 16)" using False by simp
    ultimately show ?thesis using v by linarith
  qed
qed

lemma size_text_base: "size_text True n = size_text False n \<longleftrightarrow> n < 10"
proof
  assume eq: "size_text True n = size_text False n"
  then have "set (hex_with hex_digit n) \<subseteq> insert 48 (set (decimal n))"
    by (auto simp: size_text_def zero_pad_def dest!: arg_cong [of _ _ set])
  then have "\<forall>c \<in> set (hex_with hex_digit n). is_digit c"
    using decimal_is_digits [of n] by (auto simp: is_digit_def)
  moreover have "digits_value (hex_with hex_digit n) = int n"
    using arg_cong [OF eq, of digits_value] by (simp add: size_text_def digits_value_zero_pad digits_value_decimal)
  ultimately show "n < 10" using hex_read_as_decimal [of n] by fastforce
next
  assume "n < 10"
  then show "size_text True n = size_text False n"
    by (simp add: size_text_def hex_with.simps [of _ n] decimal.simps [of n] hex_digit_def)
qed

text \<open>The size of the last part is printed as a decimal number unless it has two digits and anything printed before
  it, in this message or an earlier one, was no text; and so for every later print on the stream.\<close>

theorem size_of_last_part:
  "\<exists>front. s_dump hex (with_more (ps @ [d]) @ w) =
      Inr (front @ [91] @ size_text (hex \<or> (\<exists>p \<in> set ps. \<not> is_text p)) (length d) @ [93]
             @ (if is_text d then d else concat (map signed_hex d)) @ [10],
           hex \<or> (\<exists>p \<in> set (ps @ [d]). \<not> is_text p), w)
    \<and> (size_text (hex \<or> (\<exists>p \<in> set ps. \<not> is_text p)) (length d) = size_text False (length d)
        \<longleftrightarrow> length d < 10 \<or> \<not> hex \<and> (\<forall>p \<in> set ps. is_text p))"
proof -
  have snoc: "coded dump_line base_after hex (ps @ [d]) = coded dump_line base_after hex ps @ dump_line (foldl base_after hex ps) d"
    for hex by (induction ps arbitrary: hex) simp_all
  let ?b = "hex \<or> (\<exists>p \<in> set ps. \<not> is_text p)"
  have "size_text ?b (length d) = size_text False (length d) \<longleftrightarrow> length d < 10 \<or> \<not> ?b"
    using size_text_base [of "length d"] by (cases ?b) simp_all
  moreover have "s_dump hex (with_more (ps @ [d]) @ w)
      = Inr ((replicate 40 45 @ 10 # coded dump_line base_after hex ps) @ dump_line ?b d,
          hex \<or> (\<exists>p \<in> set (ps @ [d]). \<not> is_text p), w)"
    using foldl_base_after [of hex "ps @ [d]"] foldl_base_after [of hex ps]
    by (simp only: s_dump_coded [of "ps @ [d]"] snoc append_is_Nil_conv not_Cons_self2 simp_thms append.assoc append_Cons)
  ultimately show ?thesis by (auto simp: dump_line_def)
qed

subsection \<open>Instances\<close>

lemma dump_readable_witness:
  "\<exists>t hex'. s_dump False (with_more [[72, 105], [0, 255]] @ []) = Inr (t, hex', []) \<and>
      (\<forall>hex''. s_dump False (with_more [[72, 105], [48, 48, 102, 102]] @ []) \<noteq> Inr (t, hex'', []))"
  using dump_readable [of "[[72, 105], [0, 255]]" "[[72, 105], [48, 48, 102, 102]]" False "[]"] by auto

lemma size_of_last_part_witness:
  "\<exists>front. s_dump False (with_more ([[200]] @ [replicate 16 65]) @ []) =
      Inr (front @ [91, 48, 49, 48, 93] @ replicate 16 65 @ [10], True, [])"
proof -
  have "is_text (replicate 16 65)" "\<not> is_text [200]" by (simp_all add: is_text_def)
  moreover have "size_text True 16 = [48, 49, 48]"
    by (simp add: size_text_def zero_pad_def hex_with.simps hex_digit_def)
  ultimately show ?thesis
    using size_of_last_part [of False "[[200]]" "replicate 16 65" "[]"] by auto
qed

end
