(* ===== verification/Async_Server.thy ===== *)
theory Async_Server
  imports Mdp Dump Chance Interleaving
begin

section \<open>The asynchronous server (asyncsrv.cpp)\<close>

text \<open>
  Clients send a numbered request each second and print what comes back meanwhile. The server's proxy deals the
  requests to its workers, and a worker answers each with a random number of copies. All of them are threads of
  one process and print on the same stream. What a ROUTER socket puts in front of the frames of a client and takes off
  again is given by \<open>link_in\<close> and \<open>link_out\<close>; \<open>zmq::proxy\<close> passes frames on as they are, to any worker.
\<close>

subsection \<open>The client\<close>

text \<open>\<open>sprintf\<close> into arrays of ten and sixteen bytes; \<open>r\<close> is what the two calls of \<open>random\<close> return.\<close>

definition client_identity :: "nat \<times> nat \<Rightarrow> fault + bytes" where
  "client_identity r =
     (let t = set_id_text (random_within 65536 (fst r), random_within 65536 (snd r))
      in if length t < 10 then Inr t else Inl Overrun)"

definition request_text :: "nat \<Rightarrow> bytes" where
  "request_text n = bytes_of ''request #'' @ decimal n"

definition request_string :: "nat \<Rightarrow> fault + bytes" where
  "request_string n = (if length (request_text n) < 16 then Inr (request_text n) else Inl Overrun)"

record async_client =
  ac_identity :: bytes
  ac_polls :: nat
  ac_request_nbr :: nat
  ac_shown :: "bytes list"

definition async_client_start :: "nat \<times> nat \<Rightarrow> fault + async_client" where
  "async_client_start r =
     bindE (client_identity r) (\<lambda>t. Inr \<lparr>ac_identity = t, ac_polls = 0, ac_request_nbr = 0, ac_shown = []\<rparr>)"

text \<open>One poll, which finds a message or times out, and the request after a hundred of them. \<open>base\<close> is the base of
  \<open>std::cout\<close>.\<close>

definition client_round :: "wire option \<Rightarrow> bool \<Rightarrow> async_client \<Rightarrow> fault + (async_client \<times> bytes option \<times> bool)" where
  "client_round arrival base c =
     bindE (case arrival of
              None \<Rightarrow> Inr (c, base)
            | Some w \<Rightarrow> bindE (s_dump base w) (\<lambda>(t, base, _). Inr (c\<lparr>ac_shown := ac_shown c @ [t]\<rparr>, base)))
       (\<lambda>(c, base).
         if ac_polls c + 1 < 100 then Inr (c\<lparr>ac_polls := ac_polls c + 1\<rparr>, None, base)
         else bindE (request_string (ac_request_nbr c + 1)) (\<lambda>r.
           Inr (c\<lparr>ac_polls := 0, ac_request_nbr := ac_request_nbr c + 1\<rparr>, Some r, base)))"

subsection \<open>The workers of the server\<close>

record job =
  job_id :: bytes
  job_msg :: bytes
  job_left :: nat

definition worker_take :: "nat \<Rightarrow> bytes list \<Rightarrow> fault + (job \<times> bytes list)" where
  "worker_take rand inp =
     bindE (s_recv inp) (\<lambda>(identity, inp).
     bindE (s_recv inp) (\<lambda>(msg, inp).
       Inr (\<lparr>job_id = identity, job_msg = msg, job_left = random_within 5 rand\<rparr>, inp)))"

definition worker_reply :: "job \<Rightarrow> wire \<times> job" where
  "worker_reply j = (with_more [job_id j, job_msg j], j\<lparr>job_left := job_left j - 1\<rparr>)"

record server_worker =
  sw_queue :: "bytes list list"
  sw_job :: "job option"

subsection \<open>All threads together\<close>

record async =
  ac :: "async_client list"
  inboxes :: "wire list list"
  base :: bool
  frontend :: "bytes list list"
  sw :: "server_worker list"

definition sent_frames :: "(bytes \<Rightarrow> bytes list \<Rightarrow> bytes list) \<Rightarrow> async_client \<Rightarrow> bytes option \<Rightarrow> bytes list list" where
  "sent_frames link_in c sent = (case sent of None \<Rightarrow> [] | Some r \<Rightarrow> [link_in (ac_identity c) [r]])"

inductive async_step :: "(bytes \<Rightarrow> bytes list \<Rightarrow> bytes list) \<Rightarrow> (bytes list \<Rightarrow> bytes \<times> bytes list) \<Rightarrow> async \<Rightarrow> async \<Rightarrow> bool"
  for link_in link_out where
  quiet: "c < length (ac s) \<Longrightarrow> client_round None (base s) (ac s ! c) = Inr (c', sent, b) \<Longrightarrow>
     async_step link_in link_out s
       (s\<lparr>ac := (ac s)[c := c'], base := b, frontend := frontend s @ sent_frames link_in c' sent\<rparr>)"
| arrival: "c < length (ac s) \<Longrightarrow> inboxes s ! c = w # ws \<Longrightarrow>
     client_round (Some w) (base s) (ac s ! c) = Inr (c', sent, b) \<Longrightarrow>
     async_step link_in link_out s
       (s\<lparr>ac := (ac s)[c := c'], inboxes := (inboxes s)[c := ws], base := b,
          frontend := frontend s @ sent_frames link_in c' sent\<rparr>)"
| deal: "frontend s = xs @ m # ys \<Longrightarrow> i < length (sw s) \<Longrightarrow>
     async_step link_in link_out s
       (s\<lparr>frontend := xs @ ys, sw := (sw s)[i := (sw s ! i)\<lparr>sw_queue := sw_queue (sw s ! i) @ [m]\<rparr>]\<rparr>)"
| take: "i < length (sw s) \<Longrightarrow> sw_job (sw s ! i) = None \<Longrightarrow> sw_queue (sw s ! i) = m # ms \<Longrightarrow>
     worker_take rand m = Inr (j, rest) \<Longrightarrow> rand < 2 ^ 31 \<Longrightarrow>
     async_step link_in link_out s (s\<lparr>sw := (sw s)[i := \<lparr>sw_queue = ms, sw_job = Some j\<rparr>]\<rparr>)"
| reply: "i < length (sw s) \<Longrightarrow> sw_job (sw s ! i) = Some j \<Longrightarrow> 0 < job_left j \<Longrightarrow> worker_reply j = (w, j') \<Longrightarrow>
     c < length (ac s) \<Longrightarrow> link_out (map fst w) = (ac_identity (ac s ! c), fs) \<Longrightarrow>
     async_step link_in link_out s
       (s\<lparr>sw := (sw s)[i := (sw s ! i)\<lparr>sw_job := Some j'\<rparr>],
          inboxes := (inboxes s)[c := inboxes s ! c @ [with_more fs]]\<rparr>)"
| replied: "i < length (sw s) \<Longrightarrow> sw_job (sw s ! i) = Some j \<Longrightarrow> job_left j = 0 \<Longrightarrow>
     async_step link_in link_out s (s\<lparr>sw := (sw s)[i := (sw s ! i)\<lparr>sw_job := None\<rparr>]\<rparr>)"

definition async_start :: "async_client list \<Rightarrow> nat \<Rightarrow> async" where
  "async_start cs k = \<lparr>ac = cs, inboxes = replicate (length cs) [], base = False, frontend = [],
     sw = replicate k \<lparr>sw_queue = [], sw_job = None\<rparr>\<rparr>"

subsection \<open>Texts fit\<close>

lemma request_text_inj: "request_text m = request_text n \<Longrightarrow> m = n"
  by (auto simp: request_text_def intro: decimal_inj)

lemma request_string_fits: "request_string n = (if n < 1000000 then Inr (request_text n) else Inl Overrun)"
proof -
  have "length (request_text n) < 16 \<longleftrightarrow> length (decimal n) \<le> Suc 5" by (auto simp: request_text_def bytes_of_def)
  also have "\<dots> \<longleftrightarrow> n < 1000000" unfolding length_decimal by simp
  finally show ?thesis by (simp add: request_string_def)
qed

lemma length_hex4: "length (hex4 n) = (if n < 65536 then 4 else if n = 65536 then 5 else length (hex4 n))"
proof -
  have "hex4 65536 = map ((!) hex_char) [1, 0, 0, 0, 0]"
    by (simp add: hex4_def zero_pad_def hex_with.simps)
  then show ?thesis using hex4_digits(3) [of n] by auto
qed

lemma client_identity_fits:
  assumes "a < 2 ^ 31" "b < 2 ^ 31"
  shows "client_identity (a, b) = Inl Overrun \<longleftrightarrow> 2 ^ 31 - 64 \<le> a \<or> 2 ^ 31 - 64 \<le> b"
proof -
  have r: "random_within 65536 x \<le> 65536 \<and> (random_within 65536 x = 65536 \<longleftrightarrow> 2 ^ 31 - 64 \<le> x)" if "x < 2 ^ 31" for x
    using within_range [OF _ _ that, of 65536] by simp
  have "length (hex4 n) = (if n = 65536 then 5 else 4)" if "n \<le> 65536" for n
    using length_hex4 [of n] that by (auto split: if_splits)
  with r [OF assms(1)] r [OF assms(2)] show ?thesis by (simp add: client_identity_def set_id_text_def Let_def)
qed

subsection \<open>What is under way\<close>

definition shown_text :: "nat \<Rightarrow> bytes" where
  "shown_text k = replicate 40 45 @ 10 # dump_line False (request_text k)"

definition own_request :: "bytes list \<Rightarrow> bytes list \<Rightarrow> bool" where
  "own_request ids m \<longleftrightarrow> (\<exists>i \<in> set ids. \<exists>k. m = [i, request_text k])"

definition client_typed :: "async_client \<Rightarrow> bool" where
  "client_typed c \<longleftrightarrow> ac_polls c < 100 \<and> (\<forall>t \<in> set (ac_shown c). \<exists>k. t = shown_text k)"

definition worker_typed :: "bytes list \<Rightarrow> server_worker \<Rightarrow> bool" where
  "worker_typed ids w \<longleftrightarrow> (\<forall>m \<in> set (sw_queue w). own_request ids m)
     \<and> (\<forall>j. sw_job w = Some j \<longrightarrow> own_request ids [job_id j, job_msg j])"

definition async_typed :: "bytes list \<Rightarrow> async \<Rightarrow> bool" where
  "async_typed ids s \<longleftrightarrow> map ac_identity (ac s) = ids \<and> length (inboxes s) = length ids \<and> \<not> base s
     \<and> (\<forall>c \<in> set (ac s). client_typed c)
     \<and> (\<forall>ws \<in> set (inboxes s). \<forall>w \<in> set ws. \<exists>k. w = [(request_text k, False)])
     \<and> (\<forall>m \<in> set (frontend s). own_request ids m)
     \<and> (\<forall>w \<in> set (sw s). worker_typed ids w)"

text \<open>How many copies of a request its client has printed or can still get.\<close>

definition worker_copies :: "bytes list \<Rightarrow> server_worker \<Rightarrow> nat" where
  "worker_copies m w = 5 * count_list (sw_queue w) m
     + (case sw_job w of None \<Rightarrow> 0 | Some j \<Rightarrow> if [job_id j, job_msg j] = m then job_left j else 0)"

definition copies :: "bytes list \<Rightarrow> async \<Rightarrow> nat \<Rightarrow> nat \<Rightarrow> nat" where
  "copies ids s c k = count_list (ac_shown (ac s ! c)) (shown_text k)
     + count_list (inboxes s ! c) [(request_text k, False)]
     + 5 * count_list (frontend s) [ids ! c, request_text k]
     + sum_list (map (worker_copies [ids ! c, request_text k]) (sw s))"

definition async_inv :: "bytes list \<Rightarrow> async \<Rightarrow> bool" where
  "async_inv ids s \<longleftrightarrow> distinct ids \<and> async_typed ids s
     \<and> (\<forall>c < length ids. \<forall>k. copies ids s c k \<le> (if 1 \<le> k \<and> k \<le> ac_request_nbr (ac s ! c) then 5 else 0))"

lemma is_text_request: "is_text (request_text k)"
proof -
  have "\<not> (c < 32 \<or> c > 127)" if "c \<in> set (decimal k)" for c
  proof -
    have "is_digit c" using decimal_is_digits [of k] that by blast
    then have "48 \<le> c" "c \<le> 57" by (simp_all add: is_digit_def)
    then show ?thesis by (simp add: word_le_nat_alt word_less_nat_alt)
  qed
  moreover have "\<forall>c \<in> set (bytes_of ''request #''). \<not> (c < 32 \<or> c > 127)" by code_simp
  ultimately show ?thesis by (auto simp: is_text_def request_text_def)
qed

lemma shown_text_inj: "shown_text m = shown_text n \<Longrightarrow> m = n"
  using lines.first_unique [of False "request_text m" "[]" "request_text n" "[]"]
  by (auto simp: shown_text_def intro: request_text_inj)

lemma dump_request: "s_dump False [(request_text k, False)] = Inr (shown_text k, False, [])"
  using s_dump_coded [of "[request_text k]" False "[]"] by (simp add: shown_text_def is_text_request base_after_def)

lemma count_list_map_inj: "(\<And>x y. f x = f y \<Longrightarrow> x = y) \<Longrightarrow> count_list (map f xs) (f x) = count_list xs x"
  by (induction xs) auto

text \<open>What a round does with a request that comes back, or with none.\<close>

definition came :: "wire option \<Rightarrow> nat \<Rightarrow> bool" where
  "came arrival k \<longleftrightarrow> arrival = Some [(request_text k, False)]"

lemma client_round_result:
  assumes "client_round arrival False c = Inr (c', sent, b)" "arrival = None \<or> came arrival k"
  shows "\<not> b" "ac_identity c' = ac_identity c" "client_typed c \<Longrightarrow> client_typed c'"
    "ac_shown c' = ac_shown c @ (if came arrival k then [shown_text k] else [])"
    "sent = None \<and> ac_request_nbr c' = ac_request_nbr c \<or>
     sent = Some (request_text (Suc (ac_request_nbr c))) \<and> ac_request_nbr c' = Suc (ac_request_nbr c)"
  using assms
  by (auto simp: client_round_def came_def dump_request request_string_fits client_typed_def split: if_splits) (blast+)

text \<open>It never fails but for the request that does not fit.\<close>

lemma client_round_faults:
  assumes "arrival = None \<or> came arrival k" "ac_polls c < 100"
  shows "client_round arrival False c = Inl f \<longleftrightarrow> f = Overrun \<and> ac_polls c = 99 \<and> 999999 \<le> ac_request_nbr c"
  using assms by (auto simp: client_round_def came_def dump_request request_string_fits split: if_splits)

lemma typed_client:
  assumes "async_typed ids s" "c < length (ac s)"
  shows "c < length ids" "ac_identity (ac s ! c) = ids ! c" "client_typed (ac s ! c)" "\<not> base s" "c < length (inboxes s)"
  using assms by (auto simp: async_typed_def)

lemma round_inv:
  assumes inv: "async_inv ids s" and laws: "router_laws link_in link_out" and c: "c < length (ac s)"
    and step: "client_round arrival (base s) (ac s ! c) = Inr (c', sent, b)"
    and inbox: "arrival = None \<and> ins = inboxes s \<or> (\<exists>w ws. arrival = Some w \<and> inboxes s ! c = w # ws \<and> ins = (inboxes s)[c := ws])"
  shows "async_inv ids (s\<lparr>ac := (ac s)[c := c'], inboxes := ins, base := b, frontend := frontend s @ sent_frames link_in c' sent\<rparr>)"
    (is "async_inv ids ?t")
proof -
  have typed: "async_typed ids s" and d: "distinct ids" using inv by (simp_all add: async_inv_def)
  note tc = typed_client [OF typed c]
  obtain k where k: "arrival = None \<or> came arrival k"
  proof (cases arrival)
    case (Some w)
    then obtain ws where "inboxes s ! c = w # ws" using inbox by auto
    then have "inboxes s ! c \<in> set (inboxes s)" "w \<in> set (inboxes s ! c)" using nth_mem [OF tc(5)] by simp_all
    moreover have "\<forall>ws \<in> set (inboxes s). \<forall>w \<in> set ws. \<exists>k. w = [(request_text k, False)]"
      using typed by (simp add: async_typed_def)
    ultimately obtain k where "w = [(request_text k, False)]" by blast
    with Some that show ?thesis by (simp add: came_def)
  qed (use that in simp)
  from step tc(4) have "client_round arrival False (ac s ! c) = Inr (c', sent, b)" by simp
  note r = client_round_result [OF this k]
  have ident: "ac_identity c' = ids ! c" using r(2) tc(2) by simp
  have out: "sent_frames link_in c' sent = (case sent of None \<Rightarrow> [] | Some q \<Rightarrow> [[ids ! c, q]])"
    using laws ident by (simp add: sent_frames_def router_laws_def split: option.split)
  have len: "length (ac s) = length ids" using typed by (auto simp: async_typed_def)
  have "map ac_identity (ac ?t) = ids"
    using typed ident c by (auto simp: async_typed_def map_update list_update_id)
  moreover have "client_typed a" if "a \<in> set (ac ?t)" for a
    using that set_update_subset_insert [of "ac s" c c'] r(3) tc(3) typed by (auto simp: async_typed_def)
  moreover have "\<forall>w \<in> set ws. \<exists>k. w = [(request_text k, False)]" if "ws \<in> set (inboxes ?t)" for ws
  proof -
    have "set ws \<subseteq> set (inboxes s ! c) \<or> ws \<in> set (inboxes s)"
      using that inbox set_update_subset_insert [of "inboxes s" c] by fastforce
    moreover have "inboxes s ! c \<in> set (inboxes s)" using tc(5) by simp
    ultimately show ?thesis using typed by (auto simp: async_typed_def)
  qed
  moreover have "own_request ids m" if "m \<in> set (frontend ?t)" for m
    using that typed r(5) tc(1) by (auto simp: out async_typed_def own_request_def split: option.splits)
  moreover have "length (inboxes ?t) = length ids" using typed inbox by (auto simp: async_typed_def)
  ultimately have "async_typed ids ?t" using typed r(1) by (simp add: async_typed_def)
  moreover have "copies ids ?t e n \<le> (if 1 \<le> n \<and> n \<le> ac_request_nbr (ac ?t ! e) then 5 else 0)" if e: "e < length ids" for e n
  proof -
    have old: "copies ids s e n \<le> (if 1 \<le> n \<and> n \<le> ac_request_nbr (ac s ! e) then 5 else 0)"
      using inv e by (simp add: async_inv_def)
    show ?thesis
    proof (cases "e = c")
      case False
      then have "ids ! c \<noteq> ids ! e" using d e tc(1) by (simp add: nth_eq_iff_index_eq)
      then have "count_list (frontend ?t) [ids ! e, request_text n] = count_list (frontend s) [ids ! e, request_text n]"
        by (auto simp: out split: option.split)
      moreover have "inboxes ?t ! e = inboxes s ! e" using inbox False by auto
      ultimately have "copies ids ?t e n = copies ids s e n" using False by (simp add: copies_def)
      with old False show ?thesis by simp
    next
      case True
      have "count_list (ac_shown c') (shown_text n) + count_list (ins ! c) [(request_text n, False)]
          = count_list (ac_shown (ac s ! c)) (shown_text n) + count_list (inboxes s ! c) [(request_text n, False)]"
        using inbox r(4) tc(5) k by (auto simp: came_def dest: shown_text_inj request_text_inj)
      then have "copies ids ?t c n = copies ids s c n
          + (if sent = Some (request_text n) then 5 else 0)"
        using c by (auto simp: copies_def out split: option.split)
      moreover have "sent = Some (request_text n) \<longleftrightarrow> sent \<noteq> None \<and> n = Suc (ac_request_nbr (ac s ! c))"
        using r(5) by (auto dest: request_text_inj)
      ultimately show ?thesis using old True r(5) c by (auto split: if_splits)
    qed
  qed
  ultimately show ?thesis using d by (simp add: async_inv_def)
qed

lemma sum_list_worker:
  fixes f :: "'a \<Rightarrow> nat"
  assumes "i < length ws"
  shows "sum_list (map f (ws[i := w])) + f (ws ! i) = sum_list (map f ws) + f w"
  using assms
proof (induction ws arbitrary: i)
  case (Cons v ws)
  then show ?case by (cases i) auto
qed simp

text \<open>A step of a worker, which passes copies on and makes none.\<close>

lemma worker_inv:
  assumes inv: "async_inv ids s" and i: "i < length (sw s)"
    and t: "ac t = ac s" "base t = base s" "sw t = (sw s)[i := w]"
    and typed: "worker_typed ids w" "\<forall>m \<in> set (frontend t). own_request ids m" "length (inboxes t) = length (inboxes s)"
      "\<forall>ws \<in> set (inboxes t). \<forall>w \<in> set ws. \<exists>k. w = [(request_text k, False)]"
    and less: "\<And>c k. c < length ids \<Longrightarrow> count_list (inboxes t ! c) [(request_text k, False)]
        + 5 * count_list (frontend t) [ids ! c, request_text k] + worker_copies [ids ! c, request_text k] w
      \<le> count_list (inboxes s ! c) [(request_text k, False)]
        + 5 * count_list (frontend s) [ids ! c, request_text k] + worker_copies [ids ! c, request_text k] (sw s ! i)"
  shows "async_inv ids t"
proof -
  have le: "copies ids t c k \<le> copies ids s c k" if "c < length ids" for c k
    using less [OF that, of k] sum_list_worker [OF i, of "worker_copies [ids ! c, request_text k]" w]
    by (simp add: copies_def t)
  have "worker_typed ids v" if "v \<in> set (sw t)" for v
    using that set_update_subset_insert [of "sw s" i w] inv typed(1) by (auto simp: t async_inv_def async_typed_def)
  moreover have "async_typed ids s" using inv by (simp add: async_inv_def)
  ultimately have "async_typed ids t"
    using typed by (simp add: async_typed_def t)
  moreover have "copies ids t c k \<le> (if 1 \<le> k \<and> k \<le> ac_request_nbr (ac t ! c) then 5 else 0)" if "c < length ids" for c k
    using order_trans [OF le [OF that]] inv that by (simp add: async_inv_def t)
  ultimately show ?thesis using inv by (simp add: async_inv_def)
qed

lemma async_step_inv:
  assumes "async_step link_in link_out s t" "async_inv ids s" "router_laws link_in link_out"
  shows "async_inv ids t"
  using assms(1)
proof (cases rule: async_step.cases)
  case (quiet c c' sent b)
  then show ?thesis using round_inv [OF assms(2,3) quiet(2,3), of "inboxes s"] by simp
next
  case (arrival c w ws c' sent b)
  then show ?thesis using round_inv [OF assms(2,3) arrival(2,4), of "(inboxes s)[c := ws]"] by simp
next
  case (deal xs m ys i)
  show ?thesis
  proof (rule worker_inv [OF assms(2) deal(3)])
    show "sw t = (sw s)[i := (sw s ! i)\<lparr>sw_queue := sw_queue (sw s ! i) @ [m]\<rparr>]" using deal(1) by simp
    have "own_request ids m" "worker_typed ids (sw s ! i)"
      using assms(2) deal(2) nth_mem [OF deal(3)] by (auto simp: async_inv_def async_typed_def)
    then show "worker_typed ids ((sw s ! i)\<lparr>sw_queue := sw_queue (sw s ! i) @ [m]\<rparr>)"
      by (auto simp: worker_typed_def)
  qed (use assms(2) deal in \<open>auto simp: async_inv_def async_typed_def worker_copies_def\<close>)
next
  case (take i m ms rand j rest)
  let ?w = "\<lparr>sw_queue = ms, sw_job = Some j\<rparr>"
  have wt: "worker_typed ids (sw s ! i)"
    using assms(2) nth_mem [OF take(2)] by (auto simp: async_inv_def async_typed_def)
  then obtain a q where m: "m = [a, request_text q]" "a \<in> set ids"
    using take(4) by (auto simp: worker_typed_def own_request_def)
  with take(5) have j: "[job_id j, job_msg j] = m" "job_left j = random_within 5 rand" by (auto simp: worker_take_def)
  have "job_left j \<le> 5" using within_range [of 5 rand] take(6) j(2) by simp
  with j(1) take(3,4) have "worker_copies [ids ! c, request_text k] ?w \<le> worker_copies [ids ! c, request_text k] (sw s ! i)" for c k
    by (simp add: worker_copies_def)
  moreover have "worker_typed ids ?w" using wt take(4) j(1) by (auto simp: worker_typed_def)
  ultimately show ?thesis
    using assms(2) take(1) by (intro worker_inv [OF assms(2) take(2), where w = ?w]) (auto simp: async_inv_def async_typed_def)
next
  case (reply i j w j' c fs)
  let ?w = "(sw s ! i)\<lparr>sw_job := Some j'\<rparr>"
  have wt: "worker_typed ids (sw s ! i)" and typed: "async_typed ids s" and d: "distinct ids"
    using assms(2) nth_mem [OF reply(2)] by (auto simp: async_inv_def async_typed_def)
  note tc = typed_client [OF typed reply(6)]
  obtain q where q: "job_msg j = request_text q" using wt reply(3) by (auto simp: worker_typed_def own_request_def)
  have j': "job_id j' = job_id j" "job_msg j' = job_msg j" "Suc (job_left j') = job_left j" "fs = [job_msg j]" "job_id j = ids ! c"
    using reply(4,5,7) tc(2) assms(3) by (auto simp: worker_reply_def router_laws_def)
  show ?thesis
  proof (rule worker_inv [OF assms(2) reply(2), where w = ?w])
    fix e k assume e: "e < length ids"
    have "ids ! c = ids ! e \<longleftrightarrow> c = e" using d e tc(1) by (simp add: nth_eq_iff_index_eq)
    then show "count_list (inboxes t ! e) [(request_text k, False)]
        + 5 * count_list (frontend t) [ids ! e, request_text k] + worker_copies [ids ! e, request_text k] ?w
      \<le> count_list (inboxes s ! e) [(request_text k, False)]
        + 5 * count_list (frontend s) [ids ! e, request_text k] + worker_copies [ids ! e, request_text k] (sw s ! i)"
      using reply(1,3) j' tc(5) by (cases "e = c") (auto simp: worker_copies_def)
  next
    have old: "\<exists>k. v = [(request_text k, False)]" if "ws \<in> set (inboxes s)" "v \<in> set ws" for ws v
      using typed that by (simp add: async_typed_def)
    have "\<exists>k. v = [(request_text k, False)]" if "ws \<in> set (inboxes t)" "v \<in> set ws" for ws v
    proof (cases "ws \<in> set (inboxes s)")
      case False
      with that(1) reply(1) have "ws = inboxes s ! c @ [with_more fs]"
        using set_update_subset_insert [of "inboxes s" c "inboxes s ! c @ [with_more fs]"] by auto
      with that(2) q j'(4) old [OF nth_mem [OF tc(5)]] show ?thesis by auto
    qed (rule old [OF _ that(2)])
    then show "\<forall>ws \<in> set (inboxes t). \<forall>w \<in> set ws. \<exists>k. w = [(request_text k, False)]" by blast
  qed (use typed wt reply(1,3) j' in \<open>auto simp: async_typed_def worker_typed_def\<close>)
next
  case (replied i j)
  then show ?thesis
    using assms(2) nth_mem [OF replied(2)]
    by (intro worker_inv [OF assms(2) replied(2), where w = "(sw s ! i)\<lparr>sw_job := None\<rparr>"])
      (auto simp: async_inv_def async_typed_def worker_typed_def worker_copies_def)
qed

interpretation async: stepping "async_step link_in link_out" "\<lambda>s. async_inv ids s \<and> router_laws link_in link_out"
  by unfold_locales (auto intro: async_step_inv)

lemma async_client_start_Inr:
  "async_client_start r = Inr c \<Longrightarrow> client_identity r = Inr (ac_identity c) \<and> ac_polls c = 0 \<and> ac_request_nbr c = 0 \<and> ac_shown c = []"
  by (auto simp: async_client_start_def bindE_eq_Inr)

lemma async_start_inv:
  assumes "\<forall>c \<in> set cs. \<exists>r. async_client_start r = Inr c" "distinct (map ac_identity cs)"
  shows "async_inv (map ac_identity cs) (async_start cs k)"
proof -
  have fresh: "ac_polls c = 0 \<and> ac_shown c = []" if "c \<in> set cs" for c
    using assms(1) that async_client_start_Inr by blast
  moreover have "count_list (ac_shown (cs ! c)) t = 0" if "c < length cs" for c t
    using fresh [OF nth_mem [OF that]] by simp
  ultimately show ?thesis
    using assms(2) by (auto simp: async_inv_def async_typed_def async_start_def client_typed_def worker_typed_def
        copies_def worker_copies_def sum_list_replicate)
qed

text \<open>No thread fails, waits for a frame of a message it has begun to read, or sends to nobody, until a client comes to
  its request number 1000000.\<close>

text \<open>
  C24. In every state of clients, proxy and workers that can be reached, a poll round of a client,
  with or without the message that waits for it, fails only at request number 1000000, a worker can
  take each message of its queue whole, and each reply is routed to a client.
\<close>

theorem async_threads_go_on:
  assumes "\<forall>c \<in> set cs. \<exists>r. async_client_start r = Inr c" "distinct (map ac_identity cs)" "router_laws link_in link_out"
    and "(async_step link_in link_out)\<^sup>*\<^sup>* (async_start cs k) s"
  shows "(\<forall>c < length cs. \<forall>arrival f. (arrival = None \<or> (\<exists>w ws. arrival = Some w \<and> inboxes s ! c = w # ws)) \<longrightarrow>
       (client_round arrival (base s) (ac s ! c) = Inl f
         \<longleftrightarrow> f = Overrun \<and> ac_polls (ac s ! c) = 99 \<and> 999999 \<le> ac_request_nbr (ac s ! c)))
    \<and> (\<forall>w \<in> set (sw s). \<forall>m \<in> set (sw_queue w). \<forall>rand. \<exists>j. worker_take rand m = Inr (j, []))
    \<and> (\<forall>w \<in> set (sw s). \<forall>j. sw_job w = Some j \<longrightarrow>
         (\<exists>c < length cs. link_out (map fst (fst (worker_reply j))) = (ac_identity (ac s ! c), [job_msg j])))"
proof (intro conjI allI impI ballI)
  let ?ids = "map ac_identity cs"
  have inv: "async_inv ?ids s" using async.run_inv [OF assms(4)] async_start_inv [OF assms(1,2)] assms(3) by blast
  then have typed: "async_typed ?ids s" by (simp add: async_inv_def)
  then have "length (ac s) = length cs" by (auto simp: async_typed_def dest: arg_cong [of _ _ length])
  note tc = typed_client [OF typed, unfolded this]
  { fix c arrival f
    assume c: "c < length cs" and a: "arrival = None \<or> (\<exists>w ws. arrival = Some w \<and> inboxes s ! c = w # ws)"
    have "\<exists>k. arrival = None \<or> came arrival k"
    proof (cases arrival)
      case (Some w)
      with a have "inboxes s ! c \<in> set (inboxes s)" "w \<in> set (inboxes s ! c)" using nth_mem [OF tc(5) [OF c]] by auto
      with typed have "\<exists>k. w = [(request_text k, False)]" unfolding async_typed_def by blast
      with Some show ?thesis by (auto simp: came_def)
    qed simp
    then show "client_round arrival (base s) (ac s ! c) = Inl f
        \<longleftrightarrow> f = Overrun \<and> ac_polls (ac s ! c) = 99 \<and> 999999 \<le> ac_request_nbr (ac s ! c)"
      using client_round_faults tc(3,4) [OF c] by (auto simp: client_typed_def) }
  { fix w m rand
    assume "w \<in> set (sw s)" "m \<in> set (sw_queue w)"
    then have "own_request ?ids m" using typed by (simp add: async_typed_def worker_typed_def)
    then show "\<exists>j. worker_take rand m = Inr (j, [])" by (auto simp: own_request_def worker_take_def) }
  { fix w j
    assume "w \<in> set (sw s)" "sw_job w = Some j"
    then have "own_request ?ids [job_id j, job_msg j]" using typed by (simp add: async_typed_def worker_typed_def)
    then obtain c where "c < length cs" "job_id j = ?ids ! c" by (auto simp: own_request_def in_set_conv_nth)
    then show "\<exists>c < length cs. link_out (map fst (fst (worker_reply j))) = (ac_identity (ac s ! c), [job_msg j])"
      using assms(3) tc(2) by (auto simp: worker_reply_def router_laws_def) }
qed

text \<open>What a client prints are requests it has sent itself, none more than five times, and the numbers in decimal.\<close>

text \<open>
  C25. Whatever the threads do and in whatever order, what a client has printed are texts of
  requests it has sent itself, with the size in decimal, and no request has been printed more than
  five times.
\<close>

theorem async_replies_own_requests:
  assumes "\<forall>c \<in> set cs. \<exists>r. async_client_start r = Inr c" "distinct (map ac_identity cs)" "router_laws link_in link_out"
    and "(async_step link_in link_out)\<^sup>*\<^sup>* (async_start cs n) s" "c < length cs" "t \<in> set (ac_shown (ac s ! c))"
  shows "(\<exists>k. 1 \<le> k \<and> k \<le> ac_request_nbr (ac s ! c) \<and>
      t = replicate 40 45 @ [10] @ [91] @ size_text False (length (request_text k)) @ [93] @ request_text k @ [10])
    \<and> count_list (ac_shown (ac s ! c)) t \<le> 5"
proof -
  let ?ids = "map ac_identity cs"
  have inv: "async_inv ?ids s" using async.run_inv [OF assms(4)] async_start_inv [OF assms(1,2)] assms(3) by blast
  then have typed: "async_typed ?ids s" by (simp add: async_inv_def)
  then have "length (ac s) = length cs" by (auto simp: async_typed_def dest: arg_cong [of _ _ length])
  then have "client_typed (ac s ! c)" using typed_client(3) [OF typed] assms(5) by simp
  with assms(6) obtain k where k: "t = shown_text k" by (auto simp: client_typed_def)
  have "copies ?ids s c k \<le> (if 1 \<le> k \<and> k \<le> ac_request_nbr (ac s ! c) then 5 else 0)"
    using inv assms(5) by (simp add: async_inv_def)
  moreover have "count_list (ac_shown (ac s ! c)) t \<le> copies ?ids s c k" by (simp add: copies_def k)
  moreover have "count_list (ac_shown (ac s ! c)) t \<noteq> 0" using assms(6) by (simp add: count_list_0_iff)
  ultimately show ?thesis
    using is_text_request [of k] k by (intro conjI exI [of _ k]) (auto simp: shown_text_def dump_line_def split: if_splits)
qed

subsection \<open>Instances\<close>

text \<open>A client sends its first request, and a reply is printed.\<close>

definition demo_link_in :: "bytes \<Rightarrow> bytes list \<Rightarrow> bytes list" where
  "demo_link_in i fs = i # fs"

definition demo_link_out :: "bytes list \<Rightarrow> bytes \<times> bytes list" where
  "demo_link_out fs = (hd fs, tl fs)"

definition demo_client :: async_client where
  "demo_client = \<lparr>ac_identity = bytes_of ''0000-0000'', ac_polls = 0, ac_request_nbr = 0, ac_shown = []\<rparr>"

lemma demo_client_start: "async_client_start (0, 0) = Inr demo_client"
proof -
  have "random_within 65536 0 = 0" by (simp add: random_within_def to_float_small)
  moreover have "set_id_text (0, 0) = bytes_of ''0000-0000''" by code_simp
  moreover have "length (bytes_of ''0000-0000'') < 10" by (simp add: bytes_of_def)
  ultimately show ?thesis by (simp add: async_client_start_def client_identity_def demo_client_def Let_def)
qed

lemma quiet_rounds:
  "n < 100 \<Longrightarrow> (async_step demo_link_in demo_link_out)\<^sup>*\<^sup>* (async_start [demo_client] 1)
     ((async_start [demo_client] 1)\<lparr>ac := [demo_client\<lparr>ac_polls := n\<rparr>]\<rparr>)"
proof (induction n)
  case 0
  have "(async_start [demo_client] 1)\<lparr>ac := [demo_client\<lparr>ac_polls := 0\<rparr>]\<rparr> = async_start [demo_client] 1"
    by (simp add: async_start_def demo_client_def)
  then show ?case by simp
next
  case (Suc n)
  let ?s = "(async_start [demo_client] 1)\<lparr>ac := [demo_client\<lparr>ac_polls := n\<rparr>]\<rparr>"
  have "async_step demo_link_in demo_link_out ?s ((async_start [demo_client] 1)\<lparr>ac := [demo_client\<lparr>ac_polls := Suc n\<rparr>]\<rparr>)"
    using async_step.quiet [of 0 ?s "demo_client\<lparr>ac_polls := Suc n\<rparr>" None False demo_link_in demo_link_out] Suc.prems
    by (simp add: client_round_def async_start_def sent_frames_def)
  with Suc show ?case by (simp add: rtranclp.rtrancl_into_rtrancl)
qed

lemma demo_run:
  "\<exists>s. (async_step demo_link_in demo_link_out)\<^sup>*\<^sup>* (async_start [demo_client] 1) s \<and> ac_shown (ac s ! 0) = [shown_text 1]
    \<and> ac_polls (ac s ! 0) = 1"
proof -
  let ?step = "async_step demo_link_in demo_link_out" and ?start = "async_start [demo_client] 1"
  let ?c = "demo_client\<lparr>ac_request_nbr := 1\<rparr>" and ?q = "request_text 1"
  let ?id = "ac_identity demo_client"
  define s1 where "s1 = ?start\<lparr>ac := [?c], frontend := [[?id, ?q]]\<rparr>"
  define s2 where "s2 = ?start\<lparr>ac := [?c], sw := [\<lparr>sw_queue = [[?id, ?q]], sw_job = None\<rparr>]\<rparr>"
  define s3 where "s3 = ?start\<lparr>ac := [?c], sw := [\<lparr>sw_queue = [], sw_job = Some \<lparr>job_id = ?id, job_msg = ?q, job_left = 5\<rparr>\<rparr>]\<rparr>"
  define s4 where "s4 = s3\<lparr>sw := [\<lparr>sw_queue = [], sw_job = Some \<lparr>job_id = ?id, job_msg = ?q, job_left = 4\<rparr>\<rparr>],
     inboxes := [[[(?q, False)]]]\<rparr>"
  define s5 where "s5 = s4\<lparr>inboxes := [[]], ac := [?c\<lparr>ac_shown := [shown_text 1], ac_polls := 1\<rparr>]\<rparr>"
  have "random_within 5 2147483647 = 5" using within_range [of 5 2147483647] by simp
  then have take: "worker_take 2147483647 [?id, ?q] = Inr (\<lparr>job_id = ?id, job_msg = ?q, job_left = 5\<rparr>, [])"
    by (simp add: worker_take_def)
  have quiet: "?step\<^sup>*\<^sup>* ?start (?start\<lparr>ac := [demo_client\<lparr>ac_polls := 99\<rparr>]\<rparr>)" by (rule quiet_rounds) simp
  also have "?step (?start\<lparr>ac := [demo_client\<lparr>ac_polls := 99\<rparr>]\<rparr>) s1"
    using async_step.quiet [of 0 "?start\<lparr>ac := [demo_client\<lparr>ac_polls := 99\<rparr>]\<rparr>" ?c "Some ?q" False demo_link_in demo_link_out]
    by (simp add: client_round_def async_start_def sent_frames_def s1_def demo_client_def demo_link_in_def request_string_fits)
  also have "?step s1 s2"
    using async_step.deal [of s1 "[]" "[?id, ?q]" "[]" 0 demo_link_in demo_link_out]
    by (simp add: s1_def s2_def async_start_def)
  also have "?step s2 s3"
    using async_step.take [OF _ _ _ take, of 0 s2 "[]" demo_link_in demo_link_out] by (simp add: s2_def s3_def async_start_def)
  also have "?step s3 s4"
    using async_step.reply [of 0 s3 "\<lparr>job_id = ?id, job_msg = ?q, job_left = 5\<rparr>" "with_more [?id, ?q]"
        "\<lparr>job_id = ?id, job_msg = ?q, job_left = 4\<rparr>" 0 demo_link_out "[?q]" demo_link_in]
    by (simp add: s3_def s4_def async_start_def worker_reply_def demo_link_out_def)
  also have "?step s4 s5"
    using async_step.arrival [of 0 s4 "[(?q, False)]" "[]" "?c\<lparr>ac_shown := [shown_text 1], ac_polls := 1\<rparr>" None False
        demo_link_in demo_link_out]
    by (simp add: s4_def s5_def s3_def async_start_def client_round_def dump_request sent_frames_def demo_client_def)
  finally have "?step\<^sup>*\<^sup>* ?start s5" .
  then show ?thesis by (intro exI [of _ s5]) (simp add: s5_def)
qed

lemma demo_router: "router_laws demo_link_in demo_link_out"
  by (simp add: router_laws_def demo_link_in_def demo_link_out_def)

lemma async_replies_own_requests_witness:
  "\<exists>s. (async_step demo_link_in demo_link_out)\<^sup>*\<^sup>* (async_start [demo_client] 1) s \<and> ac_shown (ac s ! 0) = [shown_text 1]
     \<and> 1 \<le> ac_request_nbr (ac s ! 0)"
proof -
  obtain s where s: "(async_step demo_link_in demo_link_out)\<^sup>*\<^sup>* (async_start [demo_client] 1) s" "ac_shown (ac s ! 0) = [shown_text 1]"
    using demo_run by blast
  have "1 \<le> ac_request_nbr (ac s ! 0)"
    using async_replies_own_requests [OF _ _ demo_router s(1), of 0 "shown_text 1"] demo_client_start s(2) by force
  with s show ?thesis by blast
qed

lemma async_threads_go_on_witness:
  "\<exists>s. (async_step demo_link_in demo_link_out)\<^sup>*\<^sup>* (async_start [demo_client] 1) s
     \<and> (\<exists>x. client_round None (base s) (ac s ! 0) = Inr x)"
proof -
  obtain s where s: "(async_step demo_link_in demo_link_out)\<^sup>*\<^sup>* (async_start [demo_client] 1) s" "ac_polls (ac s ! 0) = 1"
    using demo_run by blast
  have "\<forall>c \<in> set [demo_client]. \<exists>r. async_client_start r = Inr c" using demo_client_start by auto
  from conjunct1 [OF async_threads_go_on [OF this _ demo_router s(1)]] s(2)
  have "client_round None (base s) (ac s ! 0) \<noteq> Inl f" for f by simp
  with s(1) show ?thesis by (metis sum.exhaust)
qed

end
