(* ===== verification/Weather.thy ===== *)
theory Weather
  imports Mdp Chance "HOL-Library.Signed_Division"
begin

section \<open>The weather programs (wuserver.cpp, wuclient.cpp, wuproxy.cpp)\<close>

text \<open>
  The server publishes random updates, each a message of twenty bytes with a text in it; the client takes the first
  hundred that begin with its filter and prints their average temperature; the proxy passes messages on. \<open>matches\<close>
  says which messages a SUB socket with a given subscription receives.
\<close>

subsection \<open>The server\<close>

text \<open>\<open>snprintf\<close> into a buffer with room for \<open>n\<close> bytes.\<close>

definition snprintf_into :: "nat \<Rightarrow> bytes \<Rightarrow> bytes \<Rightarrow> bytes" where
  "snprintf_into n buf t = take (n - 1) t @ [0] @ drop (min (n - 1) (length t) + 1) buf"

record update =
  zipcode :: nat
  temperature :: int
  relhumidity :: nat

definition random_update :: "nat \<times> nat \<times> nat \<Rightarrow> update" where
  "random_update r = (case r of (r1, r2, r3) \<Rightarrow>
     \<lparr>zipcode = random_within 100000 r1, temperature = int (random_within 215 r2) - 80,
      relhumidity = random_within 50 r3 + 10\<rparr>)"

definition update_text :: "update \<Rightarrow> bytes" where
  "update_text u = zero_pad 5 (decimal (zipcode u)) @ [32] @ dec_text (temperature u) @ [32] @ decimal (relhumidity u)"

definition weather_update :: "bytes \<Rightarrow> nat \<times> nat \<times> nat \<Rightarrow> bytes" where
  "weather_update memory r = snprintf_into 20 memory (update_text (random_update r))"

subsection \<open>The client\<close>

definition weather_filter :: "bytes option \<Rightarrow> bytes" where
  "weather_filter argument = (case argument of None \<Rightarrow> bytes_of ''10001 '' | Some a \<Rightarrow> a)"

text \<open>The temperature of an update. The text is taken from the message as a C string; \<open>junk\<close> is in the variable
  before, and stays there if nothing is stored.\<close>

definition read_update :: "int \<Rightarrow> bytes \<Rightarrow> fault + int" where
  "read_update junk d =
     bindE (guardE (0 \<in> set d) Overrun) (\<lambda>_.
       let (ok, _, s) = scan_int (- 2147483648) 2147483647 (c_str d) in
       Inr (if ok then (case fst (snd (scan_int (- 2147483648) 2147483647 s)) of None \<Rightarrow> junk | Some v \<Rightarrow> v) else junk))"

fun weather_loop :: "int \<Rightarrow> nat \<Rightarrow> int \<Rightarrow> bytes list \<Rightarrow> fault + int" where
  "weather_loop junk 0 total_temp ms = Inr total_temp"
| "weather_loop junk (Suc n) total_temp [] = Inl Blocks"
| "weather_loop junk (Suc n) total_temp (m # ms) =
     bindE (read_update junk m) (\<lambda>t. weather_loop junk n (total_temp + t) ms)"

definition weather_client :: "(bytes \<Rightarrow> bytes \<Rightarrow> bool) \<Rightarrow> bytes option \<Rightarrow> int \<Rightarrow> bytes list \<Rightarrow> fault + int" where
  "weather_client matches argument junk published =
     bindE (weather_loop junk 100 0 (filter (matches (weather_filter argument)) published)) (\<lambda>total_temp.
       Inr (total_temp sdiv 100))"

subsection \<open>The proxy\<close>

text \<open>One message.\<close>

definition weather_proxy :: "wire \<Rightarrow> fault + (wire \<times> wire)" where
  "weather_proxy = relay_parts"

lemma weather_proxy_message: "ps \<noteq> [] \<Longrightarrow> weather_proxy (with_more ps @ w) = Inr (with_more ps, w)"
  by (simp add: weather_proxy_def relay_parts_message)

subsection \<open>What the client makes of an update\<close>

text \<open>libzmq delivers the messages that begin with the subscription.\<close>

definition prefix_subscription :: "(bytes \<Rightarrow> bytes \<Rightarrow> bool) \<Rightarrow> bool" where
  "prefix_subscription matches \<longleftrightarrow> (\<forall>f m. matches f m \<longleftrightarrow> take (length f) m = f)"

definition update_ok :: "update \<Rightarrow> bool" where
  "update_ok u \<longleftrightarrow> zipcode u \<le> 100000 \<and> - 80 \<le> temperature u \<and> temperature u \<le> 135 \<and> relhumidity u \<le> 60"

lemma random_update_ok: "r1 < 2 ^ 31 \<Longrightarrow> r2 < 2 ^ 31 \<Longrightarrow> r3 < 2 ^ 31 \<Longrightarrow> update_ok (random_update (r1, r2, r3))"
  using within_range [of 100000 r1] within_range [of 215 r2] within_range [of 50 r3]
  by (simp add: update_ok_def random_update_def)

lemma length_dec_text: "- 80 \<le> i \<Longrightarrow> i \<le> 135 \<Longrightarrow> length (dec_text i) \<le> 3"
  using length_decimal [of "nat i" 2] length_decimal [of "nat (- i)" 1] by (auto simp: dec_text_def numeral_2_eq_2)

lemma update_text_fits: "update_ok u \<Longrightarrow> length (update_text u) \<le> 13"
  using length_decimal [of "zipcode u" 5] length_decimal [of "relhumidity u" 1] length_dec_text [of "temperature u"]
  by (simp add: update_text_def update_ok_def length_zero_pad)

lemma weather_update_text:
  "update_ok (random_update r) \<Longrightarrow> \<exists>t. weather_update memory r = update_text (random_update r) @ 0 # t"
  using update_text_fits [of "random_update r"] by (auto simp: weather_update_def snprintf_into_def)

lemma update_text_nul_free: "0 \<notin> set (update_text u)"
  using dec_text_nul_free [of "temperature u"] decimal_is_digits [of "zipcode u"] decimal_is_digits [of "relhumidity u"]
  by (auto simp: update_text_def zero_pad_def)

lemma scan_zero_pad:
  assumes "t \<noteq> [] \<Longrightarrow> \<not> is_digit (hd t)" "lo \<le> int n" "int n \<le> hi"
  shows "scan_int lo hi (zero_pad k (decimal n) @ t) = (True, Some (int n), t)"
proof -
  let ?z = "zero_pad k (decimal n)"
  have d: "\<forall>c \<in> set ?z. is_digit c" using decimal_is_digits [of n] by (auto simp: zero_pad_def is_digit_def)
  then have "takeWhile is_digit (?z @ t) = ?z" "dropWhile is_digit (?z @ t) = t"
    using assms(1) by (cases t; simp add: takeWhile_append2 dropWhile_append2)+
  moreover obtain c cs where z: "?z = c # cs"
    using decimal_no_space(2) [of n] by (cases "?z") (auto simp: zero_pad_def)
  moreover have "is_digit c" using d z by simp
  then have "\<not> is_space c" "c \<noteq> 45" "c \<noteq> 43" by (auto simp: is_digit_def is_space_def)
  moreover have "digits_value ?z = int n" by (simp add: digits_value_zero_pad digits_value_decimal)
  ultimately show ?thesis using assms(2,3) by (simp add: scan_int_def)
qed

lemma read_weather_update:
  assumes "update_ok (random_update r)"
  shows "read_update junk (weather_update memory r) = Inr (temperature (random_update r))"
proof -
  let ?u = "random_update r"
  obtain t where t: "weather_update memory r = update_text ?u @ 0 # t" using weather_update_text [OF assms] by blast
  have "c_str (weather_update memory r) = update_text ?u"
    using update_text_nul_free [of ?u] unfolding t c_str_def by (subst takeWhile_append2) auto
  moreover have "scan_int (- 2147483648) 2147483647 (update_text ?u)
      = (True, Some (int (zipcode ?u)), [32] @ dec_text (temperature ?u) @ [32] @ decimal (relhumidity ?u))"
    unfolding update_text_def using assms by (intro scan_zero_pad) (simp_all add: is_digit_def update_ok_def)
  moreover have "scan_int (- 2147483648) 2147483647 (32 # dec_text (temperature ?u) @ [32] @ decimal (relhumidity ?u))
      = (True, Some (temperature ?u), [32] @ decimal (relhumidity ?u))"
    using assms by (subst scan_space) (auto simp: is_space_def is_digit_def update_ok_def intro!: scan_dec_text)
  ultimately show ?thesis by (simp add: read_update_def t)
qed

text \<open>The default filter finds New York, and not the number 100000 that \<open>within\<close> can yield.\<close>

lemma filter_finds:
  assumes "prefix_subscription matches" "update_ok (random_update r)"
  shows "matches (bytes_of ''10001 '') (weather_update memory r) \<longleftrightarrow> zipcode (random_update r) = 10001"
proof -
  let ?z = "zipcode (random_update r)" and ?rest = "dec_text (temperature (random_update r)) @ [32] @ decimal (relhumidity (random_update r))"
  obtain t where t: "weather_update memory r = zero_pad 5 (decimal ?z) @ 32 # ?rest @ 0 # t"
    using weather_update_text [OF assms(2)] by (auto simp: update_text_def)
  have len: "length (bytes_of ''10001 '') = 6" by (simp add: bytes_of_def)
  have ny: "bytes_of ''10001 '' = zero_pad 5 (decimal 10001) @ [32]"
    by (simp add: bytes_of_def zero_pad_def decimal.simps)
  then have m: "matches (bytes_of ''10001 '') (weather_update memory r) \<longleftrightarrow> take 6 (weather_update memory r) = zero_pad 5 (decimal 10001) @ [32]"
    using assms(1) len by (simp add: prefix_subscription_def)
  show ?thesis
  proof (cases "?z < 100000")
    case True
    then have "length (zero_pad 5 (decimal ?z)) = 5" using length_decimal [of ?z 4] by (simp add: length_zero_pad)
    then have "take 6 (weather_update memory r) = zero_pad 5 (decimal ?z) @ [32]" by (simp add: t)
    moreover have "zero_pad 5 (decimal ?z) = zero_pad 5 (decimal 10001) \<longleftrightarrow> ?z = 10001"
      using digits_value_zero_pad [of 5 "decimal ?z"] digits_value_zero_pad [of 5 "decimal 10001"]
      by (auto simp: digits_value_decimal)
    ultimately show ?thesis using m by simp
  next
    case False
    with assms(2) have z: "?z = 100000" by (simp add: update_ok_def)
    have "take 6 (zero_pad 5 (decimal 100000)) \<noteq> zero_pad 5 (decimal 10001) @ [32]" "length (zero_pad 5 (decimal 100000)) = 6"
      by (simp_all add: zero_pad_def decimal.simps)
    with m show ?thesis by (simp add: t z)
  qed
qed

lemma weather_loop_sum:
  assumes "\<forall>r \<in> set rs. update_ok (random_update r)"
  shows "weather_loop junk n total_temp (map (weather_update memory) rs)
    = (if length rs < n then Inl Blocks else Inr (total_temp + sum_list (map (temperature \<circ> random_update) (take n rs))))"
  using assms
proof (induction n arbitrary: total_temp rs)
  case (Suc n)
  then show ?case by (cases rs) (auto simp: read_weather_update comp_def)
qed simp

text \<open>Client and server together: for the default filter the client prints the average of the first hundred temperatures
  published for New York, rounded towards zero, whatever else is published and whatever memory holds; it waits
  as long as there are fewer.\<close>

definition drawn :: "nat \<times> nat \<times> nat \<Rightarrow> bool" where
  "drawn r \<longleftrightarrow> fst r < 2 ^ 31 \<and> fst (snd r) < 2 ^ 31 \<and> snd (snd r) < 2 ^ 31"

definition new_york :: "(nat \<times> nat \<times> nat) list \<Rightarrow> int list" where
  "new_york rs = map temperature (filter (\<lambda>u. zipcode u = 10001) (map random_update rs))"

lemma average_bounds:
  assumes "\<forall>x \<in> set xs. - 80 \<le> x \<and> x \<le> 135" "length xs = 100"
  shows "- 80 \<le> sum_list xs sdiv 100 \<and> sum_list xs sdiv (100 :: int) \<le> 135"
proof -
  have "- 80 * int (length ys) \<le> sum_list ys \<and> sum_list ys \<le> 135 * int (length ys)" if "\<forall>x \<in> set ys. - 80 \<le> x \<and> x \<le> 135" for ys
    using that by (induction ys) auto
  with assms have b: "- 8000 \<le> sum_list xs" "sum_list xs \<le> 13500" by fastforce+
  show ?thesis
  proof (cases "0 \<le> sum_list xs")
    case True
    then have "sum_list xs sdiv 100 = sum_list xs div 100" by (cases "sum_list xs = 0") (simp_all add: signed_divide_int_def)
    moreover have "0 \<le> sum_list xs div 100" "sum_list xs div 100 \<le> 135" using b True by simp_all
    ultimately show ?thesis by simp
  next
    case False
    then have "sum_list xs sdiv 100 = - (- sum_list xs div 100)" by (simp add: signed_divide_int_def)
    moreover have "0 \<le> - sum_list xs div 100" "- sum_list xs div 100 \<le> 80" using b False by simp_all
    ultimately show ?thesis by simp
  qed
qed

theorem weather_average:
  assumes "prefix_subscription matches" "\<forall>r \<in> set rs. drawn r"
  shows "weather_client matches None junk (map (weather_update memory) rs) =
      (if length (new_york rs) < 100 then Inl Blocks else Inr (sum_list (take 100 (new_york rs)) sdiv 100))
    \<and> (100 \<le> length (new_york rs) \<longrightarrow>
         - 80 \<le> sum_list (take 100 (new_york rs)) sdiv 100 \<and> sum_list (take 100 (new_york rs)) sdiv 100 \<le> 135)"
proof
  have ok: "update_ok (random_update r)" if "r \<in> set rs" for r
    using assms(2) that random_update_ok [of "fst r" "fst (snd r)" "snd (snd r)"] by (auto simp: drawn_def)
  let ?hits = "filter (\<lambda>r. zipcode (random_update r) = 10001) rs"
  have "filter (matches (weather_filter None)) (map (weather_update memory) rs) = map (weather_update memory) ?hits"
    using ok filter_finds [OF assms(1)] by (simp add: weather_filter_def filter_map comp_def cong: filter_cong)
  moreover have ny: "new_york rs = map (temperature \<circ> random_update) ?hits"
    by (simp add: new_york_def filter_map comp_def)
  ultimately show "weather_client matches None junk (map (weather_update memory) rs) =
      (if length (new_york rs) < 100 then Inl Blocks else Inr (sum_list (take 100 (new_york rs)) sdiv 100))"
    using weather_loop_sum [of ?hits junk 100 0 memory] ok by (simp add: weather_client_def take_map)
  have "\<forall>x \<in> set (take 100 (new_york rs)). - 80 \<le> x \<and> x \<le> 135"
    using ok by (auto simp: ny update_ok_def dest!: in_set_takeD)
  then show "100 \<le> length (new_york rs) \<longrightarrow>
         - 80 \<le> sum_list (take 100 (new_york rs)) sdiv 100 \<and> sum_list (take 100 (new_york rs)) sdiv 100 \<le> 135"
    using average_bounds by simp
qed

subsection \<open>Instances\<close>

text \<open>A random number that becomes the zip code 10001, and a hundred updates with a temperature of 80 below zero.\<close>

lemma new_york_number: "random_within 100000 214769856 = 10001"
proof -
  have "bit_len 214769856 = 28" "bit_len 100000 = 17" by (simp_all add: bit_len.simps)
  then have "to_float 214769856 = 214769856" "to_float 100000 = 100000" by (simp_all add: to_float_def ulp_def)
  moreover have "bit_len 21476985600000 = 45" by (simp add: bit_len.simps)
  then have "to_float 21476985600000 div 2147483648 = 10001" by (simp add: to_float_def ulp_def)
  ultimately show ?thesis by (simp add: random_within_def)
qed

lemma weather_average_witness:
  "weather_client (\<lambda>f m. take (length f) m = f) None 7 (map (weather_update (replicate 20 0)) (replicate 100 (214769856, 0, 0)))
    = Inr (- 80)"
proof -
  let ?rs = "replicate 100 (214769856 :: nat, 0 :: nat, 0 :: nat)"
  have random_zero: "random_within n 0 = 0" for n by (simp add: random_within_def to_float_small)
  have "random_update (214769856, 0, 0) = \<lparr>zipcode = 10001, temperature = - 80, relhumidity = 10\<rparr>"
    using new_york_number random_zero by (simp add: random_update_def)
  then have "new_york ?rs = replicate 100 (- 80)" by (simp add: new_york_def)
  then show ?thesis
    using weather_average [of "\<lambda>f m. take (length f) m = f" ?rs 7 "replicate 20 0"]
    by (simp add: prefix_subscription_def drawn_def sum_list_replicate signed_divide_int_def)
qed

end
