(* ===== verification/Suicidal_Snail.thy ===== *)
theory Suicidal_Snail
  imports Mdp Digits Chance "HOL-Library.Signed_Division"
begin

section \<open>The suicidal snail (suisnail.cpp)\<close>

text \<open>
  A publisher sends the time each millisecond. A subscriber that sleeps after each message falls behind, and ends when
  a message is more than a second old. Also \<open>s_sleep\<close> of \<open>zhelpers.hpp\<close>.
\<close>

subsection \<open>The code\<close>

text \<open>The seconds and nanoseconds of the \<open>timespec\<close>, with C's division.\<close>

definition s_sleep :: "int \<Rightarrow> int \<times> int" where
  "s_sleep msecs = (msecs sdiv 1000, (msecs smod 1000) * 1000000)"

definition MAX_ALLOWED_DELAY :: int where "MAX_ALLOWED_DELAY = 1000"

definition snail_message :: "timeval \<Rightarrow> bytes" where
  "snail_message now = dec_text (s_clock now)"

definition snail_sleep :: "nat \<Rightarrow> int" where
  "snail_sleep rand = 1000 * (1 + int (random_within 2 rand))"

text \<open>For each message the reading of the clock and the random number that follow it. The result are the milliseconds
  it slept, one after the other, before it gave up.\<close>

fun snail_subscriber :: "(bytes \<times> timeval \<times> nat) list \<Rightarrow> fault + int list" where
  "snail_subscriber [] = Inl Blocks"
| "snail_subscriber ((m, now, rand) # rs) =
     (case scan_int (- (2 ^ 63)) (2 ^ 63 - 1) m of
        (True, Some clock, _) \<Rightarrow>
          if s_clock now - clock > MAX_ALLOWED_DELAY then Inr []
          else bindE (snail_subscriber rs) (\<lambda>slept. Inr (snail_sleep rand # slept))
      | _ \<Rightarrow> Inl AssertFail)"

subsection \<open>Sleeping\<close>

text \<open>\<open>nanosleep\<close> takes a time that is not negative, with less than a second of nanoseconds.\<close>

definition valid_timespec :: "int \<times> int \<Rightarrow> bool" where
  "valid_timespec t \<longleftrightarrow> 0 \<le> fst t \<and> 0 \<le> snd t \<and> snd t < 1000000000"

lemma s_sleep_exact: "0 \<le> msecs \<Longrightarrow> valid_timespec (s_sleep msecs) \<and> fst (s_sleep msecs) * 1000000000 + snd (s_sleep msecs) = msecs * 1000000"
proof -
  assume "0 \<le> msecs"
  then have "msecs sdiv 1000 = msecs div 1000" by (cases "msecs = 0") (simp_all add: signed_divide_int_def)
  moreover from this have "msecs smod 1000 = msecs mod 1000"
    using \<open>0 \<le> msecs\<close> by (cases "msecs = 0") (simp_all add: signed_modulo_int_def)
  moreover have "msecs = msecs div 1000 * 1000 + msecs mod 1000" by simp
  moreover have "0 \<le> msecs div 1000" "0 \<le> msecs mod 1000" "msecs mod 1000 < 1000"
    using \<open>0 \<le> msecs\<close> by simp_all
  ultimately show ?thesis unfolding s_sleep_def valid_timespec_def fst_conv snd_conv by linarith
qed

lemma s_sleep_negative: "msecs < 0 \<Longrightarrow> \<not> valid_timespec (s_sleep msecs)"
proof -
  assume neg: "msecs < 0"
  then have d: "msecs sdiv 1000 = - ((- msecs) div 1000)" by (simp add: signed_divide_int_def)
  then have "msecs smod 1000 = - ((- msecs) mod 1000)"
    using neg by (simp add: signed_modulo_int_def)
  moreover have "(- msecs) div 1000 = 0 \<Longrightarrow> (- msecs) mod 1000 = - msecs"
    using mult_div_mod_eq [of 1000 "- msecs"] by simp
  moreover have "0 \<le> (- msecs) div 1000" using neg by simp
  ultimately show ?thesis using d neg by (auto simp: s_sleep_def valid_timespec_def)
qed

lemma snail_sleep_bounds: "rand < 2 ^ 31 \<Longrightarrow> 1000 \<le> snail_sleep rand \<and> snail_sleep rand \<le> 3000"
  using within_range [of 2 rand] by (simp add: snail_sleep_def)

subsection \<open>The end of the snail\<close>

text \<open>A run of both: when each message was sent, the reading that followed its receipt, and the random number. Messages
  are sent at most \<open>gap\<close> milliseconds apart, and no reading comes before the sleep is over.\<close>

fun paced :: "int \<Rightarrow> (timeval \<times> timeval \<times> nat) list \<Rightarrow> bool" where
  "paced gap ((sent, now, rand) # (sent', now', rand') # rs) \<longleftrightarrow>
     s_clock sent' \<le> s_clock sent + gap \<and> s_clock now + snail_sleep rand \<le> s_clock now'
     \<and> paced gap ((sent', now', rand') # rs)"
| "paced gap _ \<longleftrightarrow> True"

definition snail_run :: "(timeval \<times> timeval \<times> nat) list \<Rightarrow> fault + int list" where
  "snail_run rs = snail_subscriber (map (\<lambda>(sent, now, rand). (snail_message sent, now, rand)) rs)"

definition clock_fits :: "timeval \<Rightarrow> bool" where
  "clock_fits tv \<longleftrightarrow> - (2 ^ 63) \<le> s_clock tv \<and> s_clock tv < 2 ^ 63"

lemma snail_reads:
  "clock_fits sent \<Longrightarrow> snail_subscriber ((snail_message sent, now, rand) # rs) =
     (if s_clock now - s_clock sent > 1000 then Inr []
      else bindE (snail_subscriber rs) (\<lambda>slept. Inr (snail_sleep rand # slept)))"
  using scan_dec_text [of "[]" "- (2 ^ 63)" "s_clock sent" "2 ^ 63 - 1"]
  by (simp add: clock_fits_def snail_message_def MAX_ALLOWED_DELAY_def)

lemma snail_falls_behind:
  assumes "paced gap rs" "\<forall>(sent, now, rand) \<in> set rs. clock_fits sent \<and> rand < 2 ^ 31" "rs \<noteq> []"
    and "delay \<le> s_clock (fst (snd (hd rs))) - s_clock (fst (hd rs))"
    and "1000 < delay + int (length rs - 1) * (1000 - gap)"
  shows "\<exists>slept. snail_run rs = Inr slept \<and> length slept < length rs \<and> (\<forall>ms \<in> set slept. 1000 \<le> ms \<and> ms \<le> 3000)"
  using assms
proof (induction gap rs arbitrary: delay rule: paced.induct [case_names step none one])
  case (step gap sent now rand sent' now' rand' rs)
  have b: "1000 \<le> snail_sleep rand \<and> snail_sleep rand \<le> 3000" using step.prems(2) by (intro snail_sleep_bounds) simp
  have "\<exists>slept. snail_run ((sent', now', rand') # rs) = Inr slept \<and> length slept < length ((sent', now', rand') # rs)
      \<and> (\<forall>ms \<in> set slept. 1000 \<le> ms \<and> ms \<le> 3000)"
  proof (rule step.IH [of "delay + (1000 - gap)"])
    show "1000 < delay + (1000 - gap) + int (length ((sent', now', rand') # rs) - 1) * (1000 - gap)"
      using step.prems(5) by (simp add: algebra_simps)
  qed (use step.prems b in auto)
  then show ?case using step.prems(2) b by (auto simp: snail_run_def snail_reads simp del: snail_subscriber.simps(2))
next
  case (one gap v)
  obtain sent now rand where "v = (sent, now, rand)" by (cases v) auto
  with one show ?case by (auto simp: snail_run_def snail_reads simp del: snail_subscriber.simps(2))
qed simp

text \<open>However fast the publisher is, the snail ends: when \<open>n\<close> times a second less the gap is more than a second, at the
  message \<open>n\<close> at the latest, counted from zero. For the millisecond of the source that is the third message.\<close>

theorem snail_gives_up:
  assumes "paced gap rs" "\<forall>(sent, now, rand) \<in> set rs. clock_fits sent \<and> rand < 2 ^ 31"
    and "s_clock (fst (hd rs)) \<le> s_clock (fst (snd (hd rs)))" "rs \<noteq> []" "1000 < int (length rs - 1) * (1000 - gap)"
  shows "\<exists>slept. snail_run rs = Inr slept \<and> length slept < length rs \<and> (\<forall>ms \<in> set slept. 1000 \<le> ms \<and> ms \<le> 3000)"
proof (rule snail_falls_behind [OF assms(1,2,4), of 0])
  show "1000 < 0 + int (length rs - 1) * (1000 - gap)" using assms(5) by (simp only: add_0_left)
qed (use assms(3) in simp)

text \<open>And it ends only when a message is late.\<close>

lemma snail_patient:
  "\<forall>(sent, now, rand) \<in> set rs. clock_fits sent \<and> s_clock now - s_clock sent \<le> 1000 \<Longrightarrow> snail_run rs = Inl Blocks"
  by (induction rs) (auto simp: snail_run_def snail_reads simp del: snail_subscriber.simps(2))

lemma snail_gives_up_witness:
  "\<exists>slept. snail_run [(\<lparr>tv_sec = 5, tv_usec = 0\<rparr>, \<lparr>tv_sec = 5, tv_usec = 0\<rparr>, 0),
      (\<lparr>tv_sec = 5, tv_usec = 1000\<rparr>, \<lparr>tv_sec = 6, tv_usec = 0\<rparr>, 0),
      (\<lparr>tv_sec = 5, tv_usec = 2000\<rparr>, \<lparr>tv_sec = 7, tv_usec = 500\<rparr>, 0)] = Inr slept \<and> length slept < 3"
proof -
  have "snail_sleep 0 = 1000" by (simp add: snail_sleep_def random_within_def to_float_small)
  then show ?thesis
    using snail_gives_up [of 1 "[(\<lparr>tv_sec = 5, tv_usec = 0\<rparr>, \<lparr>tv_sec = 5, tv_usec = 0\<rparr>, 0),
        (\<lparr>tv_sec = 5, tv_usec = 1000\<rparr>, \<lparr>tv_sec = 6, tv_usec = 0\<rparr>, 0),
        (\<lparr>tv_sec = 5, tv_usec = 2000\<rparr>, \<lparr>tv_sec = 7, tv_usec = 500\<rparr>, 0)]"]
    by (auto simp: s_clock_def clock_fits_def)
qed

end
