(* ===== verification/Event_Counter.thy ===== *)
theory Event_Counter
  imports Zmsg Digits Interleaving
begin

section \<open>The event counter (eventfd.c)\<close>

text \<open>
  A child writes the numbers of the command line to an eventfd, its parent polls the descriptor and reads. The
  counter belongs to the system: \<open>efd_write\<close>, \<open>efd_read\<close> and \<open>efd_poll\<close> say what the calls do with its value, as
  \<open>eventfd_laws\<close> has it from the manual page.
\<close>

subsection \<open>Numbers of the command line\<close>

text \<open>The value of a digit or letter, \<open>strtoull (s, NULL, 0)\<close>: white space, a sign, a prefix that gives the base. A number that
  does not fit becomes the largest one, and a minus sign negates without sign.\<close>

definition digit_of :: "byte \<Rightarrow> nat" where
  "digit_of c = (if 48 \<le> c \<and> c \<le> 57 then unat c - 48
     else if 65 \<le> c \<and> c \<le> 90 then unat c - 55
     else if 97 \<le> c \<and> c \<le> 122 then unat c - 87
     else 36)"

definition radix_digits :: "nat \<Rightarrow> bytes \<Rightarrow> bytes" where
  "radix_digits radix s = takeWhile (\<lambda>c. digit_of c < radix) s"

definition value_in :: "nat \<Rightarrow> bytes \<Rightarrow> nat" where
  "value_in radix ds = foldl (\<lambda>n c. radix * n + digit_of c) 0 ds"

definition radix_of :: "bytes \<Rightarrow> nat \<times> bytes" where
  "radix_of s =
     (case s of
        c # x # h # _ \<Rightarrow>
          if c = 48 \<and> (x = 120 \<or> x = 88) \<and> digit_of h < 16 then (16, drop 2 s)
          else if c = 48 then (8, s) else (10, s)
      | c # _ \<Rightarrow> if c = 48 then (8, s) else (10, s)
      | [] \<Rightarrow> (10, s))"

definition strtoull :: "bytes \<Rightarrow> 64 word" where
  "strtoull s =
     (let t = dropWhile is_space (c_str s);
          neg = (t \<noteq> [] \<and> hd t = 45);
          t = (if t \<noteq> [] \<and> (hd t = 45 \<or> hd t = 43) then tl t else t);
          (radix, t) = radix_of t;
          v = value_in radix (radix_digits radix t)
      in if v \<ge> 2 ^ 64 then - 1 else if neg then - word_of_nat v else word_of_nat v)"

subsection \<open>Parent and child\<close>

datatype efd_result = Done "64 word" | Blocked | Refused

datatype child = Writing "bytes list" | Finished bool

record counter =
  efd :: "64 word"
  child :: child
  parent_read :: "64 word list"

definition POLLIN_BIT :: "16 word" where "POLLIN_BIT = 1"

text \<open>\<open>item.revents & POLLIN > 0\<close> is \<open>item.revents & (POLLIN > 0)\<close>.\<close>

definition polled_in :: "16 word \<Rightarrow> bool" where
  "polled_in revents \<longleftrightarrow> revents AND (if POLLIN_BIT > 0 then 1 else 0) \<noteq> 0"

definition counter_start :: "bytes list \<Rightarrow> counter" where
  "counter_start args = \<lparr>efd = 0, child = Writing args, parent_read = []\<rparr>"

inductive counter_step :: "(64 word \<Rightarrow> 64 word \<Rightarrow> efd_result) \<Rightarrow> (64 word \<Rightarrow> (64 word \<times> 64 word) option) \<Rightarrow> (64 word \<Rightarrow> 16 word)
    \<Rightarrow> counter \<Rightarrow> counter \<Rightarrow> bool" for efd_write efd_read efd_poll where
  put: "child s = Writing (a # as) \<Longrightarrow> efd_write (efd s) (strtoull a) = Done e \<Longrightarrow>
     counter_step efd_write efd_read efd_poll s (s\<lparr>efd := e, child := Writing as\<rparr>)"
| refused: "child s = Writing (a # as) \<Longrightarrow> efd_write (efd s) (strtoull a) = Refused \<Longrightarrow>
     counter_step efd_write efd_read efd_poll s (s\<lparr>child := Finished False\<rparr>)"
| finish: "child s = Writing [] \<Longrightarrow> counter_step efd_write efd_read efd_poll s (s\<lparr>child := Finished True\<rparr>)"
| get: "polled_in (efd_poll (efd s)) \<Longrightarrow> efd_read (efd s) = Some (u, e) \<Longrightarrow>
     counter_step efd_write efd_read efd_poll s (s\<lparr>efd := e, parent_read := parent_read s @ [u]\<rparr>)"

text \<open>The manual page: the counter keeps values up to \<open>2^64 - 2\<close>, a write that would pass this waits, one of \<open>2^64 - 1\<close> fails; a read
  takes the whole value and waits if it is zero; \<open>POLLIN\<close> means that it is not.\<close>

definition eventfd_laws :: "(64 word \<Rightarrow> 64 word \<Rightarrow> efd_result) \<Rightarrow> (64 word \<Rightarrow> (64 word \<times> 64 word) option) \<Rightarrow> (64 word \<Rightarrow> 16 word) \<Rightarrow> bool" where
  "eventfd_laws efd_write efd_read efd_poll \<longleftrightarrow>
     (\<forall>c u. efd_write c u = (if u = - 1 then Refused else if unat c + unat u \<le> 2 ^ 64 - 2 then Done (c + u) else Blocked)) \<and>
     (\<forall>c. efd_read c = (if c = 0 then None else Some (c, 0))) \<and>
     (\<forall>c. efd_poll c AND 1 = (if c = 0 then 0 else 1))"

subsection \<open>Nothing is lost\<close>

text \<open>What is written before the first number that is refused.\<close>

definition accepted :: "bytes list \<Rightarrow> 64 word list" where
  "accepted args = takeWhile (\<lambda>u. u \<noteq> - 1) (map strtoull args)"

definition unat_sum :: "64 word list \<Rightarrow> nat" where
  "unat_sum us = sum_list (map unat us)"

definition still_to_write :: "child \<Rightarrow> 64 word list" where
  "still_to_write c = (case c of Writing as \<Rightarrow> accepted as | Finished _ \<Rightarrow> [])"

definition counter_inv :: "bytes list \<Rightarrow> counter \<Rightarrow> bool" where
  "counter_inv args s \<longleftrightarrow>
     unat_sum (parent_read s) + unat (efd s) + unat_sum (still_to_write (child s)) = unat_sum (accepted args)
     \<and> unat (efd s) \<le> 2 ^ 64 - 2
     \<and> (case child s of Writing as \<Rightarrow> (- 1 \<in> set (map strtoull as)) = (- 1 \<in> set (map strtoull args))
        | Finished ok \<Rightarrow> ok = (- 1 \<notin> set (map strtoull args)))"

definition counter_left :: "counter \<Rightarrow> nat" where
  "counter_left s = (case child s of Writing as \<Rightarrow> 2 * length as + 1 | Finished _ \<Rightarrow> 0) + (if efd s = 0 then 0 else 1)"

definition counter_done :: "counter \<Rightarrow> bool" where
  "counter_done s \<longleftrightarrow> efd s = 0 \<and> (\<exists>ok. child s = Finished ok)"

lemma polled_in_laws: "eventfd_laws efd_write efd_read efd_poll \<Longrightarrow> polled_in (efd_poll c) \<longleftrightarrow> c \<noteq> 0"
  by (simp add: polled_in_def POLLIN_BIT_def eventfd_laws_def)

lemma accepted_Cons: "accepted (a # as) = (if strtoull a = - 1 then [] else strtoull a # accepted as)"
  by (simp add: accepted_def)

interpretation counting: settling "counter_step efd_write efd_read efd_poll"
  "\<lambda>s. counter_inv args s \<and> eventfd_laws efd_write efd_read efd_poll" counter_left counter_done
proof unfold_locales
  fix s t
  assume inv: "counter_inv args s \<and> eventfd_laws efd_write efd_read efd_poll" and step: "counter_step efd_write efd_read efd_poll s t"
  then have laws: "eventfd_laws efd_write efd_read efd_poll" by simp
  from step have "counter_inv args t \<and> counter_left t < counter_left s"
  proof (cases rule: counter_step.cases)
    case (put a as e)
    then have u: "strtoull a \<noteq> - 1" "e = efd s + strtoull a" "unat (efd s) + unat (strtoull a) \<le> 2 ^ 64 - 2"
      using laws by (auto simp: eventfd_laws_def split: if_splits)
    then have "unat e = unat (efd s) + unat (strtoull a)" by (simp add: unat_word_ariths)
    with put u inv show ?thesis
      by (auto simp: counter_inv_def counter_left_def still_to_write_def accepted_Cons unat_sum_def)
  next
    case (refused a as)
    then have "strtoull a = - 1" using laws by (auto simp: eventfd_laws_def split: if_splits)
    with refused inv show ?thesis
      by (auto simp: counter_inv_def counter_left_def still_to_write_def accepted_Cons unat_sum_def)
  next
    case finish
    with inv show ?thesis by (auto simp: counter_inv_def counter_left_def still_to_write_def accepted_def unat_sum_def)
  next
    case (get u e)
    then have "u = efd s" "e = 0" "efd s \<noteq> 0" using laws by (auto simp: eventfd_laws_def split: if_splits)
    with get inv show ?thesis by (auto simp: counter_inv_def counter_left_def unat_sum_def)
  qed
  with laws show "counter_inv args t \<and> eventfd_laws efd_write efd_read efd_poll" "counter_left t < counter_left s" by simp_all
next
  fix s
  assume inv: "counter_inv args s \<and> eventfd_laws efd_write efd_read efd_poll" and stuck: "\<nexists>t. counter_step efd_write efd_read efd_poll s t"
  then have laws: "eventfd_laws efd_write efd_read efd_poll" by simp
  have zero: "efd s = 0"
  proof (rule ccontr)
    assume "efd s \<noteq> 0"
    with laws have "polled_in (efd_poll (efd s))" "efd_read (efd s) = Some (efd s, 0)"
      using polled_in_laws [OF laws] by (simp_all add: eventfd_laws_def)
    with stuck counter_step.get show False by blast
  qed
  moreover have "\<exists>ok. child s = Finished ok"
  proof (cases "child s")
    case (Writing as)
    show ?thesis
    proof (cases as)
      case Nil
      with Writing stuck counter_step.finish show ?thesis by blast
    next
      case (Cons a as')
      have "unat (strtoull a) \<le> 2 ^ 64 - 2 \<or> strtoull a = - 1"
      proof -
        have "unat (strtoull a) < 2 ^ 64" using unsigned_less [of "strtoull a", where 'a = nat] by simp
        moreover have "strtoull a = - 1 \<longleftrightarrow> unat (strtoull a) = 2 ^ 64 - 1"
          by (simp add: word_unat_eq_iff unsigned_minus_1_eq_mask mask_eq_exp_minus_1)
        ultimately show ?thesis by linarith
      qed
      then have "efd_write (efd s) (strtoull a) = Refused \<or> (\<exists>e. efd_write (efd s) (strtoull a) = Done e)"
        using laws zero by (auto simp: eventfd_laws_def)
      with Writing Cons stuck counter_step.put counter_step.refused show ?thesis by blast
    qed
  qed simp
  ultimately show "counter_done s" by (simp add: counter_done_def)
qed

lemma counter_start_inv: "counter_inv args (counter_start args)"
  by (simp add: counter_inv_def counter_start_def still_to_write_def unat_sum_def)

text \<open>Parent and child never block each other for good, and when nothing can go on the numbers read have the sum
  of those written; the child ends with a failure exactly if one of the arguments is \<open>2^64 - 1\<close>, or becomes it because it
  is larger or negative.\<close>

text \<open>
  C26. In every interleaving the numbers read never exceed those accepted; when nothing can go on,
  their sums are equal and the child has failed exactly if an argument is, or is turned into, 2^64
  - 1; and no run goes on for more than 2n + 1 steps with n arguments.
\<close>

theorem event_counter_complete:
  assumes "eventfd_laws efd_write efd_read efd_poll"
    and "(counter_step efd_write efd_read efd_poll)\<^sup>*\<^sup>* (counter_start args) s"
  shows "unat_sum (parent_read s) + unat (efd s) \<le> unat_sum (accepted args)
    \<and> ((\<nexists>t. counter_step efd_write efd_read efd_poll s t) \<longrightarrow>
         unat_sum (parent_read s) = unat_sum (accepted args)
         \<and> child s = Finished (- 1 \<notin> set (map strtoull args)))
    \<and> (\<forall>n t. (counter_step efd_write efd_read efd_poll ^^ n) s t \<longrightarrow> n \<le> 2 * length args + 1)"
proof -
  note start = conjI [OF counter_start_inv [of args] assms(1)]
  have inv: "counter_inv args s \<and> eventfd_laws efd_write efd_read efd_poll"
    by (rule counting.run_inv [OF assms(2) start])
  obtain m where "(counter_step efd_write efd_read efd_poll ^^ m) (counter_start args) s"
    using assms(2) by (auto dest: rtranclp_imp_relpowp)
  from counting.run_bounded [OF this start] have "counter_left s \<le> 2 * length args + 1"
    by (simp add: counter_left_def counter_start_def)
  with counting.run_bounded [OF _ inv] have "\<forall>n t. (counter_step efd_write efd_read efd_poll ^^ n) s t \<longrightarrow> n \<le> 2 * length args + 1"
    by fastforce
  moreover have "unat_sum (parent_read s) + unat (efd s) \<le> unat_sum (accepted args)"
    using inv by (simp add: counter_inv_def)
  moreover have "unat_sum (parent_read s) = unat_sum (accepted args) \<and> child s = Finished (- 1 \<notin> set (map strtoull args))"
    if "\<nexists>t. counter_step efd_write efd_read efd_poll s t"
    using counting.stuck_final [OF inv that] inv
    by (auto simp: counter_done_def counter_inv_def still_to_write_def unat_sum_def)
  ultimately show ?thesis by blast
qed

subsection \<open>Decimal arguments\<close>

lemma decimal_head: "0 < n \<Longrightarrow> hd (decimal n) \<noteq> 48"
proof (induction n rule: less_induct)
  case (less n)
  show ?case
  proof (cases "n < 10")
    case True
    then show ?thesis using digit_inj [of n 0] less.prems by (auto simp: decimal.simps [of n] simp del: of_nat_add)
  next
    case False
    then show ?thesis using less.IH [of "n div 10"] decimal_no_space(2) [of "n div 10"] by (simp add: decimal.simps [of n])
  qed
qed

lemma digit_of_digit: "d < 10 \<Longrightarrow> digit_of (of_nat (48 + d)) = d"
proof -
  assume d: "d < 10"
  have "unat (of_nat (48 + d) :: byte) = 48 + d" using digit_byte(2) [OF d] by linarith
  moreover have "is_digit (of_nat (48 + d))" by (rule digit_byte(1) [OF d])
  ultimately show ?thesis by (simp add: digit_of_def is_digit_def del: of_nat_add)
qed

lemma radix_digits_decimal: "radix_digits 10 (decimal n) = decimal n"
proof -
  have "digit_of c < 10" if "c \<in> set (decimal n)" for c
    using decimal_digits [of n] that digit_of_digit by (metis)
  then show ?thesis by (simp add: radix_digits_def takeWhile_eq_all_conv)
qed

lemma value_in_decimal: "value_in 10 (decimal n) = n"
proof (induction n rule: decimal.induct)
  case (1 n)
  show ?case
  proof (cases "n < 10")
    case True
    then show ?thesis using digit_of_digit [of n] by (simp add: decimal.simps [of n] value_in_def del: of_nat_add)
  next
    case False
    then have "value_in 10 (decimal n) = 10 * value_in 10 (decimal (n div 10)) + digit_of (of_nat (48 + n mod 10))"
      by (subst decimal.simps) (simp add: value_in_def)
    with 1 [OF False] digit_of_digit [of "n mod 10"] show ?thesis by simp
  qed
qed

text \<open>A decimal argument is written as it is if it fits, and as the largest number, which is refused, if not.\<close>

lemma strtoull_decimal: "strtoull (decimal n) = (if n < 2 ^ 64 then word_of_nat n else - 1)"
proof (cases "n = 0")
  case True
  then show ?thesis by (simp add: decimal.simps strtoull_def c_str_def is_space_def radix_of_def radix_digits_def value_in_def digit_of_def)
next
  case False
  obtain c cs where n: "decimal n = c # cs" using decimal_no_space(2) [of n] by (auto simp: neq_Nil_conv)
  have c: "c \<noteq> 48" "c \<noteq> 45" "c \<noteq> 43"
    using decimal_head [of n] False decimal_is_digits [of n] n by auto
  have "c_str (decimal n) = decimal n" using decimal_is_digits [of n] by (auto simp: c_str_def takeWhile_eq_all_conv)
  moreover have "dropWhile is_space (decimal n) = decimal n" using decimal_no_space(1) [of n "[]"] by simp
  moreover have "radix_of (decimal n) = (10, decimal n)" using c n by (auto simp: radix_of_def split: list.split)
  ultimately show ?thesis
    using c n radix_digits_decimal [of n] value_in_decimal [of n] by (simp add: strtoull_def)
qed

subsection \<open>Instances\<close>

definition demo_write :: "64 word \<Rightarrow> 64 word \<Rightarrow> efd_result" where
  "demo_write c u = (if u = - 1 then Refused else if unat c + unat u \<le> 2 ^ 64 - 2 then Done (c + u) else Blocked)"

definition demo_read :: "64 word \<Rightarrow> (64 word \<times> 64 word) option" where
  "demo_read c = (if c = 0 then None else Some (c, 0))"

definition demo_poll :: "64 word \<Rightarrow> 16 word" where
  "demo_poll c = (if c = 0 then 0 else 1)"

lemma event_counter_complete_witness:
  "\<exists>s. (counter_step demo_write demo_read demo_poll)\<^sup>*\<^sup>* (counter_start [decimal 3, decimal 5]) s
     \<and> unat_sum (parent_read s) = 8 \<and> child s = Finished True"
proof -
  let ?args = "[decimal 3, decimal 5]"
  have laws: "eventfd_laws demo_write demo_read demo_poll"
    by (simp add: eventfd_laws_def demo_write_def demo_read_def demo_poll_def)
  obtain s where s: "(counter_step demo_write demo_read demo_poll)\<^sup>*\<^sup>* (counter_start ?args) s"
    "\<nexists>t. counter_step demo_write demo_read demo_poll s t"
    using counting.run_settles [OF conjI [OF counter_start_inv [of ?args] laws]] by blast
  have "strtoull (decimal 3) = 3" "strtoull (decimal 5) = 5" unfolding strtoull_decimal by simp_all
  then have "unat_sum (accepted ?args) = 8" "- 1 \<notin> set (map strtoull ?args)"
    by (simp_all add: accepted_def unat_sum_def)
  with event_counter_complete [OF laws s(1)] s show ?thesis by auto
qed

end
