(* ===== verification/Wait_Child.thy ===== *)
theory Wait_Child
  imports Zmsg
begin

section \<open>Waiting for a child (wait.c)\<close>

text \<open>
  A process forks, the child counts and exits with 123, the parent waits for it and prints each change of its
  state. The macros that take a status apart are those of the BSD header \<open>sys/wait.h\<close>, which alone has \<open>_WSTATUS\<close>.
\<close>

subsection \<open>The macros\<close>

definition WSTATUS :: "32 word \<Rightarrow> 32 word" where "WSTATUS x = x AND 127"
definition WSTOPSIG :: "32 word \<Rightarrow> 32 word" where "WSTOPSIG x = signed_drop_bit 8 x"
definition WEXITSTATUS :: "32 word \<Rightarrow> 32 word" where "WEXITSTATUS x = signed_drop_bit 8 x AND 255"
definition WTERMSIG :: "32 word \<Rightarrow> 32 word" where "WTERMSIG x = WSTATUS x"
definition WIFEXITED :: "32 word \<Rightarrow> bool" where "WIFEXITED x \<longleftrightarrow> WSTATUS x = 0"
definition WIFSIGNALED :: "32 word \<Rightarrow> bool" where "WIFSIGNALED x \<longleftrightarrow> WSTATUS x \<noteq> 127 \<and> WSTATUS x \<noteq> 0"
definition WIFSTOPPED :: "32 word \<Rightarrow> bool" where "WIFSTOPPED x \<longleftrightarrow> WSTATUS x = 127 \<and> WSTOPSIG x \<noteq> 19"
definition WIFCONTINUED :: "32 word \<Rightarrow> bool" where "WIFCONTINUED x \<longleftrightarrow> WSTATUS x = 127 \<and> WSTOPSIG x = 19"

subsection \<open>The child\<close>

definition CHILD_COUNT :: nat where "CHILD_COUNT = 10000"

text \<open>The counts it prints, one each second.\<close>

function child_loop :: "nat \<Rightarrow> nat list" where
  "child_loop count = (if count + 1 > CHILD_COUNT then [count] else count # child_loop (count + 1))"
  by pat_completeness auto
termination by (relation "measure (\<lambda>count. CHILD_COUNT - count)") (auto simp: CHILD_COUNT_def)

declare child_loop.simps [simp del]

text \<open>
  Its output goes to the file of \<open>freopen\<close>. When that call fails (\<open>opened\<close> is false), \<open>stdout\<close> is closed and nothing is
  printed, \<open>fflush\<close> of the null pointer flushes the streams that are open, and \<open>fclose\<close> is given the null pointer at the end.
\<close>

definition child_main :: "bool \<Rightarrow> fault + (nat list \<times> int)" where
  "child_main opened =
     (let counts = child_loop 0
      in if opened then Inr (counts, 123) else Inl NullDeref)"

subsection \<open>The parent\<close>

datatype child_report = Exited "32 word" | Killed "32 word" | Stopped "32 word" | Continued | Unknown

definition report_of :: "32 word \<Rightarrow> child_report" where
  "report_of status =
     (if WIFEXITED status then Exited (WEXITSTATUS status)
      else if WIFSIGNALED status then Killed (WTERMSIG status)
      else if WIFSTOPPED status then Stopped (WSTOPSIG status)
      else if WIFCONTINUED status then Continued else Unknown)"

text \<open>The loop over the results of \<open>waitpid\<close>: what it reports, and whether the process then exits with success.\<close>

fun wait_loop :: "(int \<times> 32 word) list \<Rightarrow> fault + (child_report list \<times> bool)" where
  "wait_loop [] = Inl Blocks"
| "wait_loop ((w, status) # rs) =
     (if w = - 1 then Inr ([], False)
      else if w = 0 then wait_loop rs
      else if WIFEXITED status \<or> WIFSIGNALED status then Inr ([report_of status], True)
      else bindE (wait_loop rs) (\<lambda>(reports, ok). Inr (report_of status # reports, ok)))"

text \<open>
  The first call does not wait; its result only decides which line is printed (\<open>True\<close>: terminated). What is printed is
  lost when \<open>freopen\<close> has failed, and a parent whose child has ended then gives the null pointer to \<open>fclose\<close>.
\<close>

definition parent_main :: "bool \<Rightarrow> int \<Rightarrow> (int \<times> 32 word) list \<Rightarrow> fault + (bool option \<times> child_report list \<times> bool)" where
  "parent_main opened w rs = bindE (wait_loop rs) (\<lambda>(reports, ok).
     if opened then Inr (Some (w \<noteq> 0), reports, ok)
     else bindE (guardE (\<not> ok) NullDeref) (\<lambda>_. Inr (None, [], ok)))"

definition wait_main :: "int \<Rightarrow> bool \<Rightarrow> int \<Rightarrow> (int \<times> 32 word) list
    \<Rightarrow> fault + ((nat list \<times> int) + (bool option \<times> child_report list \<times> bool))" where
  "wait_main cpid opened w rs =
     (if cpid = - 1 then Inr (Inr (None, [], False))
      else if cpid = 0 then bindE (child_main opened) (\<lambda>c. Inr (Inl c))
      else bindE (parent_main opened w rs) (\<lambda>r. Inr (Inr r)))"

subsection \<open>Status words\<close>

text \<open>As the system makes them: of an exit code, a signal (with the flag of a core dump), a stop, and of going on.\<close>

datatype change = Exit "32 word" | Signal "32 word" bool | Stop "32 word" | Go_On

definition status_of :: "change \<Rightarrow> 32 word" where
  "status_of c =
     (case c of
        Exit code \<Rightarrow> push_bit 8 (code AND 255)
      | Signal sig core \<Rightarrow> sig OR (if core then 128 else 0)
      | Stop sig \<Rightarrow> push_bit 8 sig OR 127
      | Go_On \<Rightarrow> push_bit 8 19 OR 127)"

definition change_ok :: "change \<Rightarrow> bool" where
  "change_ok c \<longleftrightarrow>
     (case c of Exit _ \<Rightarrow> True | Signal sig _ \<Rightarrow> 0 < sig \<and> sig < 127 | Stop sig \<Rightarrow> sig < 128 \<and> sig \<noteq> 19 | Go_On \<Rightarrow> True)"

definition change_report :: "change \<Rightarrow> child_report" where
  "change_report c =
     (case c of Exit code \<Rightarrow> Exited (code AND 255) | Signal sig _ \<Rightarrow> Killed sig | Stop sig \<Rightarrow> Stopped sig | Go_On \<Rightarrow> Continued)"

definition change_ends :: "change \<Rightarrow> bool" where
  "change_ends c \<longleftrightarrow> (case c of Exit _ \<Rightarrow> True | Signal _ _ \<Rightarrow> True | _ \<Rightarrow> False)"

text \<open>Every status is one of the four kinds, and only one.\<close>

lemma status_kinds:
  "WIFEXITED x \<or> WIFSIGNALED x \<or> WIFSTOPPED x \<or> WIFCONTINUED x"
  "\<not> (WIFEXITED x \<and> WIFSIGNALED x)" "\<not> (WIFSTOPPED x \<and> WIFCONTINUED x)"
  "\<not> ((WIFEXITED x \<or> WIFSIGNALED x) \<and> (WIFSTOPPED x \<or> WIFCONTINUED x))"
  by (auto simp: WIFEXITED_def WIFSIGNALED_def WIFSTOPPED_def WIFCONTINUED_def)

lemma exit_table:
  "\<forall>i \<in> set [0..255]. WSTATUS (push_bit 8 (word_of_int i)) = 0 \<and> WEXITSTATUS (push_bit 8 (word_of_int i)) = word_of_int i"
  by code_simp

lemma signal_table:
  "\<forall>i \<in> set [0..127]. WSTATUS (word_of_int i) = word_of_int i \<and> WSTATUS (word_of_int i OR 128) = word_of_int i"
  by code_simp

lemma stop_table:
  "\<forall>i \<in> set [0..127]. WSTATUS (push_bit 8 (word_of_int i) OR 127) = 127 \<and> WSTOPSIG (push_bit 8 (word_of_int i) OR 127) = word_of_int i"
  by code_simp

lemma word_in_table: "x \<le> y \<Longrightarrow> \<forall>i \<in> set [0..uint y]. P (word_of_int i) \<Longrightarrow> P (x :: 32 word)"
  using word_le_def [of x y] by (auto dest!: bspec [of _ _ "uint x"])

lemma report_of_status:
  assumes "change_ok c"
  shows "report_of (status_of c) = change_report c \<and> (WIFEXITED (status_of c) \<or> WIFSIGNALED (status_of c) \<longleftrightarrow> change_ends c)"
proof (cases c)
  case (Exit code)
  define v where "v = code AND 255"
  have "v \<le> 255" unfolding v_def by (rule word_and_le1)
  moreover have st: "status_of c = push_bit 8 v" by (simp only: Exit status_of_def v_def change.case)
  ultimately have "WSTATUS (status_of c) = 0 \<and> WEXITSTATUS (status_of c) = code AND 255"
    using word_in_table [of v 255] exit_table unfolding st v_def [symmetric] by simp
  then show ?thesis by (simp add: Exit report_of_def change_report_def change_ends_def WIFEXITED_def)
next
  case (Signal sig core)
  then have sig: "sig \<le> 127" "sig \<noteq> 0" "sig \<noteq> 127" using assms by (auto simp: change_ok_def)
  then have "WSTATUS (status_of c) = sig"
    using word_in_table [OF sig(1), of "\<lambda>x. WSTATUS x = x \<and> WSTATUS (x OR 128) = x"] signal_table
    by (cases core) (simp_all add: Signal status_of_def)
  with sig show ?thesis
    by (simp add: Signal report_of_def change_report_def change_ends_def WIFEXITED_def WIFSIGNALED_def WTERMSIG_def)
next
  case (Stop sig)
  then have sig: "sig \<le> 127" "sig \<noteq> 19" using assms by (auto simp: change_ok_def word_le_nat_alt word_less_nat_alt)
  then have "WSTATUS (status_of c) = 127 \<and> WSTOPSIG (status_of c) = sig"
    using word_in_table [of sig 127] stop_table by (simp add: Stop status_of_def)
  with sig show ?thesis
    by (simp add: Stop report_of_def change_report_def change_ends_def WIFEXITED_def WIFSIGNALED_def WIFSTOPPED_def)
next
  case Go_On
  have "WSTATUS (status_of c) = 127 \<and> WSTOPSIG (status_of c) = 19"
    unfolding Go_On status_of_def change.case by code_simp
  then show ?thesis
    by (simp add: Go_On report_of_def change_report_def change_ends_def WIFEXITED_def WIFSIGNALED_def WIFSTOPPED_def WIFCONTINUED_def)
qed

subsection \<open>Parent and child\<close>

text \<open>What \<open>waitpid\<close> answers when it is called again and again.\<close>

definition answers :: "int \<Rightarrow> change list \<Rightarrow> (int \<times> 32 word) list" where
  "answers pid cs = map (\<lambda>c. (pid, status_of c)) cs"

lemma wait_loop_answers:
  assumes "0 < pid" "\<forall>c \<in> set cs. change_ok c \<and> \<not> change_ends c"
  shows "wait_loop (answers pid cs @ rs) = bindE (wait_loop rs) (\<lambda>(reports, ok). Inr (map change_report cs @ reports, ok))"
  using assms(2)
proof (induction cs)
  case Nil
  show ?case by (cases "wait_loop rs") (simp_all add: answers_def split_beta)
next
  case (Cons c cs)
  then have "report_of (status_of c) = change_report c" "\<not> WIFEXITED (status_of c)" "\<not> WIFSIGNALED (status_of c)"
    using report_of_status [of c] by auto
  with Cons assms(1) show ?case by (cases "wait_loop rs") (auto simp: answers_def)
qed

lemma child_counts: "child_loop k = [k..<10001]" if "k < 10001"
  using that
proof (induction k rule: child_loop.induct)
  case (1 k)
  then show ?case by (cases "k = 10000") (simp_all add: child_loop.simps [of k] child_loop.simps [of 10000] CHILD_COUNT_def upt_conv_Cons)
qed

lemma wait_loop_ends:
  assumes "0 < pid" "\<forall>c \<in> set cs. change_ok c \<and> \<not> change_ends c" "change_ok e" "change_ends e"
  shows "wait_loop (answers pid (cs @ [e]) @ rs) = Inr (map change_report (cs @ [e]), True)"
proof -
  have "wait_loop (answers pid [e] @ rs) = Inr ([change_report e], True)"
    using report_of_status [OF assms(3)] assms(1,4) by (simp add: answers_def)
  then show ?thesis
    using wait_loop_answers [OF assms(1,2), of "answers pid [e] @ rs"] by (simp add: answers_def)
qed

text \<open>
  The child prints one count more than \<open>CHILD_COUNT\<close>. A parent that comes first reports all its changes up to its
  end, be it the exit with 123 or a signal, and not beyond; one that comes when the child has ended takes the status away with
  the call that does not wait, and fails at the next. When the files cannot be opened nothing is reported, and what ends
  normally ends with a bad pointer instead.
\<close>

text \<open>
  C27. If its file could be opened, the child prints 10001 counts and exits with 123; a parent that
  has not taken away its status reports every stop, every continuation and then the end of the
  child, an exit with its code or a signal, looks at nothing behind that, and succeeds; it waits as
  long as the child has not ended, and fails with what it has reported so far at a call that fails;
  one whose first call has taken the status fails at the next. If its file could not be opened,
  child and parent print nothing, and where they would end normally they give fclose a null
  pointer.
\<close>

theorem parent_of_child:
  assumes "0 < pid" "\<forall>c \<in> set cs. change_ok c \<and> \<not> change_ends c" "change_ok e" "change_ends e"
  shows "wait_main 0 True w rs = Inr (Inl ([0..<10001], 123)) \<and> wait_main 0 False w rs = Inl NullDeref
    \<and> wait_main pid True 0 (answers pid (cs @ [e]) @ rs) = Inr (Inr (Some False, map change_report (cs @ [e]), True))
    \<and> wait_main pid False 0 (answers pid (cs @ [e]) @ rs) = Inl NullDeref
    \<and> wait_main pid opened 0 (answers pid cs) = Inl Blocks
    \<and> wait_main pid opened 0 (answers pid cs @ (- 1, status) # rs)
        = Inr (Inr (if opened then (Some False, map change_report cs, False) else (None, [], False)))
    \<and> wait_main pid opened pid ((- 1, status) # rs) = Inr (Inr (if opened then Some True else None, [], False))"
proof -
  note ends = wait_loop_ends [OF assms, of rs]
  have blocks: "wait_loop (answers pid cs) = Inl Blocks"
    using wait_loop_answers [OF assms(1,2), of "[]"] by simp
  have fails: "wait_loop (answers pid cs @ (- 1, status) # rs) = Inr (map change_report cs, False)"
    using wait_loop_answers [OF assms(1,2), of "(- 1, status) # rs"] by simp
  show ?thesis
    using assms(1) child_counts [of 0] ends blocks fails
    by (auto simp: wait_main_def parent_main_def child_main_def simp del: map_append)
qed

text \<open>A child that is stopped, goes on and exits, and one that is killed with a core dump.\<close>

lemma parent_of_child_witness:
  "wait_main 7 True 0 (answers 7 ([Stop 17, Go_On] @ [Exit 123])) = Inr (Inr (Some False, [Stopped 17, Continued, Exited 123], True))
   \<and> wait_main 7 True 0 (answers 7 ([Stop 17, Go_On] @ [Signal 11 True])) = Inr (Inr (Some False, [Stopped 17, Continued, Killed 11], True))"
  using parent_of_child [of 7 "[Stop 17, Go_On]" "Exit 123" 0 "[]"] parent_of_child [of 7 "[Stop 17, Go_On]" "Signal 11 True" 0 "[]"]
  by (simp add: change_ok_def change_ends_def change_report_def)

end
