(* ===== verification/MdClient2.thy ===== *)
theory MdClient2
  imports MdClient
begin

section \<open>The asynchronous client API (mdcliapi2.hpp, mdclient2.cpp)\<close>

text \<open>
  The second class \<open>mdcli\<close>, in \<open>Common/zmq/example\<close>, sends over a \<open>DEALER\<close> and does not wait: \<open>send\<close> and \<open>recv\<close> are
  separate, a reply that does not come is no reason to send again, and the empty frame is put in front by the class.
  The example client sends 100000 requests and then reads replies until one does not come.
\<close>

subsection \<open>State and methods\<close>

record mdcli2 =
  c2_broker :: bytes
  c2_timeout :: int
  c2_connects :: nat
  c2_trace :: "action list"

definition c2_connect_to_broker :: "peer_env \<Rightarrow> mdcli2 \<Rightarrow> mdcli2" where
  "c2_connect_to_broker P c =
     c\<lparr>c2_connects := Suc (c2_connects c),
       c2_trace := c2_trace c @ [ConnectTo (set_id_text (peer_rand P (c2_connects c))) (c2_broker c)]\<rparr>"

definition mdcli2_new :: "peer_env \<Rightarrow> bytes \<Rightarrow> mdcli2" where
  "mdcli2_new P broker =
     c2_connect_to_broker P \<lparr>c2_broker = broker, c2_timeout = 2500, c2_connects = 0, c2_trace = []\<rparr>"

definition c2_set_timeout :: "int \<Rightarrow> mdcli2 \<Rightarrow> mdcli2" where
  "c2_set_timeout timeout c = c\<lparr>c2_timeout := timeout\<rparr>"

text \<open>The result has what is left of the request, whose parts are cleared when they are sent.\<close>

definition c2_send :: "peer_env \<Rightarrow> bytes \<Rightarrow> zmsg option \<Rightarrow> mdcli2 \<Rightarrow> fault + (zmsg \<times> mdcli2)" where
  "c2_send P service request_p c =
     bindE (fetchE AssertFail request_p) (\<lambda>request.
     bindE (zmsg_send (peer_first P) (push_front [] (push_front MDPC_CLIENT (push_front service request)))) (\<lambda>(ws, rest).
       Inr (rest, c\<lparr>c2_trace := c2_trace c @ [SendFrames ws]\<rparr>)))"

text \<open>\<open>None\<close>: the poll timed out. The last assertion compares the service with itself.\<close>

definition c2_recv :: "incoming option \<Rightarrow> fault + zmsg option" where
  "c2_recv arrival =
     (case arrival of
        None \<Rightarrow> Inr None
      | Some r \<Rightarrow>
          bindE (zmsg_recv r zmsg_new) (\<lambda>(_, msg).
          bindE (guardE (parts msg \<ge> 4) AssertFail) (\<lambda>_.
          bindE (pop_front msg) (\<lambda>(empty, msg).
          bindE (guardE (length empty = 0) AssertFail) (\<lambda>_.
          bindE (pop_front msg) (\<lambda>(header, msg).
          bindE (guardE (header = MDPC_CLIENT) AssertFail) (\<lambda>_.
          bindE (pop_front msg) (\<lambda>(service, msg).
          bindE (guardE (service = c_str service) AssertFail) (\<lambda>_.
            Inr (Some msg))))))))))"

subsection \<open>The example client\<close>

fun c2_send_all :: "peer_env \<Rightarrow> nat \<Rightarrow> mdcli2 \<Rightarrow> fault + mdcli2" where
  "c2_send_all P 0 c = Inr c"
| "c2_send_all P (Suc n) c =
     bindE (c2_send P (bytes_of ''echo'') (Some (zmsg_of_body (bytes_of ''Hello world''))) c) (\<lambda>(_, c).
       c2_send_all P n c)"

text \<open>At the end of the list nothing more comes before the timeout.\<close>

fun c2_recv_all :: "nat \<Rightarrow> nat \<Rightarrow> incoming option list \<Rightarrow> fault + nat" where
  "c2_recv_all 0 count polls = Inr count"
| "c2_recv_all (Suc n) count [] = Inr count"
| "c2_recv_all (Suc n) count (p # polls) =
     bindE (c2_recv p) (\<lambda>reply. case reply of None \<Rightarrow> Inr count | Some _ \<Rightarrow> c2_recv_all n (Suc count) polls)"

definition mdclient2_main :: "peer_env \<Rightarrow> incoming option list \<Rightarrow> fault + (nat \<times> mdcli2)" where
  "mdclient2_main P polls =
     bindE (c2_send_all P 100000 (mdcli2_new P (bytes_of ''tcp://localhost:5555''))) (\<lambda>c.
     bindE (c2_recv_all 100000 0 polls) (\<lambda>count. Inr (count, c)))"

subsection \<open>Both clients look alike\<close>

lemma c2_send_result:
  "c2_send P service (Some msg) c =
     bindE (zmsg_send (peer_first P) ([] # cl_request service msg)) (\<lambda>(ws, rest).
       Inr (rest, c\<lparr>c2_trace := c2_trace c @ [SendFrames ws]\<rparr>))"
  by (simp add: c2_send_def cl_request_def push_front_def c_str_Cons)

lemma self_c_str: "s = c_str s \<longleftrightarrow> nul_free s"
  using length_c_str_eq_iff [of s] c_str_nul_free [of s] by auto

text \<open>A reply is accepted if it has an empty frame, the protocol header, a service without NUL and a body.\<close>

lemma c2_recv_frames:
  assumes "list_all2 relayed fs ps" "fs \<noteq> []"
  shows "c2_recv (Some (deliver fs)) =
    (case ps of
       e # h # s # b # bs \<Rightarrow> if e = [] \<and> h = MDPC_CLIENT \<and> nul_free s then Inr (Some (b # bs)) else Inl AssertFail
     | _ \<Rightarrow> Inl AssertFail)"
proof -
  have r: "zmsg_recv (deliver fs) zmsg_new = Inr (True, ps)" using recv_relayed [OF assms] .
  show ?thesis unfolding c2_recv_def self_c_str
    by (cases ps; cases "tl ps"; cases "tl (tl ps)"; cases "tl (tl (tl ps))") (auto simp: r parts_def guardE_def)
qed

lemma cl_reply_frames:
  assumes "list_all2 relayed fs ps" "fs \<noteq> []"
  shows "cl_reply service (deliver fs) =
    (case ps of
       h # s # b # bs \<Rightarrow> if h = MDPC_CLIENT \<and> s = c_str service then Inr (b # bs) else Inl AssertFail
     | _ \<Rightarrow> Inl AssertFail)"
proof -
  have r: "zmsg_recv (deliver fs) zmsg_new = Inr (True, ps)" using recv_relayed [OF assms] .
  show ?thesis
    by (cases ps; cases "tl ps"; cases "tl (tl ps)") (auto simp: cl_reply_def r parts_def guardE_def)
qed

text \<open>
  C29. With the send loop that starts at part 0: what the socket of the broker delivers for a
  request sent over a DEALER by the second client and over a REQ by the first is equal. What the
  broker sends back the second takes exactly if it has the header of the protocol, a service
  without a NUL and a body. If the service is the one that was asked, both clients do the same with
  it; otherwise the first fails its assertion.
\<close>

theorem clients_look_alike:
  fixes dealer_in req_in dealer_out req_out :: "bytes \<Rightarrow> bytes list \<Rightarrow> bytes list"
  assumes links: "\<And>i fs. dealer_in i fs = i # fs" "\<And>i fs. req_in i fs = i # [] # fs"
      "\<And>i fs. dealer_out i (i # fs) = fs" "\<And>i fs. req_out i (i # [] # fs) = fs"
    and P: "peer_first P = send_start_example"
    and request: "list_all2 relayed fs (cl_request service msg)" and reply: "list_all2 relayed rs ps" "rs \<noteq> []"
  shows "(\<exists>ws1 ws2. cl_transmit P (cl_request service msg) c1 = Inr (cl_act (SendFrames ws1) c1)
      \<and> c2_send P service (Some msg) c2 = Inr ([], c2\<lparr>c2_trace := c2_trace c2 @ [SendFrames ws2]\<rparr>)
      \<and> req_in cid (map fst ws1) = dealer_in cid (map fst ws2))
    \<and> (let r1 = cl_reply service (deliver (req_out cid (cid # [] # rs)));
          r2 = c2_recv (Some (deliver (dealer_out cid (cid # [] # rs))))
      in (if 3 \<le> length ps \<and> ps ! 1 = c_str service then r2 = bindE r1 (\<lambda>body. Inr (Some body)) else r1 = Inl AssertFail)
       \<and> (\<forall>body. r2 = Inr (Some body) \<longleftrightarrow> body \<noteq> [] \<and> (\<exists>s. nul_free s \<and> ps = MDPC_CLIENT # s # body)))"
    (is "_ \<and> ?replies")
proof
  have "list_all2 relayed ([] # fs) ([] # cl_request service msg)" using request by simp
  from send_relayed [OF this] send_relayed [OF request]
  show "\<exists>ws1 ws2. cl_transmit P (cl_request service msg) c1 = Inr (cl_act (SendFrames ws1) c1)
      \<and> c2_send P service (Some msg) c2 = Inr ([], c2\<lparr>c2_trace := c2_trace c2 @ [SendFrames ws2]\<rparr>)
      \<and> req_in cid (map fst ws1) = dealer_in cid (map fst ws2)"
    by (intro exI [of _ "with_more fs"] exI [of _ "with_more ([] # fs)"])
      (simp add: c2_send_result cl_transmit_def zmsg_copy_def P links del: with_more.simps)
  have "list_all2 relayed ([] # rs) ([] # ps)" using reply(1) by simp
  from c2_recv_frames [OF this] cl_reply_frames [OF reply, of service]
  show ?replies
    by (cases ps; cases "tl ps"; cases "tl (tl ps)") (auto simp: links simp del: deliver.simps)
qed

subsection \<open>What the example client counts\<close>

definition good_reply :: "incoming option \<Rightarrow> bool" where
  "good_reply p \<longleftrightarrow> (\<exists>msg. c2_recv p = Inr (Some msg))"

lemma c2_recv_all_count:
  "\<forall>p \<in> set (takeWhile (\<lambda>p. p \<noteq> None) (take n polls)). good_reply p \<Longrightarrow>
   c2_recv_all n count polls = Inr (count + length (takeWhile (\<lambda>p. p \<noteq> None) (take n polls)))"
proof (induction n count polls rule: c2_recv_all.induct)
  case (3 n count p polls)
  then show ?case by (cases p) (auto simp: good_reply_def c2_recv_def)
qed simp_all

lemma c2_send_all_trace:
  assumes "peer_first P = send_start_example"
  shows "c2_send_all P n c = Inr (c\<lparr>c2_trace := c2_trace c @ replicate n (SendFrames
      (with_more [[], MDPC_CLIENT, bytes_of ''echo'', bytes_of ''Hello world'']))\<rparr>)"
proof (induction n arbitrary: c)
  case (Suc n)
  have z: "zmsg_of_body (bytes_of ''Hello world'') = [bytes_of ''Hello world'']"
    by (simp add: zmsg_of_body_def body_set_def zmsg_new_def push_back_def bytes_of_def c_str_Cons)
  have "list_all2 relayed ([] # cl_request (bytes_of ''echo'') [bytes_of ''Hello world'']) ([] # cl_request (bytes_of ''echo'') [bytes_of ''Hello world''])"
    by (simp add: cl_request_def bytes_of_def c_str_Cons)
  from send_relayed [OF this] have "c2_send P (bytes_of ''echo'') (Some (zmsg_of_body (bytes_of ''Hello world''))) c
      = Inr ([], c\<lparr>c2_trace := c2_trace c @ [SendFrames (with_more [[], MDPC_CLIENT, bytes_of ''echo'', bytes_of ''Hello world''])]\<rparr>)"
    unfolding z c2_send_result assms by (simp add: cl_request_def bytes_of_def c_str_Cons)
  then show ?case using Suc by (simp add: replicate_append_same del: with_more.simps)
qed simp

text \<open>The client sends all its requests before it looks for a reply, over one connection, and then counts replies up to the
  first poll that times out, whether or not more come after it.\<close>

theorem mdclient2_counts:
  assumes "peer_first P = send_start_example"
    and "\<forall>p \<in> set (takeWhile (\<lambda>p. p \<noteq> None) (take 100000 polls)). good_reply p"
  shows "\<exists>c. mdclient2_main P polls = Inr (length (takeWhile (\<lambda>p. p \<noteq> None) (take 100000 polls)), c)
    \<and> c2_trace c = ConnectTo (set_id_text (peer_rand P 0)) (bytes_of ''tcp://localhost:5555'')
        # replicate 100000 (SendFrames (with_more [[], MDPC_CLIENT, bytes_of ''echo'', bytes_of ''Hello world'']))"
  using c2_recv_all_count [OF assms(2), of 0] c2_send_all_trace [OF assms(1), of 100000]
  by (simp add: mdclient2_main_def mdcli2_new_def c2_connect_to_broker_def del: with_more.simps replicate.simps)

subsection \<open>Instances\<close>

text \<open>A reply of the service that was asked, and one of another.\<close>

lemma clients_look_alike_witness:
  "c2_recv (Some (deliver [[], MDPC_CLIENT, [120], [2]])) = bindE (cl_reply [120] (deliver [MDPC_CLIENT, [120], [2]])) (\<lambda>b. Inr (Some b))
   \<and> c2_recv (Some (deliver [[], MDPC_CLIENT, [120], [2]])) = Inr (Some [[2]])
   \<and> cl_reply [121] (deliver [MDPC_CLIENT, [120], [2]]) = Inl AssertFail"
proof -
  have "relayed MDPC_CLIENT MDPC_CLIENT" "relayed [120] [120]" "relayed [121] [121]" "relayed [1] [1]" "relayed [2] [2]" by simp_all
  then have l: "list_all2 relayed [MDPC_CLIENT, [120], [1]] (cl_request [120] [[1]])"
    "list_all2 relayed [MDPC_CLIENT, [121], [1]] (cl_request [121] [[1]])"
    "list_all2 relayed [MDPC_CLIENT, [120], [2]] [MDPC_CLIENT, [120], [2]]"
    by (simp_all add: cl_request_def c_str_Cons del: mdp_literals)
  note both = clients_look_alike [where dealer_in = "\<lambda>i fs. i # fs" and req_in = "\<lambda>i fs. i # [] # fs" and dealer_out = "\<lambda>i fs. tl fs"
      and req_out = "\<lambda>i fs. tl (tl fs)" and P = demo_client_env and cid = "[65]", OF _ _ _ _ _ _ l(3)]
  from both [OF _ _ _ _ _ l(1)] both [OF _ _ _ _ _ l(2)] show ?thesis
    by (simp add: demo_client_env_def Let_def c_str_Cons del: deliver.simps mdp_literals)
qed

lemma mdclient2_counts_witness:
  "\<exists>c. mdclient2_main demo_client_env [Some (deliver [[], MDPC_CLIENT, [120], [2]]), None, Some (deliver [[], MDPC_CLIENT, [120], [2]])]
    = Inr (1, c)"
proof -
  let ?p = "Some (deliver [[], MDPC_CLIENT, [120], [2]])"
  have "list_all2 relayed [[], MDPC_CLIENT, [120], [2]] [[], MDPC_CLIENT, [120], [2]]" by simp
  from c2_recv_frames [OF this] have "good_reply ?p" by (auto simp: good_reply_def simp del: deliver.simps)
  moreover have "take 100000 [?p, None, ?p] = [?p, None, ?p]" by (rule take_all) (simp del: deliver.simps)
  moreover have "takeWhile (\<lambda>p. p \<noteq> None) [?p, None, ?p] = [?p]" by (simp del: deliver.simps)
  moreover have "peer_first demo_client_env = send_start_example" by (simp add: demo_client_env_def)
  ultimately show ?thesis
    using mdclient2_counts [of demo_client_env "[?p, None, ?p]"] by (auto simp del: deliver.simps with_more.simps)
qed

end
