(* ===== verification/Round_Trip.thy ===== *)
theory Round_Trip
  imports Mdp Interleaving "HOL-Library.Signed_Division"
begin

section \<open>The round-trip demonstrator (tripping.cpp)\<close>

text \<open>
  A client, a broker and a worker. The client sends 10000 requests and waits for each reply, then sends 100000 and reads
  as many replies. The broker knows both by their identities, \<open>C\<close> and \<open>W\<close>, and exchanges the one in front of a
  message. What a ROUTER socket puts in front of frames and takes off is \<open>link_in\<close> and \<open>link_out\<close>. Both peers are
  connected (the client sleeps for that), and the queues of the sockets have no high-water mark, the default of the version
  2.1 the program asks for.
\<close>

subsection \<open>The three programs\<close>

definition SYNC_CALLS :: nat where "SYNC_CALLS = 10000"
definition ASYNC_CALLS :: nat where "ASYNC_CALLS = 100000"
definition TRIP_CLIENT :: bytes where "TRIP_CLIENT = bytes_of ''C''"
definition TRIP_WORKER :: bytes where "TRIP_WORKER = bytes_of ''W''"
definition HELLO :: bytes where "HELLO = bytes_of ''HELLO''"

record trip_client =
  tc_sync :: nat
  tc_waiting :: bool
  tc_sent :: nat
  tc_got :: nat

text \<open>The next thing the client does is to send, or to read a reply.\<close>

definition trip_send :: "trip_client \<Rightarrow> trip_client option" where
  "trip_send c =
     (if tc_sync c < SYNC_CALLS then if tc_waiting c then None else Some (c\<lparr>tc_waiting := True\<rparr>)
      else if tc_sent c < ASYNC_CALLS then Some (c\<lparr>tc_sent := tc_sent c + 1\<rparr>) else None)"

definition trip_recv :: "trip_client \<Rightarrow> trip_client option" where
  "trip_recv c =
     (if tc_sync c < SYNC_CALLS then if tc_waiting c then Some (c\<lparr>tc_waiting := False, tc_sync := tc_sync c + 1\<rparr>) else None
      else if tc_sent c < ASYNC_CALLS then None
      else if tc_got c < ASYNC_CALLS then Some (c\<lparr>tc_got := tc_got c + 1\<rparr>) else None)"

definition trip_request :: "fault + (wire \<times> zmsg)" where
  "trip_request = zmsg_send send_start_example (zmsg_of_body HELLO)"

text \<open>\<open>(1000 * calls) / (int) (s_clock () - start)\<close>.\<close>

definition calls_per_second :: "nat \<Rightarrow> timeval \<Rightarrow> timeval \<Rightarrow> fault + int" where
  "calls_per_second calls start now =
     (let d = sint (word_of_int (s_clock now - s_clock start) :: 32 word)
      in if d = 0 then Inl DivByZero else Inr (int (1000 * calls) sdiv d))"

definition trip_exchange :: "bytes \<Rightarrow> bytes list \<Rightarrow> fault + wire" where
  "trip_exchange address m =
     bindE (zmsg_recv (deliver m) zmsg_new) (\<lambda>(_, msg).
     bindE (pop_front msg) (\<lambda>(_, msg).
     bindE (zmsg_send send_start_example (push_front address msg)) (\<lambda>(ws, _). Inr ws)))"

definition trip_work :: "bytes list \<Rightarrow> fault + wire" where
  "trip_work m =
     bindE (zmsg_recv (deliver m) zmsg_new) (\<lambda>(_, msg).
     bindE (zmsg_send send_start_example msg) (\<lambda>(ws, _). Inr ws))"

subsection \<open>Side by side\<close>

record trip =
  tc :: trip_client
  at_frontend :: "bytes list list"
  at_worker :: "bytes list list"
  at_backend :: "bytes list list"
  at_client :: "bytes list list"

inductive trip_step :: "(bytes \<Rightarrow> bytes list \<Rightarrow> bytes list) \<Rightarrow> (bytes list \<Rightarrow> bytes \<times> bytes list) \<Rightarrow> trip \<Rightarrow> trip \<Rightarrow> bool"
  for link_in link_out where
  ask: "trip_send (tc s) = Some c \<Longrightarrow> trip_request = Inr (ws, rest) \<Longrightarrow>
     trip_step link_in link_out s (s\<lparr>tc := c, at_frontend := at_frontend s @ [link_in TRIP_CLIENT (map fst ws)]\<rparr>)"
| front: "at_frontend s = m # ms \<Longrightarrow> trip_exchange TRIP_WORKER m = Inr ws \<Longrightarrow> link_out (map fst ws) = (TRIP_WORKER, fs) \<Longrightarrow>
     trip_step link_in link_out s (s\<lparr>at_frontend := ms, at_worker := at_worker s @ [fs]\<rparr>)"
| work: "at_worker s = m # ms \<Longrightarrow> trip_work m = Inr ws \<Longrightarrow>
     trip_step link_in link_out s (s\<lparr>at_worker := ms, at_backend := at_backend s @ [link_in TRIP_WORKER (map fst ws)]\<rparr>)"
| reply: "at_backend s = m # ms \<Longrightarrow> trip_exchange TRIP_CLIENT m = Inr ws \<Longrightarrow> link_out (map fst ws) = (TRIP_CLIENT, fs) \<Longrightarrow>
     trip_step link_in link_out s (s\<lparr>at_backend := ms, at_client := at_client s @ [fs]\<rparr>)"
| got: "at_client s = m # ms \<Longrightarrow> zmsg_recv (deliver m) zmsg_new = Inr (ok, msg) \<Longrightarrow> trip_recv (tc s) = Some c \<Longrightarrow>
     trip_step link_in link_out s (s\<lparr>at_client := ms, tc := c\<rparr>)"

definition trip_start :: trip where
  "trip_start = \<lparr>tc = \<lparr>tc_sync = 0, tc_waiting = False, tc_sent = 0, tc_got = 0\<rparr>,
     at_frontend = [], at_worker = [], at_backend = [], at_client = []\<rparr>"

subsection \<open>Nothing is lost\<close>

lemma trip_frames: "list_all2 relayed [TRIP_CLIENT, HELLO] [TRIP_CLIENT, HELLO]" "list_all2 relayed [TRIP_WORKER, HELLO] [TRIP_WORKER, HELLO]"
  "list_all2 relayed [HELLO] [HELLO]" "c_str TRIP_CLIENT = TRIP_CLIENT" "c_str TRIP_WORKER = TRIP_WORKER" "c_str HELLO = HELLO"
  by (simp_all add: TRIP_CLIENT_def TRIP_WORKER_def HELLO_def bytes_of_def c_str_Cons)

lemma trip_request_result: "trip_request = Inr (with_more [HELLO], [])"
proof -
  have "zmsg_of_body HELLO = [HELLO]" by (simp add: zmsg_of_body_def body_set_def zmsg_new_def push_back_def trip_frames)
  then show ?thesis using send_relayed [OF trip_frames(3)] by (simp add: trip_request_def)
qed

lemma trip_exchange_result:
  "trip_exchange TRIP_WORKER [TRIP_CLIENT, HELLO] = Inr (with_more [TRIP_WORKER, HELLO])"
  "trip_exchange TRIP_CLIENT [TRIP_WORKER, HELLO] = Inr (with_more [TRIP_CLIENT, HELLO])"
  unfolding trip_exchange_def recv_relayed [OF trip_frames(1) list.distinct(2)] recv_relayed [OF trip_frames(2) list.distinct(2)]
  using send_relayed [OF trip_frames(1)] send_relayed [OF trip_frames(2)]
  by (simp_all add: push_front_def trip_frames)

lemma trip_work_result: "trip_work [HELLO] = Inr (with_more [HELLO])"
  unfolding trip_work_def recv_relayed [OF trip_frames(3) list.distinct(2)]
  using send_relayed [OF trip_frames(3)] by simp

definition in_flight :: "trip \<Rightarrow> nat" where
  "in_flight s = length (at_frontend s) + length (at_worker s) + length (at_backend s) + length (at_client s)"

definition trip_inv :: "trip \<Rightarrow> bool" where
  "trip_inv s \<longleftrightarrow>
     (\<forall>m \<in> set (at_frontend s). m = [TRIP_CLIENT, HELLO]) \<and> (\<forall>m \<in> set (at_worker s). m = [HELLO])
     \<and> (\<forall>m \<in> set (at_backend s). m = [TRIP_WORKER, HELLO]) \<and> (\<forall>m \<in> set (at_client s). m = [HELLO])
     \<and> tc_sync (tc s) \<le> SYNC_CALLS \<and> tc_sent (tc s) \<le> ASYNC_CALLS
     \<and> (if tc_sync (tc s) < SYNC_CALLS then tc_sent (tc s) = 0 \<and> tc_got (tc s) = 0
          \<and> in_flight s = (if tc_waiting (tc s) then 1 else 0)
        else \<not> tc_waiting (tc s) \<and> in_flight s + tc_got (tc s) = tc_sent (tc s))"

definition trip_left :: "trip \<Rightarrow> nat" where
  "trip_left s = 5 * (SYNC_CALLS - (tc_sync (tc s) + (if tc_waiting (tc s) then 1 else 0)) + (ASYNC_CALLS - tc_sent (tc s)))
     + 4 * length (at_frontend s) + 3 * length (at_worker s) + 2 * length (at_backend s) + length (at_client s)"

definition trip_done :: "trip \<Rightarrow> bool" where
  "trip_done s \<longleftrightarrow> tc_sync (tc s) = SYNC_CALLS \<and> tc_sent (tc s) = ASYNC_CALLS \<and> tc_got (tc s) = ASYNC_CALLS \<and> in_flight s = 0"

lemma trip_step_inv:
  assumes "trip_step link_in link_out s t" "trip_inv s" "router_laws link_in link_out"
  shows "trip_inv t \<and> trip_left t < trip_left s"
  using assms(1)
proof (cases rule: trip_step.cases)
  case (ask c ws rest)
  then have "ws = with_more [HELLO]" by (simp add: trip_request_result)
  with ask assms(2,3) show ?thesis
    by (auto simp: trip_send_def trip_inv_def trip_left_def in_flight_def router_laws_def split: if_splits)
next
  case (front m ms ws fs)
  then have "m = [TRIP_CLIENT, HELLO]" using assms(2) by (simp add: trip_inv_def)
  with front(3,4) assms(3) have "fs = [HELLO]" by (auto simp: trip_exchange_result router_laws_def)
  with front assms(2) show ?thesis by (auto simp: trip_inv_def trip_left_def in_flight_def)
next
  case (work m ms ws)
  then have "ws = with_more [HELLO]" using assms(2) by (simp add: trip_inv_def trip_work_result)
  with work assms(2,3) show ?thesis by (auto simp: trip_inv_def trip_left_def in_flight_def router_laws_def)
next
  case (reply m ms ws fs)
  then have "m = [TRIP_WORKER, HELLO]" using assms(2) by (simp add: trip_inv_def)
  with reply(3,4) assms(3) have "fs = [HELLO]" by (auto simp: trip_exchange_result router_laws_def)
  with reply assms(2) show ?thesis by (auto simp: trip_inv_def trip_left_def in_flight_def)
next
  case (got m ms ok msg c)
  with assms(2) show ?thesis
    by (auto simp: trip_recv_def trip_inv_def trip_left_def in_flight_def split: if_splits)
qed

lemma trip_stuck:
  assumes "\<nexists>t. trip_step link_in link_out s t" "trip_inv s" "router_laws link_in link_out"
  shows "trip_done s"
proof -
  have "at_frontend s = []"
  proof (rule ccontr)
    assume "at_frontend s \<noteq> []"
    then obtain m ms where m: "at_frontend s = m # ms" by (auto simp: neq_Nil_conv)
    then have "m = [TRIP_CLIENT, HELLO]" using assms(2) by (simp add: trip_inv_def)
    with trip_step.front [OF m, of "with_more [TRIP_WORKER, HELLO]" link_out "[HELLO]" link_in] assms(1,3) show False
      by (auto simp: trip_exchange_result router_laws_def)
  qed
  moreover have "at_worker s = []"
  proof (rule ccontr)
    assume "at_worker s \<noteq> []"
    then obtain m ms where m: "at_worker s = m # ms" by (auto simp: neq_Nil_conv)
    then have "m = [HELLO]" using assms(2) by (simp add: trip_inv_def)
    with trip_step.work [OF m] assms(1) show False by (auto simp: trip_work_result)
  qed
  moreover have "at_backend s = []"
  proof (rule ccontr)
    assume "at_backend s \<noteq> []"
    then obtain m ms where m: "at_backend s = m # ms" by (auto simp: neq_Nil_conv)
    then have "m = [TRIP_WORKER, HELLO]" using assms(2) by (simp add: trip_inv_def)
    with trip_step.reply [OF m, of "with_more [TRIP_CLIENT, HELLO]" link_out "[HELLO]" link_in] assms(1,3) show False
      by (auto simp: trip_exchange_result router_laws_def)
  qed
  moreover have send: "trip_send (tc s) = None"
    using trip_step.ask [of s _ "with_more [HELLO]" "[]" link_in link_out] assms(1)
    by (cases "trip_send (tc s)") (auto simp: trip_request_result)
  moreover have "at_client s = []"
  proof (rule ccontr)
    assume "at_client s \<noteq> []"
    then obtain m ms where m: "at_client s = m # ms" by (auto simp: neq_Nil_conv)
    then have "zmsg_recv (deliver m) zmsg_new = Inr (True, [HELLO])"
      using assms(2) recv_relayed [OF trip_frames(3)] by (simp add: trip_inv_def del: deliver.simps)
    with trip_step.got [OF m this, of _ link_in link_out] assms(1) have none: "trip_recv (tc s) = None"
      by (cases "trip_recv (tc s)") blast+
    have "0 < in_flight s" using m by (simp add: in_flight_def)
    with none send assms(2) show False
      by (auto simp: trip_recv_def trip_send_def trip_inv_def split: if_splits)
  qed
  ultimately have "in_flight s = 0" by (simp add: in_flight_def)
  with send assms(2) show ?thesis by (auto simp: trip_done_def trip_send_def trip_inv_def split: if_splits)
qed

interpretation trips: settling "trip_step link_in link_out" "\<lambda>s. trip_inv s \<and> router_laws link_in link_out" trip_left trip_done
  by unfold_locales (auto dest: trip_step_inv intro: trip_stuck)

lemma trip_start_inv: "trip_inv trip_start"
  by (simp add: trip_inv_def trip_start_def in_flight_def SYNC_CALLS_def)

theorem trips_complete:
  assumes "router_laws link_in link_out" "(trip_step link_in link_out)\<^sup>*\<^sup>* trip_start s"
  shows "(\<forall>n t. (trip_step link_in link_out ^^ n) trip_start t \<longrightarrow> n \<le> 550000)
    \<and> (\<exists>t. (trip_step link_in link_out)\<^sup>*\<^sup>* s t \<and> trip_done t)
    \<and> (trip_done s \<or> (\<exists>t. trip_step link_in link_out s t))
    \<and> tc_sync (tc s) \<le> 10000 \<and> tc_got (tc s) \<le> tc_sent (tc s) \<and> tc_sent (tc s) \<le> 100000"
proof -
  note start = conjI [OF trip_start_inv assms(1)]
  have inv: "trip_inv s \<and> router_laws link_in link_out" by (rule trips.run_inv [OF assms(2) start])
  have "trip_left trip_start = 550000"
    by (simp add: trip_left_def trip_start_def SYNC_CALLS_def ASYNC_CALLS_def)
  with trips.run_bounded [OF _ start] have "\<forall>n t. (trip_step link_in link_out ^^ n) trip_start t \<longrightarrow> n \<le> 550000"
    by fastforce
  moreover have "tc_sync (tc s) \<le> 10000 \<and> tc_got (tc s) \<le> tc_sent (tc s) \<and> tc_sent (tc s) \<le> 100000"
    using inv by (auto simp: trip_inv_def SYNC_CALLS_def ASYNC_CALLS_def split: if_splits)
  ultimately show ?thesis using trips.run_settles [OF inv] trips.stuck_final [OF inv] by blast
qed

text \<open>The rates are printed unless the milliseconds are zero, or a multiple of \<open>2^32\<close>.\<close>

lemma calls_per_second_faults:
  "calls_per_second calls start now = Inl DivByZero \<longleftrightarrow> (s_clock now - s_clock start) mod 2 ^ 32 = 0"
proof -
  have "sint (word_of_int (s_clock now - s_clock start) :: 32 word) = 0
      \<longleftrightarrow> (word_of_int (s_clock now - s_clock start) :: 32 word) = 0" by (metis signed_0 signed_word_eqI)
  also have "\<dots> \<longleftrightarrow> uint (word_of_int (s_clock now - s_clock start) :: 32 word) = 0" by (simp only: uint_0_iff)
  also have "\<dots> \<longleftrightarrow> (s_clock now - s_clock start) mod 2 ^ 32 = 0" by (simp only: uint_word_of_int) simp
  finally show ?thesis by (simp add: calls_per_second_def Let_def)
qed

subsection \<open>Instances\<close>

lemma trips_complete_witness:
  "\<exists>t. (trip_step (\<lambda>i fs. i # fs) (\<lambda>fs. (hd fs, tl fs)))\<^sup>*\<^sup>* trip_start t \<and> tc_got (tc t) = 100000"
proof -
  have "router_laws (\<lambda>i fs. i # fs) (\<lambda>fs. (hd fs, tl fs))" by (simp add: router_laws_def)
  from trips_complete [OF this rtranclp.rtrancl_refl] show ?thesis
    by (auto simp: trip_done_def ASYNC_CALLS_def)
qed

end
