(* ===== verification/Sync_Pub.thy ===== *)
theory Sync_Pub
  imports Zmsg Interleaving
begin

section \<open>Publisher and subscribers that wait for each other (syncpub.cpp, syncsub.cpp)\<close>

text \<open>
  A subscriber connects its SUB socket, sends a request to the publisher's second socket, waits for the answer and
  counts updates up to the word END. The publisher answers ten requests and then publishes a million updates and END.
  The subscription travels on its own: \<open>sb_joined\<close> is the number of messages published when it arrived; a PUB socket
  sends a message to those whose subscription it has.
\<close>

subsection \<open>The programs\<close>

definition SUBSCRIBERS_EXPECTED :: nat where "SUBSCRIBERS_EXPECTED = 10"
definition UPDATES :: nat where "UPDATES = 1000000"
definition RHUBARB :: bytes where "RHUBARB = bytes_of ''Rhubarb''"
definition END :: bytes where "END = bytes_of ''END''"

definition publisher_message :: "nat \<Rightarrow> bytes" where
  "publisher_message update_nbr = (if update_nbr < UPDATES then RHUBARB else END)"

datatype sb_phase = Connecting | Asking | Counting | Over

record subscriber =
  sb_phase :: sb_phase
  sb_told :: bool
  sb_joined :: "nat option"
  sb_inbox :: "bytes list"
  sb_seen :: nat

definition sb_take :: "bytes \<Rightarrow> subscriber \<Rightarrow> subscriber" where
  "sb_take m sb = (if m = END then sb\<lparr>sb_phase := Over\<rparr> else sb\<lparr>sb_seen := sb_seen sb + 1\<rparr>)"

record sync =
  pb_subscribers :: nat
  pb_next :: nat
  sync_queue :: "nat list"
  subs :: "subscriber list"

definition subscriber_start :: subscriber where
  "subscriber_start = \<lparr>sb_phase = Connecting, sb_told = False, sb_joined = None, sb_inbox = [], sb_seen = 0\<rparr>"

definition sync_start :: "nat \<Rightarrow> sync" where
  "sync_start n = \<lparr>pb_subscribers = 0, pb_next = 0, sync_queue = [], subs = replicate n subscriber_start\<rparr>"

text \<open>
  The socket of the publisher is libzmq's: \<open>pub fs m\<close> is what of a message \<open>m\<close> comes to a subscriber whose subscriptions \<open>fs\<close>
  have arrived. The manual says that without one nothing comes, and that the empty one, which the subscriber makes, is for all;
  as the publisher sets no high-water mark, nothing is dropped.
\<close>

definition SUBSCRIPTION :: bytes where "SUBSCRIPTION = []"

definition pub_laws :: "(bytes list \<Rightarrow> bytes \<Rightarrow> bytes list) \<Rightarrow> bool" where
  "pub_laws pub \<longleftrightarrow> (\<forall>m. pub [] m = [] \<and> pub [[]] m = [m])"

definition subscriptions :: "subscriber \<Rightarrow> bytes list" where
  "subscriptions sb = (if sb_joined sb = None then [] else [SUBSCRIPTION])"

definition deliver_to :: "(bytes list \<Rightarrow> bytes \<Rightarrow> bytes list) \<Rightarrow> bytes \<Rightarrow> subscriber \<Rightarrow> subscriber" where
  "deliver_to pub m sb = sb\<lparr>sb_inbox := sb_inbox sb @ pub (subscriptions sb) m\<rparr>"

inductive sync_step :: "(bytes list \<Rightarrow> bytes \<Rightarrow> bytes list) \<Rightarrow> sync \<Rightarrow> sync \<Rightarrow> bool" for pub where
  join: "i < length (subs s) \<Longrightarrow> sb_joined (subs s ! i) = None \<Longrightarrow>
     sync_step pub s (s\<lparr>subs := (subs s)[i := (subs s ! i)\<lparr>sb_joined := Some (pb_next s)\<rparr>]\<rparr>)"
| ask: "i < length (subs s) \<Longrightarrow> sb_phase (subs s ! i) = Connecting \<Longrightarrow>
     sync_step pub s (s\<lparr>sync_queue := sync_queue s @ [i], subs := (subs s)[i := (subs s ! i)\<lparr>sb_phase := Asking\<rparr>]\<rparr>)"
| grant: "pb_subscribers s < SUBSCRIBERS_EXPECTED \<Longrightarrow> sync_queue s = i # q \<Longrightarrow>
     sync_step pub s (s\<lparr>pb_subscribers := pb_subscribers s + 1, sync_queue := q,
       subs := (subs s)[i := (subs s ! i)\<lparr>sb_told := True\<rparr>]\<rparr>)"
| go_on: "i < length (subs s) \<Longrightarrow> sb_phase (subs s ! i) = Asking \<Longrightarrow> sb_told (subs s ! i) \<Longrightarrow>
     sync_step pub s (s\<lparr>subs := (subs s)[i := (subs s ! i)\<lparr>sb_phase := Counting\<rparr>]\<rparr>)"
| publish: "\<not> pb_subscribers s < SUBSCRIBERS_EXPECTED \<Longrightarrow> pb_next s \<le> UPDATES \<Longrightarrow>
     sync_step pub s (s\<lparr>pb_next := pb_next s + 1, subs := map (deliver_to pub (publisher_message (pb_next s))) (subs s)\<rparr>)"
| count: "i < length (subs s) \<Longrightarrow> sb_phase (subs s ! i) = Counting \<Longrightarrow> sb_inbox (subs s ! i) = m # ms \<Longrightarrow>
     sync_step pub s (s\<lparr>subs := (subs s)[i := sb_take m ((subs s ! i)\<lparr>sb_inbox := ms\<rparr>)]\<rparr>)"

subsection \<open>What a subscriber has seen and has before it\<close>

lemma publisher_message_END [simp]: "publisher_message k = END \<longleftrightarrow> UPDATES \<le> k"
  by (auto simp: publisher_message_def RHUBARB_def END_def bytes_of_def)

definition sb_reached :: "nat \<Rightarrow> subscriber \<Rightarrow> nat" where
  "sb_reached j sb = j + sb_seen sb + (if sb_phase sb = Over then 1 else 0)"

definition sb_ok :: "nat \<Rightarrow> subscriber \<Rightarrow> bool" where
  "sb_ok next sb \<longleftrightarrow>
     (sb_phase sb \<noteq> Counting \<and> sb_phase sb \<noteq> Over \<longrightarrow> sb_seen sb = 0)
     \<and> (sb_phase sb = Counting \<or> sb_phase sb = Over \<longrightarrow> sb_told sb)
     \<and> (sb_told sb \<longrightarrow> sb_phase sb \<noteq> Connecting)
     \<and> (case sb_joined sb of
          None \<Rightarrow> sb_inbox sb = [] \<and> sb_seen sb = 0 \<and> sb_phase sb \<noteq> Over
        | Some j \<Rightarrow> sb_reached j sb \<le> next \<and> sb_inbox sb = map publisher_message [sb_reached j sb..<next]
            \<and> (if sb_phase sb = Over then j + sb_seen sb = UPDATES else j + sb_seen sb \<le> UPDATES \<or> j = Suc UPDATES))"

definition told :: "subscriber list \<Rightarrow> nat" where
  "told sbs = length (filter sb_told sbs)"

definition waits :: "subscriber \<Rightarrow> bool" where
  "waits sb \<longleftrightarrow> sb_phase sb = Asking \<and> \<not> sb_told sb"

definition sync_inv :: "sync \<Rightarrow> bool" where
  "sync_inv s \<longleftrightarrow> pb_next s \<le> Suc UPDATES \<and> (\<forall>sb \<in> set (subs s). sb_ok (pb_next s) sb)
     \<and> (\<forall>i. i \<in> set (sync_queue s) \<longleftrightarrow> i < length (subs s) \<and> waits (subs s ! i)) \<and> distinct (sync_queue s)
     \<and> pb_subscribers s = told (subs s) \<and> told (subs s) \<le> SUBSCRIBERS_EXPECTED
     \<and> (told (subs s) < SUBSCRIBERS_EXPECTED \<longrightarrow> pb_next s = 0)"

definition phase_left :: "subscriber \<Rightarrow> nat" where
  "phase_left sb = (case sb_phase sb of Connecting \<Rightarrow> 2 | Asking \<Rightarrow> 1 | _ \<Rightarrow> 0)
     + (if sb_joined sb = None then 1 else 0) + length (sb_inbox sb)"

definition sync_left :: "sync \<Rightarrow> nat" where
  "sync_left s = (SUBSCRIBERS_EXPECTED - pb_subscribers s) + (Suc UPDATES - pb_next s) * Suc (length (subs s))
     + sum_list (map phase_left (subs s))"

lemma sum_list_less:
  fixes f :: "'a \<Rightarrow> nat"
  assumes "i < length xs" "f y < f (xs ! i)"
  shows "sum_list (map f (xs[i := y])) < sum_list (map f xs)"
  using assms
proof (induction xs arbitrary: i)
  case (Cons x xs)
  then show ?case by (cases i) auto
qed simp

lemma told_update:
  "i < length sbs \<Longrightarrow> told (sbs[i := sb]) + of_bool (sb_told (sbs ! i)) = told sbs + of_bool (sb_told sb)"
  unfolding told_def by (rule length_filter_update)

lemma sync_update:
  assumes "sync_inv s" "i < length (subs s)" "sb_ok (pb_next s) sb" "phase_left sb < phase_left (subs s ! i)"
    and "waits sb = waits (subs s ! i)" "sb_told sb = sb_told (subs s ! i)"
  shows "sync_inv (s\<lparr>subs := (subs s)[i := sb]\<rparr>) \<and> sync_left (s\<lparr>subs := (subs s)[i := sb]\<rparr>) < sync_left s"
proof -
  have "told ((subs s)[i := sb]) = told (subs s)" using told_update [OF assms(2), of sb] assms(6) by simp
  moreover have "waits ((subs s)[i := sb] ! j) = waits (subs s ! j)" if "j < length (subs s)" for j
    using assms(5) that by (cases "j = i") auto
  ultimately have "sync_inv (s\<lparr>subs := (subs s)[i := sb]\<rparr>)" using assms(1,3) by (auto simp: sync_inv_def dest!: set_update)
  moreover have "sync_left (s\<lparr>subs := (subs s)[i := sb]\<rparr>) < sync_left s"
    using sum_list_less [OF assms(2,4)] by (simp add: sync_left_def del: mult_Suc_right mult_Suc)
  ultimately show ?thesis ..
qed

text \<open>What the steps of one subscriber keep.\<close>

lemma sb_ok_join: "sb_ok k sb \<Longrightarrow> sb_joined sb = None \<Longrightarrow> k \<le> Suc UPDATES \<Longrightarrow> sb_ok k (sb\<lparr>sb_joined := Some k\<rparr>)"
  by (auto simp: sb_ok_def sb_reached_def)

lemma sb_ok_ask: "sb_ok k sb \<Longrightarrow> sb_phase sb = Connecting \<Longrightarrow> sb_ok k (sb\<lparr>sb_phase := Asking\<rparr>)"
  by (auto simp: sb_ok_def sb_reached_def split: option.splits)

lemma sb_ok_told: "sb_ok k sb \<Longrightarrow> sb_phase sb = Asking \<Longrightarrow> sb_ok k (sb\<lparr>sb_told := True\<rparr>)"
  by (auto simp: sb_ok_def sb_reached_def split: option.splits)

lemma sb_ok_go_on: "sb_ok k sb \<Longrightarrow> sb_phase sb = Asking \<Longrightarrow> sb_told sb \<Longrightarrow> sb_ok k (sb\<lparr>sb_phase := Counting\<rparr>)"
  by (auto simp: sb_ok_def sb_reached_def split: option.splits)

lemma delivered:
  "pub_laws pub \<Longrightarrow> deliver_to pub m sb = (case sb_joined sb of None \<Rightarrow> sb | Some _ \<Rightarrow> sb\<lparr>sb_inbox := sb_inbox sb @ [m]\<rparr>)"
  by (simp add: deliver_to_def pub_laws_def subscriptions_def SUBSCRIPTION_def split: option.split)

lemma sb_ok_publish: "pub_laws pub \<Longrightarrow> sb_ok k sb \<Longrightarrow> k \<le> UPDATES \<Longrightarrow> sb_ok (Suc k) (deliver_to pub (publisher_message k) sb)"
  by (auto simp: sb_ok_def sb_reached_def delivered split: option.splits)

lemma sb_ok_count:
  assumes "sb_ok k sb" "sb_phase sb = Counting" "sb_inbox sb = m # ms" "k \<le> Suc UPDATES"
  shows "sb_ok k (sb_take m (sb\<lparr>sb_inbox := ms\<rparr>))"
proof -
  from assms obtain j where j: "sb_joined sb = Some j" "j + sb_seen sb \<le> k"
    "m # ms = map publisher_message [j + sb_seen sb..<k]"
    by (auto simp: sb_ok_def sb_reached_def split: option.splits)
  then have "j + sb_seen sb < k" by (auto simp: upt_rec split: if_splits)
  with j(3) have "m = publisher_message (j + sb_seen sb)" "ms = map publisher_message [Suc (j + sb_seen sb)..<k]"
    by (simp_all add: upt_conv_Cons)
  with assms j \<open>j + sb_seen sb < k\<close> show ?thesis
    by (auto simp: sb_ok_def sb_reached_def sb_take_def split: if_splits)
qed

lemma phase_left_published: "pub_laws pub \<Longrightarrow> phase_left (deliver_to pub m sb) \<le> Suc (phase_left sb)"
  by (auto simp: phase_left_def delivered split: option.splits sb_phase.splits)

lemma sum_list_published: "pub_laws pub \<Longrightarrow> sum_list (map (phase_left \<circ> deliver_to pub m) sbs) \<le> length sbs + sum_list (map phase_left sbs)"
proof (induction sbs)
  case (Cons sb sbs)
  with phase_left_published [of pub m sb] show ?case by simp
qed simp

lemma told_published: "told (map (deliver_to pub m) sbs) = told sbs"
proof -
  have "sb_told (deliver_to pub m sb) = sb_told sb" for sb by (simp add: deliver_to_def split: option.splits)
  then show ?thesis by (simp add: told_def filter_map comp_def)
qed

lemma waits_published: "waits (deliver_to pub m sb) = waits sb"
  by (simp add: waits_def deliver_to_def split: option.splits)

lemma sync_ask:
  assumes "sync_inv s" "i < length (subs s)" "sb_phase (subs s ! i) = Connecting"
    and "t = s\<lparr>sync_queue := sync_queue s @ [i], subs := (subs s)[i := (subs s ! i)\<lparr>sb_phase := Asking\<rparr>]\<rparr>"
  shows "sync_inv t \<and> sync_left t < sync_left s"
proof -
  have ok: "sb_ok (pb_next s) (subs s ! i)" using assms by (simp add: sync_inv_def)
  have "\<not> sb_told (subs s ! i)" using ok assms(3) by (auto simp: sb_ok_def)
  moreover have "i \<notin> set (sync_queue s)" using assms(1,3) by (simp add: sync_inv_def waits_def)
  moreover note sb_ok_ask [OF ok assms(3)]
  ultimately have new: "\<not> sb_told (subs s ! i)" "i \<notin> set (sync_queue s)"
    "sb_ok (pb_next s) ((subs s ! i)\<lparr>sb_phase := Asking\<rparr>)" by auto
  have "phase_left ((subs s ! i)\<lparr>sb_phase := Asking\<rparr>) < phase_left (subs s ! i)" using assms by (simp add: phase_left_def)
  from sum_list_less [OF assms(2) this] have "sync_left t < sync_left s"
    by (simp add: assms(4) sync_left_def del: mult_Suc_right mult_Suc)
  moreover have "told (subs t) = told (subs s)" using told_update [OF assms(2), of "(subs s ! i)\<lparr>sb_phase := Asking\<rparr>"]
    by (simp add: assms(4))
  moreover have "(j \<in> set (sync_queue t)) = (j < length (subs t) \<and> waits (subs t ! j))" for j
    using assms new by (cases "j = i") (auto simp: sync_inv_def waits_def)
  moreover have "sb_ok (pb_next s) sb" if "sb \<in> set (subs t)" for sb
    using that assms(1,4) new(3) by (auto simp: sync_inv_def dest!: set_update)
  moreover have "distinct (sync_queue t)" "pb_next t = pb_next s" "pb_subscribers t = pb_subscribers s"
    using assms(1,4) new(2) by (simp_all add: sync_inv_def)
  ultimately show ?thesis using assms(1) by (simp add: sync_inv_def)
qed

lemma sync_grant:
  assumes "sync_inv s" "pb_subscribers s < SUBSCRIBERS_EXPECTED" "sync_queue s = i # q"
    and "t = s\<lparr>pb_subscribers := pb_subscribers s + 1, sync_queue := q, subs := (subs s)[i := (subs s ! i)\<lparr>sb_told := True\<rparr>]\<rparr>"
  shows "sync_inv t \<and> sync_left t < sync_left s"
proof -
  have i: "i < length (subs s)" "waits (subs s ! i)" "i \<notin> set q" "distinct q" using assms(1,3) by (auto simp: sync_inv_def)
  then have ok: "sb_ok (pb_next s) ((subs s ! i)\<lparr>sb_told := True\<rparr>)"
    using assms(1) by (auto simp: sync_inv_def waits_def intro!: sb_ok_told)
  have "map phase_left (subs t) = map phase_left (subs s)"
    using i by (auto simp: assms(4) map_update phase_left_def intro!: nth_equalityI simp: nth_list_update)
  then have "sync_left t < sync_left s" using assms(2) by (simp add: assms(4) sync_left_def)
  moreover have "told (subs t) = Suc (told (subs s))" using told_update [OF i(1), of "(subs s ! i)\<lparr>sb_told := True\<rparr>"] i
    by (simp add: assms(4) waits_def)
  moreover have "(j \<in> set (sync_queue t)) = (j < length (subs t) \<and> waits (subs t ! j))" for j
  proof (cases "j = i")
    case False
    then have "(j \<in> set q) = (j \<in> set (sync_queue s))" using assms(3) by simp
    with False assms(1,4) show ?thesis by (simp add: sync_inv_def)
  qed (use i assms(4) in \<open>auto simp: waits_def\<close>)
  moreover have "sb_ok (pb_next s) sb" if "sb \<in> set (subs t)" for sb
    using that assms(1,4) ok by (auto simp: sync_inv_def dest!: set_update)
  moreover have "distinct (sync_queue t)" "pb_next t = pb_next s" "pb_subscribers t = Suc (pb_subscribers s)"
    using assms(4) i(4) by simp_all
  ultimately show ?thesis using assms(1,2) by (simp add: sync_inv_def)
qed

lemma sync_publish:
  assumes "pub_laws pub" "sync_inv s" "\<not> pb_subscribers s < SUBSCRIBERS_EXPECTED" "pb_next s \<le> UPDATES"
    and "t = s\<lparr>pb_next := pb_next s + 1, subs := map (deliver_to pub (publisher_message (pb_next s))) (subs s)\<rparr>"
  shows "sync_inv t \<and> sync_left t < sync_left s"
proof -
  let ?m = "publisher_message (pb_next s)"
  have "(Suc UPDATES - pb_next s) * Suc (length (subs s)) = (Suc UPDATES - pb_next t) * Suc (length (subs s)) + Suc (length (subs s))"
    using assms(4,5) by (simp add: Suc_diff_le)
  with sum_list_published [OF assms(1), of ?m "subs s"] have "sync_left t < sync_left s"
    by (simp add: assms(5) sync_left_def del: mult_Suc_right mult_Suc)
  then show ?thesis using assms
    by (auto simp: sync_inv_def told_published waits_published intro!: sb_ok_publish)
qed

lemma sync_step_inv:
  assumes "sync_step pub s t" "sync_inv s" "pub_laws pub"
  shows "sync_inv t \<and> sync_left t < sync_left s"
  using assms(1)
proof (cases rule: sync_step.cases)
  case (join i)
  then show ?thesis using assms(2)
    by (simp only:) (intro sync_update, auto simp: sync_inv_def phase_left_def waits_def intro!: sb_ok_join)
next
  case (go_on i)
  then show ?thesis using assms(2)
    by (simp only:) (intro sync_update, auto simp: sync_inv_def phase_left_def waits_def intro!: sb_ok_go_on)
next
  case (count i m ms)
  then show ?thesis using assms(2)
    by (simp only:) (intro sync_update sb_ok_count, auto simp: sync_inv_def phase_left_def sb_take_def waits_def)
next
  case (ask i)
  with assms(2) show ?thesis by (intro sync_ask)
next
  case (grant i q)
  with assms(2) show ?thesis by (intro sync_grant)
next
  case publish
  with assms(2,3) show ?thesis by (intro sync_publish)
qed

subsection \<open>What comes of it\<close>

definition sync_done :: "sync \<Rightarrow> bool" where
  "sync_done s \<longleftrightarrow>
     (if length (subs s) < SUBSCRIBERS_EXPECTED then
        pb_next s = 0 \<and> (\<forall>sb \<in> set (subs s). sb_phase sb = Counting \<and> sb_seen sb = 0)
      else pb_next s = Suc UPDATES \<and> told (subs s) = SUBSCRIBERS_EXPECTED
        \<and> (\<forall>sb \<in> set (subs s). if sb_told sb then
             (\<exists>j \<le> Suc UPDATES. sb_joined sb = Some j \<and> sb_seen sb = UPDATES - j
               \<and> sb_phase sb = (if j \<le> UPDATES then Over else Counting))
             else sb_phase sb = Asking))"

lemma sb_settled:
  assumes "sync_inv s" "\<nexists>t. sync_step pub s t" "sb \<in> set (subs s)"
  shows "(if sb_told sb then (\<exists>j \<le> pb_next s. sb_joined sb = Some j \<and> sb_seen sb = min UPDATES (pb_next s) - j
      \<and> sb_phase sb = (if pb_next s = Suc UPDATES \<and> j \<le> UPDATES then Over else Counting))
    else sb_phase sb = Asking)"
proof -
  from assms(3) obtain i where i: "i < length (subs s)" "sb = subs s ! i" by (auto simp: in_set_conv_nth)
  have ok: "sb_ok (pb_next s) sb" "pb_next s \<le> Suc UPDATES" using assms(1,3) by (auto simp: sync_inv_def)
  have "sb_phase sb \<noteq> Connecting" using ask [OF i(1)] i(2) assms(2) by blast
  moreover have "\<not> (sb_phase sb = Asking \<and> sb_told sb)" using go_on [OF i(1)] i(2) assms(2) by blast
  moreover have "sb_phase sb = Counting \<Longrightarrow> sb_inbox sb = []"
    using count [OF i(1)] i(2) assms(2) by (cases "sb_inbox sb") blast+
  moreover from join [OF i(1)] i(2) assms(2) obtain j where "sb_joined sb = Some j" by blast
  ultimately show ?thesis using ok by (cases "sb_phase sb") (auto simp: sb_ok_def sb_reached_def split: if_splits)
qed

lemma told_all: "told sbs = length sbs \<longleftrightarrow> (\<forall>sb \<in> set sbs. sb_told sb)"
  by (auto simp: told_def filter_id_conv dest: length_filter_less)

lemma sync_stuck:
  assumes "\<nexists>t. sync_step pub s t" "sync_inv s"
  shows "sync_done s"
proof (cases "pb_subscribers s < SUBSCRIBERS_EXPECTED")
  case True
  with grant assms(1) have "sync_queue s = []" by (cases "sync_queue s") blast+
  then have "\<not> waits sb" if "sb \<in> set (subs s)" for sb
    using assms(2) that by (auto simp: sync_inv_def in_set_conv_nth)
  then have all: "sb_told sb" if "sb \<in> set (subs s)" for sb
    using sb_settled [OF assms(2,1) that] that by (auto simp: waits_def split: if_splits)
  then have "told (subs s) = length (subs s)" by (simp add: told_all)
  with True assms(2) have "length (subs s) < SUBSCRIBERS_EXPECTED" "pb_next s = 0" by (simp_all add: sync_inv_def)
  with all sb_settled [OF assms(2,1)] show ?thesis by (fastforce simp: sync_done_def)
next
  case False
  with publish [OF False] assms(1) have "\<not> pb_next s \<le> UPDATES" by blast
  with assms(2) False have k: "pb_next s = Suc UPDATES" "told (subs s) = SUBSCRIBERS_EXPECTED" by (auto simp: sync_inv_def)
  then have "\<not> length (subs s) < SUBSCRIBERS_EXPECTED" using length_filter_le [of sb_told "subs s"] by (simp add: told_def)
  moreover have "if sb_told sb then (\<exists>j \<le> Suc UPDATES. sb_joined sb = Some j \<and> sb_seen sb = UPDATES - j
      \<and> sb_phase sb = (if j \<le> UPDATES then Over else Counting)) else sb_phase sb = Asking" if "sb \<in> set (subs s)" for sb
  proof -
    have "min UPDATES (Suc UPDATES) = UPDATES" by simp
    with sb_settled [OF assms(2,1) that] show ?thesis unfolding k by (simp only: simp_thms)
  qed
  ultimately show ?thesis using k unfolding sync_done_def by (simp only: if_False) blast
qed

interpretation synced: settling "sync_step pub" "\<lambda>s. sync_inv s \<and> pub_laws pub" sync_left sync_done
  by unfold_locales (auto dest: sync_step_inv intro: sync_stuck)

lemma sync_start_inv: "sync_inv (sync_start n)"
  by (auto simp: sync_inv_def sync_start_def subscriber_start_def sb_ok_def waits_def told_def)

lemma sync_start_left: "sync_left (sync_start n) = 10 + 1000001 * Suc n + 3 * n"
proof -
  have "sum_list (map phase_left (replicate n subscriber_start)) = 3 * n"
    by (induction n) (simp_all add: phase_left_def subscriber_start_def)
  then show ?thesis by (simp add: sync_left_def sync_start_def SUBSCRIBERS_EXPECTED_def UPDATES_def del: map_replicate)
qed

text \<open>
  C30. For a PUB socket that sends every message to those whose subscription it has and nothing to
  others: no run of the publisher and n subscribers, whatever the order of the steps, has more than
  10 + 1000001 (n + 1) + 3 n steps. A subscriber that has ended has counted a million updates but
  for those published before its subscription arrived. Every run can be completed, one that cannot
  go on is complete, and then ten subscribers have ended that way or, where the subscription came
  after END, wait for ever; with fewer than ten, nothing is published and all wait.
\<close>

theorem updates_counted:
  assumes "pub_laws pub" "(sync_step pub ^^ k) (sync_start n) s"
  shows "k \<le> 10 + 1000001 * Suc n + 3 * n
    \<and> (\<forall>sb \<in> set (subs s). sb_phase sb = Over \<longrightarrow> (\<exists>j. sb_joined sb = Some j \<and> sb_seen sb + j = 1000000))
    \<and> (\<exists>t. (sync_step pub)\<^sup>*\<^sup>* s t \<and> sync_done t) \<and> (sync_done s \<or> (\<exists>t. sync_step pub s t))"
proof -
  have start: "sync_inv (sync_start n) \<and> pub_laws pub" using sync_start_inv assms(1) by blast
  have inv: "sync_inv s \<and> pub_laws pub" by (rule synced.steps_inv [OF assms(2) start])
  then have "\<forall>sb \<in> set (subs s). sb_phase sb = Over \<longrightarrow> (\<exists>j. sb_joined sb = Some j \<and> sb_seen sb + j = 1000000)"
    by (auto simp: sync_inv_def sb_ok_def UPDATES_def split: option.splits)
  moreover have "k \<le> sync_left (sync_start n)" using synced.run_bounded [OF assms(2) start] by simp
  ultimately show ?thesis
    using synced.run_settles [OF inv] synced.stuck_final [OF inv] unfolding sync_start_left by blast
qed

subsection \<open>The answer can come before the subscription\<close>

lemma replicate_update:
  assumes "k < n"
  shows "(replicate k x @ replicate (n - k) y)[k := x] = replicate (Suc k) x @ replicate (n - Suc k) y"
    and "(replicate k x @ replicate (n - k) y) ! k = y"
proof -
  from assms obtain m where m: "n - k = Suc m" "n - Suc k = m" by (metis Suc_diff_Suc)
  show "(replicate k x @ replicate (n - k) y)[k := x] = replicate (Suc k) x @ replicate (n - Suc k) y"
    unfolding m by (simp add: list_update_append replicate_app_Cons_same)
  show "(replicate k x @ replicate (n - k) y) ! k = y" unfolding m by (simp add: nth_append)
qed

definition sb_asking :: subscriber where "sb_asking = subscriber_start\<lparr>sb_phase := Asking\<rparr>"
definition sb_answered :: subscriber where "sb_answered = sb_asking\<lparr>sb_told := True\<rparr>"
definition sb_late :: subscriber where "sb_late = sb_answered\<lparr>sb_joined := Some 1\<rparr>"

lemma sb_fields:
  "sb_phase subscriber_start = Connecting" "sb_joined sb_answered = None" "sb_told sb_answered" "sb_told sb_late"
  "sb_joined sb_late = Some 1" "pub_laws pub \<Longrightarrow> deliver_to pub m sb_answered = sb_answered"
  by (simp_all add: sb_late_def sb_answered_def sb_asking_def subscriber_start_def deliver_to_def pub_laws_def subscriptions_def)

lemma all_ask:
  "k \<le> n \<Longrightarrow> (sync_step pub)\<^sup>*\<^sup>* (sync_start n)
     \<lparr>pb_subscribers = 0, pb_next = 0, sync_queue = [0..<k], subs = replicate k sb_asking @ replicate (n - k) subscriber_start\<rparr>"
proof (induction k)
  case (Suc k)
  then have "k < n" by simp
  note [simp] = replicate_update [OF this, of sb_asking subscriber_start]
  from ask [of k "\<lparr>pb_subscribers = 0, pb_next = 0, sync_queue = [0..<k], subs = replicate k sb_asking @ replicate (n - k) subscriber_start\<rparr>"]
  show ?case using Suc by (auto simp: sb_asking_def [symmetric] sb_fields elim!: rtranclp.rtrancl_into_rtrancl)
qed (simp add: sync_start_def)

lemma all_granted:
  "k \<le> n \<Longrightarrow> n \<le> SUBSCRIBERS_EXPECTED \<Longrightarrow> (sync_step pub)\<^sup>*\<^sup>*
     \<lparr>pb_subscribers = 0, pb_next = 0, sync_queue = [0..<n], subs = replicate n sb_asking\<rparr>
     \<lparr>pb_subscribers = k, pb_next = 0, sync_queue = [k..<n], subs = replicate k sb_answered @ replicate (n - k) sb_asking\<rparr>"
proof (induction k)
  case (Suc k)
  then have "k < n" by simp
  note [simp] = replicate_update [OF this, of sb_answered sb_asking]
  from grant [of "\<lparr>pb_subscribers = k, pb_next = 0, sync_queue = [k..<n], subs = replicate k sb_answered @ replicate (n - k) sb_asking\<rparr>"
      k "[Suc k..<n]"]
  show ?case using Suc by (auto simp: sb_answered_def [symmetric] upt_conv_Cons elim!: rtranclp.rtrancl_into_rtrancl)
qed simp

lemma all_join_late:
  "k \<le> n \<Longrightarrow> (sync_step pub)\<^sup>*\<^sup>*
     \<lparr>pb_subscribers = c, pb_next = 1, sync_queue = [], subs = replicate n sb_answered\<rparr>
     \<lparr>pb_subscribers = c, pb_next = 1, sync_queue = [], subs = replicate k sb_late @ replicate (n - k) sb_answered\<rparr>"
proof (induction k)
  case (Suc k)
  then have "k < n" by simp
  note [simp] = replicate_update [OF this, of sb_late sb_answered]
  from join [of k "\<lparr>pb_subscribers = c, pb_next = 1, sync_queue = [], subs = replicate k sb_late @ replicate (n - k) sb_answered\<rparr>"]
  show ?case using Suc by (auto simp: sb_fields sb_late_def [unfolded One_nat_def, symmetric] elim!: rtranclp.rtrancl_into_rtrancl)
qed simp

definition late :: "sync \<Rightarrow> bool" where
  "late s \<longleftrightarrow> length (subs s) = SUBSCRIBERS_EXPECTED \<and> (\<forall>sb \<in> set (subs s). sb_told sb \<and> sb_joined sb = Some 1)"

lemma late_step: "sync_step pub s t \<Longrightarrow> pub_laws pub \<Longrightarrow> sync_inv s \<and> late s \<Longrightarrow> sync_inv t \<and> late t"
proof (intro conjI)
  assume *: "sync_step pub s t" "pub_laws pub" "sync_inv s \<and> late s"
  then show "sync_inv t" by (blast dest: sync_step_inv)
  from * show "late t"
  proof (induction rule: sync_step.induct)
    case (grant s i q)
    then have "i < length (subs s)" by (auto simp: sync_inv_def)
    with grant show ?case by (auto simp: late_def dest!: set_update)
  qed (auto simp: late_def sb_take_def deliver_to_def dest!: set_update)
qed

lemma late_run: "(sync_step pub)\<^sup>*\<^sup>* s t \<Longrightarrow> pub_laws pub \<Longrightarrow> sync_inv s \<and> late s \<Longrightarrow> sync_inv t \<and> late t"
  by (induction rule: rtranclp_induct) (auto dest: late_step)

theorem answered_before_subscribed:
  assumes laws: "pub_laws pub"
  shows "\<exists>t. (sync_step pub)\<^sup>*\<^sup>* (sync_start 10) t \<and> sync_done t
     \<and> map sb_told (subs t) = replicate 10 True \<and> map sb_seen (subs t) = replicate 10 999999"
proof -
  let ?g = "\<lparr>pb_subscribers = 10, pb_next = 0, sync_queue = [], subs = replicate 10 sb_answered\<rparr>"
  let ?l = "\<lparr>pb_subscribers = 10, pb_next = 1, sync_queue = [], subs = replicate 10 sb_late\<rparr>"
  have "(sync_step pub)\<^sup>*\<^sup>* (sync_start 10) ?g"
    using all_ask [of 10 10] all_granted [of 10 10] by (auto simp: SUBSCRIBERS_EXPECTED_def intro: rtranclp_trans)
  moreover have "sync_step pub ?g (?g\<lparr>pb_next := 1\<rparr>)"
    using publish [of ?g pub] sb_fields(6) [OF laws] by (simp add: SUBSCRIBERS_EXPECTED_def)
  moreover have "(sync_step pub)\<^sup>*\<^sup>* (?g\<lparr>pb_next := 1\<rparr>) ?l" using all_join_late [of 10 10 pub 10] by simp
  ultimately have run: "(sync_step pub)\<^sup>*\<^sup>* (sync_start 10) ?l" by (metis converse_rtranclp_into_rtranclp rtranclp_trans)
  then have inv: "sync_inv ?l \<and> pub_laws pub" by (rule synced.run_inv) (simp add: sync_start_inv laws)
  from synced.run_settles [OF this] obtain t where t: "(sync_step pub)\<^sup>*\<^sup>* ?l t" "sync_done t" by blast
  have "late ?l" by (simp add: late_def SUBSCRIBERS_EXPECTED_def sb_fields)
  with t inv late_run [of pub] have "late t" by blast
  with t(2) have "\<forall>sb \<in> set (subs t). sb_told sb \<and> sb_seen sb = 999999" "length (subs t) = 10"
    by (auto simp: late_def sync_done_def UPDATES_def SUBSCRIBERS_EXPECTED_def)
  then have "map sb_told (subs t) = replicate 10 True \<and> map sb_seen (subs t) = replicate 10 999999"
    by (auto simp: list_eq_iff_nth_eq)
  with run t show ?thesis by (blast intro: rtranclp_trans)
qed

subsection \<open>Instances\<close>

definition demo_pub :: "bytes list \<Rightarrow> bytes \<Rightarrow> bytes list" where
  "demo_pub fs m = (if list_ex (\<lambda>f. take (length f) m = f) fs then [m] else [])"

lemma demo_pub_laws: "pub_laws demo_pub"
  by (simp add: pub_laws_def demo_pub_def)

lemma updates_counted_witness:
  "\<exists>t. (sync_step demo_pub)\<^sup>*\<^sup>* (sync_start 10) t \<and> sync_done t"
  using updates_counted [OF demo_pub_laws, of 0 10 "sync_start 10"] by simp

lemma answered_before_subscribed_witness:
  "\<exists>t. (sync_step demo_pub)\<^sup>*\<^sup>* (sync_start 10) t \<and> map sb_seen (subs t) = replicate 10 999999"
  using answered_before_subscribed [OF demo_pub_laws] by blast

end
