(* ===== verification/Lb_System.thy ===== *)
theory Lb_System
  imports Lru_Broker Mdp Interleaving "HOL-Library.Multiset"
begin

section \<open>Clients, broker and workers of the load-balancing broker together (lbbroker.cpp)\<close>

text \<open>
  All threads of \<open>Common/zmq/example/lbbroker.cpp\<close>: each client sends one request and prints the reply, each worker
  announces itself and then serves, and the main thread turns until the last client has been replied to. It then returns
  from \<open>main\<close>, which ends the process with all other threads. The sockets of clients and workers are REQ sockets
  with identities that are different (a ROUTER would refuse the second of two that are equal).
\<close>

subsection \<open>Threads\<close>

definition HELLO_text :: bytes where "HELLO_text = bytes_of ''HELLO''"
definition READY_text :: bytes where "READY_text = bytes_of ''READY''"
definition OK_text :: bytes where "OK_text = bytes_of ''OK''"

definition worker_announcement :: wire where
  "worker_announcement = [(bytes_of ''READY'', False)]"

datatype lb_client = Idle | Asked | Got bytes

record lb_system =
  lbr :: lbbroker
  lb_over :: bool
  lb_ended :: bool
  lcl :: "lb_client list"
  lwk :: "bool list"
  at_front :: "bytes list list"
  at_back :: "bytes list list"
  for_workers :: "(bytes \<times> bytes list) list"
  for_clients :: "(bytes \<times> bytes list) list"

definition frames_of :: "bytes list option \<Rightarrow> bytes list" where
  "frames_of mo = (case mo of None \<Rightarrow> [] | Some m \<Rightarrow> m)"

inductive lb_step :: "bytes list \<Rightarrow> bytes list \<Rightarrow> (bytes \<Rightarrow> bytes list \<Rightarrow> bytes list)
    \<Rightarrow> (bytes list \<Rightarrow> bytes \<times> bytes list) \<Rightarrow> lb_system \<Rightarrow> lb_system \<Rightarrow> bool"
  for cids wids link_in link_out where
  asks: "\<not> lb_ended s \<Longrightarrow> i < length (lcl s) \<Longrightarrow> lcl s ! i = Idle \<Longrightarrow>
     lb_step cids wids link_in link_out s
       (s\<lparr>lcl := (lcl s)[i := Asked], at_front := at_front s @ [link_in (cids ! i) (map fst client_request)]\<rparr>)"
| gets: "\<not> lb_ended s \<Longrightarrow> i < length (lcl s) \<Longrightarrow> lcl s ! i = Asked \<Longrightarrow> for_clients s = xs @ (cids ! i, m) # ys \<Longrightarrow>
     s_recv m = Inr (reply, rest) \<Longrightarrow>
     lb_step cids wids link_in link_out s (s\<lparr>lcl := (lcl s)[i := Got reply], for_clients := xs @ ys\<rparr>)"
| announces: "\<not> lb_ended s \<Longrightarrow> j < length (lwk s) \<Longrightarrow> \<not> lwk s ! j \<Longrightarrow>
     lb_step cids wids link_in link_out s
       (s\<lparr>lwk := (lwk s)[j := True], at_back := at_back s @ [link_in (wids ! j) (map fst worker_announcement)]\<rparr>)"
| serves: "\<not> lb_ended s \<Longrightarrow> j < length (lwk s) \<Longrightarrow> for_workers s = xs @ (wids ! j, m) # ys \<Longrightarrow> worker_replies m = Inr [w] \<Longrightarrow>
     lb_step cids wids link_in link_out s
       (s\<lparr>for_workers := xs @ ys, at_back := at_back s @ [link_in (wids ! j) (map fst w)]\<rparr>)"
| turns: "\<not> lb_over s \<Longrightarrow> picks (at_back s) mb bs \<Longrightarrow> picks (at_front s) mf fs \<Longrightarrow> mb \<noteq> None \<or> mf \<noteq> None \<Longrightarrow>
     (mf \<noteq> None \<Longrightarrow> lb_queue (lbr s) \<noteq> []) \<Longrightarrow> lb_turn (frames_of mb, frames_of mf) (lbr s) = Inr (stop, b) \<Longrightarrow>
     lb_step cids wids link_in link_out s
       (s\<lparr>lbr := b\<lparr>frontend_out := [], backend_out := []\<rparr>, lb_over := stop, at_back := bs, at_front := fs,
          for_clients := for_clients s @ map (link_out \<circ> map fst) (frontend_out b),
          for_workers := for_workers s @ map (link_out \<circ> map fst) (backend_out b)\<rparr>)"
| ends: "lb_over s \<Longrightarrow> \<not> lb_ended s \<Longrightarrow> lb_step cids wids link_in link_out s (s\<lparr>lb_ended := True\<rparr>)"

definition lb_threads :: "nat \<Rightarrow> nat \<Rightarrow> lb_system" where
  "lb_threads n k = \<lparr>lbr = lb_start, lb_over = False, lb_ended = False, lcl = replicate n Idle, lwk = replicate k False,
     at_front = [], at_back = [], for_workers = [], for_clients = []\<rparr>"

definition lb_setting :: "bytes list \<Rightarrow> bytes list \<Rightarrow> (bytes \<Rightarrow> bytes list \<Rightarrow> bytes list) \<Rightarrow> (bytes list \<Rightarrow> bytes \<times> bytes list) \<Rightarrow> bool" where
  "lb_setting cids wids link_in link_out \<longleftrightarrow> req_laws link_in link_out \<and> distinct cids \<and> distinct wids
     \<and> READY_text \<notin> set cids \<and> length cids = 10 \<and> wids \<noteq> []"

subsection \<open>Where each request is\<close>

abbreviation asked :: "bytes list \<Rightarrow> lb_client list \<Rightarrow> bytes multiset" where
  "asked \<equiv> marked (\<lambda>p. p = Asked)"

definition reply_clients :: "bytes list list \<Rightarrow> bytes list" where
  "reply_clients ms = map (\<lambda>m. m ! 2) (filter (\<lambda>m. length m = 5) ms)"

definition under_way :: "lb_system \<Rightarrow> bytes multiset" where
  "under_way s = mset (map hd (at_front s)) + mset (map (hd \<circ> snd) (for_workers s)) + mset (reply_clients (at_back s))
     + mset (map fst (for_clients s))"

definition got :: "lb_client \<Rightarrow> bool" where "got p \<longleftrightarrow> (\<exists>r. p = Got r)"

definition lb_shapes :: "bytes list \<Rightarrow> bytes list \<Rightarrow> lb_system \<Rightarrow> bool" where
  "lb_shapes cids wids s \<longleftrightarrow>
     (\<forall>m \<in> set (at_front s). \<exists>c \<in> set cids. m = [c, [], HELLO_text])
     \<and> (\<forall>m \<in> set (at_back s). \<exists>w \<in> set wids. m = [w, [], READY_text] \<or> (\<exists>c \<in> set cids. m = [w, [], c, [], OK_text]))
     \<and> (\<forall>x \<in> set (for_workers s). \<exists>w \<in> set wids. \<exists>c \<in> set cids. x = (w, [c, [], HELLO_text]))
     \<and> (\<forall>x \<in> set (for_clients s). \<exists>c \<in> set cids. x = (c, [OK_text]))
     \<and> (\<forall>p \<in> set (lcl s). p \<in> {Idle, Asked, Got OK_text}) \<and> set (lb_queue (lbr s)) \<subseteq> set wids
     \<and> backend_in (lbr s) = [] \<and> frontend_in (lbr s) = [] \<and> frontend_out (lbr s) = [] \<and> backend_out (lbr s) = []"

definition lb_counts :: "bytes list \<Rightarrow> lb_system \<Rightarrow> bool" where
  "lb_counts cids s \<longleftrightarrow> under_way s = asked cids (lcl s)
     \<and> client_nbr (lbr s) + int (length (for_clients s)) + int (length (filter got (lcl s))) = int (length (lcl s))
     \<and> length (lb_queue (lbr s)) + length (for_workers s) + length (at_back s) = length (filter id (lwk s))
     \<and> lb_over s = (client_nbr (lbr s) = 0) \<and> (lb_ended s \<longrightarrow> lb_over s)"

definition lb_inv :: "bytes list \<Rightarrow> bytes list \<Rightarrow> lb_system \<Rightarrow> bool" where
  "lb_inv cids wids s \<longleftrightarrow> length (lcl s) = length cids \<and> length (lwk s) = length wids \<and> lb_shapes cids wids s \<and> lb_counts cids s"

definition lb_left :: "lb_system \<Rightarrow> nat" where
  "lb_left s = 6 * length (filter ((=) Idle) (lcl s)) + 5 * length (at_front s) + 4 * length (for_workers s)
     + (length (at_back s) + 2 * length (reply_clients (at_back s))) + length (for_clients s)
     + 2 * length (filter Not (lwk s)) + (if lb_ended s then 0 else 1)"

text \<open>Every client has not asked yet, waits, or has its reply.\<close>

lemma clients_partition: "length ps = length cids \<Longrightarrow>
  size (asked cids ps) + length (filter ((=) Idle) ps) + length (filter got ps) = length ps"
proof -
  have "length (filter (\<lambda>p. p = Asked) ps) + length (filter ((=) Idle) ps) + length (filter got ps) = length ps"
  proof (induction ps)
    case (Cons p ps)
    then show ?case by (cases p) (auto simp: got_def)
  qed simp
  then show "length ps = length cids \<Longrightarrow> ?thesis" by (simp add: size_marked)
qed

subsection \<open>Turns of the broker\<close>

definition at_rest :: "lbbroker \<Rightarrow> bool" where
  "at_rest b \<longleftrightarrow> backend_in b = [] \<and> frontend_in b = [] \<and> frontend_out b = [] \<and> backend_out b = []"

definition worker_said :: "bytes list \<Rightarrow> lbbroker \<Rightarrow> lbbroker" where
  "worker_said m b = b\<lparr>lb_queue := lb_queue b @ [hd m],
     client_nbr := client_nbr b - (if length m = 5 then 1 else 0),
     frontend_out := (if length m = 5 then [with_more [m ! 2, [], m ! 4]] else [])\<rparr>"

definition client_said :: "bytes list \<Rightarrow> lbbroker \<Rightarrow> lbbroker" where
  "client_said m b = b\<lparr>lb_queue := tl (lb_queue b), backend_out := [with_more (hd (lb_queue b) # [] # m)]\<rparr>"

definition worker_says :: "bytes list \<Rightarrow> bool" where
  "worker_says m \<longleftrightarrow> (\<exists>w. m = [w, [], READY_text] \<or> (\<exists>c r. m = [w, [], c, [], r] \<and> c \<noteq> READY_text))"

definition whole_request :: "bytes list \<Rightarrow> bool" where
  "whole_request m \<longleftrightarrow> (\<exists>c q. m = [c, [], q])"

lemma at_rest_fields: "at_rest b \<Longrightarrow> b\<lparr>backend_in := []\<rparr> = b" "at_rest b \<Longrightarrow> b\<lparr>frontend_in := []\<rparr> = b"
  by (cases b; simp add: at_rest_def)+

lemmas turn_defs = lb_turn_def Let_def lb_backend_def lb_frontend_def lb_pop_def recv_backend_def recv_frontend_def
  worker_said_def client_said_def frames_of_def READY_text_def [symmetric]

lemma lb_turn_worker:
  assumes "at_rest b" "worker_says m"
  shows "lb_turn (frames_of (Some m), frames_of None) b = Inr (length m = 5 \<and> client_nbr b = 1, worker_said m b)"
  using assms by (cases b) (auto simp: at_rest_def worker_says_def turn_defs)

lemma lb_turn_client:
  assumes "at_rest b" "whole_request m" "lb_queue b \<noteq> []"
  shows "lb_turn (frames_of None, frames_of (Some m)) b = Inr (False, client_said m b)"
  using assms by (cases b; cases "lb_queue b") (auto simp: at_rest_def whole_request_def turn_defs)

lemma lb_turn_both:
  assumes "at_rest b" "worker_says m" "whole_request m'" "lb_queue b \<noteq> []" "\<not> (length m = 5 \<and> client_nbr b = 1)"
  shows "lb_turn (frames_of (Some m), frames_of (Some m')) b = Inr (False, client_said m' (worker_said m b))"
  using assms by (cases b; cases "lb_queue b") (auto simp: at_rest_def worker_says_def whole_request_def turn_defs)

subsection \<open>What each step keeps\<close>

definition after_worker :: "(bytes list \<Rightarrow> bytes \<times> bytes list) \<Rightarrow> bytes list \<Rightarrow> bytes list list \<Rightarrow> lb_system \<Rightarrow> lb_system" where
  "after_worker link_out m bs s =
     (let b = worker_said m (lbr s) in
      s\<lparr>lbr := b\<lparr>frontend_out := []\<rparr>, lb_over := (client_nbr b = 0), at_back := bs,
        for_clients := for_clients s @ map (link_out \<circ> map fst) (frontend_out b)\<rparr>)"

definition after_client :: "(bytes list \<Rightarrow> bytes \<times> bytes list) \<Rightarrow> bytes list \<Rightarrow> bytes list list \<Rightarrow> lb_system \<Rightarrow> lb_system" where
  "after_client link_out m fs s =
     (let b = client_said m (lbr s) in
      s\<lparr>lbr := b\<lparr>backend_out := []\<rparr>, at_front := fs,
        for_workers := for_workers s @ map (link_out \<circ> map fst) (backend_out b)\<rparr>)"

lemmas inv_defs = lb_inv_def lb_shapes_def lb_counts_def lb_left_def under_way_def reply_clients_def

lemma after_worker_inv:
  assumes "lb_inv cids wids s" "at_back s = xs @ m # ys" "lb_setting cids wids link_in link_out" "\<not> lb_over s"
  shows "lb_inv cids wids (after_worker link_out m (xs @ ys) s) \<and> lb_left (after_worker link_out m (xs @ ys) s) < lb_left s"
proof -
  from assms(1,2) obtain w where w: "w \<in> set wids" "m = [w, [], READY_text] \<or> (\<exists>c \<in> set cids. m = [w, [], c, [], OK_text])"
    by (auto simp: lb_inv_def lb_shapes_def)
  have law: "link_out (c # [] # fs) = (c, fs)" for c fs using assms(3) by (simp add: lb_setting_def req_laws_def)
  show ?thesis
  proof (cases "length m = 5")
    case True
    with w obtain c where "c \<in> set cids" "m = [w, [], c, [], OK_text]" by auto
    with assms(1,2,4) w(1) show ?thesis by (auto simp: after_worker_def worker_said_def inv_defs law ac_simps)
  next
    case False
    with w have "m = [w, [], READY_text]" by auto
    with assms(1,2,4) w(1) show ?thesis by (auto simp: after_worker_def worker_said_def inv_defs ac_simps)
  qed
qed

lemma after_client_inv:
  assumes "lb_inv cids wids s" "at_front s = xs @ m # ys" "lb_setting cids wids link_in link_out" "lb_queue (lbr s) \<noteq> []"
  shows "lb_inv cids wids (after_client link_out m (xs @ ys) s) \<and> lb_left (after_client link_out m (xs @ ys) s) < lb_left s"
proof -
  from assms(1,2) obtain c where c: "c \<in> set cids" "m = [c, [], HELLO_text]"
    by (auto simp: lb_inv_def lb_shapes_def)
  have law: "link_out (w # [] # fs) = (w, fs)" for w fs using assms(3) by (simp add: lb_setting_def req_laws_def)
  from assms(4) obtain w ws where q: "lb_queue (lbr s) = w # ws" by (cases "lb_queue (lbr s)") auto
  with assms(1) have "w \<in> set wids" by (simp add: lb_inv_def lb_shapes_def)
  with q c assms(1,2) show ?thesis by (auto simp: after_client_def client_said_def inv_defs law ac_simps)
qed

text \<open>What the broker still has to do.\<close>

lemma client_nbr_left:
  assumes "lb_inv cids wids s"
  shows "client_nbr (lbr s) = int (length (filter ((=) Idle) (lcl s)) + length (at_front s) + length (for_workers s)
    + length (reply_clients (at_back s)))"
proof -
  have "size (asked cids (lcl s)) + length (filter ((=) Idle) (lcl s)) + length (filter got (lcl s)) = length (lcl s)"
    by (rule clients_partition) (use assms in \<open>simp add: lb_inv_def\<close>)
  moreover have "asked cids (lcl s) = under_way s" using assms by (simp add: lb_inv_def lb_counts_def)
  ultimately show ?thesis using assms by (simp add: lb_inv_def lb_counts_def under_way_def)
qed

lemma turn_outcome:
  assumes "lb_inv cids wids s" "\<not> lb_over s" "picks (at_back s) mb bs" "picks (at_front s) mf fs" "mb \<noteq> None \<or> mf \<noteq> None"
    and "mf \<noteq> None \<Longrightarrow> lb_queue (lbr s) \<noteq> []" "lb_setting cids wids link_in link_out"
  shows "\<exists>stop b. lb_turn (frames_of mb, frames_of mf) (lbr s) = Inr (stop, b)
    \<and> s\<lparr>lbr := b\<lparr>frontend_out := [], backend_out := []\<rparr>, lb_over := stop, at_back := bs, at_front := fs,
          for_clients := for_clients s @ map (link_out \<circ> map fst) (frontend_out b),
          for_workers := for_workers s @ map (link_out \<circ> map fst) (backend_out b)\<rparr>
      = (case mf of None \<Rightarrow> id | Some m \<Rightarrow> after_client link_out m fs)
          ((case mb of None \<Rightarrow> id | Some m \<Rightarrow> after_worker link_out m bs) s)"
proof -
  have rest: "at_rest (lbr s)" using assms(1) by (simp add: lb_inv_def lb_shapes_def at_rest_def)
  have nbr: "client_nbr (lbr s) \<noteq> 0" using assms(1,2) by (simp add: lb_inv_def lb_counts_def)
  have worker: "worker_says m" if "mb = Some m" for m
  proof -
    from that assms(3) have "m \<in> set (at_back s)" by (auto elim: picks.cases)
    with assms(1,7) show ?thesis by (fastforce simp: lb_inv_def lb_shapes_def worker_says_def lb_setting_def)
  qed
  have client: "whole_request m" if "mf = Some m" for m
  proof -
    from that assms(4) have "m \<in> set (at_front s)" by (auto elim: picks.cases)
    with assms(1) show ?thesis by (fastforce simp: lb_inv_def lb_shapes_def whole_request_def)
  qed
  have both: "\<not> (length m = 5 \<and> client_nbr (lbr s) = 1)" if "mb = Some m" "mf \<noteq> None" for m
  proof -
    from that assms(3,4) have "m \<in> set (at_back s)" "at_front s \<noteq> []" by (auto elim: picks.cases)
    then have "length m = 5 \<longrightarrow> 2 \<le> length (at_front s) + length (reply_clients (at_back s))"
      by (cases "at_front s") (auto simp: reply_clients_def in_set_conv_decomp)
    with client_nbr_left [OF assms(1)] show ?thesis by auto
  qed
  note result = lb_turn_worker [OF rest] lb_turn_client [OF rest] lb_turn_both [OF rest]
  show ?thesis
  proof (cases mb; cases mf)
    fix m assume mb: "mb = Some m" and mf: "mf = None"
    then have "fs = at_front s" using assms(4) by (auto elim: picks.cases)
    with mb mf result(1) [OF worker [OF mb]] rest nbr show ?thesis
      by (cases "lbr s"; cases s) (auto simp: after_worker_def worker_said_def at_rest_def Let_def)
  next
    fix m assume mb: "mb = None" and mf: "mf = Some m"
    then have "bs = at_back s" "lb_queue (lbr s) \<noteq> []" using assms(3,6) by (auto elim: picks.cases)
    with mb mf result(2) [OF client [OF mf]] rest assms(2) show ?thesis
      by (cases "lbr s"; cases s) (auto simp: after_client_def client_said_def at_rest_def Let_def)
  next
    fix m m' assume mb: "mb = Some m" and mf: "mf = Some m'"
    then have "lb_queue (lbr s) \<noteq> []" using assms(6) by auto
    with mb mf result(3) [OF worker [OF mb] client [OF mf]] both [OF mb] rest nbr show ?thesis
      by (cases "lbr s"; cases s) (auto simp: after_client_def after_worker_def client_said_def worker_said_def at_rest_def Let_def)
  qed (use assms(5) in auto)
qed

lemma lb_turns_inv:
  assumes "lb_inv cids wids s" "\<not> lb_over s" "picks (at_back s) mb bs" "picks (at_front s) mf fs" "mb \<noteq> None \<or> mf \<noteq> None"
    and "mf \<noteq> None \<Longrightarrow> lb_queue (lbr s) \<noteq> []" "lb_setting cids wids link_in link_out"
    and "t = (case mf of None \<Rightarrow> id | Some m \<Rightarrow> after_client link_out m fs)
          ((case mb of None \<Rightarrow> id | Some m \<Rightarrow> after_worker link_out m bs) s)"
  shows "lb_inv cids wids t \<and> lb_left t < lb_left s"
proof -
  let ?u = "(case mb of None \<Rightarrow> id | Some m \<Rightarrow> after_worker link_out m bs) s"
  have u: "lb_inv cids wids ?u" "lb_left ?u \<le> lb_left s" "mb \<noteq> None \<longrightarrow> lb_left ?u < lb_left s"
    "at_front ?u = at_front s" "lb_queue (lbr s) \<noteq> [] \<longrightarrow> lb_queue (lbr ?u) \<noteq> []"
    using assms(1-3) after_worker_inv [OF assms(1) _ assms(7,2)]
    by (auto simp: after_worker_def worker_said_def Let_def elim!: picks.cases intro: less_imp_le)
  show ?thesis
  proof (cases mf)
    case None
    with u assms(5,8) show ?thesis by auto
  next
    case (Some m)
    with assms(4) obtain xs ys where "at_front s = xs @ m # ys" "fs = xs @ ys" by (auto elim: picks.cases)
    with after_client_inv [OF u(1) _ assms(7)] u assms(6,8) Some show ?thesis by fastforce
  qed
qed

lemma link_in_laws:
  assumes "lb_setting cids wids link_in link_out"
  shows "link_in i (map fst client_request) = [i, [], HELLO_text]" "link_in i (map fst worker_announcement) = [i, [], READY_text]"
    "link_in i [c, [], OK_text] = [i, [], c, [], OK_text]"
  using assms by (simp_all add: lb_setting_def req_laws_def client_request_def worker_announcement_def HELLO_text_def READY_text_def)

lemma lb_step_inv:
  assumes "lb_step cids wids link_in link_out s t" "lb_inv cids wids s" "lb_setting cids wids link_in link_out"
  shows "lb_inv cids wids t \<and> lb_left t < lb_left s"
  using assms(1)
proof (cases rule: lb_step.cases)
  case (asks i)
  then have "length (lcl s) = length cids" using assms(2) by (simp add: lb_inv_def)
  with asks assms(2) marked_update [of i "lcl s" cids "\<lambda>p. p = Asked" Asked] length_filter_update [OF asks(3), of "(=) Idle" Asked]
    length_filter_update [OF asks(3), of got Asked]
  show ?thesis by (auto simp: inv_defs link_in_laws [OF assms(3)] got_def dest!: set_update)
next
  case (gets i xs m ys reply rest)
  then have "length (lcl s) = length cids" "m = [OK_text]" using assms(2) by (auto simp: lb_inv_def lb_shapes_def)
  note m = this
  have "add_mset (cids ! i) (under_way t) = add_mset (cids ! i) (asked cids (lcl t))"
    using marked_update [of i "lcl s" cids "\<lambda>p. p = Asked" "Got reply"] gets m assms(2) by (simp add: inv_defs ac_simps)
  then have "under_way t = asked cids (lcl t)" by simp
  moreover have "lb_shapes cids wids t" using gets m assms(2) by (auto simp: lb_inv_def lb_shapes_def dest!: set_update)
  moreover have "length (filter got (lcl t)) = Suc (length (filter got (lcl s)))" "length (filter ((=) Idle) (lcl t)) = length (filter ((=) Idle) (lcl s))"
    using length_filter_update [OF gets(3), of got "Got reply"] length_filter_update [OF gets(3), of "(=) Idle" "Got reply"] gets
    by (simp_all add: got_def)
  ultimately show ?thesis using gets(1,2,5) assms(2) by (auto simp: lb_inv_def lb_counts_def lb_left_def)
next
  case (announces j)
  with assms(2) length_filter_update [OF announces(3), of id True] length_filter_update [OF announces(3), of Not True]
  show ?thesis by (auto simp: inv_defs link_in_laws [OF assms(3)])
next
  case (serves j xs m ys w)
  then obtain c where c: "c \<in> set cids" "m = [c, [], HELLO_text]" using assms(2) by (auto simp: lb_inv_def lb_shapes_def)
  with serves(5) have "w = with_more [c, [], OK_text]" by (auto simp: OK_text_def)
  with serves c assms(2) show ?thesis by (auto simp: inv_defs link_in_laws [OF assms(3)] ac_simps)
next
  case (turns mb bs mf fs stop b)
  from turn_outcome [OF assms(2) turns(2,3,4,5,6) assms(3)] turns(1,7)
  show ?thesis by (intro lb_turns_inv [OF assms(2) turns(2,3,4,5,6) assms(3)]) auto
next
  case ends
  with assms(2) show ?thesis by (auto simp: inv_defs)
qed

subsection \<open>Where it ends\<close>

definition replied_to :: "bytes list \<Rightarrow> lb_system \<Rightarrow> nat \<Rightarrow> bool" where
  "replied_to cids s i \<longleftrightarrow> lcl s ! i = Got OK_text \<or> (lcl s ! i = Asked \<and> (cids ! i, [OK_text]) \<in> set (for_clients s))"

definition lb_done :: "bytes list \<Rightarrow> lb_system \<Rightarrow> bool" where
  "lb_done cids s \<longleftrightarrow> lb_ended s \<and> (\<forall>i < length cids. replied_to cids s i)"

lemma over_replied:
  assumes "lb_inv cids wids s" "lb_over s" "i < length cids"
  shows "replied_to cids s i"
proof -
  have left: "filter ((=) Idle) (lcl s) = []" "at_front s = []" "for_workers s = []" "reply_clients (at_back s) = []"
    using client_nbr_left [OF assms(1)] assms(1,2) by (simp_all add: lb_inv_def lb_counts_def flip: of_nat_add)
  have len: "length (lcl s) = length cids" using assms(1) by (simp add: lb_inv_def)
  with assms(3) have "lcl s ! i \<in> set (lcl s)" by simp
  moreover from this have "lcl s ! i \<noteq> Idle" using left(1) by (auto simp: filter_empty_conv)
  ultimately consider "lcl s ! i = Got OK_text" | "lcl s ! i = Asked" using assms(1) by (auto simp: lb_inv_def lb_shapes_def)
  then show ?thesis
  proof cases
    case 2
    with assms len have "cids ! i \<in># under_way s" by (simp add: lb_inv_def lb_counts_def marked_nth [where P = "\<lambda>p. p = Asked"])
    with left obtain x where "x \<in> set (for_clients s)" "cids ! i = fst x" by (auto simp: under_way_def)
    with assms(1) 2 show ?thesis by (auto simp: replied_to_def lb_inv_def lb_shapes_def)
  qed (simp add: replied_to_def)
qed

lemma lb_stuck:
  assumes stuck: "\<nexists>t. lb_step cids wids link_in link_out s t" and inv: "lb_inv cids wids s"
    and set: "lb_setting cids wids link_in link_out"
  shows "lb_done cids s"
proof (cases "lb_ended s")
  case True
  moreover from this inv have "lb_over s" unfolding lb_inv_def lb_counts_def by blast
  ultimately show ?thesis using over_replied [OF inv] by (simp add: lb_done_def)
next
  case False
  with stuck ends have run: "\<not> lb_over s" by blast
  have len: "length (lcl s) = length cids" "length (lwk s) = length wids" using inv by (simp_all add: lb_inv_def)
  have "filter ((=) Idle) (lcl s) = []"
    using stuck asks [OF False] by (auto simp: filter_empty_conv in_set_conv_nth) metis
  moreover have "for_workers s = []"
  proof (rule ccontr)
    assume "for_workers s \<noteq> []"
    then obtain x xs where x: "for_workers s = x # xs" by (cases "for_workers s") auto
    with inv obtain w c where wc: "w \<in> set wids" "x = (w, [c, [], HELLO_text])" by (auto simp: lb_inv_def lb_shapes_def)
    then obtain j where "j < length (lwk s)" "wids ! j = w" using len by (auto simp: in_set_conv_nth)
    with serves [OF False, of j "[]" wids "[c, [], HELLO_text]" xs "with_more [c, [], OK_text]"] x wc stuck show False
      by (auto simp: OK_text_def)
  qed
  moreover have "at_back s = []"
  proof (rule ccontr)
    assume "at_back s \<noteq> []"
    then obtain m bs where m: "at_back s = m # bs" by (cases "at_back s") auto
    then have p: "picks (at_back s) (Some m) bs" using one_read [of "[]" m bs] by simp
    then obtain stop b where "lb_turn (frames_of (Some m), frames_of None) (lbr s) = Inr (stop, b)"
      using turn_outcome [OF inv run p none_read] set by blast
    with turns [OF run p none_read] stuck show False by blast
  qed
  moreover have "at_front s = []"
  proof (rule ccontr)
    assume "at_front s \<noteq> []"
    then obtain m fs where m: "at_front s = m # fs" by (cases "at_front s") auto
    then have p: "picks (at_front s) (Some m) fs" using one_read [of "[]" m fs] by simp
    have "lwk s ! j" if "j < length (lwk s)" for j using announces [OF False that] stuck by blast
    then have "filter id (lwk s) = lwk s" by (auto simp: filter_id_conv in_set_conv_nth)
    then have "length (lb_queue (lbr s)) = length wids" using inv \<open>for_workers s = []\<close> \<open>at_back s = []\<close> len
      by (simp add: lb_inv_def lb_counts_def)
    then have q: "lb_queue (lbr s) \<noteq> []" using set by (auto simp: lb_setting_def)
    then obtain stop b where "lb_turn (frames_of None, frames_of (Some m)) (lbr s) = Inr (stop, b)"
      using turn_outcome [OF inv run none_read p] set by blast
    with turns [OF run none_read p] q stuck show False by blast
  qed
  ultimately have "client_nbr (lbr s) = 0" using client_nbr_left [OF inv] by (simp add: reply_clients_def)
  with inv run show ?thesis by (simp add: lb_inv_def lb_counts_def)
qed

interpretation lbs: settling "lb_step cids wids link_in link_out" "\<lambda>s. lb_inv cids wids s \<and> lb_setting cids wids link_in link_out"
  lb_left "lb_done cids"
  by unfold_locales (auto dest: lb_step_inv intro: lb_stuck)

lemma lb_start_inv: "lb_setting cids wids link_in link_out \<Longrightarrow> lb_inv cids wids (lb_threads 10 (length wids))"
  by (auto simp: lb_inv_def lb_shapes_def lb_counts_def lb_setting_def lb_threads_def lb_start_def under_way_def marked_none
      reply_clients_def got_def)

text \<open>
  C31. With ten clients and at least one worker, whatever the order in which the threads take their
  steps and the broker reads its sockets, no run has more than 61 steps and two for each worker,
  nothing fails or is stuck before the process has ended, and when the loop of the broker is over
  each client has its reply, or it is on the way.
\<close>

theorem lb_serves_all:
  assumes "lb_setting cids wids link_in link_out"
    and "(lb_step cids wids link_in link_out)\<^sup>*\<^sup>* (lb_threads 10 (length wids)) s"
  shows "(\<forall>n t. (lb_step cids wids link_in link_out ^^ n) (lb_threads 10 (length wids)) t \<longrightarrow> n \<le> 61 + 2 * length wids)
    \<and> (\<exists>t. (lb_step cids wids link_in link_out)\<^sup>*\<^sup>* s t \<and> lb_done cids t)
    \<and> (lb_done cids s \<or> (\<exists>t. lb_step cids wids link_in link_out s t))
    \<and> (lb_over s \<longrightarrow> (\<forall>i < 10. replied_to cids s i))"
proof -
  note start = conjI [OF lb_start_inv [OF assms(1)] assms(1)]
  have inv: "lb_inv cids wids s \<and> lb_setting cids wids link_in link_out" by (rule lbs.run_inv [OF assms(2) start])
  have "lb_left (lb_threads 10 (length wids)) = 61 + 2 * length wids"
    by (simp add: lb_left_def lb_threads_def reply_clients_def)
  with lbs.run_bounded [OF _ start]
  have "\<forall>n t. (lb_step cids wids link_in link_out ^^ n) (lb_threads 10 (length wids)) t \<longrightarrow> n \<le> 61 + 2 * length wids"
    by (metis add_leD1)
  moreover have "lb_over s \<longrightarrow> (\<forall>i < 10. replied_to cids s i)"
    using over_replied [of cids wids s] inv assms(1) by (simp add: lb_setting_def)
  ultimately show ?thesis using lbs.run_settles [OF inv] lbs.stuck_final [OF inv] by blast
qed

text \<open>The step that ends the loop sends a reply.\<close>

lemma last_turn_replies:
  assumes "lb_step cids wids link_in link_out s t" "\<not> lb_over s" "lb_over t" "lb_inv cids wids s"
    and "lb_setting cids wids link_in link_out"
  shows "for_clients t \<noteq> []"
  using assms(1)
proof (cases rule: lb_step.cases)
  case (turns mb bs mf fs stop b)
  have "lb_inv cids wids t" using lb_step_inv [OF assms(1,4,5)] by simp
  show ?thesis
  proof
    assume none: "for_clients t = []"
    with turns(1) have "for_clients s = []" by simp
    moreover have "lcl t = lcl s" using turns(1) by simp
    ultimately have "client_nbr (lbr t) = client_nbr (lbr s)"
      using none assms(4) \<open>lb_inv cids wids t\<close> by (simp add: lb_inv_def lb_counts_def)
    with assms(2,3,4) \<open>lb_inv cids wids t\<close> show False by (simp add: lb_inv_def lb_counts_def)
  qed
qed (use assms(2,3) in auto)

lemma first_over:
  "(lb_step cids wids link_in link_out)\<^sup>*\<^sup>* s t \<Longrightarrow> \<not> lb_over s \<Longrightarrow> lb_over t \<Longrightarrow> lb_inv cids wids s \<Longrightarrow>
   lb_setting cids wids link_in link_out \<Longrightarrow>
   \<exists>u. (lb_step cids wids link_in link_out)\<^sup>*\<^sup>* s u \<and> lb_over u \<and> \<not> lb_ended u \<and> for_clients u \<noteq> [] \<and> lb_inv cids wids u"
proof (induction rule: rtranclp_induct)
  case (step t u)
  show ?case
  proof (cases "lb_over t")
    case False
    have t: "lb_inv cids wids t" using lbs.run_inv [OF step.hyps(1)] step.prems by blast
    with False have "\<not> lb_ended t" by (auto simp: lb_inv_def lb_counts_def)
    with step.hyps(2) False have "\<not> lb_ended u" by (cases rule: lb_step.cases) auto
    with t False step lb_step_inv [OF step.hyps(2) t] last_turn_replies [OF step.hyps(2) False _ t] show ?thesis
      by (meson rtranclp.rtrancl_into_rtrancl)
  qed (use step in blast)
qed simp

theorem last_reply_can_be_lost:
  assumes "lb_setting cids wids link_in link_out"
  shows "\<exists>t i. (lb_step cids wids link_in link_out)\<^sup>*\<^sup>* (lb_threads 10 (length wids)) t \<and> lb_ended t
    \<and> i < 10 \<and> lcl t ! i = Asked \<and> (\<nexists>u. lb_step cids wids link_in link_out t u)"
proof -
  let ?s = "lb_threads 10 (length wids)"
  note start = lb_start_inv [OF assms]
  obtain d where "(lb_step cids wids link_in link_out)\<^sup>*\<^sup>* ?s d" "lb_done cids d"
    using lbs.run_settles [OF conjI [OF start assms]] by blast
  moreover from this lbs.run_inv [OF _ conjI [OF start assms]] have "lb_over d"
    by (auto simp: lb_done_def lb_inv_def lb_counts_def)
  ultimately obtain u where u: "(lb_step cids wids link_in link_out)\<^sup>*\<^sup>* ?s u" "lb_over u" "\<not> lb_ended u"
      "for_clients u \<noteq> []" "lb_inv cids wids u"
    using first_over [OF _ _ _ start assms] by (auto simp: lb_threads_def)
  let ?t = "u\<lparr>lb_ended := True\<rparr>"
  from u(4) obtain x xs where "for_clients u = x # xs" by (cases "for_clients u") auto
  then have "fst x \<in># under_way u" by (simp add: under_way_def)
  with u(5) have waits: "fst x \<in># asked cids (lcl u)" and len: "length (lcl u) = length cids"
    by (simp_all add: lb_inv_def lb_counts_def)
  from marked_member [OF len waits] len obtain i where "i < length cids" "lcl u ! i = Asked" by auto
  moreover have "(lb_step cids wids link_in link_out)\<^sup>*\<^sup>* ?s ?t" using u ends by (meson rtranclp.rtrancl_into_rtrancl)
  moreover have "\<not> lb_step cids wids link_in link_out ?t v" for v using u(2) by (auto elim: lb_step.cases)
  ultimately show ?thesis using assms by (intro exI [of _ ?t] exI [of _ i]) (simp add: lb_setting_def)
qed

subsection \<open>Instances\<close>

definition some_ids :: "nat \<Rightarrow> bytes list" where
  "some_ids n = map (\<lambda>i. [word_of_nat i]) [0..<n]"

lemma some_setting: "lb_setting (some_ids 10) (some_ids 3) (\<lambda>i fs. i # [] # fs) (\<lambda>fs. (hd fs, tl (tl fs)))"
proof -
  have "distinct (some_ids 10) \<and> distinct (some_ids 3) \<and> READY_text \<notin> set (some_ids 10)" by code_simp
  then show ?thesis by (simp add: lb_setting_def req_laws_def some_ids_def)
qed

lemma lb_serves_all_witness:
  "\<exists>t. (lb_step (some_ids 10) (some_ids 3) (\<lambda>i fs. i # [] # fs) (\<lambda>fs. (hd fs, tl (tl fs))))\<^sup>*\<^sup>* (lb_threads 10 3) t
     \<and> lb_done (some_ids 10) t"
  using lb_serves_all [OF some_setting rtranclp.rtrancl_refl] by (simp add: some_ids_def)

lemma last_reply_can_be_lost_witness:
  "\<exists>t i. (lb_step (some_ids 10) (some_ids 3) (\<lambda>i fs. i # [] # fs) (\<lambda>fs. (hd fs, tl (tl fs))))\<^sup>*\<^sup>* (lb_threads 10 3) t
     \<and> lb_ended t \<and> lcl t ! i = Asked"
  using last_reply_can_be_lost [OF some_setting] by (auto simp: some_ids_def)

end
