(* ===== verification/Pass_Fd.thy ===== *)
theory Pass_Fd
  imports DomainSocket Interleaving
begin

section \<open>Passing a descriptor between two processes (pass_fd.cpp)\<close>

text \<open>
  \<open>LinuxSocket/sctp_socket/pass_filedescriptor/pass_fd.cpp\<close>: the parent opens a file for appending, writes a line and
  sends the descriptor to its child, which writes another. The two processes take their system calls one by one, in any
  order. A table of descriptors says what each of them refers to. The system is given by \<open>pass_env\<close>: which calls
  fail, whether a descriptor comes with the data of a message, how much a write takes, and which number a new descriptor
  gets; the results of write, close and sendfd are not looked at by the code. A pair of sockets and a second process are
  taken to be there: without them \<open>main\<close> returns at once.
\<close>

subsection \<open>The two functions on messages\<close>

text \<open>The message of \<open>sendfd\<close>: one byte, and the descriptor.\<close>

definition sendfd :: "int \<Rightarrow> bytes \<times> cmsg option" where
  "sendfd fd = ([1], Some (rights_of fd))"

text \<open>What \<open>recvfd\<close> makes of the result of \<open>recvmsg\<close>, where \<open>None\<close> is a failure. \<open>CMSG_FIRSTHDR\<close> is null if there is no
  control message.\<close>

definition recvfd :: "(bytes \<times> cmsg option) option \<Rightarrow> halt + int" where
  "recvfd r =
     (case r of
        None \<Rightarrow> Inr (-1)
      | Some (d, control) \<Rightarrow>
          if length d = 0 then Inr (-1)
          else bindE (fetchE NullAccess control) (\<lambda>cmsg. Inr (cmsg_data cmsg)))"

subsection \<open>Descriptors\<close>

datatype open_object = Terminal | PairEnd bool | TheFile

type_synonym fd_table = "open_object option list"

definition fd_object :: "fd_table \<Rightarrow> int \<Rightarrow> open_object option" where
  "fd_object t fd = (if 0 \<le> fd \<and> nat fd < length t then t ! nat fd else None)"

definition close_fd :: "int \<Rightarrow> fd_table \<Rightarrow> fd_table" where
  "close_fd fd t = (if 0 \<le> fd then t[nat fd := None] else t)"

subsection \<open>The two processes\<close>

definition TXTSRV :: bytes where "TXTSRV = bytes_of ''server'' @ [10]"
definition TXTCLI :: bytes where "TXTCLI = bytes_of ''client'' @ [10]"

text \<open>
  The calls that succeed; \<open>carries\<close> is false if the system drops the descriptor of a message (\<open>MSG_CTRUNC\<close>, for instance
  when the process has no descriptors left), which then comes without a control message.
\<close>

record pass_env =
  opens :: bool
  sends :: bool
  receives :: bool
  carries :: bool
  takes_server :: nat
  takes_client :: nat
  new_number :: "fd_table \<Rightarrow> nat"

text \<open>What POSIX says of a new descriptor: it gets the lowest number that is not in use.\<close>

definition lowest_number :: "pass_env \<Rightarrow> bool" where
  "lowest_number E \<longleftrightarrow> (\<forall>t. new_number E t = length (takeWhile (\<lambda>x. x \<noteq> None) t))"

definition install :: "pass_env \<Rightarrow> open_object \<Rightarrow> fd_table \<Rightarrow> nat \<times> fd_table" where
  "install E x t = (let n = new_number E t in (n, (t @ replicate (Suc n - length t) None)[n := Some x]))"

record passing_process =
  fds :: fd_table
  fd_var :: int
  done_calls :: nat

record passing =
  sender :: passing_process
  receiver :: passing_process
  file_content :: bytes
  in_transit :: "(bytes \<times> cmsg option \<times> open_object) list"

definition pair_parent :: int where "pair_parent = 4"
definition pair_child :: int where "pair_child = 3"

text \<open>A write to anything but the file has no effect here.\<close>

definition file_write :: "nat \<Rightarrow> fd_table \<Rightarrow> int \<Rightarrow> bytes \<Rightarrow> bytes \<Rightarrow> bytes" where
  "file_write n t fd d content = (if fd_object t fd = Some TheFile then content @ take n d else content)"

text \<open>The next system call of the parent: \<open>main\<close>, \<open>main_server\<close> and \<open>sendfd\<close>, then the end of the process.\<close>

definition parent_call :: "pass_env \<Rightarrow> passing \<Rightarrow> passing option" where
  "parent_call E s =
     (let p = sender s; next = \<lambda>p. p\<lparr>done_calls := done_calls p + 1\<rparr> in
      case done_calls p of
        0 \<Rightarrow> Some (s\<lparr>sender := next (p\<lparr>fds := close_fd pair_child (fds p)\<rparr>)\<rparr>)
      | Suc 0 \<Rightarrow>
          (if opens E then let (n, t) = install E TheFile (fds p) in Some (s\<lparr>sender := next (p\<lparr>fds := t, fd_var := int n\<rparr>)\<rparr>)
           else Some (s\<lparr>sender := next (p\<lparr>fd_var := -1\<rparr>)\<rparr>))
      | Suc (Suc 0) \<Rightarrow>
          Some (s\<lparr>sender := next p, file_content := file_write (takes_server E) (fds p) (fd_var p) TXTSRV (file_content s)\<rparr>)
      | Suc (Suc (Suc 0)) \<Rightarrow>
          (case fd_object (fds p) (fd_var p) of
             Some x \<Rightarrow>
               (if sends E \<and> fd_object (fds p) pair_parent = Some (PairEnd True)
                then let (d, c) = sendfd (fd_var p) in Some (s\<lparr>sender := next p, in_transit := in_transit s @ [(d, c, x)]\<rparr>)
                else Some (s\<lparr>sender := next p\<rparr>))
           | None \<Rightarrow> Some (s\<lparr>sender := next p\<rparr>))
      | Suc (Suc (Suc (Suc 0))) \<Rightarrow> Some (s\<lparr>sender := next (p\<lparr>fds := close_fd (fd_var p) (fds p)\<rparr>)\<rparr>)
      | Suc (Suc (Suc (Suc (Suc 0)))) \<Rightarrow> Some (s\<lparr>sender := next (p\<lparr>fds := map (\<lambda>_. None) (fds p)\<rparr>)\<rparr>)
      | _ \<Rightarrow> None)"

text \<open>\<open>recvmsg\<close> in the child: a message, with its descriptor installed under another number or without it; the end, when
  nobody has the other socket any more; or it blocks.\<close>

definition receive_fd :: "pass_env \<Rightarrow> passing \<Rightarrow> ((bytes \<times> cmsg option) \<times> fd_table \<times> (bytes \<times> cmsg option \<times> open_object) list) option" where
  "receive_fd E s =
     (case in_transit s of
        (d, c, x) # ms \<Rightarrow>
          (if carries E then
             let (n, t) = install E x (fds (receiver s)) in Some ((d, map_option (cmsg_data_update (\<lambda>_. int n)) c), t, ms)
           else Some ((d, None), fds (receiver s), ms))
      | [] \<Rightarrow>
          if Some (PairEnd True) \<in> set (fds (sender s)) \<or> Some (PairEnd True) \<in> set (fds (receiver s)) then None
          else Some (([], None), fds (receiver s), []))"

definition child_call :: "pass_env \<Rightarrow> passing \<Rightarrow> (halt + passing) option" where
  "child_call E s =
     (let p = receiver s; next = \<lambda>p. p\<lparr>done_calls := done_calls p + 1\<rparr> in
      case done_calls p of
        0 \<Rightarrow> Some (Inr (s\<lparr>receiver := next (p\<lparr>fds := close_fd pair_parent (fds p)\<rparr>)\<rparr>))
      | Suc 0 \<Rightarrow>
          (if receives E then
             map_option (\<lambda>(r, t, ms). bindE (recvfd (Some r)) (\<lambda>fd.
               Inr (s\<lparr>receiver := next (p\<lparr>fds := t, fd_var := fd\<rparr>), in_transit := ms\<rparr>))) (receive_fd E s)
           else Some (bindE (recvfd None) (\<lambda>fd. Inr (s\<lparr>receiver := next (p\<lparr>fd_var := fd\<rparr>)\<rparr>))))
      | Suc (Suc 0) \<Rightarrow>
          Some (Inr (s\<lparr>receiver := next p, file_content := file_write (takes_client E) (fds p) (fd_var p) TXTCLI (file_content s)\<rparr>))
      | Suc (Suc (Suc 0)) \<Rightarrow> Some (Inr (s\<lparr>receiver := next (p\<lparr>fds := close_fd (fd_var p) (fds p)\<rparr>)\<rparr>))
      | Suc (Suc (Suc (Suc 0))) \<Rightarrow> Some (Inr (s\<lparr>receiver := next (p\<lparr>fds := map (\<lambda>_. None) (fds p)\<rparr>)\<rparr>))
      | _ \<Rightarrow> None)"

text \<open>A child that crashes leaves its descriptors to the system, and the message it has taken is gone.\<close>

definition child_dies :: "passing \<Rightarrow> passing" where
  "child_dies s = s\<lparr>receiver := (receiver s)\<lparr>fds := map (\<lambda>_. None) (fds (receiver s)), done_calls := 5\<rparr>, in_transit := tl (in_transit s)\<rparr>"

inductive pass_step :: "pass_env \<Rightarrow> passing \<Rightarrow> passing \<Rightarrow> bool" for E where
  parent: "parent_call E s = Some t \<Longrightarrow> pass_step E s t"
| child: "child_call E s = Some (Inr t) \<Longrightarrow> pass_step E s t"
| crash: "child_call E s = Some (Inl h) \<Longrightarrow> pass_step E s (child_dies s)"


subsection \<open>The states that can be reached\<close>

text \<open>The descriptor is sent, it comes to the child, or it is lost on the way.\<close>

definition passed_on :: "pass_env \<Rightarrow> bool" where "passed_on E \<longleftrightarrow> opens E \<and> sends E"
definition passes :: "pass_env \<Rightarrow> bool" where "passes E \<longleftrightarrow> passed_on E \<and> receives E \<and> carries E"
definition loses :: "pass_env \<Rightarrow> bool" where "loses E \<longleftrightarrow> passed_on E \<and> receives E \<and> \<not> carries E"

definition table :: "open_object option \<Rightarrow> open_object option \<Rightarrow> fd_table" where
  "table x y = [Some Terminal, Some Terminal, Some Terminal, x, y]"

text \<open>The parent after \<open>p\<close> calls and the child after \<open>c\<close>.\<close>

definition parent_at :: "pass_env \<Rightarrow> nat \<Rightarrow> passing_process" where
  "parent_at E p = \<lparr>
     fds = (if p = 0 then table (Some (PairEnd False)) (Some (PairEnd True))
            else if p = 1 \<or> p = 5 then table None (Some (PairEnd True))
            else if p \<le> 4 then table (if opens E then Some TheFile else None) (Some (PairEnd True))
            else replicate 5 None),
     fd_var = (if p < 2 then 0 else if opens E then 3 else -1), done_calls = p\<rparr>"

definition child_at :: "pass_env \<Rightarrow> nat \<Rightarrow> passing_process" where
  "child_at E c = \<lparr>
     fds = (if c = 0 then table (Some (PairEnd False)) (Some (PairEnd True))
            else if c = 1 \<or> c = 4 then table (Some (PairEnd False)) None
            else if c \<le> 3 then table (Some (PairEnd False)) (if passes E then Some TheFile else None)
            else replicate 5 None),
     fd_var = (if c < 2 \<or> loses E then 0 else if passes E then 4 else -1), done_calls = c\<rparr>"

definition content_at :: "pass_env \<Rightarrow> bytes \<Rightarrow> nat \<Rightarrow> nat \<Rightarrow> bytes" where
  "content_at E old p c = old @ (if 3 \<le> p \<and> opens E then take (takes_server E) TXTSRV else [])
     @ (if 3 \<le> c \<and> passes E then take (takes_client E) TXTCLI else [])"

definition passing_at :: "pass_env \<Rightarrow> bytes \<Rightarrow> nat \<Rightarrow> nat \<Rightarrow> passing" where
  "passing_at E old p c = \<lparr>sender = parent_at E p, receiver = child_at E c, file_content = content_at E old p c,
     in_transit = (if 4 \<le> p \<and> passed_on E \<and> (c < 2 \<or> \<not> receives E) then [([1], Some (rights_of 3), TheFile)] else [])\<rparr>"

definition pass_possible :: "pass_env \<Rightarrow> nat \<Rightarrow> nat \<Rightarrow> bool" where
  "pass_possible E p c \<longleftrightarrow> p \<le> 6 \<and> c \<le> 5 \<and> (loses E \<longrightarrow> c < 2 \<or> c = 5)
     \<and> (2 \<le> c \<and> receives E \<longrightarrow> (if passed_on E then 4 \<le> p else p = 6))"

lemma table_facts:
  "length (table x y) = 5" "(table x y)[3 := z] = table z y" "(table x y)[4 := z] = table x z"
  "fd_object (table x y) 3 = x" "fd_object (table x y) 4 = y" "fd_object t (-1) = None"
  "close_fd 3 (table x y) = table None y" "close_fd 4 (table x y) = table x None" "close_fd (-1) t = t"
  "lowest_number E \<Longrightarrow> install E v (table None y) = (3, table (Some v) y)"
  "lowest_number E \<Longrightarrow> install E v (table (Some w) None) = (4, table (Some w) (Some v))"
  "map (\<lambda>_. None) (table x y) = replicate 5 None"
  "Some (PairEnd b) \<in> set (table x y) \<longleftrightarrow> x = Some (PairEnd b) \<or> y = Some (PairEnd b)"
  by (auto simp: table_def fd_object_def close_fd_def install_def lowest_number_def Let_def numeral_eq_Suc)

lemmas pass_state_defs = passing_at_def parent_at_def child_at_def content_at_def table_facts

lemma parent_calls_at:
  assumes "lowest_number E"
  shows "parent_call E (passing_at E old 0 c) = Some (passing_at E old (Suc 0) c)"
  "parent_call E (passing_at E old (Suc 0) c) = Some (passing_at E old (Suc (Suc 0)) c)"
  "\<not> (passes E \<and> 3 \<le> c) \<Longrightarrow> parent_call E (passing_at E old (Suc (Suc 0)) c) = Some (passing_at E old (Suc (Suc (Suc 0))) c)"
  "\<not> (passed_on E \<and> receives E \<and> 2 \<le> c) \<Longrightarrow>
    parent_call E (passing_at E old (Suc (Suc (Suc 0))) c) = Some (passing_at E old (Suc (Suc (Suc (Suc 0)))) c)"
  "parent_call E (passing_at E old (Suc (Suc (Suc (Suc 0)))) c) = Some (passing_at E old (Suc (Suc (Suc (Suc (Suc 0))))) c)"
  "parent_call E (passing_at E old (Suc (Suc (Suc (Suc (Suc 0))))) c) = Some (passing_at E old (Suc (Suc (Suc (Suc (Suc (Suc 0)))))) c)"
  "parent_call E (passing_at E old (Suc (Suc (Suc (Suc (Suc (Suc 0)))))) c) = None"
  using assms
  by (simp_all add: parent_call_def Let_def pass_state_defs file_write_def sendfd_def passed_on_def passes_def pair_parent_def pair_child_def)
    auto

lemma child_calls_at:
  assumes "lowest_number E"
  shows "child_call E (passing_at E old p 0) = Some (Inr (passing_at E old p (Suc 0)))"
  "passes E \<Longrightarrow> 4 \<le> p \<Longrightarrow> child_call E (passing_at E old p (Suc 0)) = Some (Inr (passing_at E old p (Suc (Suc 0))))"
  "loses E \<Longrightarrow> 4 \<le> p \<Longrightarrow> child_call E (passing_at E old p (Suc 0)) = Some (Inl NullAccess)"
  "loses E \<Longrightarrow> 4 \<le> p \<Longrightarrow> child_dies (passing_at E old p (Suc 0)) = passing_at E old p 5"
  "receives E \<Longrightarrow> passed_on E \<Longrightarrow> \<not> 4 \<le> p \<Longrightarrow> child_call E (passing_at E old p (Suc 0)) = None"
  "\<not> receives E \<Longrightarrow> child_call E (passing_at E old p (Suc 0)) = Some (Inr (passing_at E old p (Suc (Suc 0))))"
  "receives E \<Longrightarrow> \<not> passed_on E \<Longrightarrow> child_call E (passing_at E old p (Suc 0)) =
     (if p < 6 then None else Some (Inr (passing_at E old p (Suc (Suc 0)))))"
  "\<not> loses E \<Longrightarrow> child_call E (passing_at E old p (Suc (Suc 0))) = Some (Inr (passing_at E old p (Suc (Suc (Suc 0)))))"
  "\<not> loses E \<Longrightarrow> child_call E (passing_at E old p (Suc (Suc (Suc 0)))) = Some (Inr (passing_at E old p (Suc (Suc (Suc (Suc 0))))))"
  "\<not> loses E \<Longrightarrow> child_call E (passing_at E old p (Suc (Suc (Suc (Suc 0))))) = Some (Inr (passing_at E old p (Suc (Suc (Suc (Suc (Suc 0)))))))"
  "child_call E (passing_at E old p (Suc (Suc (Suc (Suc (Suc 0)))))) = None"
  using assms
  by (simp_all add: child_call_def child_dies_def receive_fd_def recvfd_def Let_def pass_state_defs file_write_def rights_of_def pair_parent_def
      passes_def loses_def) auto

lemma up_to:
  "(p::nat) \<le> 6 \<longleftrightarrow> p = 0 \<or> p = Suc 0 \<or> p = Suc (Suc 0) \<or> p = Suc (Suc (Suc 0)) \<or> p = Suc (Suc (Suc (Suc 0)))
     \<or> p = Suc (Suc (Suc (Suc (Suc 0)))) \<or> p = Suc (Suc (Suc (Suc (Suc (Suc 0)))))"
  "p \<le> 5 \<longleftrightarrow> p = 0 \<or> p = Suc 0 \<or> p = Suc (Suc 0) \<or> p = Suc (Suc (Suc 0)) \<or> p = Suc (Suc (Suc (Suc 0)))
     \<or> p = Suc (Suc (Suc (Suc (Suc 0))))"
  by auto

lemma parent_call_at:
  assumes "lowest_number E" "pass_possible E p c"
  shows "parent_call E (passing_at E old p c) = (if p < 6 then Some (passing_at E old (Suc p) c) else None)"
proof -
  have "p = Suc (Suc 0) \<longrightarrow> \<not> (passes E \<and> 3 \<le> c)" "p = Suc (Suc (Suc 0)) \<longrightarrow> \<not> (passed_on E \<and> receives E \<and> 2 \<le> c)" "p \<le> 6"
    using assms(2) by (auto simp: pass_possible_def passes_def)
  then show ?thesis unfolding up_to by (elim disjE) (simp_all add: parent_calls_at [OF assms(1)])
qed

lemma child_call_at:
  assumes "lowest_number E" "pass_possible E p c"
  shows "child_call E (passing_at E old p c) =
    (if loses E \<and> c = 1 \<and> 4 \<le> p then Some (Inl NullAccess)
     else if pass_possible E p (Suc c) then Some (Inr (passing_at E old p (Suc c))) else None)"
proof -
  note calls = child_calls_at [OF assms(1)]
  have "c \<le> 5" "p \<le> 6" "loses E \<longrightarrow> c < 2 \<or> c = 5" "2 \<le> c \<and> receives E \<longrightarrow> (if passed_on E then 4 \<le> p else p = 6)"
    using assms(2) by (auto simp: pass_possible_def)
  moreover have "loses E \<Longrightarrow> passed_on E \<and> receives E" by (simp add: loses_def)
  moreover have "passed_on E \<Longrightarrow> receives E \<Longrightarrow> loses E \<or> passes E" by (auto simp: loses_def passes_def)
  moreover have "passes E \<Longrightarrow> passed_on E \<and> receives E \<and> \<not> loses E" by (simp add: loses_def passes_def)
  ultimately show ?thesis unfolding up_to(2) pass_possible_def
    by (elim disjE; cases "loses E"; cases "receives E"; cases "passed_on E"; cases "4 \<le> p") (simp_all add: calls)
qed

definition pass_inv :: "pass_env \<Rightarrow> bytes \<Rightarrow> passing \<Rightarrow> bool" where
  "pass_inv E old s \<longleftrightarrow> lowest_number E \<and> (\<exists>p c. pass_possible E p c \<and> s = passing_at E old p c)"

definition pass_left :: "passing \<Rightarrow> nat" where
  "pass_left s = 11 - (done_calls (sender s) + done_calls (receiver s))"

text \<open>Both processes have ended, and what the file has then.\<close>

definition pass_done :: "pass_env \<Rightarrow> bytes \<Rightarrow> passing \<Rightarrow> bool" where
  "pass_done E old s \<longleftrightarrow> done_calls (sender s) = 6 \<and> done_calls (receiver s) = 5
     \<and> file_content s = old @ (if opens E then take (takes_server E) TXTSRV else [])
         @ (if opens E \<and> sends E \<and> receives E \<and> carries E then take (takes_client E) TXTCLI else [])"

lemma pass_left_at: "pass_left (passing_at E old p c) = 11 - (p + c)"
  by (simp add: pass_left_def passing_at_def parent_at_def child_at_def)

lemma pass_step_at:
  assumes "lowest_number E" "pass_possible E p c" "pass_step E (passing_at E old p c) t"
  shows "(p < 6 \<and> t = passing_at E old (Suc p) c) \<or> (pass_possible E p (Suc c) \<and> t = passing_at E old p (Suc c))
    \<or> (loses E \<and> c = 1 \<and> 4 \<le> p \<and> t = passing_at E old p 5)"
  using assms(3)
proof (cases rule: pass_step.cases)
  case parent
  with parent_call_at [OF assms(1,2)] show ?thesis by (simp split: if_splits)
next
  case child
  with child_call_at [OF assms(1,2)] show ?thesis by (simp split: if_splits)
next
  case (crash h)
  with child_call_at [OF assms(1,2)] have "loses E \<and> c = 1 \<and> 4 \<le> p" by (simp split: if_splits)
  with crash(1) child_calls_at(4) [OF assms(1)] show ?thesis by simp
qed

lemma pass_step_inv:
  assumes "pass_inv E old s" "pass_step E s t"
  shows "pass_inv E old t \<and> pass_left t < pass_left s"
proof -
  from assms(1) obtain p c where pc: "lowest_number E" "pass_possible E p c" "s = passing_at E old p c" by (auto simp: pass_inv_def)
  then have "p < 6 \<Longrightarrow> pass_possible E (Suc p) c" "p \<le> 6" "c \<le> 5" by (auto simp: pass_possible_def split: if_splits)
  moreover have "pass_possible E p (Suc c) \<Longrightarrow> c < 5" by (simp add: pass_possible_def)
  moreover have "loses E \<Longrightarrow> 4 \<le> p \<Longrightarrow> p \<le> 6 \<Longrightarrow> pass_possible E p 5" by (simp add: pass_possible_def loses_def)
  ultimately show ?thesis using pass_step_at [OF pc(1,2)] assms(2) pc unfolding pass_inv_def
    by (fastforce simp: pass_left_at)
qed

lemma pass_stuck:
  assumes "pass_inv E old s" "\<nexists>t. pass_step E s t"
  shows "pass_done E old s"
proof -
  from assms(1) obtain p c where pc: "lowest_number E" "pass_possible E p c" "s = passing_at E old p c" by (auto simp: pass_inv_def)
  have p: "\<not> p < 6"
    using assms(2) parent_call_at [OF pc(1,2), of old] pc(3) pass_step.parent [of E s "passing_at E old (Suc p) c"] by auto
  have "\<not> (loses E \<and> c = 1 \<and> 4 \<le> p)" "\<not> pass_possible E p (Suc c)"
    using assms(2) child_call_at [OF pc(1,2), of old] pc(3) pass_step.child [of E s "passing_at E old p (Suc c)"]
      pass_step.crash [of E s NullAccess] by (auto split: if_splits)
  with p have "p = 6" "c = 5" using pc(2) by (auto simp: pass_possible_def split: if_splits)
  with pc(3) show ?thesis
    by (simp add: pass_done_def passing_at_def parent_at_def child_at_def content_at_def passes_def passed_on_def)
qed

interpretation passing: settling "pass_step E" "pass_inv E old" pass_left "pass_done E old"
  by unfold_locales (auto dest: pass_step_inv intro: pass_stuck)






end
