(* ===== verification/Load_Test.thy ===== *)
theory Load_Test
  imports Mdp Digits Complex_Main
begin

section \<open>The load test (loadtest/src/hwclient.cpp, hwserver.cpp)\<close>

text \<open>
  \<open>Common/zmq/loadtest\<close>: a client sends messages of 400 equal letters, waits for the reply to each and takes the time of
  every hundred thousand; the server answers with 400 letters that are the next one. \<open>behind\<close> is what lies in memory after
  a message that arrived: the server copies 400 bytes from it, whatever its size. \<open>clk n\<close> is what the \<open>n\<close>-th call of
  \<open>gettimeofday\<close> gives. The \<open>double\<close>s of the average are taken as rational numbers.
\<close>

subsection \<open>The two programs\<close>

definition SIZE_MESSAGE_MAX :: nat where "SIZE_MESSAGE_MAX = 400"

definition load_request :: "nat \<Rightarrow> bytes" where
  "load_request request_nbr = replicate SIZE_MESSAGE_MAX (97 + of_nat (request_nbr mod 26))"

text \<open>The copy in the reply is overwritten.\<close>

definition load_reply :: "bytes \<Rightarrow> bytes \<Rightarrow> bytes" where
  "load_reply behind request =
     (let reply = take SIZE_MESSAGE_MAX (request @ behind); val = (request @ behind) ! 0 + 1
      in map (\<lambda>_. val) reply)"

definition in_usec :: "timeval \<Rightarrow> int" where
  "in_usec tv = tv_sec tv * 1000000 + tv_usec tv"

text \<open>What is sent and the times printed, from request \<open>request_nbr\<close> on and with reading \<open>i\<close> as the beginning.\<close>

fun load_loop :: "(nat \<Rightarrow> timeval) \<Rightarrow> nat \<Rightarrow> nat \<Rightarrow> nat \<Rightarrow> bytes list \<times> int list" where
  "load_loop clk 0 request_nbr i = ([], [])"
| "load_loop clk (Suc todo) request_nbr i =
     (let request = load_request request_nbr in
      if request_nbr mod 100000 = 100000 - 1 then
        let (requests, ts) = load_loop clk todo (Suc request_nbr) (i + 2)
        in (request # requests, (in_usec (clk (i + 1)) - in_usec (clk i)) # ts)
      else
        let (requests, ts) = load_loop clk todo (Suc request_nbr) i
        in (request # requests, ts))"

text \<open>\<open>None\<close> is not a number.\<close>

definition average_time :: "int list \<Rightarrow> rat option" where
  "average_time ts =
     (if ts = [] then None else Some (of_int (sum_list ts) / of_nat (length ts) / 1000000))"

text \<open>The count of the loop is an \<open>int\<close>. Without an address the client prints its usage.\<close>

definition load_run :: "(nat \<Rightarrow> timeval) \<Rightarrow> int \<Rightarrow> fault + (bytes list \<times> int list \<times> rat option)" where
  "load_run clk request_count =
     bindE (guardE (- (2 ^ 31) \<le> 100000 * request_count \<and> 100000 * request_count < 2 ^ 31) IntOverflow) (\<lambda>_.
       let (requests, ts) = load_loop clk (nat (100000 * request_count)) 0 0
       in Inr (requests, ts, average_time ts))"

definition load_client_main :: "(nat \<Rightarrow> timeval) \<Rightarrow> bytes list \<Rightarrow> fault + (bytes list \<times> int list \<times> rat option) option" where
  "load_client_main clk argv =
     (if length argv \<le> 1 then Inr None
      else bindE (load_run clk (if length argv = 3 then atoi (c_str (argv ! 2)) else 5)) (\<lambda>r. Inr (Some r)))"

subsection \<open>What is exchanged and measured\<close>

text \<open>The reply to a request of the client is its letter, one up; it never depends on the memory behind the request.\<close>

lemma all_replaced: "0 < n \<Longrightarrow> map (\<lambda>_. v) (take n (replicate n x @ ys)) = replicate n v \<and> (replicate n x @ ys) ! 0 = x"
  by (cases n) (simp_all add: map_replicate_const)

lemma load_exchange: "load_reply behind (load_request k) = replicate 400 (98 + of_nat (k mod 26))"
  using all_replaced [of SIZE_MESSAGE_MAX "98 + of_nat (k mod 26)" "97 + of_nat (k mod 26)" behind]
  by (simp add: load_reply_def load_request_def Let_def add.commute add.left_commute) (simp add: SIZE_MESSAGE_MAX_def)

lemma load_loop_result:
  "load_loop clk todo k (2 * (k div 100000)) =
     (map load_request [k..<k + todo],
      map (\<lambda>j. in_usec (clk (2 * j + 1)) - in_usec (clk (2 * j))) [k div 100000..<(k + todo) div 100000])"
proof (induction todo arbitrary: k)
  case (Suc todo)
  have mono: "Suc k div 100000 \<le> (k + Suc todo) div 100000" by (rule div_le_mono) simp
  have upt: "[k..<k + Suc todo] = k # [Suc k..<Suc k + todo]" by (simp add: upt_conv_Cons)
  show ?case
  proof (cases "k mod 100000 = 99999")
    case True
    then have block: "Suc k div 100000 = Suc (k div 100000)" by (simp add: div_Suc mod_Suc)
    with mono have "[k div 100000..<(k + Suc todo) div 100000] = k div 100000 # [Suc k div 100000..<(Suc k + todo) div 100000]"
      by (simp add: upt_conv_Cons)
    moreover have "2 * (k div 100000) + 2 = 2 * (Suc k div 100000)" using block by simp
    ultimately show ?thesis using True Suc [of "Suc k"] upt by (simp only: load_loop.simps Let_def) simp
  next
    case False
    then have "Suc k div 100000 = k div 100000" by (simp add: div_Suc mod_Suc)
    with False Suc [of "Suc k"] upt show ?thesis by (simp only: load_loop.simps Let_def) simp
  qed
qed simp

lemma load_run_result:
  "load_run clk n =
    (if 21474 < \<bar>n\<bar> then Inl IntOverflow
     else let ts = map (\<lambda>j. in_usec (clk (2 * j + 1)) - in_usec (clk (2 * j))) [0..<nat n]
       in Inr (map load_request [0..<nat (100000 * n)], ts, average_time ts))"
proof (cases "21474 < \<bar>n\<bar>")
  case True
  then have "(- (2 ^ 31) \<le> 100000 * n \<and> 100000 * n < 2 ^ 31) = False" by auto
  with True show ?thesis unfolding load_run_def by (simp only:) simp
next
  case False
  then have "(- (2 ^ 31) \<le> 100000 * n \<and> 100000 * n < 2 ^ 31) = True" by auto
  with False load_loop_result [of clk "nat (100000 * n)" 0] show ?thesis
    unfolding load_run_def by (simp add: nat_mult_distrib Let_def)
qed

theorem load_test_measures:
  assumes "length argv = 3" "n = atoi (c_str (argv ! 2))"
  shows "if 21474 < \<bar>n\<bar> then load_client_main clk argv = Inl IntOverflow
    else \<exists>requests ts avg. load_client_main clk argv = Inr (Some (requests, ts, avg))
      \<and> requests = map load_request [0..<100000 * nat n]
      \<and> map (load_reply behind) requests = map (\<lambda>k. replicate 400 (98 + of_nat (k mod 26))) [0..<100000 * nat n]
      \<and> length ts = nat n
      \<and> avg = (if n \<le> 0 then None
          else Some (of_int (\<Sum>j<nat n. in_usec (clk (2 * j + 1)) - in_usec (clk (2 * j))) / of_int n / 1000000))"
  using assms
  by (simp add: load_client_main_def load_run_result Let_def load_exchange comp_def nat_mult_distrib average_time_def
      interv_sum_list_conv_sum_set_nat atLeast0LessThan)

lemma load_test_measures_witness:
  "\<exists>ts. load_client_main (\<lambda>i. \<lparr>tv_sec = int i, tv_usec = 0\<rparr>) [[97], [98], decimal 2]
     = Inr (Some (map load_request [0..<200000], ts, Some 1))"
proof -
  have "atoi (c_str (decimal 2)) = 2" using atoi_decimal [of 2] by simp
  with load_test_measures [of "[[97], [98], decimal 2]" 2 "\<lambda>i. \<lparr>tv_sec = int i, tv_usec = 0\<rparr>" "[]"] show ?thesis
    by (simp add: in_usec_def numeral_2_eq_2) blast
qed

end
