(* ===== verification/Lazy_Client.thy ===== *)
theory Lazy_Client
  imports Pirate_Client Interleaving
begin

section \<open>A Lazy Pirate client among others\<close>

text \<open>
  What the client of \<open>Pirate_Client\<close> may rely on, whoever answers it. It loses patience at any time, closes its socket and
  sends its request again over a new one; a reply goes back over the socket the request came from, and is lost if that is
  closed. Sockets are numbered in the order in which the client opens them, and \<open>nm\<close> gives the name under which the other
  side knows them. The messages that are out there, requests and replies alike, are pairs of such a name and a text.
\<close>

lemma filter_mset_none: "filter_mset P ms = {#} \<longleftrightarrow> (\<forall>m \<in># ms. \<not> P m)"
  by (induction ms) auto

subsection \<open>One poll\<close>

text \<open>What the actions of the client send, and over which socket.\<close>

fun sends_of :: "nat \<Rightarrow> lp_action list \<Rightarrow> nat \<times> (nat \<times> bytes) list" where
  "sends_of k [] = (k, [])"
| "sends_of k (Connect # as) = sends_of (Suc k) as"
| "sends_of k (SendText t # as) = (let (k', ms) = sends_of k as in (k', (k, t) # ms))"
| "sends_of k (SleepSeconds n # as) = sends_of k as"

text \<open>Whether the client gives up, its state, its socket and what it has sent.\<close>

definition polls_once :: "bytes option \<Rightarrow> lpclient \<Rightarrow> nat \<Rightarrow> bool \<times> lpclient \<times> nat \<times> (nat \<times> bytes) list" where
  "polls_once p c k =
     (let (over, c') = lp_loop [p] c; (k', ms) = sends_of k (drop (length (lp_trace c)) (lp_trace c'))
      in (over, c', k', ms))"

lemma polls_timeout:
  "retries_left c = 1 \<Longrightarrow> polls_once None c k = (True, c\<lparr>retries_left := 0\<rparr>, k, [])"
  "retries_left c \<noteq> 1 \<Longrightarrow> \<exists>c'. polls_once None c k = (False, c', Suc k, [(Suc k, decimal (sequence_nr c'))])
     \<and> sequence_nr c' = sequence_nr c \<and> retries_left c' = retries_left c - 1"
  by (cases c; simp add: polls_once_def Let_def lp_send_def s_client_socket_def lp_act_def)+

lemma polls_reply:
  "\<exists>c'. polls_once (Some (decimal (sequence_nr c))) c k = (False, c', k, [(k, decimal (sequence_nr c'))])
     \<and> sequence_nr c' = Suc (sequence_nr c) \<and> retries_left c' = 3"
  by (cases c) (simp add: polls_once_def Let_def lp_next_def lp_send_def lp_act_def atoi_decimal REQUEST_RETRIES_def)

subsection \<open>Only the current request can be answered\<close>

definition numbered :: "nat \<Rightarrow> bytes \<Rightarrow> bool" where
  "numbered n t \<longleftrightarrow> (\<exists>i. 1 \<le> i \<and> i \<le> n \<and> t = decimal i)"

lemma numbered_mono: "numbered n t \<Longrightarrow> n \<le> n' \<Longrightarrow> numbered n' t"
  by (auto simp: numbered_def)

lemma numbered_self: "1 \<le> n \<Longrightarrow> numbered n (decimal n)"
  by (auto simp: numbered_def)

definition tokens_ok :: "(nat \<Rightarrow> 'a) \<Rightarrow> nat \<Rightarrow> nat \<Rightarrow> ('a \<times> bytes) multiset \<Rightarrow> bool" where
  "tokens_ok nm n k ms \<longleftrightarrow> (\<forall>j t. (nm j, t) \<in># ms \<longrightarrow> j \<le> k \<and> numbered n t \<and> (j = k \<longrightarrow> t = decimal n))"

definition client_ok :: "(nat \<Rightarrow> 'a) \<Rightarrow> lpclient \<Rightarrow> nat \<Rightarrow> bool \<Rightarrow> ('a \<times> bytes) multiset \<Rightarrow> bool" where
  "client_ok nm c k over ms \<longleftrightarrow> tokens_ok nm (sequence_nr c) k ms
     \<and> size (filter_mset (\<lambda>m. fst m = nm k) ms) \<le> 1 \<and> 1 \<le> sequence_nr c
     \<and> 0 < retries_left c + (if over then 1 else 0) \<and> retries_left c \<le> 3"

text \<open>Messages may get lost.\<close>

lemma tokens_ok_less: "tokens_ok nm n k ms \<Longrightarrow> ms' \<subseteq># ms \<Longrightarrow> tokens_ok nm n k ms'"
  unfolding tokens_ok_def using mset_subset_eqD by fast

lemma client_ok_less: "client_ok nm c k over ms \<Longrightarrow> ms' \<subseteq># ms \<Longrightarrow> client_ok nm c k over ms'"
  using size_mset_mono [OF multiset_filter_mono [of ms' ms "\<lambda>m. fst m = nm k"]]
  by (auto simp: client_ok_def intro: tokens_ok_less)

text \<open>The messages of others do not matter.\<close>

lemma client_ok_others:
  assumes "\<forall>m \<in># d. fst m \<notin> range nm"
  shows "client_ok nm c k over (ms + d) \<longleftrightarrow> client_ok nm c k over ms"
proof -
  have "filter_mset (\<lambda>m. fst m = nm k) d = {#}" using assms by (auto simp: filter_mset_none)
  then have "filter_mset (\<lambda>m. fst m = nm k) (ms + d) = filter_mset (\<lambda>m. fst m = nm k) ms" by simp
  moreover have "(nm j, t) \<in># ms + d \<longleftrightarrow> (nm j, t) \<in># ms" for j t using assms by auto
  ultimately show ?thesis unfolding client_ok_def tokens_ok_def by (simp only:)
qed

definition named :: "(nat \<Rightarrow> 'a) \<Rightarrow> (nat \<times> bytes) list \<Rightarrow> ('a \<times> bytes) multiset" where
  "named nm ms = mset (map (\<lambda>(k, t). (nm k, t)) ms)"

lemma client_ok_timeout:
  assumes "client_ok nm c k False ms" "inj nm" "polls_once None c k = (over, c', k', sent)"
  shows "client_ok nm c' k' over (ms + named nm sent) \<and> sequence_nr c' = sequence_nr c"
proof (cases "retries_left c = 1")
  case True
  with polls_timeout(1) [OF True, of k] assms show ?thesis by (auto simp: client_ok_def named_def)
next
  case False
  from polls_timeout(2) [OF False, of k] assms(3) have c: "k' = Suc k" "sent = [(Suc k, decimal (sequence_nr c'))]"
    "\<not> over" "sequence_nr c' = sequence_nr c" "retries_left c' = retries_left c - 1" by auto
  have "tokens_ok nm (sequence_nr c) k ms" "1 \<le> sequence_nr c" using assms(1) by (simp_all add: client_ok_def)
  note ok = this
  have "filter_mset (\<lambda>m. fst m = nm (Suc k)) ms = {#}"
    using ok(1) by (fastforce simp: filter_mset_none tokens_ok_def)
  moreover have "tokens_ok nm (sequence_nr c) (Suc k) (add_mset (nm (Suc k), decimal (sequence_nr c)) ms)"
    using ok numbered_self [OF ok(2)] assms(2) by (fastforce simp: tokens_ok_def inj_eq)
  ultimately show ?thesis using assms(1) c False by (simp add: client_ok_def named_def)
qed

lemma client_ok_reply:
  assumes "client_ok nm c k over (add_mset (nm k, t) ms)" "inj nm" "polls_once (Some t) c k = (over', c', k', sent)"
  shows "client_ok nm c' k' over' (ms + named nm sent) \<and> sequence_nr c' = Suc (sequence_nr c)"
proof -
  have "tokens_ok nm (sequence_nr c) k (add_mset (nm k, t) ms)" using assms(1) by (simp add: client_ok_def)
  note ok = this
  then have t: "t = decimal (sequence_nr c)" unfolding tokens_ok_def by (metis union_single_eq_member)
  from polls_reply [of c k] assms(3) have c: "k' = k" "sent = [(k, decimal (sequence_nr c'))]" "\<not> over'"
    "sequence_nr c' = Suc (sequence_nr c)" "retries_left c' = 3" by (auto simp: t)
  have "filter_mset (\<lambda>m. fst m = nm k) ms = {#}" using assms(1) by (simp add: client_ok_def)
  note none = this
  then have "(nm k, u) \<notin># ms" for u by (fastforce simp: filter_mset_none)
  moreover have "tokens_ok nm (sequence_nr c) k ms" using ok by (rule tokens_ok_less) simp
  ultimately have "tokens_ok nm (Suc (sequence_nr c)) k (add_mset (nm k, decimal (Suc (sequence_nr c))) ms)"
    using numbered_self [of "Suc (sequence_nr c)"] assms(2) numbered_mono [of "sequence_nr c" _ "Suc (sequence_nr c)"]
    by (auto simp: tokens_ok_def inj_eq)
  with c none show ?thesis by (simp add: client_ok_def named_def)
qed

text \<open>A reply at the current socket is the one the client waits for.\<close>

lemma client_ok_expected:
  "client_ok nm c k over ms \<Longrightarrow> (nm k, t) \<in># ms \<Longrightarrow>
   \<exists>c' sent. polls_once (Some t) c k = (False, c', k, sent) \<and> sequence_nr c' = Suc (sequence_nr c)"
  using polls_reply [of c k] unfolding client_ok_def tokens_ok_def by metis

text \<open>The start of a client.\<close>

definition lp_started :: "lpclient \<times> nat \<times> (nat \<times> bytes) list" where
  "lp_started = (let c = snd (lpclient_main []); (k, ms) = sends_of 0 (lp_trace c) in (c, k, ms))"

lemma lp_started_eq: "\<exists>c. lp_started = (c, 1, [(1, decimal 1)]) \<and> sequence_nr c = 1 \<and> retries_left c = 3"
  by (simp add: lp_started_def lpclient_main_def lp_next_def lp_send_def s_client_socket_def lp_act_def REQUEST_RETRIES_def Let_def)

lemma client_ok_started:
  assumes "inj nm" "lp_started = (c, k, ms)"
  shows "client_ok nm c k False (named nm ms) \<and> k = 1 \<and> ms = [(1, decimal 1)] \<and> sequence_nr c = 1"
proof -
  have "k = 1" "ms = [(1, decimal 1)]" "sequence_nr c = 1" "retries_left c = 3"
    using lp_started_eq unfolding assms(2) by auto
  with assms(1) numbered_self [of 1] show ?thesis by (simp add: client_ok_def tokens_ok_def named_def inj_eq)
qed

end
