(* ===== verification/Lazy_Pirate.thy ===== *)
theory Lazy_Pirate
  imports Lazy_Client Chance
begin

section \<open>The Lazy Pirate client and its server (lpserver.cpp)\<close>

text \<open>
  The server echoes each request, after the third one sometimes slowly, and sometimes it ends. The client of
  \<open>Lazy_Client\<close> may lose patience at any time. The server reads what waits for it in any order.
\<close>

subsection \<open>The server\<close>

datatype lp_fate = Crashes | IsSlow | Answers

text \<open>\<open>r1\<close> and \<open>r2\<close> are the results of \<open>random\<close>.\<close>

definition server_fate :: "nat \<Rightarrow> nat \<Rightarrow> nat \<Rightarrow> lp_fate" where
  "server_fate cycles r1 r2 =
     (if cycles > 3 \<and> random_within 3 r1 = 0 then Crashes
      else if cycles > 3 \<and> random_within 3 r2 = 0 then IsSlow else Answers)"

record lazy_pirate =
  lz_client :: lpclient
  lz_socket :: nat
  lz_gave_up :: bool
  lz_requests :: "(nat \<times> bytes) list"
  lz_cycles :: nat
  lz_working :: "(nat \<times> bytes) option"
  lz_crashed :: bool
  lz_replies :: "(nat \<times> bytes) list"
  lz_served :: "bytes list"

definition client_polls :: "bytes option \<Rightarrow> lazy_pirate \<Rightarrow> lazy_pirate" where
  "client_polls p s =
     (let (over, c, k, ms) = polls_once p (lz_client s) (lz_socket s)
      in s\<lparr>lz_client := c, lz_socket := k, lz_gave_up := over, lz_requests := lz_requests s @ ms\<rparr>)"

inductive lazy_step :: "lazy_pirate \<Rightarrow> lazy_pirate \<Rightarrow> bool" where
  timeout: "\<not> lz_gave_up s \<Longrightarrow> lazy_step s (client_polls None s)"
| reply: "\<not> lz_gave_up s \<Longrightarrow> lz_replies s = xs @ (lz_socket s, t) # ys \<Longrightarrow>
     lazy_step s (client_polls (Some t) (s\<lparr>lz_replies := xs @ ys\<rparr>))"
| crash: "\<not> lz_crashed s \<Longrightarrow> lz_working s = None \<Longrightarrow> lz_requests s = xs @ m # ys \<Longrightarrow>
     r1 < 2 ^ 31 \<Longrightarrow> r2 < 2 ^ 31 \<Longrightarrow> server_fate (Suc (lz_cycles s)) r1 r2 = Crashes \<Longrightarrow>
     lazy_step s (s\<lparr>lz_requests := xs @ ys, lz_cycles := Suc (lz_cycles s), lz_crashed := True\<rparr>)"
| take: "\<not> lz_crashed s \<Longrightarrow> lz_working s = None \<Longrightarrow> lz_requests s = xs @ m # ys \<Longrightarrow>
     r1 < 2 ^ 31 \<Longrightarrow> r2 < 2 ^ 31 \<Longrightarrow> server_fate (Suc (lz_cycles s)) r1 r2 \<noteq> Crashes \<Longrightarrow>
     lazy_step s (s\<lparr>lz_requests := xs @ ys, lz_cycles := Suc (lz_cycles s), lz_working := Some m\<rparr>)"
| answer: "lz_working s = Some m \<Longrightarrow>
     lazy_step s (s\<lparr>lz_working := None, lz_replies := lz_replies s @ [m], lz_served := lz_served s @ [snd m]\<rparr>)"

definition lazy_start :: lazy_pirate where
  "lazy_start =
     (let (c, k, ms) = lp_started in
      \<lparr>lz_client = c, lz_socket = k, lz_gave_up = False, lz_requests = ms, lz_cycles = 0, lz_working = None,
       lz_crashed = False, lz_replies = [], lz_served = []\<rparr>)"

subsection \<open>Only the current request can be answered\<close>

definition out_there :: "lazy_pirate \<Rightarrow> (nat \<times> bytes) multiset" where
  "out_there s = mset (lz_requests s) + mset (case lz_working s of None \<Rightarrow> [] | Some m \<Rightarrow> [m]) + mset (lz_replies s)"

definition lazy_inv :: "lazy_pirate \<Rightarrow> bool" where
  "lazy_inv s \<longleftrightarrow> client_ok (\<lambda>k. k) (lz_client s) (lz_socket s) (lz_gave_up s) (out_there s)
     \<and> (\<forall>t \<in> set (lz_served s). numbered (sequence_nr (lz_client s)) t) \<and> (lz_crashed s \<longrightarrow> 3 < lz_cycles s)"

lemma named_own [simp]: "named (\<lambda>k. k) ms = mset ms"
  by (simp add: named_def)

lemma client_ok_numbered: "client_ok (\<lambda>k. k) c k over ms \<Longrightarrow> m \<in># ms \<Longrightarrow> numbered (sequence_nr c) (snd m)"
  by (cases m) (auto simp: client_ok_def tokens_ok_def)

lemma lazy_step_inv:
  assumes "lazy_step s t" "lazy_inv s"
  shows "lazy_inv t"
  using assms(1)
proof (cases rule: lazy_step.cases)
  case timeout
  obtain over c k ms where p: "polls_once None (lz_client s) (lz_socket s) = (over, c, k, ms)" by (metis prod_cases4)
  with client_ok_timeout [OF _ _ p, of "\<lambda>k. k" "out_there s"] timeout assms(2) show ?thesis
    by (auto simp: lazy_inv_def out_there_def client_polls_def inj_def ac_simps)
next
  case (reply xs u ys)
  obtain over c k ms where p: "polls_once (Some u) (lz_client s) (lz_socket s) = (over, c, k, ms)" by (metis prod_cases4)
  let ?rest = "mset (lz_requests s) + mset (case lz_working s of None \<Rightarrow> [] | Some m \<Rightarrow> [m]) + mset (xs @ ys)"
  have "client_ok (\<lambda>k. k) (lz_client s) (lz_socket s) (lz_gave_up s) (add_mset (lz_socket s, u) ?rest)"
    using assms(2) reply(3) by (simp add: lazy_inv_def out_there_def)
  from client_ok_reply [OF this _ p] have
    "client_ok (\<lambda>k. k) c k over (?rest + mset ms)" "sequence_nr c = Suc (sequence_nr (lz_client s))" by (simp_all add: inj_def)
  with reply(1) p assms(2) show ?thesis
    by (auto simp: lazy_inv_def out_there_def client_polls_def ac_simps intro: numbered_mono)
next
  case (crash xs m ys r1 r2)
  have "out_there t \<subseteq># out_there s" using crash by (simp add: out_there_def)
  with crash assms(2) show ?thesis
    by (auto simp: lazy_inv_def server_fate_def intro: client_ok_less split: if_splits)
next
  case (take xs m ys r1 r2)
  then have "out_there t = out_there s" by (simp add: out_there_def)
  with take assms(2) show ?thesis by (auto simp: lazy_inv_def split: if_splits)
next
  case (answer m)
  then have "out_there t = out_there s" "m \<in># out_there s" by (simp_all add: out_there_def)
  with answer assms(2) client_ok_numbered show ?thesis by (fastforce simp: lazy_inv_def)
qed

interpretation lazy: stepping lazy_step lazy_inv
  by unfold_locales (rule lazy_step_inv)

lemma lazy_start_inv: "lazy_inv lazy_start"
proof -
  obtain c k ms where p: "lp_started = (c, k, ms)" by (metis prod_cases3)
  from client_ok_started [OF _ p, of "\<lambda>k. k"] show ?thesis
    by (auto simp: lazy_inv_def lazy_start_def out_there_def p inj_def)
qed

text \<open>
  C33. In every run of client and server, a reply that arrives at the current socket carries the
  number the client expects, so that it goes on to the next request; the server has only seen
  numbers the client sent, it never ends before its fourth request, and a client that has not given
  up has one to three tries left.
\<close>

theorem lazy_pirate_sound:
  assumes "lazy_step\<^sup>*\<^sup>* lazy_start s"
  shows "(\<forall>t. (lz_socket s, t) \<in> set (lz_replies s) \<longrightarrow>
      sequence_nr (lz_client (client_polls (Some t) s)) = Suc (sequence_nr (lz_client s)))
    \<and> (\<forall>t \<in> set (lz_served s). \<exists>i. 1 \<le> i \<and> i \<le> sequence_nr (lz_client s) \<and> t = decimal i)
    \<and> (lz_crashed s \<longrightarrow> 3 < lz_cycles s)
    \<and> (lz_gave_up s \<or> (1 \<le> retries_left (lz_client s) \<and> retries_left (lz_client s) \<le> 3))"
proof -
  have inv: "lazy_inv s" by (rule lazy.run_inv [OF assms lazy_start_inv])
  have "sequence_nr (lz_client (client_polls (Some t) s)) = Suc (sequence_nr (lz_client s))"
    if "(lz_socket s, t) \<in> set (lz_replies s)" for t
  proof -
    have "(lz_socket s, t) \<in># out_there s" using that by (simp add: out_there_def)
    with inv client_ok_expected [of "\<lambda>k. k"] show ?thesis by (fastforce simp: lazy_inv_def client_polls_def)
  qed
  with inv show ?thesis by (auto simp: lazy_inv_def client_ok_def numbered_def split: if_splits)
qed

subsection \<open>An instance\<close>

definition after_first :: lazy_pirate where
  "after_first = lazy_start\<lparr>lz_requests := [], lz_cycles := 1, lz_working := None, lz_replies := [(1, decimal 1)], lz_served := [decimal 1]\<rparr>"

lemma after_first_reached: "lazy_step\<^sup>*\<^sup>* lazy_start after_first"
proof -
  let ?t = "lazy_start\<lparr>lz_requests := [], lz_cycles := 1, lz_working := Some (1, decimal 1)\<rparr>"
  have s: "lz_requests lazy_start = [] @ (1, decimal 1) # []" "lz_working lazy_start = None" "lz_cycles lazy_start = 0"
    "\<not> lz_crashed lazy_start" "lz_replies lazy_start = []" "lz_served lazy_start = []"
    by (simp_all add: lazy_start_def lp_started_def lpclient_main_def lp_next_def lp_send_def s_client_socket_def lp_act_def Let_def)
  have "lazy_step lazy_start ?t"
    using lazy_step.take [OF s(4,2,1), of 0 0] s(3) by (simp add: server_fate_def)
  moreover have "lazy_step ?t after_first"
    using lazy_step.answer [of ?t "(1, decimal 1)"] s by (simp add: after_first_def)
  ultimately show ?thesis by (meson converse_rtranclp_into_rtranclp rtranclp.rtrancl_refl)
qed

lemma lazy_pirate_sound_witness:
  "sequence_nr (lz_client (client_polls (Some (decimal 1)) after_first)) = 2 \<and> \<not> lz_crashed after_first"
proof -
  have s: "lz_socket after_first = 1" "sequence_nr (lz_client after_first) = 1" "lz_replies after_first = [(1, decimal 1)]" "lz_cycles after_first = 1"
    by (simp_all add: after_first_def lazy_start_def lp_started_def lpclient_main_def lp_next_def lp_send_def s_client_socket_def lp_act_def Let_def)
  with lazy_pirate_sound [OF after_first_reached] show ?thesis by auto
qed

end
