(* ===== verification/Udp_Ping.thy ===== *)
theory Udp_Ping
  imports Prelude "HOL-Library.Word"
begin

section \<open>The UDP ping (udpping1.cpp)\<close>

text \<open>
  \<open>Common/zmq/example/udpping1.cpp\<close> sends five broadcasts and prints what a thread of it receives. Both sides have a buffer
  of two bytes and give the system three: what lies behind the buffer of \<open>main\<close> is sent, what lies behind the buffer of the
  listener is written. \<open>frame\<close> is the memory of the listener from the byte behind its buffer on. Results of system calls
  are arguments.
\<close>

subsection \<open>Constants\<close>

definition PING_MSG_SIZE :: nat where "PING_MSG_SIZE = 2"
definition INVALID_SOCKET :: "32 word" where "INVALID_SOCKET = NOT 0"
definition SOCKET_ERROR :: "32 word" where "SOCKET_ERROR = NOT 1"
definition NO_ERROR :: "32 word" where "NO_ERROR = 0"

subsection \<open>Sending\<close>

datatype ping_error = SocketFailed | OptionFailed | SendFailed

definition ping_buffer :: bytes where
  "ping_buffer = bytes_of ''!'' @ replicate (PING_MSG_SIZE - 1) 0"

text \<open>\<open>behind\<close>: the memory after the buffer.\<close>

definition ping_datagram :: "bytes \<Rightarrow> bytes" where
  "ping_datagram behind = take (PING_MSG_SIZE + 1) (ping_buffer @ behind)"

text \<open>What \<open>main\<close> reports, given the results of \<open>socket\<close>, \<open>setsockopt\<close> and the five calls of \<open>sendto\<close>.\<close>

definition ping_main :: "32 word \<Rightarrow> 32 word \<Rightarrow> 32 word list \<Rightarrow> ping_error list" where
  "ping_main fd result sent =
     (if fd = INVALID_SOCKET then [SocketFailed] else [])
     @ (if result \<noteq> NO_ERROR then [OptionFailed] else [])
     @ concat (map (\<lambda>bytes. if bytes = SOCKET_ERROR then [SendFailed] else []) (take 5 sent))"

subsection \<open>Receiving\<close>

text \<open>One datagram: the text that is printed, up to a NUL wherever it is, and the memory behind the buffer afterwards.\<close>

definition ping_receive :: "bytes \<Rightarrow> bytes \<Rightarrow> bytes \<times> bytes" where
  "ping_receive frame datagram =
     (let got = take (PING_MSG_SIZE + 1) datagram;
          memory = got @ drop (length got) (replicate PING_MSG_SIZE 0 @ frame)
      in (c_str memory, drop PING_MSG_SIZE memory))"

text \<open>The loop of the listener over the results of its polls, with the flag as it is found before each.\<close>

fun ping_listener :: "bytes \<Rightarrow> (bool \<times> bytes option) list \<Rightarrow> bytes list \<times> bytes" where
  "ping_listener frame [] = ([], frame)"
| "ping_listener frame ((interrupted, arrival) # polls) =
     (if interrupted then ([], frame)
      else case arrival of
        None \<Rightarrow> ping_listener frame polls
      | Some d \<Rightarrow>
          let (shown, frame) = ping_receive frame d; (rest, frame) = ping_listener frame polls
          in (shown # rest, frame))"

subsection \<open>What comes through\<close>

lemma ping_datagram_behind: "behind \<noteq> [] \<Longrightarrow> ping_datagram behind = [33, 0, hd behind]"
  by (cases behind) (simp_all add: ping_datagram_def ping_buffer_def PING_MSG_SIZE_def bytes_of_def numeral_2_eq_2)

lemma ping_receive_ping: "ping_receive (x # frame) [33, 0, b] = ([33], b # frame)"
  by (simp add: ping_receive_def PING_MSG_SIZE_def c_str_def)

lemma ping_receive_short: "length d \<le> 2 \<Longrightarrow> snd (ping_receive frame d) = frame"
  by (auto simp: ping_receive_def PING_MSG_SIZE_def Let_def numeral_2_eq_2 le_Suc_eq length_Suc_conv)

text \<open>A failed \<open>sendto\<close> returns -1, which is not the value it is compared with.\<close>

lemma errors_are_not_the_same: "INVALID_SOCKET = -1" "SOCKET_ERROR = -2" "SOCKET_ERROR \<noteq> INVALID_SOCKET"
  by (simp_all add: INVALID_SOCKET_def SOCKET_ERROR_def not_eq_complement)

lemma ping_listener_pings:
  assumes "\<forall>p \<in> set polls. p = (False, None) \<or> p = (False, Some [33, 0, b])"
  shows "fst (ping_listener (x # frame) polls) = replicate (length (filter (\<lambda>p. snd p \<noteq> None) polls)) [33]
    \<and> snd (ping_listener (x # frame) polls) = (if \<exists>p \<in> set polls. snd p \<noteq> None then b else x) # frame"
  using assms
proof (induction polls arbitrary: x)
  case (Cons p polls)
  then consider "p = (False, None)" | "p = (False, Some [33, 0, b])" by auto
  then show ?case
  proof cases
    case 1
    with Cons.IH [of x] Cons.prems show ?thesis by simp
  next
    case 2
    with Cons.IH [of b] Cons.prems show ?thesis by (simp add: ping_receive_ping split_beta)
  qed
qed simp

theorem ping_overruns_both_buffers:
  assumes "b = hd behind" "behind \<noteq> []" "\<forall>p \<in> set polls. p = (False, None) \<or> p = (False, Some (ping_datagram behind))"
    and "0 < length (filter (\<lambda>p. snd p \<noteq> None) polls)"
  shows "ping_listener (x # frame) polls = (replicate (length (filter (\<lambda>p. snd p \<noteq> None) polls)) [33], b # frame)
    \<and> (SendFailed \<in> set (ping_main fd result sent) \<longleftrightarrow> (\<exists>r \<in> set (take 5 sent). r = -2))
    \<and> ping_main fd result (replicate 5 (-1)) = ping_main fd result (replicate 5 3)"
proof -
  have "\<exists>p \<in> set polls. snd p \<noteq> None" using assms(4) by (auto simp: filter_empty_conv)
  with ping_listener_pings [of polls b x frame] assms(1-3)
  have "ping_listener (x # frame) polls = (replicate (length (filter (\<lambda>p. snd p \<noteq> None) polls)) [33], b # frame)"
    by (simp add: ping_datagram_behind prod_eq_iff)
  moreover have "SendFailed \<in> set (ping_main fd result sent) \<longleftrightarrow> (\<exists>r \<in> set (take 5 sent). r = -2)"
    by (auto simp: ping_main_def errors_are_not_the_same split: if_splits)
  moreover have "ping_main fd result (replicate 5 (-1)) = ping_main fd result (replicate 5 3)"
    by (simp add: ping_main_def errors_are_not_the_same)
  ultimately show ?thesis by blast
qed

lemma ping_overruns_both_buffers_witness:
  "ping_listener [1, 2] [(False, None), (False, Some [33, 0, 7])] = ([[33]], [7, 2])
   \<and> ping_main 5 0 (replicate 5 (-1)) = ping_main 5 0 (replicate 5 3)"
  using ping_overruns_both_buffers [of 7 "[7]" "[(False, None), (False, Some [33, 0, 7])]" 1 "[2]" 5 0 "[]"]
  by (simp add: ping_datagram_behind)

end
