(* ===== verification/Broker_Module.thy ===== *)
theory Broker_Module
  imports Mdp
begin

section \<open>The draft of a broker module (brockerModule)\<close>

text \<open>
  \<open>Common/zmq/brockerModule/src\<close>: a class \<open>zmsg\<close> of its own, whose parts are strings of any bytes, a client that sends one
  message and a broker that prints what arrives. It is compared with the class \<open>zmsg\<close> of the Majordomo programs, from which
  it was taken. \<open>mdworker.cpp\<close> of that directory is unfinished and does not compile.
\<close>

subsection \<open>Messages\<close>

definition bm_new :: "bytes \<Rightarrow> bytes list" where
  "bm_new str = [str]"

definition bm_send :: "bytes list \<Rightarrow> wire" where
  "bm_send m = map (\<lambda>part_nbr. (m ! part_nbr, part_nbr < length m - 1)) [0..<length m]"

text \<open>The parts are appended to what the message has; the frames that are left.\<close>

fun bm_recv :: "bytes list \<Rightarrow> wire \<Rightarrow> fault + (bytes list \<times> wire)" where
  "bm_recv m [] = Inl Blocks"
| "bm_recv m ((d, more_parts) # w) = (if more_parts then bm_recv (m @ [d]) w else Inr (m @ [d], w))"

definition bm_dump :: "bytes list \<Rightarrow> bytes" where
  "bm_dump m = replicate 35 45 @ [10] @ concat (map (\<lambda>d. d @ [10]) m)"

subsection \<open>Broker and client\<close>

text \<open>What the broker prints for the messages that arrive.\<close>

definition start_brocking :: "wire list \<Rightarrow> fault + bytes list" where
  "start_brocking ws = mapE (\<lambda>w. bindE (bm_recv [] w) (\<lambda>(m, _). Inr (bm_dump m))) ws"

text \<open>The identity of the client, from two random numbers, and what it sends.\<close>

definition bm_client_main :: "nat \<times> nat \<Rightarrow> bytes \<times> wire" where
  "bm_client_main r = (set_id_text r, bm_send (bm_new (bytes_of ''Hello world'')))"

subsection \<open>The same as the class it was taken from\<close>

lemma with_more_inj: "with_more xs = with_more ys \<Longrightarrow> xs = ys"
  by (metis map_fst_with_more)

lemma bm_send_with_more: "bm_send m = with_more m"
proof -
  have "mapE (\<lambda>n. bindE (Inr (m ! n)) (\<lambda>d. Inr (d, n < length m - 1))) [0..<length m] = (Inr (bm_send m) :: fault + wire)"
    by (simp add: bm_send_def mapE_Inr_map)
  moreover have "mapE Inr m = (Inr m :: fault + bytes list)" by (simp add: mapE_id_iff)
  ultimately show ?thesis using mapE_send_flags [of "Inr :: bytes \<Rightarrow> fault + bytes" m 0] by simp
qed

lemma bm_recv_with_more: "ds \<noteq> [] \<Longrightarrow> bm_recv m (with_more ds @ w) = Inr (m @ ds, w)"
proof (induction ds arbitrary: m)
  case (Cons d ds)
  then show ?case by (cases ds) simp_all
qed simp

text \<open>
  C34. What bm_send sends, bm_recv reads back, whatever bytes it has. The zmsg of the examples,
  whose send loop starts at part 0, sends the same frames exactly if no part looks like a printed
  UUID. The zmsg of officialMajordomo, whose loop starts at part 1, never sends the same frames,
  but those of the message without its first part, exactly if none of the others looks like a
  printed UUID. Both read the same parts exactly if no frame is a binary UUID. The broker prints
  the identity of the client, an empty line and the message.
\<close>

theorem module_agrees_with_zmsg:
  assumes "m \<noteq> []"
  shows "bm_recv [] (bm_send m @ w) = Inr (m, w)
    \<and> (zmsg_send send_start_example m = Inr (bm_send m, []) \<longleftrightarrow> (\<forall>d \<in> set m. \<not> is_uuid_part d))
    \<and> (zmsg_send send_start m = Inr (bm_send (tl m), []) \<longleftrightarrow> (\<forall>d \<in> set (tl m). \<not> is_uuid_part d))
    \<and> zmsg_send send_start m \<noteq> Inr (bm_send m, [])
    \<and> (zmsg_recv (deliver (map fst (bm_send m))) zmsg_new = Inr (True, m) \<longleftrightarrow> (\<forall>d \<in> set m. \<not> is_uuid_frame d))
    \<and> (req_laws link_in link_out \<longrightarrow>
         start_brocking [with_more (link_in identity (map fst (bm_send m)))] = Inr [bm_dump (identity # [] # m)])"
proof -
  have "bm_recv [] (bm_send m @ w) = Inr (m, w)"
    using bm_recv_with_more [OF assms, of "[]"] by (simp add: bm_send_with_more)
  moreover have "zmsg_send send_start_example m = Inr (bm_send m, []) \<longleftrightarrow> mapE send_part m = Inr m"
    by (auto simp: zmsg_send_eq send_start_example_def bm_send_with_more bindE_eq_Inr dest: with_more_inj)
  then have "zmsg_send send_start_example m = Inr (bm_send m, []) \<longleftrightarrow> (\<forall>d \<in> set m. \<not> is_uuid_part d)"
    by (simp add: mapE_id_iff send_part_same)
  moreover have tl: "zmsg_send send_start m = Inr (bm_send k, []) \<longleftrightarrow> mapE send_part (tl m) = Inr k" for k
    by (auto simp: zmsg_send_eq send_start_def drop_Suc bm_send_with_more bindE_eq_Inr dest: with_more_inj)
  then have "zmsg_send send_start m = Inr (bm_send (tl m), []) \<longleftrightarrow> (\<forall>d \<in> set (tl m). \<not> is_uuid_part d)"
    by (simp add: mapE_id_iff send_part_same)
  moreover have "zmsg_send send_start m \<noteq> Inr (bm_send m, [])"
    using tl [of m] mapE_length [of send_part "tl m" m] assms by (cases m) auto
  moreover have "zmsg_recv (deliver (map fst (bm_send m))) zmsg_new = Inr (True, m) \<longleftrightarrow> (\<forall>d \<in> set m. \<not> is_uuid_frame d)"
    using assms by (simp add: bm_send_with_more recv_deliver bindE_eq_Inr mapE_id_iff recv_part_same)
  moreover have "start_brocking [with_more (link_in identity (map fst (bm_send m)))] = Inr [bm_dump (identity # [] # m)]"
    if "req_laws link_in link_out"
    using that bm_recv_with_more [of "identity # [] # m" "[]" "[]"] by (simp add: start_brocking_def req_laws_def bm_send_with_more)
  ultimately show ?thesis by blast
qed

lemma module_agrees_with_zmsg_witness:
  "bm_recv [] (bm_send [[1, 0], []] @ [([2], False)]) = Inr ([[1, 0], []], [([2], False)])
   \<and> start_brocking [with_more ((\<lambda>i fs. i # [] # fs) [65] (map fst (snd (bm_client_main (1, 2)))))]
       = Inr [bm_dump [[65], [], bytes_of ''Hello world'']]"
  using module_agrees_with_zmsg [of "[[1, 0], []]" "[([2], False)]"]
    module_agrees_with_zmsg [of "bm_new (bytes_of ''Hello world'')" "[]" "\<lambda>i fs. i # [] # fs" "\<lambda>fs. (hd fs, tl (tl fs))" "[65]"]
  by (simp add: bm_new_def bm_client_main_def req_laws_def)

end
