(* ===== verification/Request_Reply.thy ===== *)
theory Request_Reply
  imports Mdp Interleaving
begin

section \<open>Request and reply through a broker (rrclient.cpp, rrbroker.cpp, rrworker.cpp and others)\<close>

text \<open>
  Programs of \<open>Common/zmq/example\<close>: clients that send ten requests and wait for the reply to each (\<open>rrclient.cpp\<close>,
  \<open>hwclient.cpp\<close>), workers that answer every request with the same text (\<open>rrworker.cpp\<close>, the threads of
  \<open>mtserver.cpp\<close>), and between them a broker that passes messages on (\<open>rrbroker.cpp\<close>, or the proxy of libzmq in
  \<open>msgqueue.cpp\<close> and \<open>mtserver.cpp\<close>). Any number of clients and workers run side by side. The DEALER socket of the broker
  gives a message to any worker. What the sockets add and take off is given by functions.
\<close>

subsection \<open>The programs\<close>

definition rr_request :: wire where "rr_request = [(bytes_of ''Hello'', False)]"
definition hw_request :: wire where "hw_request = [(bytes_of ''Hello'', False)]"
definition rr_reply :: wire where "rr_reply = [(bytes_of ''World'', False)]"
definition hw_reply :: wire where "hw_reply = [(bytes_of ''World'', False)]"
definition mt_reply :: wire where "mt_reply = [(bytes_of ''World'' @ [0], False)]"

text \<open>What \<open>mtserver\<close> prints of a request: it looks for the NUL in what lies behind.\<close>

definition mt_shown :: "bytes \<Rightarrow> bytes \<Rightarrow> bytes" where
  "mt_shown behind request = c_str (request @ behind)"

record rr_client =
  rr_waits :: bool
  rr_replies :: "bytes list"

definition rr_asks :: "rr_client \<Rightarrow> rr_client option" where
  "rr_asks c = (if \<not> rr_waits c \<and> length (rr_replies c) < 10 then Some (c\<lparr>rr_waits := True\<rparr>) else None)"

definition rr_gets :: "bytes list \<Rightarrow> rr_client \<Rightarrow> rr_client option" where
  "rr_gets m c =
     (if rr_waits c then
        case s_recv m of
          Inl _ \<Rightarrow> None
        | Inr (text, _) \<Rightarrow> Some (c\<lparr>rr_waits := False, rr_replies := rr_replies c @ [text]\<rparr>)
      else None)"

text \<open>The two loops of the broker; a proxy of libzmq does the same.\<close>

definition rr_to_workers :: "wire \<Rightarrow> fault + (wire \<times> wire)" where "rr_to_workers = relay_parts"
definition rr_to_clients :: "wire \<Rightarrow> fault + (wire \<times> wire)" where "rr_to_clients = relay_parts"

subsection \<open>All of them side by side\<close>

record rr_env =
  client_ids :: "bytes list"
  worker_count :: nat
  request_of :: wire
  reply_of :: wire
  link_in :: "bytes \<Rightarrow> bytes list \<Rightarrow> bytes list"
  link_out :: "bytes list \<Rightarrow> bytes \<times> bytes list"
  rep_in :: "bytes list \<Rightarrow> bytes list \<times> bytes list"
  rep_out :: "bytes list \<Rightarrow> bytes list \<Rightarrow> bytes list"

text \<open>A worker keeps the envelope of the request it works on.\<close>

record rr_system =
  rr_clients :: "rr_client list"
  rr_working :: "(nat \<times> bytes list \<times> bytes) list"
  at_frontend :: "bytes list list"
  to_workers :: "(nat \<times> bytes list) list"
  at_backend :: "bytes list list"
  to_clients :: "(bytes \<times> bytes list) list"

inductive rr_step :: "rr_env \<Rightarrow> rr_system \<Rightarrow> rr_system \<Rightarrow> bool" for E where
  asks: "i < length (rr_clients s) \<Longrightarrow> rr_asks (rr_clients s ! i) = Some c \<Longrightarrow>
     rr_step E s (s\<lparr>rr_clients := (rr_clients s)[i := c],
       at_frontend := at_frontend s @ [link_in E (client_ids E ! i) (map fst (request_of E))]\<rparr>)"
| goes: "at_frontend s = xs @ m # ys \<Longrightarrow> rr_to_workers (with_more m) = Inr (w, []) \<Longrightarrow> j < worker_count E \<Longrightarrow>
     rr_step E s (s\<lparr>at_frontend := xs @ ys, to_workers := to_workers s @ [(j, map fst w)]\<rparr>)"
| takes: "to_workers s = xs @ (j, m) # ys \<Longrightarrow> j \<notin> fst ` set (rr_working s) \<Longrightarrow> rep_in E m = (envelope, fs) \<Longrightarrow>
     s_recv fs = Inr (request, rest) \<Longrightarrow>
     rr_step E s (s\<lparr>to_workers := xs @ ys, rr_working := rr_working s @ [(j, envelope, request)]\<rparr>)"
| answers: "rr_working s = xs @ (j, envelope, request) # ys \<Longrightarrow>
     rr_step E s (s\<lparr>rr_working := xs @ ys, at_backend := at_backend s @ [rep_out E envelope (map fst (reply_of E))]\<rparr>)"
| returns: "at_backend s = xs @ m # ys \<Longrightarrow> rr_to_clients (with_more m) = Inr (w, []) \<Longrightarrow>
     rr_step E s (s\<lparr>at_backend := xs @ ys, to_clients := to_clients s @ [link_out E (map fst w)]\<rparr>)"
| gets: "i < length (rr_clients s) \<Longrightarrow> to_clients s = xs @ (client_ids E ! i, m) # ys \<Longrightarrow> rr_gets m (rr_clients s ! i) = Some c \<Longrightarrow>
     rr_step E s (s\<lparr>rr_clients := (rr_clients s)[i := c], to_clients := xs @ ys\<rparr>)"

definition rr_start :: "nat \<Rightarrow> rr_system" where
  "rr_start n = \<lparr>rr_clients = replicate n \<lparr>rr_waits = False, rr_replies = []\<rparr>, rr_working = [], at_frontend = [],
     to_workers = [], at_backend = [], to_clients = []\<rparr>"

text \<open>
  A REP socket splits off what stands in front of the first empty frame, with that frame, and puts it in front of the
  reply. Identities are different (a ROUTER refuses a second peer of the same name) and not empty.
\<close>

definition rep_laws :: "(bytes list \<Rightarrow> bytes list \<times> bytes list) \<Rightarrow> (bytes list \<Rightarrow> bytes list \<Rightarrow> bytes list) \<Rightarrow> bool" where
  "rep_laws inn out \<longleftrightarrow>
     (\<forall>i fs. i \<noteq> [] \<longrightarrow> inn (i # [] # fs) = ([i, []], fs)) \<and> (\<forall>envelope fs. out envelope fs = envelope @ fs)"

definition rr_setting :: "rr_env \<Rightarrow> bytes \<Rightarrow> bool" where
  "rr_setting E text \<longleftrightarrow> req_laws (link_in E) (link_out E) \<and> rep_laws (rep_in E) (rep_out E)
     \<and> distinct (client_ids E) \<and> [] \<notin> set (client_ids E) \<and> 0 < worker_count E
     \<and> length (request_of E) = 1 \<and> reply_of E = [(text, False)]"

subsection \<open>Where each request is\<close>

definition rr_done :: "bytes \<Rightarrow> rr_system \<Rightarrow> bool" where
  "rr_done text s \<longleftrightarrow> (\<forall>c \<in> set (rr_clients s). \<not> rr_waits c \<and> rr_replies c = replicate 10 text)
     \<and> at_frontend s = [] \<and> to_workers s = [] \<and> rr_working s = [] \<and> at_backend s = [] \<and> to_clients s = []"

definition rr_under_way :: "rr_system \<Rightarrow> bytes multiset" where
  "rr_under_way s = mset (map hd (at_frontend s)) + mset (map (hd \<circ> snd) (to_workers s))
     + mset (map (hd \<circ> fst \<circ> snd) (rr_working s)) + mset (map hd (at_backend s)) + mset (map fst (to_clients s))"

definition rr_client_ok :: "bytes \<Rightarrow> rr_client \<Rightarrow> bool" where
  "rr_client_ok text c \<longleftrightarrow> set (rr_replies c) \<subseteq> {text}
     \<and> length (rr_replies c) + of_bool (rr_waits c) \<le> 10"

definition rr_shapes :: "rr_env \<Rightarrow> bytes \<Rightarrow> rr_system \<Rightarrow> bool" where
  "rr_shapes E text s \<longleftrightarrow>
     (\<forall>m \<in> set (at_frontend s). \<exists>c q. c \<noteq> [] \<and> m = [c, [], q])
     \<and> (\<forall>x \<in> set (to_workers s). fst x < worker_count E \<and> (\<exists>c q. c \<noteq> [] \<and> snd x = [c, [], q]))
     \<and> (\<forall>x \<in> set (rr_working s). \<exists>c. fst (snd x) = [c, []])
     \<and> (\<forall>m \<in> set (at_backend s). \<exists>c. m = [c, [], text])
     \<and> (\<forall>x \<in> set (to_clients s). snd x = [text])
     \<and> (\<forall>c \<in> set (rr_clients s). rr_client_ok text c)"

definition rr_inv :: "rr_env \<Rightarrow> bytes \<Rightarrow> rr_system \<Rightarrow> bool" where
  "rr_inv E text s \<longleftrightarrow> rr_setting E text \<and> length (rr_clients s) = length (client_ids E) \<and> rr_shapes E text s
     \<and> rr_under_way s = marked rr_waits (client_ids E) (rr_clients s)"

definition still_to_ask :: "rr_client \<Rightarrow> nat" where
  "still_to_ask c = 10 - (length (rr_replies c) + of_bool (rr_waits c))"

definition rr_left :: "rr_system \<Rightarrow> nat" where
  "rr_left s = 6 * sum_list (map still_to_ask (rr_clients s)) + 5 * length (at_frontend s) + 4 * length (to_workers s)
     + 3 * length (rr_working s) + 2 * length (at_backend s) + length (to_clients s)"

lemmas rr_inv_defs = rr_inv_def rr_shapes_def rr_under_way_def rr_left_def

lemma rr_asks_Some:
  "rr_asks c = Some d \<longleftrightarrow> \<not> rr_waits c \<and> length (rr_replies c) < 10 \<and> d = c\<lparr>rr_waits := True\<rparr>"
  by (auto simp: rr_asks_def)

lemma rr_gets_Some:
  "rr_gets m c = Some d \<longleftrightarrow> rr_waits c \<and> (\<exists>text rest. m = text # rest \<and> d = c\<lparr>rr_waits := False, rr_replies := rr_replies c @ [text]\<rparr>)"
  by (cases m) (auto simp: rr_gets_def)

lemma rr_asks_ok: "rr_asks c = Some d \<Longrightarrow> rr_client_ok text c \<Longrightarrow> rr_client_ok text d"
  by (simp add: rr_asks_Some rr_client_ok_def)

lemma rr_gets_ok: "rr_gets [text] c = Some d \<Longrightarrow> rr_client_ok text c \<Longrightarrow> rr_client_ok text d"
  by (auto simp: rr_gets_Some rr_client_ok_def)

lemma relay_whole: "m \<noteq> [] \<Longrightarrow> relay_parts (with_more m) = Inr (with_more m, [])"
  using relay_parts_message [of m "[]"] by simp

lemma still_to_ask_update:
  "i < length cs \<Longrightarrow>
   sum_list (map still_to_ask (cs[i := c])) + still_to_ask (cs ! i) = sum_list (map still_to_ask cs) + still_to_ask c"
proof (induction cs arbitrary: i)
  case (Cons d cs)
  then show ?case by (cases i) auto
qed simp

lemma rr_asks_inv:
  assumes "rr_inv E text s" "i < length (rr_clients s)" "rr_asks (rr_clients s ! i) = Some c"
    and "t = s\<lparr>rr_clients := (rr_clients s)[i := c],
       at_frontend := at_frontend s @ [link_in E (client_ids E ! i) (map fst (request_of E))]\<rparr>"
  shows "rr_inv E text t \<and> rr_left t < rr_left s"
proof -
  have c: "\<not> rr_waits (rr_clients s ! i)" "length (rr_replies (rr_clients s ! i)) < 10" "c = (rr_clients s ! i)\<lparr>rr_waits := True\<rparr>"
    using assms(3) by (simp_all add: rr_asks_Some)
  have len: "length (rr_clients s) = length (client_ids E)" and set: "rr_setting E text" using assms(1) by (simp_all add: rr_inv_def)
  then obtain q where q: "map fst (request_of E) = [q]" by (auto simp: rr_setting_def length_Suc_conv)
  have ok: "rr_client_ok text (rr_clients s ! i)" using assms(1,2) by (simp add: rr_inv_def rr_shapes_def)
  have id: "client_ids E ! i \<noteq> []" using set assms(2) len by (metis nth_mem rr_setting_def)
  have m: "link_in E (client_ids E ! i) (map fst (request_of E)) = [client_ids E ! i, [], q]"
    using set by (simp add: q rr_setting_def req_laws_def)
  have "rr_under_way t = marked rr_waits (client_ids E) (rr_clients t)"
    using assms(1,2,4) m c marked_update [OF assms(2) len, of rr_waits c] by (simp add: rr_inv_defs)
  moreover have "rr_shapes E text t"
    using assms(1,4) m id rr_asks_ok [OF assms(3) ok] by (auto simp: rr_inv_def rr_shapes_def dest!: set_update)
  moreover have "rr_left t < rr_left s"
    using assms(4) c still_to_ask_update [OF assms(2), of c] by (simp add: rr_left_def still_to_ask_def)
  ultimately show ?thesis using assms(1,4) by (simp add: rr_inv_def)
qed

lemma rr_gets_inv:
  assumes "rr_inv E text s" "i < length (rr_clients s)" "to_clients s = xs @ (client_ids E ! i, m) # ys"
    and "rr_gets m (rr_clients s ! i) = Some c" "t = s\<lparr>rr_clients := (rr_clients s)[i := c], to_clients := xs @ ys\<rparr>"
  shows "rr_inv E text t \<and> rr_left t < rr_left s"
proof -
  have len: "length (rr_clients s) = length (client_ids E)" and m: "m = [text]"
    using assms(1,3) by (auto simp: rr_inv_def rr_shapes_def)
  then have c: "rr_waits (rr_clients s ! i)" "c = (rr_clients s ! i)\<lparr>rr_waits := False, rr_replies := rr_replies (rr_clients s ! i) @ [text]\<rparr>"
    using assms(4) by (auto simp: rr_gets_Some)
  have ok: "rr_client_ok text (rr_clients s ! i)" using assms(1,2) by (simp add: rr_inv_def rr_shapes_def)
  have "add_mset (client_ids E ! i) (rr_under_way t) = add_mset (client_ids E ! i) (marked rr_waits (client_ids E) (rr_clients t))"
    using assms(1,3,5) c marked_update [OF assms(2) len, of rr_waits c] by (simp add: rr_inv_defs)
  moreover have "rr_shapes E text t"
    using assms(1,3,5) rr_gets_ok [OF assms(4) [unfolded m] ok] by (auto simp: rr_inv_def rr_shapes_def dest!: set_update)
  moreover have "still_to_ask c = still_to_ask (rr_clients s ! i)" using c ok by (simp add: still_to_ask_def rr_client_ok_def)
  with still_to_ask_update [OF assms(2), of c] assms(3,5) have "rr_left t < rr_left s" by (simp add: rr_left_def)
  ultimately show ?thesis using assms(1,5) by (simp add: rr_inv_def)
qed

lemma rr_step_inv:
  assumes "rr_step E s t" "rr_inv E text s"
  shows "rr_inv E text t \<and> rr_left t < rr_left s"
  using assms(1)
proof (cases rule: rr_step.cases)
  case (asks i c)
  with rr_asks_inv [OF assms(2)] show ?thesis by blast
next
  case (goes xs m ys w j)
  with assms(2) obtain c q where m: "c \<noteq> []" "m = [c, [], q]" by (auto simp: rr_inv_def rr_shapes_def)
  with goes(3) have "map fst w = m" by (auto simp: rr_to_workers_def relay_whole)
  with m goes(1,2,4) assms(2) show ?thesis by (auto simp: rr_inv_defs)
next
  case (takes xs j m ys envelope fs request rest)
  with assms(2) obtain c q where m: "c \<noteq> []" "m = [c, [], q]" by (auto simp: rr_inv_def rr_shapes_def)
  with takes(4) assms(2) have "envelope = [c, []]" by (simp add: rr_inv_def rr_setting_def rep_laws_def)
  with m takes(1,2) assms(2) show ?thesis by (auto simp: rr_inv_defs)
next
  case (answers xs j envelope request ys)
  with assms(2) obtain c where m: "envelope = [c, []]" by (auto simp: rr_inv_def rr_shapes_def)
  moreover from m assms(2) have "rep_out E envelope (map fst (reply_of E)) = [c, [], text]"
    by (simp add: rr_inv_def rr_setting_def rep_laws_def)
  ultimately show ?thesis using answers assms(2) by (auto simp: rr_inv_defs)
next
  case (returns xs m ys w)
  with assms(2) obtain c where m: "m = [c, [], text]" by (auto simp: rr_inv_def rr_shapes_def)
  with returns(3) have "map fst w = m" by (auto simp: rr_to_clients_def relay_whole)
  moreover have "link_out E m = (c, [text])" using m assms(2) by (simp add: rr_inv_def rr_setting_def req_laws_def)
  ultimately show ?thesis using m returns(1,2) assms(2) by (auto simp: rr_inv_defs)
next
  case (gets i xs m ys c)
  with rr_gets_inv [OF assms(2)] show ?thesis by blast
qed

text \<open>If nothing can happen, all requests have been answered.\<close>

lemma rr_stuck:
  assumes inv: "rr_inv E text s" and stuck: "\<nexists>t. rr_step E s t"
  shows "rr_done text s"
proof -
  have set: "rr_setting E text" and len: "length (rr_clients s) = length (client_ids E)" and shapes: "rr_shapes E text s"
    using inv by (simp_all add: rr_inv_def)
  have "at_frontend s = []"
  proof (rule ccontr)
    assume "at_frontend s \<noteq> []"
    then obtain m ms where m: "at_frontend s = [] @ m # ms" by (cases "at_frontend s") auto
    with shapes have "m \<noteq> []" by (auto simp: rr_shapes_def)
    with rr_step.goes [OF m] set stuck show False by (auto simp: rr_to_workers_def relay_whole rr_setting_def)
  qed
  moreover have working: "rr_working s = []"
  proof (rule ccontr)
    assume "rr_working s \<noteq> []"
    then obtain x xs where "rr_working s = x # xs" by (cases "rr_working s") auto
    then obtain j e r where "rr_working s = [] @ (j, e, r) # xs" by (cases x) auto
    with rr_step.answers stuck show False by metis
  qed
  moreover have "to_workers s = []"
  proof (rule ccontr)
    assume "to_workers s \<noteq> []"
    then obtain x xs where x: "to_workers s = x # xs" by (cases "to_workers s") auto
    then obtain j m where m: "to_workers s = [] @ (j, m) # xs" by (cases x) auto
    with shapes obtain c q where "c \<noteq> []" "m = [c, [], q]" by (auto simp: rr_shapes_def)
    then have "rep_in E m = ([c, []], [q])" using set by (simp add: rr_setting_def rep_laws_def)
    with rr_step.takes [OF m, of E "[c, []]" "[q]" q "[]"] working stuck show False by auto
  qed
  moreover have "at_backend s = []"
  proof (rule ccontr)
    assume "at_backend s \<noteq> []"
    then obtain m ms where m: "at_backend s = [] @ m # ms" by (cases "at_backend s") auto
    with shapes have "m \<noteq> []" by (auto simp: rr_shapes_def)
    with rr_step.returns [OF m] stuck show False by (auto simp: rr_to_clients_def relay_whole)
  qed
  moreover have clients: "to_clients s = []"
  proof (rule ccontr)
    assume "to_clients s \<noteq> []"
    then obtain x xs where x: "to_clients s = x # xs" by (cases "to_clients s") auto
    then obtain n m where m: "to_clients s = [] @ (n, m) # xs" by (cases x) auto
    with shapes have "m = [text]" by (auto simp: rr_shapes_def)
    moreover from m inv have "n \<in># marked rr_waits (client_ids E) (rr_clients s)"
      by (metis (no_types, lifting) rr_inv_def rr_under_way_def append_Nil fst_conv list.simps(9) mset.simps(2) union_iff union_single_eq_member)
    then obtain i where i: "i < length (rr_clients s)" "rr_waits (rr_clients s ! i)" "client_ids E ! i = n"
      using marked_member [OF len] by blast
    ultimately show False using rr_step.gets [OF i(1) m [folded i(3)]] stuck by (auto simp: rr_gets_Some)
  qed
  ultimately have "marked rr_waits (client_ids E) (rr_clients s) = {#}" using inv by (simp add: rr_inv_def rr_under_way_def)
  then have "\<not> rr_waits (rr_clients s ! i)" if "i < length (rr_clients s)" for i
    using marked_nth [OF that len, of rr_waits] by auto
  moreover have "\<not> length (rr_replies (rr_clients s ! i)) < 10" if "i < length (rr_clients s)" for i
    using rr_step.asks [OF that] calculation [OF that] stuck by (auto simp: rr_asks_Some)
  ultimately have "\<forall>c \<in> set (rr_clients s). \<not> rr_waits c \<and> \<not> length (rr_replies c) < 10"
    unfolding all_set_conv_all_nth by blast
  with shapes have "\<forall>c \<in> set (rr_clients s). \<not> rr_waits c \<and> rr_replies c = replicate 10 text"
    unfolding rr_shapes_def rr_client_ok_def by (force intro: replicate_eqI)
  with \<open>at_frontend s = []\<close> working \<open>to_workers s = []\<close> \<open>at_backend s = []\<close> clients show ?thesis by (simp add: rr_done_def)
qed

interpretation rr: settling "rr_step E" "rr_inv E text" rr_left "rr_done text"
  by unfold_locales (auto dest: rr_step_inv intro: rr_stuck)

lemma rr_start_inv: "rr_setting E text \<Longrightarrow> rr_inv E text (rr_start (length (client_ids E)))"
  by (simp add: rr_inv_def rr_shapes_def rr_under_way_def rr_start_def rr_client_ok_def marked_none)

text \<open>
  C35. With any number of clients and at least one worker, no run has more than sixty steps for
  each client, any can be completed, and one that cannot go on has given every client its ten
  replies and left no message anywhere. At each moment the clients that wait are as many as the
  messages and workers that are busy for them.
\<close>

theorem requests_all_answered:
  assumes "rr_setting E text" "(rr_step E)\<^sup>*\<^sup>* (rr_start (length (client_ids E))) s"
  shows "(\<forall>n t. (rr_step E ^^ n) (rr_start (length (client_ids E))) t \<longrightarrow> n \<le> 60 * length (client_ids E))
    \<and> (\<exists>t. (rr_step E)\<^sup>*\<^sup>* s t \<and> rr_done text t)
    \<and> (rr_done text s \<or> (\<exists>t. rr_step E s t))
    \<and> length (at_frontend s) + length (to_workers s) + length (rr_working s) + length (at_backend s) + length (to_clients s)
        = length (filter rr_waits (rr_clients s))"
proof -
  note start = rr_start_inv [OF assms(1)]
  have inv: "rr_inv E text s" by (rule rr.run_inv [OF assms(2) start])
  have "rr_left (rr_start (length (client_ids E))) = 60 * length (client_ids E)"
    by (simp add: rr_left_def rr_start_def still_to_ask_def sum_list_replicate)
  with rr.run_bounded [OF _ start] have "\<forall>n t. (rr_step E ^^ n) (rr_start (length (client_ids E))) t \<longrightarrow> n \<le> 60 * length (client_ids E)"
    by (metis add_leD1)
  moreover have "size (rr_under_way s) = length (filter rr_waits (rr_clients s))"
    using inv size_marked [of "rr_clients s" "client_ids E" rr_waits] by (simp add: rr_inv_def)
  ultimately show ?thesis using rr.run_settles [OF inv] rr.stuck_final [OF inv] by (auto simp: rr_under_way_def)
qed

subsection \<open>The configurations of the repository\<close>

definition rr_of :: "bytes list \<Rightarrow> nat \<Rightarrow> wire \<Rightarrow> wire \<Rightarrow> rr_env" where
  "rr_of cids n request reply = \<lparr>client_ids = cids, worker_count = n, request_of = request, reply_of = reply,
     link_in = (\<lambda>i fs. i # [] # fs), link_out = (\<lambda>fs. (hd fs, tl (tl fs))),
     rep_in = (\<lambda>fs. (take 2 fs, drop 2 fs)), rep_out = (@)\<rparr>"

lemma rr_of_settings:
  "rr_setting (rr_of [[65], [66]] 3 rr_request rr_reply) (bytes_of ''World'')"
  "rr_setting (rr_of [[65], [66]] 5 hw_request mt_reply) (bytes_of ''World'' @ [0])"
  by (simp_all add: rr_setting_def rr_of_def req_laws_def rep_laws_def rr_request_def rr_reply_def hw_request_def mt_reply_def)

lemma requests_all_answered_witness:
  "(\<exists>t. (rr_step (rr_of [[65], [66]] 3 rr_request rr_reply))\<^sup>*\<^sup>* (rr_start 2) t \<and> rr_done (bytes_of ''World'') t)
   \<and> (\<exists>t. (rr_step (rr_of [[65], [66]] 5 hw_request mt_reply))\<^sup>*\<^sup>* (rr_start 2) t \<and> rr_done (bytes_of ''World'' @ [0]) t)"
  using requests_all_answered [OF rr_of_settings(1) rtranclp.rtrancl_refl] requests_all_answered [OF rr_of_settings(2) rtranclp.rtrancl_refl]
  by (simp add: rr_of_def numeral_2_eq_2)

end
