(* ===== verification/Interrupted.thy ===== *)
theory Interrupted
  imports Mdp Posix
begin

section \<open>The rest of zhelpers.hpp, and a server that can be interrupted (interrupt.cpp)\<close>

subsection \<open>Sending and versions\<close>

definition s_send :: "bytes \<Rightarrow> wire" where "s_send d = [(d, False)]"
definition s_sendmore :: "bytes \<Rightarrow> wire" where "s_sendmore d = [(d, True)]"

text \<open>A message sent part by part is the message with its flags.\<close>

lemma send_by_parts: "concat (map s_sendmore ds) @ s_send d = with_more (ds @ [d])"
  by (induction ds) (simp_all add: s_send_def s_sendmore_def)

definition s_version :: "nat \<times> nat \<times> nat \<Rightarrow> bytes" where
  "s_version v = (case v of (major, minor, patch) \<Rightarrow>
     bytes_of ''Current 0MQ version is '' @ decimal major @ bytes_of ''.'' @ decimal minor @ bytes_of ''.'' @ decimal patch @ [10])"

definition s_version_assert :: "nat \<times> nat \<times> nat \<Rightarrow> nat \<Rightarrow> nat \<Rightarrow> halt + unit" where
  "s_version_assert v want_major want_minor = (case v of (major, minor, patch) \<Rightarrow>
     if major < want_major \<or> (major = want_major \<and> minor < want_minor) then Inl (Exit 1) else Inr ())"

lemma s_version_assert_iff:
  "s_version_assert (major, minor, patch) a b = Inr () \<longleftrightarrow> a < major \<or> (a = major \<and> b \<le> minor)"
  by (auto simp: s_version_assert_def)

subsection \<open>The server\<close>

text \<open>
  \<open>interrupt.cpp\<close> waits in \<open>recv\<close>, where a signal ends the waiting with an exception; then it looks at the flag the signal
  handler has set. The socket is libzmq's: its state, what \<open>recv\<close> does in it, and what the arrival of a message makes of it. The
  program never replies, so that what the manual says of a REP socket matters: one that has received a message and owes the reply
  refuses to receive, \<open>recv\<close> throws at once, and the program takes that for an interrupt.
\<close>

datatype recv_result = Returned | Threw | Blocked

record 'k rep_socket =
  rs_new :: 'k
  rs_recv :: "'k \<Rightarrow> recv_result \<times> 'k"
  rs_arrive :: "'k \<Rightarrow> 'k"
  rs_owes :: "'k \<Rightarrow> bool"
  rs_queued :: "'k \<Rightarrow> nat"

definition rep_socket_laws :: "'k rep_socket \<Rightarrow> bool" where
  "rep_socket_laws R \<longleftrightarrow> \<not> rs_owes R (rs_new R) \<and> rs_queued R (rs_new R) = 0
     \<and> (\<forall>k. rs_owes R k \<longrightarrow> rs_recv R k = (Threw, k))
     \<and> (\<forall>k. \<not> rs_owes R k \<longrightarrow> rs_queued R k = 0 \<longrightarrow> rs_recv R k = (Blocked, k))
     \<and> (\<forall>k. \<not> rs_owes R k \<longrightarrow> 0 < rs_queued R k \<longrightarrow>
          (\<exists>k'. rs_recv R k = (Returned, k') \<and> rs_owes R k' \<and> rs_queued R k' = rs_queued R k - 1))
     \<and> (\<forall>k. rs_owes R (rs_arrive R k) = rs_owes R k \<and> rs_queued R (rs_arrive R k) = rs_queued R k + 1)"

datatype intr_spot = Calls | Waits | Tests | Gone

record 'k intr_server =
  spot :: intr_spot
  s_interrupted :: bool
  sock :: 'k
  warnings :: nat

definition intr_start :: "'k rep_socket \<Rightarrow> 'k intr_server" where
  "intr_start R = \<lparr>spot = Calls, s_interrupted = False, sock = rs_new R, warnings = 0\<rparr>"

datatype intr_event = Runs | Signal | Arrives

definition s_signal_handler :: "'k intr_server \<Rightarrow> 'k intr_server" where
  "s_signal_handler s = s\<lparr>s_interrupted := True\<rparr>"

text \<open>The call of \<open>recv\<close>, with the handler of its exception.\<close>

definition intr_recv :: "'k rep_socket \<Rightarrow> 'k intr_server \<Rightarrow> 'k intr_server" where
  "intr_recv R s =
     (case rs_recv R (sock s) of
        (Returned, k) \<Rightarrow> s\<lparr>sock := k, spot := Tests\<rparr>
      | (Threw, k) \<Rightarrow> s\<lparr>sock := k, warnings := warnings s + 1, spot := Tests\<rparr>
      | (Blocked, k) \<Rightarrow> s\<lparr>sock := k, spot := Waits\<rparr>)"

text \<open>The program takes a step, a signal comes, a message arrives. A signal that finds the program in \<open>recv\<close> makes that throw.\<close>

fun intr_step :: "'k rep_socket \<Rightarrow> intr_event \<Rightarrow> 'k intr_server \<Rightarrow> 'k intr_server" where
  "intr_step R Runs s =
     (case spot s of
        Calls \<Rightarrow> intr_recv R s
      | Waits \<Rightarrow> intr_recv R s
      | Tests \<Rightarrow> s\<lparr>spot := (if s_interrupted s then Gone else Calls)\<rparr>
      | Gone \<Rightarrow> s)"
| "intr_step R Signal s =
     (let t = s_signal_handler s in
      case spot s of
        Waits \<Rightarrow> t\<lparr>warnings := warnings s + 1, spot := Tests\<rparr>
      | Gone \<Rightarrow> s
      | _ \<Rightarrow> t)"
| "intr_step R Arrives s = s\<lparr>sock := rs_arrive R (sock s)\<rparr>"

definition intr_run :: "'k rep_socket \<Rightarrow> intr_event list \<Rightarrow> 'k intr_server \<Rightarrow> 'k intr_server" where
  "intr_run R es s = fold (intr_step R) es s"

lemma intr_run_simps [simp]:
  "intr_run R [] s = s" "intr_run R (e # es) s = intr_run R es (intr_step R e s)"
  "intr_run R (es @ es') s = intr_run R es' (intr_run R es s)"
  by (simp_all add: intr_run_def)

text \<open>Nothing to be read, and nothing owed: \<open>recv\<close> blocks.\<close>

definition blocks :: "'k rep_socket \<Rightarrow> 'k \<Rightarrow> bool" where
  "blocks R k \<longleftrightarrow> \<not> rs_owes R k \<and> rs_queued R k = 0"

lemma recv_blocks: "rep_socket_laws R \<Longrightarrow> blocks R (sock s) \<Longrightarrow> intr_recv R s = s\<lparr>spot := Waits\<rparr>"
  by (simp add: intr_recv_def rep_socket_laws_def blocks_def)

lemma recv_goes_on:
  assumes "rep_socket_laws R" "\<not> blocks R (sock s)"
  shows "spot (intr_recv R s) = Tests \<and> s_interrupted (intr_recv R s) = s_interrupted s"
proof (cases "rs_owes R (sock s)")
  case False
  with assms have "0 < rs_queued R (sock s)" by (simp add: blocks_def)
  with False assms(1) obtain k where "rs_recv R (sock s) = (Returned, k)" unfolding rep_socket_laws_def by blast
  then show ?thesis by (simp add: intr_recv_def)
qed (use assms(1) in \<open>simp add: intr_recv_def rep_socket_laws_def\<close>)

lemma ends_only_interrupted:
  assumes "spot (intr_run R es s) = Gone" "spot s = Gone \<Longrightarrow> s_interrupted s"
  shows "s_interrupted (intr_run R es s) \<and> (s_interrupted s \<or> Signal \<in> set es)"
  using assms
proof (induction es arbitrary: s)
  case (Cons e es)
  have "spot (intr_recv R t) \<noteq> Gone" "s_interrupted (intr_recv R t) = s_interrupted t" for t :: "'a intr_server"
    by (auto simp: intr_recv_def split: prod.split recv_result.split)
  then have "spot (intr_step R e s) = Gone \<Longrightarrow> s_interrupted (intr_step R e s)" "s_interrupted (intr_step R e s) \<Longrightarrow> s_interrupted s \<or> e = Signal"
    using Cons.prems(2) by (cases e; auto simp: s_signal_handler_def Let_def split: intr_spot.splits if_splits)+
  with Cons.IH [of "intr_step R e s"] Cons.prems(1) show ?case by auto
qed simp

lemma gone_runs: "spot s = Gone \<Longrightarrow> intr_run R (replicate n Runs) s = s"
  by (induction n) simp_all

lemma blocked_runs:
  "rep_socket_laws R \<Longrightarrow> spot s \<in> {Calls, Waits} \<Longrightarrow> blocks R (sock s) \<Longrightarrow>
   intr_run R (replicate n Runs) s = (if n = 0 then s else s\<lparr>spot := Waits\<rparr>)"
proof (induction n arbitrary: s)
  case (Suc n)
  then have "intr_step R Runs s = s\<lparr>spot := Waits\<rparr>" by (auto simp: recv_blocks)
  with Suc show ?case by simp
qed simp

lemma hot_runs:
  "rep_socket_laws R \<Longrightarrow> spot s = Calls \<Longrightarrow> rs_owes R (sock s) \<Longrightarrow> \<not> s_interrupted s \<Longrightarrow>
   intr_run R (replicate (2 * n) Runs) s = s\<lparr>warnings := warnings s + n\<rparr>"
  by (induction n arbitrary: s) (simp_all add: intr_recv_def rep_socket_laws_def)

text \<open>A signal ends the server with its next two steps, unless it comes before a call of \<open>recv\<close> that will block.\<close>

lemma signal_ends:
  assumes "rep_socket_laws R" "\<not> (spot s = Calls \<and> blocks R (sock s))"
  shows "spot (intr_run R (Signal # Runs # Runs # replicate n Runs) s) = Gone"
proof -
  have "spot (intr_run R [Signal, Runs, Runs] s) = Gone"
    using assms recv_goes_on [of R "s_signal_handler s"]
    by (cases "spot s") (auto simp: s_signal_handler_def Let_def)
  then show ?thesis using gone_runs [of "intr_run R [Signal, Runs, Runs] s" R n] by simp
qed

lemma signal_missed:
  assumes "rep_socket_laws R" "spot s = Calls" "blocks R (sock s)"
  shows "spot (intr_run R (Signal # replicate n Runs) s) \<noteq> Gone"
    and "spot (intr_run R (Signal # replicate n Runs @ [Arrives, Runs, Runs]) s) = Gone"
    and "spot (intr_run R (Signal # replicate (Suc n) Runs @ [Signal, Runs]) s) = Gone"
proof -
  let ?s = "s_signal_handler s"
  have run: "intr_run R (replicate m Runs) ?s = (if m = 0 then ?s else ?s\<lparr>spot := Waits\<rparr>)" for m
    using assms by (intro blocked_runs) (simp_all add: s_signal_handler_def)
  have first: "intr_step R Signal s = ?s" using assms(2) by (simp add: Let_def)
  show "spot (intr_run R (Signal # replicate n Runs) s) \<noteq> Gone"
    using run [of n] assms(2) first by (simp add: s_signal_handler_def split: if_splits)
  show "spot (intr_run R (Signal # replicate (Suc n) Runs @ [Signal, Runs]) s) = Gone"
    using run [of "Suc n"] unfolding intr_run_simps first by (simp add: s_signal_handler_def Let_def)
  have "\<not> blocks R (rs_arrive R (sock s))" using assms(1) by (simp add: rep_socket_laws_def blocks_def)
  then have "spot (intr_recv R (t\<lparr>sock := rs_arrive R (sock s)\<rparr>)) = Tests
      \<and> s_interrupted (intr_recv R (t\<lparr>sock := rs_arrive R (sock s)\<rparr>)) = s_interrupted t" for t
    using recv_goes_on [OF assms(1), of "t\<lparr>sock := rs_arrive R (sock s)\<rparr>"] by simp
  from this [of ?s] this [of "?s\<lparr>spot := Waits\<rparr>"] show "spot (intr_run R (Signal # replicate n Runs @ [Arrives, Runs, Runs]) s) = Gone"
    using run [of n] assms(2) unfolding intr_run_simps first by (simp add: s_signal_handler_def split: if_splits)
qed

text \<open>
  C36. For a REP socket that behaves as its manual says, in every state that can be reached: a
  signal ends the server with its next two steps, except between the test of the flag and a call of
  recv when there is no message to be read and no reply is owed. A signal that comes there goes
  unnoticed however long the server runs on, until the next message, or a second signal in recv,
  ends it. The server ends only after a signal. After its first message, to which it never replies,
  each pass of the loop prints the warning of an interrupt.
\<close>

theorem interrupted_server:
  assumes "rep_socket_laws R" "s = intr_run R es (intr_start R)"
  shows "(spot s = Gone \<longrightarrow> Signal \<in> set es)
    \<and> (if spot s = Calls \<and> \<not> rs_owes R (sock s) \<and> rs_queued R (sock s) = 0
       then (\<forall>n. spot (intr_run R (Signal # replicate n Runs) s) \<noteq> Gone
          \<and> spot (intr_run R (Signal # replicate n Runs @ [Arrives, Runs, Runs]) s) = Gone
          \<and> spot (intr_run R (Signal # replicate (Suc n) Runs @ [Signal, Runs]) s) = Gone)
       else (\<forall>n. spot (intr_run R (Signal # Runs # Runs # replicate n Runs) s) = Gone))
    \<and> (spot s = Calls \<and> rs_owes R (sock s) \<and> \<not> s_interrupted s \<longrightarrow>
        (\<forall>n. warnings (intr_run R (replicate (2 * n) Runs) s) = warnings s + n))"
proof (intro conjI)
  show "spot s = Gone \<longrightarrow> Signal \<in> set es"
    using ends_only_interrupted [of R es "intr_start R"] assms(2) by (auto simp: intr_start_def)
  show "if spot s = Calls \<and> \<not> rs_owes R (sock s) \<and> rs_queued R (sock s) = 0
       then (\<forall>n. spot (intr_run R (Signal # replicate n Runs) s) \<noteq> Gone
          \<and> spot (intr_run R (Signal # replicate n Runs @ [Arrives, Runs, Runs]) s) = Gone
          \<and> spot (intr_run R (Signal # replicate (Suc n) Runs @ [Signal, Runs]) s) = Gone)
       else (\<forall>n. spot (intr_run R (Signal # Runs # Runs # replicate n Runs) s) = Gone)"
    using signal_ends [OF assms(1), of s] signal_missed [OF assms(1), of s]
    by (simp add: blocks_def del: intr_run_simps replicate.simps)
  show "spot s = Calls \<and> rs_owes R (sock s) \<and> \<not> s_interrupted s \<longrightarrow>
        (\<forall>n. warnings (intr_run R (replicate (2 * n) Runs) s) = warnings s + n)"
    using hot_runs [OF assms(1), of s] by simp
qed

text \<open>A socket as the manual describes it: whether it owes a reply, and how many messages wait.\<close>

definition demo_rep :: "(bool \<times> nat) rep_socket" where
  "demo_rep = \<lparr>rs_new = (False, 0),
     rs_recv = (\<lambda>(owes, n). if owes then (Threw, (owes, n)) else if n = 0 then (Blocked, (owes, n)) else (Returned, (True, n - 1))),
     rs_arrive = (\<lambda>(owes, n). (owes, n + 1)), rs_owes = fst, rs_queued = snd\<rparr>"

lemma demo_rep_laws: "rep_socket_laws demo_rep"
  by (auto simp: rep_socket_laws_def demo_rep_def)

text \<open>A signal before the first message that comes between the test and \<open>recv\<close> is seen only after the next message, or signal;
  one that finds the server in \<open>recv\<close> ends it; and after a message the loop is hot.\<close>

lemma interrupted_server_witness:
  "\<forall>n. spot (intr_run demo_rep (Signal # replicate n Runs) (intr_start demo_rep)) \<noteq> Gone
   \<and> spot (intr_run demo_rep [Runs, Signal, Runs, Runs] (intr_start demo_rep)) = Gone
   \<and> warnings (intr_run demo_rep (replicate (2 * n) Runs) (intr_run demo_rep [Arrives, Runs, Runs] (intr_start demo_rep))) = n"
proof
  fix n
  note claim = interrupted_server [OF demo_rep_laws refl]
  show "spot (intr_run demo_rep (Signal # replicate n Runs) (intr_start demo_rep)) \<noteq> Gone
   \<and> spot (intr_run demo_rep [Runs, Signal, Runs, Runs] (intr_start demo_rep)) = Gone
   \<and> warnings (intr_run demo_rep (replicate (2 * n) Runs) (intr_run demo_rep [Arrives, Runs, Runs] (intr_start demo_rep))) = n"
    using claim [of "[]"] claim [of "[Runs]"] claim [of "[Arrives, Runs, Runs]"]
    by (auto simp: intr_start_def intr_recv_def demo_rep_def dest: spec [of _ n] spec [of _ 0])
qed

end
