(* ===== verification/Lazy_Clients.thy ===== *)
theory Lazy_Clients
  imports Lazy_Client
begin

section \<open>Many Lazy Pirate clients\<close>

text \<open>
  Any number of the clients of \<open>lpclient.cpp\<close>, and all requests and replies that are out there, as pairs of the name of a
  socket and a text. \<open>names i k\<close> is the name of socket \<open>k\<close> of client \<open>i\<close>; the clients do not set an identity, so that libzmq
  chooses it.
\<close>

record pirate_client =
  pc_lp :: lpclient
  pc_socket :: nat
  pc_over :: bool

text \<open>No two sockets have the same name, as long as the counter of libzmq does not come round.\<close>

definition pirate_names :: "(nat \<Rightarrow> nat \<Rightarrow> bytes) \<Rightarrow> bool" where
  "pirate_names names \<longleftrightarrow> (\<forall>i k. names i k \<noteq> [] \<and> \<not> is_uuid_part (names i k))
     \<and> (\<forall>i k i' k'. names i k = names i' k' \<longrightarrow> i = i' \<and> k = k')"

text \<open>What a ROUTER socket gets of the messages of a client.\<close>

definition requests_of :: "(bytes \<Rightarrow> bytes list \<Rightarrow> bytes list) \<Rightarrow> (nat \<Rightarrow> bytes) \<Rightarrow> (nat \<times> bytes) list \<Rightarrow> bytes list list" where
  "requests_of link_in nm ms = map (\<lambda>(k, t). link_in (nm k) [t]) ms"

definition sender :: "(nat \<Rightarrow> nat \<Rightarrow> bytes) \<Rightarrow> nat \<Rightarrow> bytes \<Rightarrow> bool" where
  "sender names n c \<longleftrightarrow> (\<exists>i < n. \<exists>k. c = names i k)"

definition lazy_request :: "(nat \<Rightarrow> nat \<Rightarrow> bytes) \<Rightarrow> nat \<Rightarrow> bytes list \<Rightarrow> bool" where
  "lazy_request names n m \<longleftrightarrow> (\<exists>c t. sender names n c \<and> m = [c, [], decimal t])"

definition clients_ok :: "(nat \<Rightarrow> nat \<Rightarrow> bytes) \<Rightarrow> pirate_client list \<Rightarrow> (bytes \<times> bytes) multiset \<Rightarrow> bool" where
  "clients_ok names cs out \<longleftrightarrow>
     (\<forall>i < length cs. let c = cs ! i in client_ok (names i) (pc_lp c) (pc_socket c) (pc_over c) out)"

subsection \<open>Names and requests\<close>

lemma namesD:
  assumes "pirate_names names"
  shows "names i k \<noteq> []" "\<not> is_uuid_part (names i k)" "names i k = names i' k' \<Longrightarrow> i = i'" "inj (names i)"
  using assms unfolding pirate_names_def inj_def by blast+

lemma plain_decimal: "\<not> is_uuid_part (decimal t)" "\<not> is_uuid_frame (decimal t)"
proof -
  have "decimal t ! 0 \<in> set (decimal t)" using decimal_no_space(2) by (intro nth_mem) auto
  then have "decimal t ! 0 \<noteq> 0" "is_digit (decimal t ! 0)" using decimal_is_digits [of t] by auto
  then show "\<not> is_uuid_part (decimal t)" "\<not> is_uuid_frame (decimal t)"
    by (auto simp: is_uuid_part_def is_uuid_frame_def is_digit_def)
qed

lemma lazy_request_plain:
  assumes "pirate_names names" "lazy_request names n m"
  shows "\<forall>d \<in> set m. \<not> is_uuid_part d" "m \<noteq> []" "length m = 3"
proof -
  obtain i k t where "m = [names i k, [], decimal t]" using assms(2) by (auto simp: lazy_request_def sender_def)
  moreover have "\<not> is_uuid_part []" by (simp add: is_uuid_part_def)
  ultimately show "\<forall>d \<in> set m. \<not> is_uuid_part d" "m \<noteq> []" "length m = 3"
    using namesD(2) [OF assms(1)] plain_decimal(1) by simp_all
qed

lemma out_requests:
  "req_laws link_in link_out \<Longrightarrow> image_mset (\<lambda>m. (m ! 0, m ! 2)) (mset (requests_of link_in nm ms)) = named nm ms"
  by (induction ms) (auto simp: requests_of_def named_def req_laws_def)

lemma requests_shape:
  assumes "req_laws link_in link_out" "snd ` set ms \<subseteq> range decimal" "i < n" "m \<in> set (requests_of link_in (names i) ms)"
  shows "lazy_request names n m"
proof -
  obtain k t where "(k, t) \<in> set ms" "m = link_in (names i k) [t]" using assms(4) by (auto simp: requests_of_def)
  moreover from this assms(2) obtain n where "t = decimal n" by force
  ultimately show ?thesis using assms(1,3) by (auto simp: lazy_request_def sender_def req_laws_def)
qed

lemma polls_sent:
  assumes "polls_once p c k = (over, c', k', ms)" "p = None \<or> p = Some (decimal (sequence_nr c))"
  shows "snd ` set ms \<subseteq> range decimal"
proof -
  have "ms \<in> {[], [(Suc k, decimal (sequence_nr c'))], [(k, decimal (sequence_nr c'))]}"
    using assms polls_timeout [of c k] polls_reply [of c k] by (cases "retries_left c = 1") (auto simp del: decimal.simps)
  then show ?thesis by auto
qed

subsection \<open>The clients go on\<close>

lemma clients_ok_less: "clients_ok names cs out \<Longrightarrow> out' \<subseteq># out \<Longrightarrow> clients_ok names cs out'"
  by (auto simp: clients_ok_def Let_def intro: client_ok_less)

lemma clients_okD: "clients_ok names cs out \<Longrightarrow> i < length cs \<Longrightarrow>
  client_ok (names i) (pc_lp (cs ! i)) (pc_socket (cs ! i)) (pc_over (cs ! i)) out"
  by (simp add: clients_ok_def Let_def)

text \<open>One client has taken what it has read away and adds what it sends.\<close>

lemma clients_ok_update:
  assumes "pirate_names names" "clients_ok names cs out" "i < length cs" "rest \<subseteq># out"
    and "client_ok (names i) lp k over (rest + named (names i) ms)"
  shows "clients_ok names (cs[i := \<lparr>pc_lp = lp, pc_socket = k, pc_over = over\<rparr>]) (rest + named (names i) ms)"
proof -
  have "client_ok (names j) (pc_lp (cs ! j)) (pc_socket (cs ! j)) (pc_over (cs ! j)) (rest + named (names i) ms)"
    if "j < length cs" "j \<noteq> i" for j
  proof -
    have "client_ok (names j) (pc_lp (cs ! j)) (pc_socket (cs ! j)) (pc_over (cs ! j)) rest"
      using clients_okD [OF assms(2) that(1)] assms(4) by (rule client_ok_less)
    moreover have "\<forall>m \<in># named (names i) ms. fst m \<notin> range (names j)"
      using namesD(3) [OF assms(1)] that(2) by (fastforce simp: named_def)
    ultimately show ?thesis by (simp add: client_ok_others)
  qed
  with assms(3,5) show ?thesis by (auto simp: clients_ok_def Let_def nth_list_update)
qed

lemma clients_ok_timeout:
  assumes "pirate_names names" "clients_ok names cs out" "i < length cs" "cs ! i = c" "\<not> pc_over c"
    and "polls_once None (pc_lp c) (pc_socket c) = (over, lp, k, ms)"
  shows "clients_ok names (cs[i := \<lparr>pc_lp = lp, pc_socket = k, pc_over = over\<rparr>]) (out + named (names i) ms)"
proof -
  have "client_ok (names i) (pc_lp c) (pc_socket c) False out" using clients_okD [OF assms(2,3)] assms(4,5) by simp
  from client_ok_timeout [OF this namesD(4) [OF assms(1)] assms(6)] show ?thesis
    by (intro clients_ok_update [OF assms(1-3)]) simp_all
qed

lemma clients_ok_reply:
  assumes "pirate_names names" "clients_ok names cs (add_mset (names i (pc_socket c), t) out)" "i < length cs" "cs ! i = c"
    and "polls_once (Some t) (pc_lp c) (pc_socket c) = (over, lp, k, ms)"
  shows "clients_ok names (cs[i := \<lparr>pc_lp = lp, pc_socket = k, pc_over = over\<rparr>]) (out + named (names i) ms)"
    and "t = decimal (sequence_nr (pc_lp c))"
proof -
  have ok: "client_ok (names i) (pc_lp c) (pc_socket c) (pc_over c) (add_mset (names i (pc_socket c), t) out)"
    using clients_okD [OF assms(2,3)] assms(4) by simp
  from client_ok_reply [OF this namesD(4) [OF assms(1)] assms(5)]
  show "clients_ok names (cs[i := \<lparr>pc_lp = lp, pc_socket = k, pc_over = over\<rparr>]) (out + named (names i) ms)"
    by (intro clients_ok_update [OF assms(1-3)]) simp_all
  show "t = decimal (sequence_nr (pc_lp c))" using ok unfolding client_ok_def tokens_ok_def by (metis union_single_eq_member)
qed

lemma clients_ok_expected:
  assumes "clients_ok names cs out" "i < length cs" "(names i (pc_socket (cs ! i)), t) \<in># out"
  shows "\<exists>c sent. polls_once (Some t) (pc_lp (cs ! i)) (pc_socket (cs ! i)) = (False, c, pc_socket (cs ! i), sent)
    \<and> sequence_nr c = Suc (sequence_nr (pc_lp (cs ! i)))"
  using client_ok_expected [OF clients_okD [OF assms(1,2)] assms(3)] .

lemma clients_ok_tries:
  assumes "clients_ok names cs out" "c \<in> set cs"
  shows "pc_over c \<or> (1 \<le> retries_left (pc_lp c) \<and> retries_left (pc_lp c) \<le> 3)"
proof -
  obtain i where "i < length cs" "c = cs ! i" using assms(2) by (auto simp: in_set_conv_nth)
  with clients_okD [OF assms(1), of i] show ?thesis by (cases "pc_over c") (auto simp: client_ok_def)
qed

subsection \<open>The start\<close>

definition clients_start :: "nat \<Rightarrow> pirate_client list" where
  "clients_start n = (let (c, k, ms) = lp_started in replicate n \<lparr>pc_lp = c, pc_socket = k, pc_over = False\<rparr>)"

definition first_requests :: "(nat \<Rightarrow> nat \<Rightarrow> bytes) \<Rightarrow> (bytes \<Rightarrow> bytes list \<Rightarrow> bytes list) \<Rightarrow> nat \<Rightarrow> bytes list list" where
  "first_requests names link_in n =
     (let (c, k, ms) = lp_started in concat (map (\<lambda>i. requests_of link_in (names i) ms) [0..<n]))"

lemma length_clients_start [simp]: "length (clients_start n) = n"
  by (simp add: clients_start_def case_prod_beta)

lemma first_requests_shape:
  assumes "req_laws link_in link_out"
  shows "\<forall>m \<in> set (first_requests names link_in n). lazy_request names n m"
proof -
  obtain c where p: "lp_started = (c, 1, [(1, decimal 1)])" using lp_started_eq by blast
  show ?thesis using requests_shape [OF assms, of "[(1, decimal 1)]" _ n _ names] by (auto simp: first_requests_def p)
qed

lemma clients_ok_start:
  assumes "pirate_names names" "req_laws link_in link_out"
  shows "clients_ok names (clients_start n) (mset (map (\<lambda>m. (m ! 0, m ! 2)) (first_requests names link_in n)))"
proof -
  obtain c k ms where p: "lp_started = (c, k, ms)" by (metis prod_cases3)
  have sum: "mset (map (\<lambda>m. (m ! 0, m ! 2)) (concat (map (\<lambda>i. requests_of link_in (names i) ms) js))) = (\<Sum>i \<leftarrow> js. named (names i) ms)" for js
    by (induction js) (simp_all add: out_requests [OF assms(2)])
  have "client_ok (names i) c k False (\<Sum>i \<leftarrow> [0..<n]. named (names i) ms)" if "i < n" for i
  proof -
    have "i \<in> set [0..<n]" using that by simp
    then obtain hs js where split: "[0..<n] = hs @ i # js" by (meson split_list)
    then have "distinct (hs @ i # js)" by (metis distinct_upt)
    then have others: "i \<notin> set hs" "i \<notin> set js" by auto
    have eq: "(\<Sum>i \<leftarrow> [0..<n]. named (names i) ms)
        = named (names i) ms + ((\<Sum>j \<leftarrow> hs. named (names j) ms) + (\<Sum>j \<leftarrow> js. named (names j) ms))"
      unfolding split by (simp add: ac_simps)
    have far: "\<forall>m \<in># (\<Sum>j \<leftarrow> js. named (names j) ms). fst m \<notin> range (names i)" if "i \<notin> set js" for js
      using that namesD(3) [OF assms(1)] by (induction js) (fastforce simp: named_def)+
    have "\<forall>m \<in># (\<Sum>j \<leftarrow> hs. named (names j) ms) + (\<Sum>j \<leftarrow> js. named (names j) ms). fst m \<notin> range (names i)"
      using far [OF others(1)] far [OF others(2)] by (metis union_iff)
    from client_ok_others [OF this] client_ok_started [OF namesD(4) [OF assms(1)] p, THEN conjunct1]
    show ?thesis unfolding eq by (rule iffD2)
  qed
  then show ?thesis unfolding clients_ok_def clients_start_def first_requests_def p Let_def prod.case sum
    by simp
qed

subsection \<open>An instance\<close>

text \<open>Names as long as needed; their length is even.\<close>

definition some_names :: "nat \<Rightarrow> nat \<Rightarrow> bytes" where
  "some_names i k = 0 # replicate (2 * i + 1) 1 @ replicate (2 * k + 2) 2"

lemma some_names_ok: "pirate_names some_names" "hd (some_names i k) = 0" "length (some_names i k) \<noteq> 17"
proof -
  have "i = i' \<and> k = k'" if same: "some_names i k = some_names i' k'" for i k i' k'
  proof -
    have "length (filter ((=) 1) (some_names i k)) = 2 * i + 1" for i k by (simp add: some_names_def)
    then have "i = i'" using same by (metis add_right_cancel mult_cancel1 zero_neq_numeral)
    moreover have "length (some_names i k) = length (some_names i' k')" by (simp only: same)
    ultimately show ?thesis by (simp add: some_names_def)
  qed
  note inj = this
  have "some_names i k \<noteq> [] \<and> \<not> is_uuid_part (some_names i k)" for i k by (simp add: some_names_def is_uuid_part_def)
  with inj show "pirate_names some_names" unfolding pirate_names_def by blast
  show "hd (some_names i k) = 0" by (simp add: some_names_def)
  have "length (some_names i k) = 2 * (i + k + 2)" by (simp add: some_names_def)
  then show "length (some_names i k) \<noteq> 17" by presburger
qed

end
