(* ===== verification/Simple_Pirate.thy ===== *)
theory Simple_Pirate
  imports Lazy_Clients Pirate_Worker
begin

section \<open>The Simple Pirate pattern (lpclient.cpp, spqueue.cpp, spworker.cpp)\<close>

text \<open>
  Any number of Lazy Pirate clients, the queue of \<open>spqueue.cpp\<close> and up to a hundred workers of \<open>spworker.cpp\<close>, side by
  side. A client may lose patience at any time, a worker may crash over any message after its third. The names libzmq gives
  their sockets begin with a zero byte. What is sent to a socket that is closed is never read.
\<close>

subsection \<open>The programs side by side\<close>

datatype worker_phase = Starting | Working | Crashed

record simple_worker =
  sw_phase :: worker_phase
  sw_cycles :: int
  sw_draws :: nat

record simple_pirate =
  pclients :: "pirate_client list"
  pworkers :: "simple_worker list"
  pq :: spqueue
  at_front :: "bytes list list"
  at_back :: "bytes list list"
  for_workers :: "(bytes \<times> bytes list) list"
  for_clients :: "(bytes \<times> bytes list) list"

text \<open>What the queue has sent goes on its way.\<close>

definition route :: "(bytes list \<Rightarrow> bytes \<times> bytes list) \<Rightarrow> spqueue \<Rightarrow> simple_pirate \<Rightarrow> simple_pirate" where
  "route link_out q s = s\<lparr>pq := q\<lparr>sp_to_clients := [], sp_to_workers := []\<rparr>,
     for_clients := for_clients s @ map (link_out \<circ> map fst) (sp_to_clients q),
     for_workers := for_workers s @ map (link_out \<circ> map fst) (sp_to_workers q)\<rparr>"

inductive simple_step :: "(nat \<Rightarrow> nat \<Rightarrow> bytes) \<Rightarrow> bytes list \<Rightarrow> (nat \<Rightarrow> nat \<Rightarrow> nat) \<Rightarrow> (bytes \<Rightarrow> bytes list \<Rightarrow> bytes list)
    \<Rightarrow> (bytes list \<Rightarrow> bytes \<times> bytes list) \<Rightarrow> simple_pirate \<Rightarrow> simple_pirate \<Rightarrow> bool"
  for names wids within5 link_in link_out where
  timeout: "i < length (pclients s) \<Longrightarrow> pclients s ! i = c \<Longrightarrow> \<not> pc_over c \<Longrightarrow>
     polls_once None (pc_lp c) (pc_socket c) = (over, lp, k, ms) \<Longrightarrow>
     simple_step names wids within5 link_in link_out s
       (s\<lparr>pclients := (pclients s)[i := \<lparr>pc_lp = lp, pc_socket = k, pc_over = over\<rparr>],
          at_front := at_front s @ requests_of link_in (names i) ms\<rparr>)"
| reply: "i < length (pclients s) \<Longrightarrow> pclients s ! i = c \<Longrightarrow> \<not> pc_over c \<Longrightarrow>
     for_clients s = xs @ (names i (pc_socket c), m) # ys \<Longrightarrow> s_recv m = Inr (t, rest) \<Longrightarrow>
     polls_once (Some t) (pc_lp c) (pc_socket c) = (over, lp, k, ms) \<Longrightarrow>
     simple_step names wids within5 link_in link_out s
       (s\<lparr>pclients := (pclients s)[i := \<lparr>pc_lp = lp, pc_socket = k, pc_over = over\<rparr>], for_clients := xs @ ys,
          at_front := at_front s @ requests_of link_in (names i) ms\<rparr>)"
| ready: "j < length (pworkers s) \<Longrightarrow> pworkers s ! j = w \<Longrightarrow> sw_phase w = Starting \<Longrightarrow>
     simple_step names wids within5 link_in link_out s
       (s\<lparr>pworkers := (pworkers s)[j := w\<lparr>sw_phase := Working\<rparr>],
          at_back := at_back s @ [link_in (wids ! j) [bytes_of ''READY'']]\<rparr>)"
| serves: "j < length (pworkers s) \<Longrightarrow> pworkers s ! j = w \<Longrightarrow> sw_phase w = Working \<Longrightarrow>
     for_workers s = xs @ (wids ! j, m) # ys \<Longrightarrow>
     sw_loop (within5 j) (sw_cycles w) (sw_draws w) [deliver m] = Inr (crashed, ws) \<Longrightarrow>
     simple_step names wids within5 link_in link_out s
       (s\<lparr>pworkers := (pworkers s)[j := w\<lparr>sw_phase := (if crashed then Crashed else Working), sw_cycles := sw_cycles w + 1,
            sw_draws := (if sw_cycles w + 1 > 3 then sw_draws w + 2 else sw_draws w)\<rparr>],
          for_workers := xs @ ys, at_back := at_back s @ map (link_in (wids ! j) \<circ> map fst) ws\<rparr>)"
| turn: "picks (at_back s) mb bs \<Longrightarrow> picks (at_front s) mf fs \<Longrightarrow> mb \<noteq> None \<or> mf \<noteq> None \<Longrightarrow>
     (mf \<noteq> None \<Longrightarrow> worker_queue (pq s) \<noteq> []) \<Longrightarrow>
     sp_turn (map_option deliver mb, map_option deliver mf) (pq s) = Inr q \<Longrightarrow>
     simple_step names wids within5 link_in link_out s (route link_out q (s\<lparr>at_back := bs, at_front := fs\<rparr>))"

definition simple_start :: "(nat \<Rightarrow> nat \<Rightarrow> bytes) \<Rightarrow> (bytes \<Rightarrow> bytes list \<Rightarrow> bytes list) \<Rightarrow> nat \<Rightarrow> nat \<Rightarrow> simple_pirate" where
  "simple_start names link_in n workers =
     \<lparr>pclients = clients_start n,
      pworkers = replicate workers \<lparr>sw_phase = Starting, sw_cycles = 0, sw_draws = 0\<rparr>,
      pq = \<lparr>worker_queue = [], sp_to_clients = [], sp_to_workers = []\<rparr>,
      at_front = first_requests names link_in n, at_back = [], for_workers = [], for_clients = []\<rparr>"

text \<open>The names begin with a zero byte and are no UUIDs.\<close>

definition simple_setting :: "(nat \<Rightarrow> nat \<Rightarrow> bytes) \<Rightarrow> bytes list \<Rightarrow> (bytes \<Rightarrow> bytes list \<Rightarrow> bytes list)
    \<Rightarrow> (bytes list \<Rightarrow> bytes \<times> bytes list) \<Rightarrow> bool" where
  "simple_setting names wids link_in link_out \<longleftrightarrow> req_laws link_in link_out
     \<and> distinct wids \<and> length wids \<le> MAX_WORKERS \<and> (\<forall>w \<in> set wids. nul_free w \<and> length w < 17)
     \<and> pirate_names names \<and> (\<forall>i k. hd (names i k) = 0 \<and> length (names i k) \<noteq> 17)"

subsection \<open>Where everything is\<close>

definition replies_in :: "bytes list list \<Rightarrow> bytes list list" where
  "replies_in ms = filter (\<lambda>m. length m = 5) ms"

text \<open>The requests and replies out there, with the name of the socket they came from.\<close>

definition sp_out :: "simple_pirate \<Rightarrow> (bytes \<times> bytes) multiset" where
  "sp_out s = mset (map (\<lambda>m. (m ! 0, m ! 2)) (at_front s)) + mset (map (\<lambda>x. (snd x ! 0, snd x ! 2)) (for_workers s))
     + mset (map (\<lambda>m. (m ! 2, m ! 4)) (replies_in (at_back s))) + mset (map (\<lambda>x. (fst x, hd (snd x))) (for_clients s))"

text \<open>Where the workers are that are ready and have not crashed.\<close>

definition sp_seats :: "simple_pirate \<Rightarrow> bytes multiset" where
  "sp_seats s = mset (worker_queue (pq s)) + mset (map hd (at_back s)) + mset (map fst (for_workers s))"

definition sp_shapes :: "(nat \<Rightarrow> nat \<Rightarrow> bytes) \<Rightarrow> bytes list \<Rightarrow> simple_pirate \<Rightarrow> bool" where
  "sp_shapes names wids s \<longleftrightarrow>
     (\<forall>m \<in> set (at_front s). lazy_request names (length (pclients s)) m)
     \<and> (\<forall>m \<in> set (at_back s). \<exists>w \<in> set wids. m = [w, [], bytes_of ''READY'']
          \<or> (\<exists>r. lazy_request names (length (pclients s)) r \<and> m = w # [] # r))
     \<and> (\<forall>x \<in> set (for_workers s). fst x \<in> set wids \<and> lazy_request names (length (pclients s)) (snd x))
     \<and> (\<forall>x \<in> set (for_clients s). sender names (length (pclients s)) (fst x) \<and> (\<exists>t. snd x = [decimal t]))
     \<and> sp_to_clients (pq s) = [] \<and> sp_to_workers (pq s) = []"

abbreviation alive :: "simple_worker \<Rightarrow> bool" where "alive w \<equiv> sw_phase w = Working"

definition sp_inv :: "(nat \<Rightarrow> nat \<Rightarrow> bytes) \<Rightarrow> bytes list \<Rightarrow> simple_pirate \<Rightarrow> bool" where
  "sp_inv names wids s \<longleftrightarrow> length (pworkers s) = length wids \<and> sp_shapes names wids s
     \<and> sp_seats s = marked alive wids (pworkers s) \<and> clients_ok names (pclients s) (sp_out s)"

lemma plain_short_name: "length w < 17 \<Longrightarrow> \<not> is_uuid_part w \<and> \<not> is_uuid_frame w"
  by (simp add: is_uuid_part_def is_uuid_frame_def)

lemma settingD:
  assumes "simple_setting names wids link_in link_out"
  shows "req_laws link_in link_out" "distinct wids" "length wids \<le> MAX_WORKERS"
    and "w \<in> set wids \<Longrightarrow> nul_free w" "w \<in> set wids \<Longrightarrow> length w < 17" "pirate_names names"
    and "hd (names i k) = 0" "length (names i k) \<noteq> 17" "link_in c fs = c # [] # fs" "link_out (c # [] # fs) = (c, fs)"
  using assms unfolding simple_setting_def req_laws_def by blast+

lemma sender_plain:
  assumes "simple_setting names wids link_in link_out" "sender names n c"
  shows "c \<noteq> []" "c_str c = []" "\<not> is_uuid_part c" "\<not> is_uuid_frame c"
proof -
  obtain i k where "c = names i k" using assms(2) by (auto simp: sender_def)
  then have "c \<noteq> []" "hd c = 0" "length c \<noteq> 17" using namesD(1) [OF settingD(6) [OF assms(1)]] settingD(7,8) [OF assms(1)] by simp_all
  then show "c \<noteq> []" "c_str c = []" "\<not> is_uuid_part c" "\<not> is_uuid_frame c"
    by (cases c; auto simp: is_uuid_part_def is_uuid_frame_def c_str_Cons)+
qed

lemma request_plain:
  assumes "simple_setting names wids link_in link_out" "lazy_request names n m"
  shows "\<forall>d \<in> set m. \<not> is_uuid_part d" "\<forall>d \<in> set m. \<not> is_uuid_frame d" "m \<noteq> []" "length m = 3"
proof -
  obtain c t where m: "sender names n c" "m = [c, [], decimal t]" using assms(2) by (auto simp: lazy_request_def)
  note c = sender_plain [OF assms(1) m(1)]
  have "\<not> is_uuid_part []" "\<not> is_uuid_frame []" by (simp_all add: is_uuid_part_def is_uuid_frame_def)
  with c plain_decimal show "\<forall>d \<in> set m. \<not> is_uuid_part d" "\<forall>d \<in> set m. \<not> is_uuid_frame d" "m \<noteq> []" "length m = 3"
    by (simp_all add: m(2))
qed

subsection \<open>The programs on what they are sent\<close>

lemma frame_of_short: "nul_free w \<Longrightarrow> length w < 17 \<Longrightarrow> frame_of w = w"
  by (simp add: frame_of_def send_part_def is_uuid_part_def)

lemma queue_gets_ready:
  assumes "nul_free w" "length w < 17" "length (worker_queue q) < MAX_WORKERS"
  shows "sp_backend (deliver [w, [], bytes_of ''READY'']) q = Inr (q\<lparr>worker_queue := worker_queue q @ [w]\<rparr>)"
  using sp_ready_message [OF announces_short assms(3)] assms by simp

lemma queue_gets_reply:
  assumes "simple_setting names wids link_in link_out" "lazy_request names n r" "nul_free w" "length w < 17"
    and "length (worker_queue q) < MAX_WORKERS"
  shows "sp_backend (deliver (w # [] # r)) q =
    Inr (q\<lparr>worker_queue := worker_queue q @ [w], sp_to_clients := sp_to_clients q @ [with_more r]\<rparr>)"
proof -
  note plain = request_plain [OF assms(1,2)]
  have "zmsg_recv (deliver (w # [] # r)) zmsg_new = Inr (True, w # [] # r)"
    using plain(2) plain_short_name [OF assms(4)] by (intro recv_same) (auto simp: is_uuid_frame_def)
  moreover from assms(2) obtain c t where r: "sender names n c" "r = [c, [], decimal t]" by (auto simp: lazy_request_def)
  moreover have "unwrap (w # [] # r) = Inr (w, r)" using assms(3) by (simp add: unwrap_def address_of_def c_str_nul_free Let_def)
  moreover have "address_of r = Some []" using sender_plain(2) [OF assms(1) r(1)] r(2) by (simp add: address_of_def)
  moreover have "zmsg_send send_start_example r = Inr (with_more r, [])" by (rule send_example_plain [OF plain(1)])
  ultimately show ?thesis using assms(5) by (simp add: sp_backend_def bytes_of_def)
qed

lemma queue_gets_request:
  assumes "simple_setting names wids link_in link_out" "lazy_request names n r" "worker_queue q = w # ws" "w \<in> set wids"
  shows "sp_frontend (deliver r) q =
    Inr (q\<lparr>worker_queue := ws, sp_to_workers := sp_to_workers q @ [with_more (w # [] # r)]\<rparr>)"
proof -
  have w: "nul_free w" "length w < 17" using settingD(4,5) [OF assms(1) assms(4)] by simp_all
  moreover have "plain_request w r" using request_plain [OF assms(1,2)] w by (simp add: plain_request_def)
  ultimately show ?thesis using sp_dispatch [OF assms(3), of r] frame_of_short [OF w] by simp
qed

lemma worker_gets_request:
  assumes "simple_setting names wids link_in link_out" "lazy_request names n r"
  shows "\<exists>crashed. sw_loop w5 cycles draws [deliver r] = Inr (crashed, if crashed then [] else [with_more r])
    \<and> (crashed \<longrightarrow> 2 < cycles)"
proof -
  note plain = request_plain [OF assms]
  have "zmsg_recv (deliver r) zmsg_new = Inr (True, r)" by (rule recv_same [OF plain(3,2)])
  moreover have "zmsg_send send_start_example r = Inr (with_more r, [])" by (rule send_example_plain [OF plain(1)])
  ultimately show ?thesis by (auto simp: Let_def)
qed

subsection \<open>The invariant\<close>

lemmas sp_defs = sp_inv_def sp_shapes_def sp_out_def sp_seats_def replies_in_def

lemma seats_free:
  assumes "simple_setting names wids link_in link_out" "sp_inv names wids s" "at_back s \<noteq> []"
  shows "length (worker_queue (pq s)) < MAX_WORKERS"
proof -
  have "size (sp_seats s) \<le> length (pworkers s)" using assms(2) size_marked [of "pworkers s" wids alive]
      length_filter_le [of alive "pworkers s"] by (simp add: sp_inv_def)
  moreover have "length (worker_queue (pq s)) < size (sp_seats s)" using assms(3) by (simp add: sp_seats_def)
  ultimately show ?thesis using assms(2) settingD(3) [OF assms(1)] by (simp add: sp_inv_def)
qed

lemma backend_part:
  assumes "simple_setting names wids link_in link_out" "sp_inv names wids s" "at_back s = xs @ m # ys"
  shows "\<exists>out. sp_backend (deliver m) (pq s) = Inr ((pq s)\<lparr>worker_queue := worker_queue (pq s) @ [hd m], sp_to_clients := out\<rparr>)
    \<and> sp_inv names wids (route link_out ((pq s)\<lparr>worker_queue := worker_queue (pq s) @ [hd m], sp_to_clients := out\<rparr>) (s\<lparr>at_back := xs @ ys\<rparr>))"
proof -
  let ?n = "length (pclients s)"
  have quiet: "sp_to_clients (pq s) = []" "sp_to_workers (pq s) = []" using assms(2) by (simp_all add: sp_inv_def sp_shapes_def)
  have room: "length (worker_queue (pq s)) < MAX_WORKERS" using seats_free [OF assms(1,2)] assms(3) by simp
  from assms(2,3) obtain w where w: "w \<in> set wids"
    "m = [w, [], bytes_of ''READY''] \<or> (\<exists>r. lazy_request names ?n r \<and> m = w # [] # r)" by (auto simp: sp_inv_def sp_shapes_def)
  note short = settingD(4,5) [OF assms(1) w(1)]
  from w(2) show ?thesis
  proof
    assume m: "m = [w, [], bytes_of ''READY'']"
    let ?t = "route link_out ((pq s)\<lparr>worker_queue := worker_queue (pq s) @ [hd m], sp_to_clients := []\<rparr>) (s\<lparr>at_back := xs @ ys\<rparr>)"
    have "sp_out ?t = sp_out s" "pclients ?t = pclients s" using assms(3) m quiet by (simp_all add: sp_out_def replies_in_def route_def)
    with assms(2) have "clients_ok names (pclients ?t) (sp_out ?t)" by (simp add: sp_inv_def)
    moreover have "sp_seats ?t = sp_seats s" using assms(3) m quiet by (simp add: sp_seats_def route_def)
    ultimately have "sp_inv names wids ?t" using assms(2,3) quiet by (auto simp: sp_inv_def sp_shapes_def route_def)
    then show ?thesis using queue_gets_ready [OF short room] m quiet by (intro exI [of _ "[]"]) simp
  next
    assume "\<exists>r. lazy_request names ?n r \<and> m = w # [] # r"
    then obtain r where r: "lazy_request names ?n r" "m = w # [] # r" by blast
    then obtain c t where ct: "sender names ?n c" "r = [c, [], decimal t]" by (auto simp: lazy_request_def)
    let ?t = "route link_out ((pq s)\<lparr>worker_queue := worker_queue (pq s) @ [hd m], sp_to_clients := [with_more r]\<rparr>) (s\<lparr>at_back := xs @ ys\<rparr>)"
    note law = settingD(10) [OF assms(1)]
    have "sp_out ?t = sp_out s" "pclients ?t = pclients s" using assms(3) r(2) ct(2) quiet law
      by (simp_all add: sp_out_def replies_in_def route_def del: with_more.simps)
    with assms(2) have "clients_ok names (pclients ?t) (sp_out ?t)" by (simp add: sp_inv_def)
    moreover have "sp_seats ?t = sp_seats s" using assms(3) r quiet by (simp add: sp_seats_def route_def)
    ultimately have "sp_inv names wids ?t" using assms(2,3) quiet ct law
      by (auto simp: sp_inv_def sp_shapes_def route_def simp del: with_more.simps)
    then show ?thesis using queue_gets_reply [OF assms(1) r(1) short room] r(2) quiet by (intro exI [of _ "[with_more r]"]) simp
  qed
qed

lemma frontend_part:
  assumes "simple_setting names wids link_in link_out" "sp_inv names wids s" "at_front s = xs @ m # ys"
    and "worker_queue (pq s) = w # ws"
  shows "sp_frontend (deliver m) (pq s\<lparr>sp_to_clients := out\<rparr>) =
      Inr ((pq s)\<lparr>worker_queue := ws, sp_to_clients := out, sp_to_workers := [with_more (w # [] # m)]\<rparr>)
    \<and> sp_inv names wids (route link_out ((pq s)\<lparr>worker_queue := ws, sp_to_workers := [with_more (w # [] # m)]\<rparr>) (s\<lparr>at_front := xs @ ys\<rparr>))"
proof -
  let ?n = "length (pclients s)"
  let ?t = "route link_out ((pq s)\<lparr>worker_queue := ws, sp_to_workers := [with_more (w # [] # m)]\<rparr>) (s\<lparr>at_front := xs @ ys\<rparr>)"
  have quiet: "sp_to_clients (pq s) = []" "sp_to_workers (pq s) = []" using assms(2) by (simp_all add: sp_inv_def sp_shapes_def)
  have "w \<in># sp_seats s" using assms(4) by (simp add: sp_seats_def)
  with assms(2) have "w \<in># marked alive wids (pworkers s)" "length (pworkers s) = length wids" by (simp_all add: sp_inv_def)
  with marked_member [of "pworkers s" wids w alive] have w: "w \<in> set wids" by auto
  have m: "lazy_request names ?n m" using assms(2,3) by (simp add: sp_inv_def sp_shapes_def)
  then obtain c t where ct: "m = [c, [], decimal t]" by (auto simp: lazy_request_def)
  note law = settingD(10) [OF assms(1)]
  have "sp_out ?t = sp_out s" "pclients ?t = pclients s" using assms(3) ct quiet law
    by (simp_all add: sp_out_def route_def del: with_more.simps)
  with assms(2) have "clients_ok names (pclients ?t) (sp_out ?t)" by (simp add: sp_inv_def)
  moreover have "sp_seats ?t = sp_seats s" using assms(3,4) quiet law by (simp add: sp_seats_def route_def del: with_more.simps)
  ultimately have "sp_inv names wids ?t" using assms(2,3) quiet w m law
    by (auto simp: sp_inv_def sp_shapes_def route_def simp del: with_more.simps)
  moreover have "sp_frontend (deliver m) (pq s\<lparr>sp_to_clients := out\<rparr>) =
      Inr ((pq s)\<lparr>worker_queue := ws, sp_to_clients := out, sp_to_workers := [with_more (w # [] # m)]\<rparr>)"
    using queue_gets_request [OF assms(1) m _ w, of "pq s\<lparr>sp_to_clients := out\<rparr>" ws] assms(4) quiet by simp
  ultimately show ?thesis by blast
qed

text \<open>A round of the queue never fails.\<close>

lemma route_twice:
  "sp_to_workers q = [] \<Longrightarrow> sp_to_clients (pq s) = [] \<Longrightarrow> sp_to_workers (pq s) = [] \<Longrightarrow>
   q = (pq s)\<lparr>worker_queue := ws, sp_to_clients := out\<rparr> \<Longrightarrow>
   route link_out ((pq (route link_out q (s\<lparr>at_back := bs\<rparr>)))\<lparr>worker_queue := us, sp_to_workers := sent\<rparr>) ((route link_out q (s\<lparr>at_back := bs\<rparr>))\<lparr>at_front := fs\<rparr>)
   = route link_out (q\<lparr>worker_queue := us, sp_to_workers := sent\<rparr>) (s\<lparr>at_back := bs, at_front := fs\<rparr>)"
  by (cases s; cases "pq s") (simp add: route_def)

lemma sp_turn_parts:
  "sp_turn (map_option deliver mb, map_option deliver mf) q =
     bindE (case mb of None \<Rightarrow> Inr q | Some m \<Rightarrow> sp_backend (deliver m) q)
       (\<lambda>t. case mf of None \<Rightarrow> Inr t | Some m \<Rightarrow> if worker_queue q \<noteq> [] then sp_frontend (deliver m) t else Inr t)"
  by (cases mb; cases mf) (simp_all add: sp_turn_def)

lemma simple_turn_outcome:
  assumes "simple_setting names wids link_in link_out" "sp_inv names wids s" "picks (at_back s) mb bs" "picks (at_front s) mf fs"
    and "mf \<noteq> None \<Longrightarrow> worker_queue (pq s) \<noteq> []"
  shows "\<exists>q. sp_turn (map_option deliver mb, map_option deliver mf) (pq s) = Inr q
    \<and> sp_inv names wids (route link_out q (s\<lparr>at_back := bs, at_front := fs\<rparr>))"
proof -
  have quiet: "sp_to_clients (pq s) = []" "sp_to_workers (pq s) = []" using assms(2) by (simp_all add: sp_inv_def sp_shapes_def)
  have still: "route link_out (pq s) s = s" using quiet by (cases s; cases "pq s") (simp add: route_def)
  define ws where "ws = worker_queue (pq s) @ (case mb of None \<Rightarrow> [] | Some m \<Rightarrow> [hd m])"
  have "\<exists>out. (case mb of None \<Rightarrow> Inr (pq s) | Some m \<Rightarrow> sp_backend (deliver m) (pq s)) = Inr ((pq s)\<lparr>worker_queue := ws, sp_to_clients := out\<rparr>)
      \<and> sp_inv names wids (route link_out ((pq s)\<lparr>worker_queue := ws, sp_to_clients := out\<rparr>) (s\<lparr>at_back := bs\<rparr>))"
  proof (cases mb)
    case None
    then have "bs = at_back s" using assms(3) by (auto elim: picks_NoneE)
    moreover have "(pq s)\<lparr>worker_queue := ws, sp_to_clients := []\<rparr> = pq s" using None quiet by (cases "pq s") (simp add: ws_def)
    ultimately show ?thesis using None assms(2) still by (intro exI [of _ "[]"]) simp
  next
    case (Some m)
    then obtain xs ys where "at_back s = xs @ m # ys" "bs = xs @ ys" using assms(3) by (auto elim: picks_SomeE)
    then show ?thesis using backend_part [OF assms(1,2), of xs m ys] Some by (simp add: ws_def)
  qed
  then obtain out where behind: "(case mb of None \<Rightarrow> Inr (pq s) | Some m \<Rightarrow> sp_backend (deliver m) (pq s)) = Inr ((pq s)\<lparr>worker_queue := ws, sp_to_clients := out\<rparr>)"
    and inv: "sp_inv names wids (route link_out ((pq s)\<lparr>worker_queue := ws, sp_to_clients := out\<rparr>) (s\<lparr>at_back := bs\<rparr>))" by blast
  let ?q = "(pq s)\<lparr>worker_queue := ws, sp_to_clients := out\<rparr>"
  let ?u = "route link_out ?q (s\<lparr>at_back := bs\<rparr>)"
  have u: "at_front ?u = at_front s" "pq ?u = (pq s)\<lparr>worker_queue := ws\<rparr>" using quiet by (simp_all add: route_def)
  show ?thesis
  proof (cases mf)
    case None
    then have "fs = at_front s" using assms(4) by (auto elim: picks_NoneE)
    with None inv show ?thesis unfolding sp_turn_parts behind by simp
  next
    case (Some m)
    then obtain xs ys where m: "at_front s = xs @ m # ys" "fs = xs @ ys" using assms(4) by (auto elim: picks_SomeE)
    from Some assms(5) have some: "worker_queue (pq s) \<noteq> []" by simp
    then obtain w us where "ws = w # us" by (cases ws) (auto simp: ws_def)
    then have q: "worker_queue (pq ?u) = w # us" using u(2) by simp
    from frontend_part [OF assms(1) inv _ q, of xs m ys out] u m(1)
    have front: "sp_frontend (deliver m) ?q = Inr (?q\<lparr>worker_queue := us, sp_to_workers := [with_more (w # [] # m)]\<rparr>)"
      and inv': "sp_inv names wids (route link_out ((pq ?u)\<lparr>worker_queue := us, sp_to_workers := [with_more (w # [] # m)]\<rparr>) (?u\<lparr>at_front := xs @ ys\<rparr>))"
      by simp_all
    from inv' route_twice [where q = ?q and s = s and ws = ws and out = out and bs = bs and us = us and sent = "[with_more (w # [] # m)]" and fs = fs and link_out = link_out] quiet m(2)
    have "sp_inv names wids (route link_out (?q\<lparr>worker_queue := us, sp_to_workers := [with_more (w # [] # m)]\<rparr>) (s\<lparr>at_back := bs, at_front := fs\<rparr>))"
      by simp
    then show ?thesis using front Some some unfolding sp_turn_parts behind by simp
  qed
qed

subsection \<open>The other steps\<close>

lemma simple_step_inv:
  assumes "simple_step names wids w5 link_in link_out s t" "sp_inv names wids s" "simple_setting names wids link_in link_out"
  shows "sp_inv names wids t"
  using assms(1)
proof (cases rule: simple_step.cases)
  case (timeout i c over lp k ms)
  note law = settingD(1) [OF assms(3)]
  have "sp_out t = sp_out s + named (names i) ms" using timeout(1) out_requests [OF law] by (simp add: sp_out_def ac_simps)
  then have "clients_ok names (pclients t) (sp_out t)"
    using clients_ok_timeout [OF settingD(6) [OF assms(3)] _ timeout(2-5)] timeout(1) assms(2) by (simp add: sp_inv_def)
  moreover have "sp_seats t = sp_seats s" using timeout(1) by (simp add: sp_seats_def)
  moreover have "\<forall>m \<in> set (requests_of link_in (names i) ms). lazy_request names (length (pclients s)) m"
    using requests_shape [OF law polls_sent [OF timeout(5)] timeout(2)] by simp
  ultimately show ?thesis using timeout(1) assms(2) by (auto simp: sp_inv_def sp_shapes_def)
next
  case (reply i c xs m ys u rest over lp k ms)
  note law = settingD(1) [OF assms(3)]
  from assms(2) reply(5,6) have m: "m = [u]" by (auto simp: sp_inv_def sp_shapes_def)
  define out where "out = sp_out s - {# (names i (pc_socket c), u) #}"
  have before: "sp_out s = add_mset (names i (pc_socket c), u) out" using reply(5) m by (simp add: out_def sp_out_def)
  then have "sp_out t = out + named (names i) ms"
    using reply(1,5) m out_requests [OF law] by (simp add: sp_out_def ac_simps)
  moreover have "clients_ok names (pclients s) (add_mset (names i (pc_socket c), u) out)" using assms(2) before by (simp add: sp_inv_def)
  note client = clients_ok_reply [OF settingD(6) [OF assms(3)] this reply(2,3,7)]
  ultimately have "clients_ok names (pclients t) (sp_out t)" using client(1) reply(1) by simp
  moreover have "\<forall>m \<in> set (requests_of link_in (names i) ms). lazy_request names (length (pclients s)) m"
    using requests_shape [OF law polls_sent [OF reply(7)] reply(2)] client(2) by simp
  moreover have "sp_seats t = sp_seats s" using reply(1) by (simp add: sp_seats_def)
  ultimately show ?thesis using reply(1,5) assms(2) by (auto simp: sp_inv_def sp_shapes_def)
next
  case (ready j w)
  have len: "length (pworkers s) = length wids" using assms(2) by (simp add: sp_inv_def)
  then have wj: "wids ! j \<in> set wids" using ready(2) by simp
  note law = settingD(9) [OF assms(3)]
  have "sp_out t = sp_out s" "pclients t = pclients s" using ready(1) law by (simp_all add: sp_out_def replies_in_def)
  with assms(2) have "clients_ok names (pclients t) (sp_out t)" by (auto simp: sp_inv_def intro: clients_ok_less)
  moreover have "sp_seats t = marked alive wids (pworkers t)"
    using ready assms(2) law marked_update [OF ready(2) len, of alive "w\<lparr>sw_phase := Working\<rparr>"] by (simp add: sp_inv_def sp_seats_def)
  ultimately show ?thesis using ready(1) assms(2) law wj by (auto simp: sp_inv_def sp_shapes_def)
next
  case (serves j w xs m ys crashed ws)
  let ?w = "w\<lparr>sw_phase := (if crashed then Crashed else Working), sw_cycles := sw_cycles w + 1,
      sw_draws := (if sw_cycles w + 1 > 3 then sw_draws w + 2 else sw_draws w)\<rparr>"
  have len: "length (pworkers s) = length wids" using assms(2) by (simp add: sp_inv_def)
  then have wj: "wids ! j \<in> set wids" using serves(2) by simp
  have m: "lazy_request names (length (pclients s)) m" using assms(2) serves(5) by (simp add: sp_inv_def sp_shapes_def)
  then obtain c u where cu: "m = [c, [], decimal u]" by (auto simp: lazy_request_def)
  have ws: "ws = (if crashed then [] else [with_more m])"
    using worker_gets_request [OF assms(3) m, of "w5 j" "sw_cycles w" "sw_draws w"] serves(6) by auto
  note law = settingD(9) [OF assms(3)]
  have "sp_out t \<subseteq># sp_out s" "pclients t = pclients s"
    using serves(1,5) law ws cu by (simp_all add: sp_out_def replies_in_def del: with_more.simps)
  with assms(2) have "clients_ok names (pclients t) (sp_out t)" by (auto simp: sp_inv_def intro: clients_ok_less)
  moreover have "sp_seats t = marked alive wids (pworkers t)"
  proof (cases crashed)
    case True
    have "add_mset (wids ! j) (sp_seats t) = add_mset (wids ! j) (marked alive wids (pworkers t))"
      using True serves ws assms(2) marked_update [OF serves(2) len, of alive ?w] by (simp add: sp_inv_def sp_seats_def)
    then show ?thesis by simp
  next
    case False
    have "sp_seats t = sp_seats s" using False serves(1,5) law ws by (simp add: sp_seats_def del: with_more.simps)
    moreover have "marked alive wids (pworkers t) = marked alive wids (pworkers s)"
      using False serves(1-4) marked_update [OF serves(2) len, of alive ?w] by simp
    ultimately show ?thesis using assms(2) by (simp add: sp_inv_def)
  qed
  ultimately show ?thesis using serves(1,5) assms(2) law wj ws m
    by (auto simp: sp_inv_def sp_shapes_def simp del: with_more.simps split: if_splits)
next
  case (turn mb bs mf fs q)
  with simple_turn_outcome [OF assms(3,2) turn(2,3)] show ?thesis by auto
qed

interpretation simple: stepping "simple_step names wids w5 link_in link_out"
  "\<lambda>s. sp_inv names wids s \<and> simple_setting names wids link_in link_out"
  by unfold_locales (blast intro: simple_step_inv)

lemma simple_start_inv:
  assumes "simple_setting names wids link_in link_out"
  shows "sp_inv names wids (simple_start names link_in n (length wids))"
proof -
  let ?s = "simple_start names link_in n (length wids)"
  have "sp_out ?s = mset (map (\<lambda>m. (m ! 0, m ! 2)) (first_requests names link_in n))"
    by (simp add: sp_out_def simple_start_def replies_in_def)
  then have "clients_ok names (pclients ?s) (sp_out ?s)"
    using clients_ok_start [OF settingD(6,1) [OF assms]] by (simp add: simple_start_def)
  moreover have "sp_shapes names wids ?s"
    using first_requests_shape [OF settingD(1) [OF assms]] by (simp add: sp_shapes_def simple_start_def)
  ultimately show ?thesis by (simp add: sp_inv_def sp_seats_def simple_start_def marked_none)
qed

text \<open>
  C37. In every run of clients that may give up sockets, the queue, and at most a hundred workers
  that may crash: a reply that reaches the current socket of a client has the number that client
  waits for, so that it goes on to the next request; the queue can take a turn on whatever it may
  read, its assertions and its queue never failing; each worker that is ready and has not crashed
  is in exactly one of the queue, an unread announcement or reply, and an unread request; a client
  that has not given up has one to three tries left.
\<close>

theorem simple_pirate_sound:
  assumes "simple_setting names wids link_in link_out"
    and "(simple_step names wids within5 link_in link_out)\<^sup>*\<^sup>* (simple_start names link_in n (length wids)) s"
  shows "(\<forall>i t. i < length (pclients s) \<and> (names i (pc_socket (pclients s ! i)), t) \<in> set (for_clients s) \<longrightarrow>
      (\<exists>c sent. polls_once (Some (hd t)) (pc_lp (pclients s ! i)) (pc_socket (pclients s ! i)) = (False, c, pc_socket (pclients s ! i), sent)
        \<and> sequence_nr c = Suc (sequence_nr (pc_lp (pclients s ! i)))))
    \<and> (\<forall>mb bs mf fs. picks (at_back s) mb bs \<and> picks (at_front s) mf fs \<and> (mf \<noteq> None \<longrightarrow> worker_queue (pq s) \<noteq> []) \<longrightarrow>
        (\<exists>q. sp_turn (map_option deliver mb, map_option deliver mf) (pq s) = Inr q))
    \<and> mset (worker_queue (pq s)) + mset (map hd (at_back s)) + mset (map fst (for_workers s)) = marked alive wids (pworkers s)
    \<and> (\<forall>c \<in> set (pclients s). pc_over c \<or> (1 \<le> retries_left (pc_lp c) \<and> retries_left (pc_lp c) \<le> 3))"
proof (intro conjI allI impI ballI)
  have inv: "sp_inv names wids s"
    using simple.run_inv [OF assms(2)] simple_start_inv [OF assms(1)] assms(1) by blast
  then have ok: "clients_ok names (pclients s) (sp_out s)" by (simp add: sp_inv_def)
  {
    fix i t
    assume t: "i < length (pclients s) \<and> (names i (pc_socket (pclients s ! i)), t) \<in> set (for_clients s)"
    then have "(names i (pc_socket (pclients s ! i)), hd t) \<in># sp_out s" by (force simp: sp_out_def)
    with t clients_ok_expected [OF ok] show "\<exists>c sent. polls_once (Some (hd t)) (pc_lp (pclients s ! i)) (pc_socket (pclients s ! i)) =
        (False, c, pc_socket (pclients s ! i), sent) \<and> sequence_nr c = Suc (sequence_nr (pc_lp (pclients s ! i)))" by blast
  }
  {
    fix mb bs mf fs
    assume "picks (at_back s) mb bs \<and> picks (at_front s) mf fs \<and> (mf \<noteq> None \<longrightarrow> worker_queue (pq s) \<noteq> [])"
    then show "\<exists>q. sp_turn (map_option deliver mb, map_option deliver mf) (pq s) = Inr q"
      using simple_turn_outcome [OF assms(1) inv] by blast
  }
  show "mset (worker_queue (pq s)) + mset (map hd (at_back s)) + mset (map fst (for_workers s)) = marked alive wids (pworkers s)"
    using inv by (simp add: sp_inv_def sp_seats_def)
  show "\<And>c. c \<in> set (pclients s) \<Longrightarrow> pc_over c \<or> (1 \<le> retries_left (pc_lp c) \<and> retries_left (pc_lp c) \<le> 3)"
    using clients_ok_tries [OF ok] by blast
qed

subsection \<open>An instance\<close>

lemma some_names_setting: "simple_setting some_names [[65], [66]] (\<lambda>i fs. i # [] # fs) (\<lambda>fs. (hd fs, tl (tl fs)))"
  using some_names_ok by (simp add: simple_setting_def req_laws_def MAX_WORKERS_def)

text \<open>Two clients, and the first of two workers has announced itself.\<close>

lemma simple_pirate_sound_witness:
  "\<exists>s q. (simple_step some_names [[65], [66]] (\<lambda>_ _. 1) (\<lambda>i fs. i # [] # fs) (\<lambda>fs. (hd fs, tl (tl fs))))\<^sup>*\<^sup>*
      (simple_start some_names (\<lambda>i fs. i # [] # fs) 2 2) s
    \<and> sp_turn (Some (deliver [[65], [], bytes_of ''READY'']), None) (pq s) = Inr q"
proof -
  let ?step = "simple_step some_names [[65], [66]] (\<lambda>_ _. 1) (\<lambda>i fs. i # [] # fs) (\<lambda>fs. (hd fs, tl (tl fs)))"
  define s where "s = simple_start some_names (\<lambda>i fs. i # [] # fs) 2 2"
  have w: "0 < length (pworkers s)" "sw_phase (pworkers s ! 0) = Starting" "at_back s = []"
    by (simp_all add: s_def simple_start_def)
  obtain t where t: "?step s t" "at_back t = at_back s @ [[[65], [], bytes_of ''READY'']]"
    using simple_step.ready [OF w(1) refl w(2), of some_names "[[65], [66]]" "\<lambda>_ _. 1" "\<lambda>i fs. i # [] # fs" "\<lambda>fs. (hd fs, tl (tl fs))"]
    by auto
  have run: "?step\<^sup>*\<^sup>* s t" using t(1) by blast
  have two: "length [[65], [66 :: byte]] = 2" by simp
  have "picks (at_back t) (Some [[65], [], bytes_of ''READY'']) []" using one_read [of "[]" _ "[]"] t(2) w(3) by simp
  moreover have "picks (at_front t) None (at_front t)" by (rule none_read)
  ultimately obtain q where "sp_turn (map_option deliver (Some [[65], [], bytes_of ''READY'']), map_option deliver None) (pq t) = Inr q"
    using simple_pirate_sound [OF some_names_setting, unfolded two, OF run [unfolded s_def]] by blast
  with run show ?thesis unfolding s_def option.map by blast
qed

end
