(* ===== verification/Paranoid_Pirate.thy ===== *)
theory Paranoid_Pirate
  imports Lazy_Clients Pirate_Worker
begin

section \<open>The Paranoid Pirate pattern (lpclient.cpp, ppqueue.cpp, ppworker.cpp)\<close>

text \<open>
  Any number of Lazy Pirate clients, the queue of \<open>ppqueue.cpp\<close> and any number of workers of \<open>ppworker.cpp\<close>, side by side.
  The workers have DEALER sockets, which add nothing to their messages; when a worker has heard nothing for three polls it
  opens a new one, under a new identity. Clocks are not tied to each other, so that workers expire, and leave, at any time.
\<close>

subsection \<open>The programs side by side\<close>

text \<open>No \<open>ppworker\<close> is there before the program starts.\<close>

record paranoid_worker =
  ap_worker :: "ppworker option"
  ap_id :: bytes
  ap_crashed :: bool

record paranoid_pirate =
  pa_clients :: "pirate_client list"
  pa_workers :: "paranoid_worker list"
  pa_queue :: ppqueue
  pa_front :: "bytes list list"
  pa_back :: "bytes list list"
  pa_to_workers :: "(bytes \<times> bytes list) list"
  pa_to_clients :: "(bytes \<times> bytes list) list"

text \<open>The identity of the socket after what a worker has done, and its messages with those they are sent under.\<close>

fun socket_sends :: "bytes \<Rightarrow> action list \<Rightarrow> bytes \<times> (bytes \<times> bytes list) list" where
  "socket_sends w [] = (w, [])"
| "socket_sends w (ConnectTo i _ # as) = socket_sends i as"
| "socket_sends w (SendFrames fs # as) = (let (i, ms) = socket_sends w as in (i, (w, map fst fs) # ms))"
| "socket_sends w (SleepFor _ # as) = socket_sends w as"

definition joins :: "pirate_env \<Rightarrow> paranoid_worker \<times> (bytes \<times> bytes list) list" where
  "joins E = (let v = pw_start E; (i, ms) = socket_sends [] (pw_trace v)
     in (\<lparr>ap_worker = Some v, ap_id = i, ap_crashed = False\<rparr>, ms))"

text \<open>One poll of a worker.\<close>

definition hears :: "pirate_env \<Rightarrow> bytes list option \<Rightarrow> bytes \<Rightarrow> ppworker \<Rightarrow> fault + paranoid_worker \<times> (bytes \<times> bytes list) list" where
  "hears E m i v =
     bindE (pw_loop E [map_option deliver m] v) (\<lambda>(crashed, v').
     let (i', ms) = socket_sends i (drop (length (pw_trace v)) (pw_trace v'))
     in Inr (\<lparr>ap_worker = Some v', ap_id = i', ap_crashed = crashed\<rparr>, ms))"

text \<open>What the queue has sent goes on its way.\<close>

definition pa_route :: "(bytes list \<Rightarrow> bytes \<times> bytes list) \<Rightarrow> paranoid_pirate \<Rightarrow> paranoid_pirate" where
  "pa_route peer_out s = s\<lparr>pa_queue := (pa_queue s)\<lparr>to_clients := [], to_workers := []\<rparr>,
     pa_to_clients := pa_to_clients s @ map (peer_out \<circ> map fst) (to_clients (pa_queue s)),
     pa_to_workers := pa_to_workers s @ map (peer_out \<circ> map fst) (to_workers (pa_queue s))\<rparr>"

abbreviation arrives :: "(bytes \<Rightarrow> bytes list \<Rightarrow> bytes list) \<Rightarrow> (bytes \<times> bytes list) list \<Rightarrow> bytes list list" where
  "arrives peer_in \<equiv> map (\<lambda>(i, fs). peer_in i fs)"

inductive pa_step :: "(nat \<Rightarrow> nat \<Rightarrow> bytes) \<Rightarrow> (nat \<Rightarrow> pirate_env) \<Rightarrow> (nat \<Rightarrow> timeval) \<Rightarrow> (bytes \<Rightarrow> bytes list \<Rightarrow> bytes list)
    \<Rightarrow> (bytes \<Rightarrow> bytes list \<Rightarrow> bytes list) \<Rightarrow> (bytes list \<Rightarrow> bytes \<times> bytes list) \<Rightarrow> paranoid_pirate \<Rightarrow> paranoid_pirate \<Rightarrow> bool"
  for names envs clk req_in peer_in peer_out where
  timeout: "i < length (pa_clients s) \<Longrightarrow> pa_clients s ! i = c \<Longrightarrow> \<not> pc_over c \<Longrightarrow>
     polls_once None (pc_lp c) (pc_socket c) = (over, lp, k, ms) \<Longrightarrow>
     pa_step names envs clk req_in peer_in peer_out s
       (s\<lparr>pa_clients := (pa_clients s)[i := \<lparr>pc_lp = lp, pc_socket = k, pc_over = over\<rparr>],
          pa_front := pa_front s @ requests_of req_in (names i) ms\<rparr>)"
| reply: "i < length (pa_clients s) \<Longrightarrow> pa_clients s ! i = c \<Longrightarrow> \<not> pc_over c \<Longrightarrow>
     pa_to_clients s = xs @ (names i (pc_socket c), [] # m) # ys \<Longrightarrow> s_recv m = Inr (t, rest) \<Longrightarrow>
     polls_once (Some t) (pc_lp c) (pc_socket c) = (over, lp, k, ms) \<Longrightarrow>
     pa_step names envs clk req_in peer_in peer_out s
       (s\<lparr>pa_clients := (pa_clients s)[i := \<lparr>pc_lp = lp, pc_socket = k, pc_over = over\<rparr>], pa_to_clients := xs @ ys,
          pa_front := pa_front s @ requests_of req_in (names i) ms\<rparr>)"
| starts: "j < length (pa_workers s) \<Longrightarrow> ap_worker (pa_workers s ! j) = None \<Longrightarrow> joins (envs j) = (w, ms) \<Longrightarrow>
     pa_step names envs clk req_in peer_in peer_out s
       (s\<lparr>pa_workers := (pa_workers s)[j := w], pa_back := pa_back s @ arrives peer_in ms\<rparr>)"
| silent: "j < length (pa_workers s) \<Longrightarrow> pa_workers s ! j = u \<Longrightarrow> \<not> ap_crashed u \<Longrightarrow> ap_worker u = Some v \<Longrightarrow>
     hears (envs j) None (ap_id u) v = Inr (w, ms) \<Longrightarrow>
     pa_step names envs clk req_in peer_in peer_out s
       (s\<lparr>pa_workers := (pa_workers s)[j := w], pa_back := pa_back s @ arrives peer_in ms\<rparr>)"
| message: "j < length (pa_workers s) \<Longrightarrow> pa_workers s ! j = u \<Longrightarrow> \<not> ap_crashed u \<Longrightarrow> ap_worker u = Some v \<Longrightarrow>
     pa_to_workers s = xs @ (ap_id u, m) # ys \<Longrightarrow> hears (envs j) (Some m) (ap_id u) v = Inr (w, ms) \<Longrightarrow>
     pa_step names envs clk req_in peer_in peer_out s
       (s\<lparr>pa_workers := (pa_workers s)[j := w], pa_to_workers := xs @ ys, pa_back := pa_back s @ arrives peer_in ms\<rparr>)"
| turn: "picks (pa_back s) mb bs \<Longrightarrow> picks (pa_front s) mf fs \<Longrightarrow> (mf \<noteq> None \<Longrightarrow> queue (pa_queue s) \<noteq> []) \<Longrightarrow>
     pp_turn clk (map_option deliver mb, map_option deliver mf) (pa_queue s) = Inr q \<Longrightarrow>
     pa_step names envs clk req_in peer_in peer_out s (pa_route peer_out (s\<lparr>pa_queue := q, pa_back := bs, pa_front := fs\<rparr>))"

definition pa_start :: "(nat \<Rightarrow> nat \<Rightarrow> bytes) \<Rightarrow> (nat \<Rightarrow> timeval) \<Rightarrow> (bytes \<Rightarrow> bytes list \<Rightarrow> bytes list) \<Rightarrow> nat \<Rightarrow> nat \<Rightarrow> paranoid_pirate" where
  "pa_start names clk req_in n workers =
     \<lparr>pa_clients = clients_start n,
      pa_workers = replicate workers \<lparr>ap_worker = None, ap_id = [], ap_crashed = False\<rparr>,
      pa_queue = pp_start clk, pa_front = first_requests names req_in n, pa_back = [], pa_to_workers = [], pa_to_clients = []\<rparr>"

text \<open>The random numbers of the identities are those of \<open>within (0x10000)\<close>.\<close>

definition paranoid_setting :: "(nat \<Rightarrow> nat \<Rightarrow> bytes) \<Rightarrow> (nat \<Rightarrow> pirate_env) \<Rightarrow> (bytes \<Rightarrow> bytes list \<Rightarrow> bytes list)
    \<Rightarrow> (bytes \<Rightarrow> bytes list \<Rightarrow> bytes list) \<Rightarrow> (bytes list \<Rightarrow> bytes \<times> bytes list) \<Rightarrow> bool" where
  "paranoid_setting names envs req_in peer_in peer_out \<longleftrightarrow> pirate_names names
     \<and> (\<exists>req_out. req_laws req_in req_out) \<and> router_laws peer_in peer_out
     \<and> (\<forall>j n. fst (pe_rand (envs j) n) \<le> 65536 \<and> snd (pe_rand (envs j) n) \<le> 65536)"

lemma paranoidD:
  assumes "paranoid_setting names envs req_in peer_in peer_out"
  shows "pirate_names names" "\<exists>req_out. req_laws req_in req_out" "peer_in i fs = i # fs" "peer_out (i # fs) = (i, fs)"
    and "fst (pe_rand (envs j) n) \<le> 65536" "snd (pe_rand (envs j) n) \<le> 65536"
  using assms unfolding paranoid_setting_def router_laws_def by blast+

subsection \<open>Identities of workers\<close>

definition short :: "bytes \<Rightarrow> bool" where
  "short w \<longleftrightarrow> nul_free w \<and> length w < 17"

lemma short_plain: "short w \<Longrightarrow> \<not> is_uuid_part w \<and> \<not> is_uuid_frame w \<and> frame_of w = w \<and> announces w w"
  by (simp add: short_def is_uuid_part_def is_uuid_frame_def frame_of_def send_part_def announces_short)

lemma short_id:
  assumes "fst r \<le> 65536" "snd r \<le> 65536"
  shows "short (set_id_text r)"
proof -
  have "length (hex4 n) \<le> 5" if "n \<le> 65536" for n
    using hex_with_length [of n 4 "nth hex_char"] that by (simp add: hex4_def length_zero_pad)
  from this [OF assms(1)] this [OF assms(2)] set_id_text_shape(1) [of r] show ?thesis by (simp add: short_def set_id_text_def)
qed

subsection \<open>What the queue does\<close>

definition PP_READY :: bytes where "PP_READY = bytes_of ''READY''"
definition PP_HEARTBEAT :: bytes where "PP_HEARTBEAT = bytes_of ''HEARTBEAT''"

lemma words_apart: "PP_READY \<noteq> PP_HEARTBEAT" "PP_HEARTBEAT \<noteq> PP_READY" "length PP_READY = 5" "length PP_HEARTBEAT = 9" "nul_free PP_READY" "nul_free PP_HEARTBEAT"
  by (simp_all add: PP_READY_def PP_HEARTBEAT_def bytes_of_def nul_free_def)

lemma queue_ready: "short w \<Longrightarrow> pp_backend clk (deliver [w, PP_READY]) q = Inr (s_worker_append clk w (s_worker_delete w q))"
  using pp_ready_message [OF conjunct2 [OF conjunct2 [OF conjunct2 [OF short_plain]]]] by (simp add: PP_READY_def)

lemma queue_heartbeat:
  assumes "short w"
  shows "pp_backend clk (deliver [w, PP_HEARTBEAT]) q = Inr (s_worker_refresh clk w q)"
proof -
  have "c_str PP_HEARTBEAT = PP_HEARTBEAT" "PP_HEARTBEAT \<noteq> []" using words_apart by (auto simp: c_str_nul_free)
  moreover have "zmsg_recv (deliver [w, PP_HEARTBEAT]) zmsg_new = Inr (True, [w, PP_HEARTBEAT])"
    using recv_announcement [of w w PP_HEARTBEAT] short_plain [OF assms] words_apart by simp
  ultimately show ?thesis using assms words_apart(2)
    by (simp add: pp_backend_def unwrap_def address_of_def parts_def c_str_nul_free short_def PP_READY_def [symmetric] PP_HEARTBEAT_def [symmetric])
qed

text \<open>\<open>unwrap\<close> also takes the name of the client away if that begins with a zero byte and is no UUID.\<close>

lemma queue_reply:
  assumes "short w" "\<not> is_uuid_part c"
  shows "pp_backend clk (deliver [w, c, [], decimal t]) q =
    Inr (s_worker_append clk w (q\<lparr>to_clients := to_clients q @ [with_more ((if addressed c then [c] else []) @ [[], decimal t])]\<rparr>))"
proof -
  have "plain (c # [[], decimal t])" using assms(2) plain_decimal(1) by (simp add: plain_def is_uuid_part_def)
  with pp_reply_message [of w w c "[[], decimal t]" clk q] short_plain [OF assms(1)] show ?thesis by simp
qed

lemma queue_request:
  assumes "queue q = x # xs" "short (identity x)" "\<forall>d \<in> set r. \<not> is_uuid_part d" "r \<noteq> []"
  shows "pp_frontend (deliver r) q = Inr (q\<lparr>queue := xs, to_workers := to_workers q @ [with_more (identity x # r)]\<rparr>)"
  using pp_dispatch [OF assms(1), of r] assms short_plain [OF assms(2)] by (simp add: plain_request_def short_def)

lemma queue_beats:
  assumes "\<forall>x \<in> set (queue q). short (identity x)"
  shows "\<exists>t h b. pp_heartbeats clk q = Inr (q\<lparr>ticks := t, heartbeat_at := h, to_workers := to_workers q @ b\<rparr>)
    \<and> b \<in> {[], map (heartbeat_to \<circ> identity) (queue q)}"
proof (cases "s_clock (clk (ticks q)) > heartbeat_at q")
  case True
  have "\<forall>x \<in> set (queue q). nul_free (identity x) \<and> \<not> is_uuid_part (identity x)"
    using assms short_plain by (auto simp: short_def)
  with pp_heartbeat_round [where clk = clk and s = q] True show ?thesis by blast
next
  case False
  then have "pp_heartbeats clk q = Inr (q\<lparr>ticks := Suc (ticks q), heartbeat_at := heartbeat_at q, to_workers := to_workers q @ []\<rparr>)"
    by (simp add: pp_heartbeats_def pp_clock_def)
  then show ?thesis by blast
qed

subsection \<open>What a worker does\<close>

lemma socket_sends_append:
  "socket_sends w (as @ bs) = (let (i, ms) = socket_sends w as; (k, ns) = socket_sends i bs in (k, ms @ ns))"
  by (induction w as rule: socket_sends.induct) (auto simp: case_prod_beta Let_def)

definition connects :: "paranoid_worker \<Rightarrow> nat" where
  "connects u = (case ap_worker u of None \<Rightarrow> 0 | Some v \<Rightarrow> pw_connects v)"

definition worker_ok :: "pirate_env \<Rightarrow> paranoid_worker \<Rightarrow> bool" where
  "worker_ok E u \<longleftrightarrow> (case ap_worker u of None \<Rightarrow> \<not> ap_crashed u
     | Some v \<Rightarrow> 1 \<le> pw_connects v \<and> ap_id u = set_id_text (pe_rand E (pw_connects v - 1)) \<and> 1 \<le> pw_liveness v \<and> pw_liveness v \<le> 3)"

text \<open>Heartbeats that a worker may send in addition.\<close>

definition beats :: "bytes \<Rightarrow> (bytes \<times> bytes list) list \<Rightarrow> bool" where
  "beats i ms \<longleftrightarrow> ms = [] \<or> ms = [(i, [PP_HEARTBEAT])]"

lemma joins_outcome:
  assumes "joins E = (w, ms)"
  shows "worker_ok E w \<and> connects w = 1 \<and> ms = [(ap_id w, [PP_READY])]"
  using assms by (auto simp: joins_def pw_start_def s_worker_socket_def pw_send_def pw_act_def pw_clock_def Let_def
      worker_ok_def connects_def PP_WORKER_LIVENESS_def PP_READY_def)

lemma heartbeat_sends:
  "\<exists>b as. pw_trace (pw_heartbeat E v) = pw_trace v @ as \<and> socket_sends i as = (i, b) \<and> beats i b
     \<and> pw_connects (pw_heartbeat E v) = pw_connects v \<and> pw_liveness (pw_heartbeat E v) = pw_liveness v"
  by (cases "s_clock (pe_clock E (pw_ticks v)) > pw_heartbeat_at v")
    (auto simp: pw_heartbeat_def pw_clock_def pw_send_def pw_act_def Let_def beats_def PP_HEARTBEAT_def)

text \<open>A poll, given what comes before the heartbeat.\<close>

lemma hears_via:
  assumes "pw_loop E [map_option deliver m] v = Inr (False, pw_heartbeat E v')" "pw_trace v' = pw_trace v @ as"
    and "socket_sends i as = (i', ms)" "1 \<le> pw_connects v'" "i' = set_id_text (pe_rand E (pw_connects v' - 1))"
    and "1 \<le> pw_liveness v'" "pw_liveness v' \<le> 3"
  shows "\<exists>w b. hears E m i v = Inr (w, ms @ b) \<and> beats i' b \<and> worker_ok E w \<and> connects w = pw_connects v' \<and> ap_id w = i'"
proof -
  obtain b bs where b: "pw_trace (pw_heartbeat E v') = pw_trace v' @ bs" "socket_sends i' bs = (i', b)" "beats i' b"
    "pw_connects (pw_heartbeat E v') = pw_connects v'" "pw_liveness (pw_heartbeat E v') = pw_liveness v'"
    using heartbeat_sends by blast
  then have "drop (length (pw_trace v)) (pw_trace (pw_heartbeat E v')) = as @ bs" using assms(2) by simp
  then have "hears E m i v = Inr (\<lparr>ap_worker = Some (pw_heartbeat E v'), ap_id = i', ap_crashed = False\<rparr>, ms @ b)"
    using b(2) assms(1,3) by (simp add: hears_def socket_sends_append Let_def)
  with b assms(4-7) show ?thesis by (simp add: worker_ok_def connects_def)
qed

lemma hears_nothing:
  assumes "worker_ok E u" "ap_worker u = Some v"
  shows "\<exists>w ms b. hears E None (ap_id u) v = Inr (w, ms @ b) \<and> beats (ap_id w) b \<and> worker_ok E w
    \<and> (connects w = connects u \<and> ap_id w = ap_id u \<and> ms = [] \<or> connects w = Suc (connects u) \<and> ms = [(ap_id w, [PP_READY])])"
proof -
  have v: "1 \<le> pw_connects v" "ap_id u = set_id_text (pe_rand E (pw_connects v - 1))" "1 \<le> pw_liveness v" "pw_liveness v \<le> 3"
    "connects u = pw_connects v" using assms by (simp_all add: worker_ok_def connects_def)
  let ?v = "pw_silence E v"
  have loop: "pw_loop E [map_option deliver None] v = Inr (False, pw_heartbeat E ?v)" by simp
  show ?thesis
  proof (cases "pw_liveness v = 1")
    case True
    define i where "i = set_id_text (pe_rand E (pw_connects v))"
    have "\<exists>as. pw_trace ?v = pw_trace v @ as \<and> socket_sends (ap_id u) as = (i, [(i, [PP_READY])])" "pw_connects ?v = Suc (pw_connects v)"
      "pw_liveness ?v = 3" using True
      by (simp_all add: pw_silence_def s_worker_socket_def pw_send_def pw_act_def PP_WORKER_LIVENESS_def PP_READY_def i_def Let_def)
    then obtain as where "pw_trace ?v = pw_trace v @ as" "socket_sends (ap_id u) as = (i, [(i, [PP_READY])])"
      "pw_connects ?v = Suc (pw_connects v)" "pw_liveness ?v = 3" by blast
    with hears_via [OF loop this(1,2)] obtain w b where "hears E None (ap_id u) v = Inr (w, [(i, [PP_READY])] @ b)" "beats i b"
      "worker_ok E w" "connects w = Suc (connects u)" "ap_id w = i" using v(5) by (auto simp: i_def)
    then show ?thesis by blast
  next
    case False
    then have "pw_trace ?v = pw_trace v @ []" "pw_connects ?v = pw_connects v" "pw_liveness ?v = pw_liveness v - 1"
      using v(3) by (simp_all add: pw_silence_def Let_def)
    moreover from this v False have "1 \<le> pw_liveness ?v" "pw_liveness ?v \<le> 3" by linarith+
    ultimately obtain w b where "hears E None (ap_id u) v = Inr (w, [] @ b)"
      "beats (ap_id u) b" "worker_ok E w" "connects w = connects u" "ap_id w = ap_id u"
      using hears_via [OF loop, of "[]" "ap_id u" "ap_id u" "[]"] v by auto
    then show ?thesis by metis
  qed
qed

lemma hears_beat:
  assumes "worker_ok E u" "ap_worker u = Some v"
  shows "\<exists>w b. hears E (Some [PP_HEARTBEAT]) (ap_id u) v = Inr (w, b) \<and> beats (ap_id w) b \<and> worker_ok E w
    \<and> connects w = connects u \<and> ap_id w = ap_id u"
proof -
  have v: "1 \<le> pw_connects v" "ap_id u = set_id_text (pe_rand E (pw_connects v - 1))" "connects u = pw_connects v"
    using assms by (simp_all add: worker_ok_def connects_def)
  let ?v = "v\<lparr>pw_liveness := PP_WORKER_LIVENESS, pw_interval := INTERVAL_INIT\<rparr>"
  have "pw_loop E [map_option deliver (Some [PP_HEARTBEAT])] v = Inr (False, pw_heartbeat E ?v)"
    by (simp add: pw_message_def zmsg_recv_def clear_def recv_part_def is_uuid_frame_def parts_def body_of_def PP_HEARTBEAT_def bytes_of_def c_str_Cons)
  with hears_via [OF this, of "[]" "ap_id u" "ap_id u" "[]"] obtain w b where "hears E (Some [PP_HEARTBEAT]) (ap_id u) v = Inr (w, b)"
      "beats (ap_id u) b" "worker_ok E w" "connects w = connects u" "ap_id w = ap_id u" using v by (auto simp: PP_WORKER_LIVENESS_def)
  then show ?thesis by metis
qed

lemma hears_request:
  assumes "worker_ok E u" "ap_worker u = Some v" "\<forall>d \<in> set r. \<not> is_uuid_part d" "length r = 3"
  shows "\<exists>w ms. hears E (Some r) (ap_id u) v = Inr (w, ms) \<and> worker_ok E w \<and> connects w = connects u \<and> ap_id w = ap_id u
    \<and> (ms = [] \<or> (\<exists>b. ms = (ap_id w, r) # b \<and> beats (ap_id w) b))"
proof -
  have v: "1 \<le> pw_connects v" "ap_id u = set_id_text (pe_rand E (pw_connects v - 1))" "connects u = pw_connects v"
    using assms by (simp_all add: worker_ok_def connects_def)
  have "plain_request [] r" using assms(3,4) by (auto simp: plain_request_def)
  then obtain ps where ps: "zmsg_recv (deliver r) zmsg_new = Inr (True, ps)" "mapE send_part ps = Inr r"
    by (rule relay_plain)
  have len: "length ps = 3" using mapE_length [OF ps(2)] assms(4) by simp
  have "\<exists>o1. pw_message E (deliver r) v = Inr o1 \<and> (\<forall>v'. o1 = Some v' \<longrightarrow> (\<exists>as. pw_trace v' = pw_trace v @ as
      \<and> socket_sends (ap_id u) as = (ap_id u, [(ap_id u, r)]) \<and> pw_connects v' = pw_connects v \<and> pw_liveness v' = 3))"
    using ps len
    by (auto simp: pw_message_def parts_def pw_request_def pw_within5_def zmsg_send_eq send_start_example_def pw_act_def
        PP_WORKER_LIVENESS_def Let_def)
  then obtain o1 where o1: "pw_message E (deliver r) v = Inr o1" "\<And>v'. o1 = Some v' \<Longrightarrow> \<exists>as. pw_trace v' = pw_trace v @ as
      \<and> socket_sends (ap_id u) as = (ap_id u, [(ap_id u, r)]) \<and> pw_connects v' = pw_connects v \<and> pw_liveness v' = 3" by blast
  show ?thesis
  proof (cases o1)
    case None
    then have "hears E (Some r) (ap_id u) v = Inr (u\<lparr>ap_crashed := True\<rparr>, [])" using o1(1) assms(2) by (simp add: hears_def)
    moreover have "worker_ok E (u\<lparr>ap_crashed := True\<rparr>)" "connects (u\<lparr>ap_crashed := True\<rparr>) = connects u"
      using assms(1,2) by (simp_all add: worker_ok_def connects_def)
    ultimately show ?thesis by fastforce
  next
    case (Some v')
    then have loop: "pw_loop E [map_option deliver (Some r)] v = Inr (False, pw_heartbeat E v')" using o1(1) by simp
    from o1(2) [OF Some] obtain as where "pw_trace v' = pw_trace v @ as" "socket_sends (ap_id u) as = (ap_id u, [(ap_id u, r)])"
      "pw_connects v' = pw_connects v" "pw_liveness v' = 3" by blast
    with hears_via [OF loop this(1,2)] obtain w b where "hears E (Some r) (ap_id u) v = Inr (w, [(ap_id u, r)] @ b)" "beats (ap_id u) b"
      "worker_ok E w" "connects w = connects u" "ap_id w = ap_id u" using v by auto
    then show ?thesis by (intro exI [of _ w] exI [of _ "(ap_id u, r) # b"]) auto
  qed
qed

text \<open>Together: a worker keeps its identity and may send a request back, or it takes a new one and announces itself.\<close>

definition goes_on :: "pirate_env \<Rightarrow> bytes list option \<Rightarrow> paranoid_worker \<Rightarrow> paranoid_worker \<Rightarrow> (bytes \<times> bytes list) list \<Rightarrow> bool" where
  "goes_on E m u w ms \<longleftrightarrow> worker_ok E w \<and> (\<exists>ns b. ms = ns @ b \<and> beats (ap_id w) b \<and>
     (connects w = connects u \<and> ap_id w = ap_id u \<and> (ns = [] \<or> (\<exists>r. m = Some r \<and> length r = 3 \<and> ns = [(ap_id u, r)]))
      \<or> m = None \<and> connects w = Suc (connects u) \<and> ns = [(ap_id w, [PP_READY])]))"

lemma hears_outcome:
  assumes "worker_ok E u" "ap_worker u = Some v" "\<And>r. m = Some r \<Longrightarrow> r = [PP_HEARTBEAT] \<or> (\<forall>d \<in> set r. \<not> is_uuid_part d) \<and> length r = 3"
  shows "\<exists>w ms. hears E m (ap_id u) v = Inr (w, ms) \<and> goes_on E m u w ms"
proof (cases m)
  case None
  with hears_nothing [OF assms(1,2)] show ?thesis unfolding goes_on_def by blast
next
  case (Some r)
  with assms(3) consider "r = [PP_HEARTBEAT]" | "\<forall>d \<in> set r. \<not> is_uuid_part d" "length r = 3" by blast
  then show ?thesis
  proof cases
    case 1
    with hears_beat [OF assms(1,2)] Some show ?thesis unfolding goes_on_def by (metis append_Nil)
  next
    case 2
    from hears_request [OF assms(1,2) this] obtain w ms where w: "hears E (Some r) (ap_id u) v = Inr (w, ms)" "worker_ok E w"
      "connects w = connects u" "ap_id w = ap_id u" "ms = [] \<or> (\<exists>b. ms = [(ap_id u, r)] @ b \<and> beats (ap_id u) b)" by auto
    have "beats (ap_id w) []" by (simp add: beats_def)
    with w 2 Some have "goes_on E m u w ms" unfolding goes_on_def by (metis append_Nil)
    with w(1) Some show ?thesis by blast
  qed
qed

subsection \<open>The invariant\<close>

text \<open>Names that begin with a zero byte and are no UUIDs: those libzmq makes since its version 3.\<close>

definition hidden :: "(nat \<Rightarrow> nat \<Rightarrow> bytes) \<Rightarrow> bool" where
  "hidden names \<longleftrightarrow> (\<forall>i k. \<not> addressed (names i k))"

definition sent_workers :: "(bytes list \<Rightarrow> bytes \<times> bytes list) \<Rightarrow> paranoid_pirate \<Rightarrow> (bytes \<times> bytes list) list" where
  "sent_workers peer_out s = pa_to_workers s @ map (peer_out \<circ> map fst) (to_workers (pa_queue s))"

definition sent_clients :: "(bytes list \<Rightarrow> bytes \<times> bytes list) \<Rightarrow> paranoid_pirate \<Rightarrow> (bytes \<times> bytes list) list" where
  "sent_clients peer_out s = pa_to_clients s @ map (peer_out \<circ> map fst) (to_clients (pa_queue s))"

text \<open>The requests and replies out there, with the name of the socket they came from.\<close>

definition pa_out :: "(bytes list \<Rightarrow> bytes \<times> bytes list) \<Rightarrow> paranoid_pirate \<Rightarrow> (bytes \<times> bytes) multiset" where
  "pa_out peer_out s = mset (map (\<lambda>m. (m ! 0, m ! 2)) (pa_front s))
     + mset (map (\<lambda>x. (snd x ! 0, snd x ! 2)) (filter (\<lambda>x. length (snd x) = 3) (sent_workers peer_out s)))
     + mset (map (\<lambda>m. (m ! 1, m ! 3)) (filter (\<lambda>m. length m = 4) (pa_back s)))
     + mset (map (\<lambda>x. (fst x, snd x ! 1)) (filter (\<lambda>x. length (snd x) = 2) (sent_clients peer_out s)))"

text \<open>The identities under which a worker waits, has announced itself, has a request, or has replied; and all there were.\<close>

definition takes_seat :: "bytes list \<Rightarrow> bool" where
  "takes_seat m \<longleftrightarrow> length m = 4 \<or> m ! 1 = PP_READY"

definition pa_seats :: "(bytes list \<Rightarrow> bytes \<times> bytes list) \<Rightarrow> paranoid_pirate \<Rightarrow> bytes multiset" where
  "pa_seats peer_out s = mset (map identity (queue (pa_queue s))) + mset (map hd (filter takes_seat (pa_back s)))
     + mset (map fst (filter (\<lambda>x. length (snd x) = 3) (sent_workers peer_out s)))"

definition identities :: "pirate_env \<Rightarrow> paranoid_worker \<Rightarrow> bytes multiset" where
  "identities E u = mset (map (\<lambda>n. set_id_text (pe_rand E n)) [0..<connects u])"

definition pa_opened :: "(nat \<Rightarrow> pirate_env) \<Rightarrow> paranoid_pirate \<Rightarrow> bytes multiset" where
  "pa_opened envs s = (\<Sum>j \<leftarrow> [0..<length (pa_workers s)]. identities (envs j) (pa_workers s ! j))"

definition from_worker :: "(nat \<Rightarrow> nat \<Rightarrow> bytes) \<Rightarrow> nat \<Rightarrow> bytes list \<Rightarrow> bool" where
  "from_worker names n m \<longleftrightarrow> (\<exists>w. short w \<and> (m = [w, PP_READY] \<or> m = [w, PP_HEARTBEAT] \<or> (\<exists>r. lazy_request names n r \<and> m = w # r)))"

definition for_worker :: "(nat \<Rightarrow> nat \<Rightarrow> bytes) \<Rightarrow> nat \<Rightarrow> bytes \<times> bytes list \<Rightarrow> bool" where
  "for_worker names n x \<longleftrightarrow> snd x = [PP_HEARTBEAT] \<or> lazy_request names n (snd x)"

definition for_client :: "(nat \<Rightarrow> nat \<Rightarrow> bytes) \<Rightarrow> bytes \<times> bytes list \<Rightarrow> bool" where
  "for_client names x \<longleftrightarrow> (\<exists>t. x = ([], [decimal t]) \<or> \<not> hidden names \<and> snd x = [[], decimal t])"

definition pa_shapes :: "(nat \<Rightarrow> nat \<Rightarrow> bytes) \<Rightarrow> (bytes list \<Rightarrow> bytes \<times> bytes list) \<Rightarrow> paranoid_pirate \<Rightarrow> bool" where
  "pa_shapes names peer_out s \<longleftrightarrow>
     (\<forall>m \<in> set (pa_front s). lazy_request names (length (pa_clients s)) m)
     \<and> (\<forall>m \<in> set (pa_back s). from_worker names (length (pa_clients s)) m)
     \<and> (\<forall>x \<in> set (sent_workers peer_out s). for_worker names (length (pa_clients s)) x)
     \<and> (\<forall>x \<in> set (sent_clients peer_out s). for_client names x)
     \<and> distinct (map identity (queue (pa_queue s))) \<and> (\<forall>x \<in> set (queue (pa_queue s)). short (identity x))"

definition pa_inv :: "(nat \<Rightarrow> nat \<Rightarrow> bytes) \<Rightarrow> (nat \<Rightarrow> pirate_env) \<Rightarrow> (bytes list \<Rightarrow> bytes \<times> bytes list) \<Rightarrow> paranoid_pirate \<Rightarrow> bool" where
  "pa_inv names envs peer_out s \<longleftrightarrow> pa_shapes names peer_out s \<and> pa_seats peer_out s \<subseteq># pa_opened envs s
     \<and> clients_ok names (pa_clients s) (pa_out peer_out s)
     \<and> (\<forall>j < length (pa_workers s). worker_ok (envs j) (pa_workers s ! j))
     \<and> (hidden names \<longrightarrow> (\<forall>c \<in> set (pa_clients s). sequence_nr (pc_lp c) = 1))"

subsection \<open>A turn of the queue\<close>

definition ids :: "ppqueue \<Rightarrow> bytes multiset" where
  "ids q = mset (map identity (queue q))"

definition queue_ok :: "ppqueue \<Rightarrow> bool" where
  "queue_ok q \<longleftrightarrow> distinct (map identity (queue q)) \<and> (\<forall>x \<in> set (queue q). short (identity x))"

lemma append_ok:
  assumes "queue_ok q" "short w"
  shows "queue_ok (s_worker_append clk w q)" "ids (s_worker_append clk w q) \<subseteq># add_mset w (ids q)"
    "queue (s_worker_append clk w q) \<noteq> []" "to_clients (s_worker_append clk w q) = to_clients q"
    "to_workers (s_worker_append clk w q) = to_workers q"
  using assms by (auto simp: s_worker_append_def pp_clock_def Let_def queue_ok_def ids_def)

lemma delete_ids: "mset (map identity (delete_first w xs)) \<subseteq># mset (map identity xs)"
proof (induction xs)
  case (Cons x xs)
  then show ?case by (auto intro: subset_mset.add_increasing2 subset_mset.order_trans)
qed simp

lemma delete_ok:
  assumes "queue_ok q"
  shows "queue_ok (s_worker_delete w q)" "ids (s_worker_delete w q) \<subseteq># ids q" "to_clients (s_worker_delete w q) = to_clients q"
    "to_workers (s_worker_delete w q) = to_workers q"
  using assms delete_first_set [of "queue q" w] delete_ids by (auto simp: s_worker_delete_def queue_ok_def ids_def)

lemma refresh_ok:
  assumes "queue_ok q"
  shows "queue_ok (s_worker_refresh clk w q)" "ids (s_worker_refresh clk w q) = ids q"
    "queue (s_worker_refresh clk w q) = [] \<longleftrightarrow> queue q = []" "to_clients (s_worker_refresh clk w q) = to_clients q"
    "to_workers (s_worker_refresh clk w q) = to_workers q"
proof -
  have "map identity (queue (s_worker_refresh clk w q)) = map identity (queue q)"
    by (simp add: s_worker_refresh_def pp_clock_def Let_def)
  note same = this
  then have "identity ` set (queue (s_worker_refresh clk w q)) = identity ` set (queue q)" by (metis list.set_map)
  then show "queue_ok (s_worker_refresh clk w q)" using assms same by (metis (no_types, lifting) imageE imageI queue_ok_def)
  show "ids (s_worker_refresh clk w q) = ids q" using same by (simp add: ids_def)
qed (simp_all add: s_worker_refresh_def pp_clock_def Let_def)

lemma purge_ok:
  assumes "queue_ok q"
  shows "queue_ok (s_queue_purge clk q)" "ids (s_queue_purge clk q) \<subseteq># ids q" "to_clients (s_queue_purge clk q) = to_clients q"
    "to_workers (s_queue_purge clk q) = to_workers q"
  using assms by (auto simp: s_queue_purge_def pp_clock_def Let_def purge_from_filter queue_ok_def ids_def distinct_map inj_on_def
      intro: image_mset_subseteq_mono)

text \<open>What the queue may do to keep the invariant.\<close>

lemma queue_keeps:
  assumes "pa_inv names envs peer_out s" "t = s\<lparr>pa_queue := q, pa_back := bs, pa_front := fs\<rparr>"
    and "queue_ok q" "set fs \<subseteq> set (pa_front s)" "set bs \<subseteq> set (pa_back s)"
    and "set (sent_workers peer_out t) \<subseteq> set (sent_workers peer_out s) \<union> {x. for_worker names (length (pa_clients s)) x}"
    and "set (sent_clients peer_out t) \<subseteq> set (sent_clients peer_out s) \<union> {x. for_client names x}"
    and "pa_seats peer_out t \<subseteq># pa_seats peer_out s" "pa_out peer_out t \<subseteq># pa_out peer_out s"
  shows "pa_inv names envs peer_out t"
proof -
  have "pa_shapes names peer_out t"
    using assms(1-7) by (auto simp: pa_inv_def pa_shapes_def queue_ok_def)
  moreover have "pa_seats peer_out t \<subseteq># pa_opened envs t"
    using assms(1,2,8) by (auto simp: pa_inv_def pa_opened_def intro: subset_mset.order_trans)
  moreover have "clients_ok names (pa_clients t) (pa_out peer_out t)"
    using assms(1,2) clients_ok_less [OF _ assms(9)] by (simp add: pa_inv_def)
  ultimately show ?thesis using assms(1,2) by (simp add: pa_inv_def)
qed

lemma inv_queue_ok: "pa_inv names envs peer_out s \<Longrightarrow> queue_ok (pa_queue s)"
  by (simp add: pa_inv_def pa_shapes_def queue_ok_def)

lemma backend_stage:
  assumes "paranoid_setting names envs req_in peer_in peer_out" "pa_inv names envs peer_out s" "pa_back s = xs @ m # ys"
  shows "\<exists>q. pp_backend clk (deliver m) (pa_queue s) = Inr q \<and> pa_inv names envs peer_out (s\<lparr>pa_queue := q, pa_back := xs @ ys\<rparr>)
    \<and> (queue (pa_queue s) \<noteq> [] \<longrightarrow> queue q \<noteq> [])"
proof -
  note ok = inv_queue_ok [OF assms(2)]
  have "from_worker names (length (pa_clients s)) m" using assms(2,3) by (simp add: pa_inv_def pa_shapes_def)
  then obtain w where w: "short w" "m = [w, PP_READY] \<or> m = [w, PP_HEARTBEAT] \<or>
      (\<exists>r. lazy_request names (length (pa_clients s)) r \<and> m = w # r)" by (auto simp: from_worker_def)
  then consider "m = [w, PP_READY]" | "m = [w, PP_HEARTBEAT]" | r where "lazy_request names (length (pa_clients s)) r" "m = w # r" by blast
  then show ?thesis
  proof cases
    case 1
    let ?q = "s_worker_append clk w (s_worker_delete w (pa_queue s))"
    note d = delete_ok [OF ok, of w]
    note a = append_ok [OF d(1) w(1), of clk]
    have "ids ?q \<subseteq># add_mset w (ids (pa_queue s))" using a(2) d(2) by (meson mset_subset_eq_add_mset_cancel subset_mset.order_trans)
    then have "pa_seats peer_out (s\<lparr>pa_queue := ?q, pa_back := xs @ ys\<rparr>) \<subseteq># pa_seats peer_out s"
      using 1 assms(3) a(5) d(4) by (simp add: pa_seats_def takes_seat_def sent_workers_def ids_def)
    moreover have "pa_out peer_out (s\<lparr>pa_queue := ?q, pa_back := xs @ ys\<rparr>) = pa_out peer_out s"
      using 1 assms(3) a(4,5) d(3,4) by (simp add: pa_out_def sent_workers_def sent_clients_def)
    ultimately have "pa_inv names envs peer_out (s\<lparr>pa_queue := ?q, pa_back := xs @ ys\<rparr>)"
      using a d assms(3) by (intro queue_keeps [OF assms(2) _ a(1)]) (auto simp: sent_workers_def sent_clients_def)
    then show ?thesis using 1 queue_ready [OF w(1)] a(3) by blast
  next
    case 2
    let ?q = "s_worker_refresh clk w (pa_queue s)"
    note r = refresh_ok [OF ok, of clk w]
    have "pa_seats peer_out (s\<lparr>pa_queue := ?q, pa_back := xs @ ys\<rparr>) \<subseteq># pa_seats peer_out s"
      using 2 assms(3) r(2,5) by (simp add: pa_seats_def takes_seat_def sent_workers_def ids_def words_apart)
    moreover have "pa_out peer_out (s\<lparr>pa_queue := ?q, pa_back := xs @ ys\<rparr>) = pa_out peer_out s"
      using 2 assms(3) r(4,5) by (simp add: pa_out_def sent_workers_def sent_clients_def)
    ultimately have "pa_inv names envs peer_out (s\<lparr>pa_queue := ?q, pa_back := xs @ ys\<rparr>)"
      using r assms(3) by (intro queue_keeps [OF assms(2) _ r(1)]) (auto simp: sent_workers_def sent_clients_def)
    then show ?thesis using 2 queue_heartbeat [OF w(1)] r(3) by blast
  next
    case 3
    then obtain c n where c: "sender names (length (pa_clients s)) c" "r = [c, [], decimal n]" by (auto simp: lazy_request_def)
    then obtain i k where ik: "c = names i k" by (auto simp: sender_def)
    note name = namesD(1,2) [OF paranoidD(1) [OF assms(1)], of i k]
    let ?u = "(pa_queue s)\<lparr>to_clients := to_clients (pa_queue s) @ [with_more ((if addressed c then [c] else []) @ [[], decimal n])]\<rparr>"
    let ?q = "s_worker_append clk w ?u"
    let ?t = "s\<lparr>pa_queue := ?q, pa_back := xs @ ys\<rparr>"
    have "queue_ok ?u" "ids ?u = ids (pa_queue s)" using ok by (simp_all add: queue_ok_def ids_def)
    note a = append_ok [OF this(1) w(1), of clk, unfolded this(2)]
    have clients: "sent_clients peer_out ?t = sent_clients peer_out s @ [if addressed c then (c, [[], decimal n]) else ([], [decimal n])]"
      using a(4) paranoidD(4) [OF assms(1)] by (simp add: sent_clients_def)
    have workers: "sent_workers peer_out ?t = sent_workers peer_out s" using a(5) by (simp add: sent_workers_def)
    have "pa_seats peer_out ?t \<subseteq># pa_seats peer_out s"
      using 3 c assms(3) a(2) workers by (simp add: pa_seats_def takes_seat_def ids_def)
    moreover have "pa_out peer_out ?t \<subseteq># pa_out peer_out s"
      using 3 c assms(3) clients workers by (simp add: pa_out_def)
    moreover have "for_client names (if addressed c then (c, [[], decimal n]) else ([], [decimal n]))"
      using ik by (auto simp: for_client_def hidden_def)
    ultimately have "pa_inv names envs peer_out ?t"
      using a assms(3) clients workers by (intro queue_keeps [OF assms(2) _ a(1)]) auto
    then show ?thesis using 3 c(2) ik queue_reply [OF w(1) name(2)] a(3) by metis
  qed
qed

lemma frontend_stage:
  assumes "paranoid_setting names envs req_in peer_in peer_out" "pa_inv names envs peer_out s" "pa_front s = xs @ m # ys"
    and "queue (pa_queue s) \<noteq> []"
  shows "\<exists>q. pp_frontend (deliver m) (pa_queue s) = Inr q \<and> pa_inv names envs peer_out (s\<lparr>pa_queue := q, pa_front := xs @ ys\<rparr>)"
proof -
  let ?n = "length (pa_clients s)"
  note ok = inv_queue_ok [OF assms(2)]
  obtain x q where q: "queue (pa_queue s) = x # q" using assms(4) by (cases "queue (pa_queue s)") auto
  have m: "lazy_request names ?n m" using assms(2,3) by (simp add: pa_inv_def pa_shapes_def)
  note plain = lazy_request_plain [OF paranoidD(1) [OF assms(1)] m]
  let ?q = "(pa_queue s)\<lparr>queue := q, to_workers := to_workers (pa_queue s) @ [with_more (identity x # m)]\<rparr>"
  let ?t = "s\<lparr>pa_queue := ?q, pa_front := xs @ ys\<rparr>"
  have workers: "sent_workers peer_out ?t = sent_workers peer_out s @ [(identity x, m)]"
    using paranoidD(4) [OF assms(1)] by (simp add: sent_workers_def del: with_more.simps)
  have clients: "sent_clients peer_out ?t = sent_clients peer_out s" by (simp add: sent_clients_def)
  have "queue_ok ?q" using ok q by (simp add: queue_ok_def)
  moreover have "pa_seats peer_out ?t \<subseteq># pa_seats peer_out s" using q plain(3) workers by (simp add: pa_seats_def)
  moreover have "pa_out peer_out ?t \<subseteq># pa_out peer_out s" using assms(3) plain(3) workers clients by (simp add: pa_out_def)
  moreover have "for_worker names ?n (identity x, m)" using m by (simp add: for_worker_def)
  ultimately have "pa_inv names envs peer_out ?t"
    using assms(3) workers clients
    by (intro queue_keeps [OF assms(2), where q = ?q and bs = "pa_back s" and fs = "xs @ ys"]) (auto simp del: with_more.simps)
  moreover have "pp_frontend (deliver m) (pa_queue s) = Inr ?q"
    using queue_request [OF q _ plain(1,2)] ok q by (simp add: queue_ok_def)
  ultimately show ?thesis by blast
qed

lemma rest_stage:
  assumes "paranoid_setting names envs req_in peer_in peer_out" "pa_inv names envs peer_out s"
  shows "\<exists>q. bindE (pp_heartbeats clk (pa_queue s)) (\<lambda>q. Inr (s_queue_purge clk q)) = Inr q
    \<and> pa_inv names envs peer_out (pa_route peer_out (s\<lparr>pa_queue := q\<rparr>))"
proof -
  let ?n = "length (pa_clients s)"
  note ok = inv_queue_ok [OF assms(2)]
  from queue_beats [of "pa_queue s" clk] ok obtain i h b where
    b: "pp_heartbeats clk (pa_queue s) = Inr ((pa_queue s)\<lparr>ticks := i, heartbeat_at := h, to_workers := to_workers (pa_queue s) @ b\<rparr>)"
      "b \<in> {[], map (heartbeat_to \<circ> identity) (queue (pa_queue s))}" unfolding queue_ok_def by blast
  let ?u = "(pa_queue s)\<lparr>ticks := i, heartbeat_at := h, to_workers := to_workers (pa_queue s) @ b\<rparr>"
  let ?q = "s_queue_purge clk ?u"
  let ?t = "pa_route peer_out (s\<lparr>pa_queue := ?q\<rparr>)"
  have "queue_ok ?u" "ids ?u = ids (pa_queue s)" using ok by (simp_all add: queue_ok_def ids_def)
  note p = purge_ok [OF this(1), of clk, unfolded this(2)]
  have b': "\<forall>x \<in> set (map (peer_out \<circ> map fst) b). snd x = [PP_HEARTBEAT]"
    using b(2) paranoidD(4) [OF assms(1)] by (auto simp: heartbeat_to_def PP_HEARTBEAT_def)
  have workers: "sent_workers peer_out ?t = sent_workers peer_out s @ map (peer_out \<circ> map fst) b"
    using p(4) by (simp add: sent_workers_def pa_route_def)
  have clients: "sent_clients peer_out ?t = sent_clients peer_out s" using p(3) by (simp add: sent_clients_def pa_route_def)
  have none: "filter (\<lambda>x. length (snd x) = 3) (map (peer_out \<circ> map fst) b) = []" using b' by (auto simp: filter_empty_conv)
  have "ids (pa_queue ?t) \<subseteq># ids (pa_queue s)" using p(2) by (simp add: pa_route_def ids_def)
  then have "pa_seats peer_out ?t \<subseteq># pa_seats peer_out s"
    using workers none by (simp add: pa_seats_def ids_def pa_route_def)
  moreover have "pa_out peer_out ?t = pa_out peer_out s"
    using workers clients none by (simp add: pa_out_def) (simp add: pa_route_def)
  moreover have "?t = ?t\<lparr>pa_queue := ?q\<lparr>to_clients := [], to_workers := []\<rparr>, pa_back := pa_back s, pa_front := pa_front s\<rparr>"
    by (simp add: pa_route_def)
  moreover have "queue_ok (pa_queue ?t)" using p(1) by (simp add: pa_route_def queue_ok_def)
  moreover have "set (sent_workers peer_out ?t) \<subseteq> set (sent_workers peer_out s) \<union> {x. for_worker names ?n x}"
    using workers b' by (auto simp: for_worker_def)
  ultimately have "pa_inv names envs peer_out ?t"
    using assms(2) clients by (auto simp: pa_inv_def pa_shapes_def queue_ok_def pa_route_def pa_opened_def intro: subset_mset.order_trans)
  then show ?thesis using b(1) by simp
qed

lemma turn_outcome_paranoid:
  assumes "paranoid_setting names envs req_in peer_in peer_out" "pa_inv names envs peer_out s" "picks (pa_back s) mb bs" "picks (pa_front s) mf fs"
    and "mf \<noteq> None \<Longrightarrow> queue (pa_queue s) \<noteq> []"
  shows "\<exists>q. pp_turn clk (map_option deliver mb, map_option deliver mf) (pa_queue s) = Inr q
    \<and> pa_inv names envs peer_out (pa_route peer_out (s\<lparr>pa_queue := q, pa_back := bs, pa_front := fs\<rparr>))"
proof -
  have "\<exists>q. (case map_option deliver mb of None \<Rightarrow> Inr (pa_queue s) | Some r \<Rightarrow> pp_backend clk r (pa_queue s)) = Inr q
      \<and> pa_inv names envs peer_out (s\<lparr>pa_queue := q, pa_back := bs\<rparr>) \<and> (queue (pa_queue s) \<noteq> [] \<longrightarrow> queue q \<noteq> [])"
  proof (cases mb)
    case None
    then have "bs = pa_back s" using assms(3) by (auto elim: picks_NoneE)
    then show ?thesis using None assms(2) by simp
  next
    case (Some m)
    then obtain xs ys where "pa_back s = xs @ m # ys" "bs = xs @ ys" using assms(3) by (auto elim: picks_SomeE)
    then show ?thesis using backend_stage [OF assms(1,2)] Some by simp
  qed
  then obtain q where q: "(case map_option deliver mb of None \<Rightarrow> Inr (pa_queue s) | Some r \<Rightarrow> pp_backend clk r (pa_queue s)) = Inr q"
    "pa_inv names envs peer_out (s\<lparr>pa_queue := q, pa_back := bs\<rparr>)" "queue (pa_queue s) \<noteq> [] \<Longrightarrow> queue q \<noteq> []" by blast
  let ?s = "s\<lparr>pa_queue := q, pa_back := bs\<rparr>"
  have "\<exists>u. (case (if queue (pa_queue s) \<noteq> [] then map_option deliver mf else None) of None \<Rightarrow> Inr q | Some r \<Rightarrow> pp_frontend r q) = Inr u
      \<and> pa_inv names envs peer_out (?s\<lparr>pa_queue := u, pa_front := fs\<rparr>)"
  proof (cases mf)
    case None
    then have "fs = pa_front s" using assms(4) by (auto elim: picks_NoneE)
    then have "?s\<lparr>pa_queue := q, pa_front := fs\<rparr> = ?s" by simp
    then show ?thesis using None q(2) by simp
  next
    case (Some m)
    then obtain xs ys where "pa_front s = xs @ m # ys" "fs = xs @ ys" using assms(4) by (auto elim: picks_SomeE)
    then show ?thesis using frontend_stage [OF assms(1) q(2), of xs m ys] Some assms(5) q(3) by simp
  qed
  then obtain u where u: "(case (if queue (pa_queue s) \<noteq> [] then map_option deliver mf else None) of None \<Rightarrow> Inr q | Some r \<Rightarrow> pp_frontend r q) = Inr u"
    "pa_inv names envs peer_out (?s\<lparr>pa_queue := u, pa_front := fs\<rparr>)" by blast
  from rest_stage [OF assms(1) u(2), of clk] obtain r where r: "bindE (pp_heartbeats clk u) (\<lambda>q. Inr (s_queue_purge clk q)) = Inr r"
    "pa_inv names envs peer_out (pa_route peer_out (?s\<lparr>pa_queue := u, pa_front := fs\<rparr>\<lparr>pa_queue := r\<rparr>))" by auto
  have "?s\<lparr>pa_queue := u, pa_front := fs\<rparr>\<lparr>pa_queue := r\<rparr> = s\<lparr>pa_queue := r, pa_back := bs, pa_front := fs\<rparr>" by simp
  note r(2) [unfolded this]
  moreover have "pp_turn clk (map_option deliver mb, map_option deliver mf) (pa_queue s) = Inr r"
    using q(1) u(1) r(1) by (simp only: pp_turn_def Let_def fst_conv snd_conv bindE_simps)
  ultimately show ?thesis by blast
qed

subsection \<open>The other steps\<close>

text \<open>The identities of all workers, when one of them goes on.\<close>

lemma opened_update:
  assumes "j < length (pa_workers s)" "identities (envs j) w = identities (envs j) (pa_workers s ! j) + new"
  shows "pa_opened envs (s\<lparr>pa_workers := (pa_workers s)[j := w]\<rparr>) = pa_opened envs s + new"
proof -
  let ?f = "\<lambda>ws i. identities (envs i) (ws ! i)"
  have "j \<in> set [0..<length (pa_workers s)]" using assms(1) by simp
  then obtain hs js where split: "[0..<length (pa_workers s)] = hs @ j # js" by (meson split_list)
  then have "distinct (hs @ j # js)" by (metis distinct_upt)
  then have others: "j \<notin> set hs" "j \<notin> set js" by auto
  have same: "map (?f ((pa_workers s)[j := w])) ks = map (?f (pa_workers s)) ks" if "j \<notin> set ks" for ks
    using that by (auto intro!: map_cong) (metis nth_list_update_neq)
  have "pa_opened envs (s\<lparr>pa_workers := (pa_workers s)[j := w]\<rparr>) =
      sum_list (map (?f ((pa_workers s)[j := w])) (hs @ j # js))" by (simp add: pa_opened_def split)
  also have "\<dots> = sum_list (map (?f (pa_workers s)) hs) + (identities (envs j) (pa_workers s ! j) + new) + sum_list (map (?f (pa_workers s)) js)"
    using assms by (simp only: map_append list.map same [OF others(1)] same [OF others(2)] sum_list.append sum_list.Cons
        nth_list_update_eq add.assoc)
  also have "\<dots> = pa_opened envs s + new" by (simp add: pa_opened_def split ac_simps)
  finally show ?thesis .
qed

text \<open>What a worker may do to keep the invariant: the messages are those it has taken and those it sends.\<close>

lemma worker_keeps:
  assumes "paranoid_setting names envs req_in peer_in peer_out" "pa_inv names envs peer_out s" "j < length (pa_workers s)"
    and "worker_ok (envs j) w" "identities (envs j) w = identities (envs j) (pa_workers s ! j) + new"
    and "t = s\<lparr>pa_workers := (pa_workers s)[j := w], pa_to_workers := rest, pa_back := pa_back s @ arrives peer_in ms\<rparr>"
    and "set rest \<subseteq> set (pa_to_workers s)" "\<forall>x \<in> set ms. from_worker names (length (pa_clients s)) (fst x # snd x)"
    and "pa_seats peer_out t \<subseteq># pa_seats peer_out s + new" "pa_out peer_out t \<subseteq># pa_out peer_out s"
  shows "pa_inv names envs peer_out t"
proof -
  have sent: "set (sent_workers peer_out t) \<subseteq> set (sent_workers peer_out s)" "sent_clients peer_out t = sent_clients peer_out s"
    using assms(6,7) by (auto simp: sent_workers_def sent_clients_def)
  have arrived: "set (pa_back t) = set (pa_back s) \<union> (\<lambda>x. fst x # snd x) ` set ms"
    using assms(6) paranoidD(3) [OF assms(1)] by (auto simp: case_prod_beta)
  have "pa_shapes names peer_out t"
    using assms(2,6,8) sent arrived by (auto simp: pa_inv_def pa_shapes_def)
  moreover have "pa_opened envs t = pa_opened envs s + new"
    using opened_update [where s = s and j = j and envs = envs and w = w and new = new] assms(3,5,6) by (simp add: pa_opened_def)
  then have "pa_seats peer_out t \<subseteq># pa_opened envs t"
    using assms(2,9) by (simp add: pa_inv_def) (meson subset_mset.add_right_mono subset_mset.order_trans)
  moreover have "clients_ok names (pa_clients t) (pa_out peer_out t)"
    using assms(2,6) clients_ok_less [OF _ assms(10)] by (simp add: pa_inv_def)
  moreover have "\<forall>i < length (pa_workers t). worker_ok (envs i) (pa_workers t ! i)"
    using assms(2,3,4,6) by (auto simp: pa_inv_def nth_list_update)
  ultimately show ?thesis using assms(2,6) by (simp add: pa_inv_def)
qed

lemma beats_seat: "beats i b \<Longrightarrow> filter takes_seat (map (\<lambda>x. fst x # snd x) b) = []" "beats i b \<Longrightarrow> filter (\<lambda>m. length m = 4) (map (\<lambda>x. fst x # snd x) b) = []"
  by (auto simp: beats_def takes_seat_def words_apart)

lemma identities_Suc:
  "connects w = Suc (connects u) \<Longrightarrow> worker_ok E w \<Longrightarrow> identities E w = identities E u + {# ap_id w #}"
  by (cases "ap_worker w") (auto simp: identities_def worker_ok_def connects_def)

lemma identities_same: "connects w = connects u \<Longrightarrow> identities E w = identities E u"
  by (simp add: identities_def)

lemma worker_short:
  assumes "paranoid_setting names envs req_in peer_in peer_out" "worker_ok (envs j) w" "ap_worker w = Some v"
  shows "short (ap_id w)"
  using assms(2,3) short_id [OF paranoidD(5,6) [OF assms(1)]] by (simp add: worker_ok_def)

lemma worker_step_keeps:
  assumes "paranoid_setting names envs req_in peer_in peer_out" "pa_inv names envs peer_out s" "j < length (pa_workers s)"
    and "goes_on (envs j) m (pa_workers s ! j) w ms" "ap_worker w = Some v"
    and "m = None \<and> rest = pa_to_workers s \<or>
      (\<exists>r xs ys. m = Some r \<and> pa_to_workers s = xs @ (ap_id (pa_workers s ! j), r) # ys \<and> rest = xs @ ys)"
    and "t = s\<lparr>pa_workers := (pa_workers s)[j := w], pa_to_workers := rest, pa_back := pa_back s @ arrives peer_in ms\<rparr>"
  shows "pa_inv names envs peer_out t"
proof -
  let ?u = "pa_workers s ! j" and ?n = "length (pa_clients s)"
  have ok: "worker_ok (envs j) w" using assms(4) by (simp add: goes_on_def)
  note id = worker_short [OF assms(1) ok assms(5)]
  have taken: "set rest \<subseteq> set (pa_to_workers s)" using assms(6) by auto
  have arrived: "arrives peer_in ms = map (\<lambda>x. fst x # snd x) ms"
    using paranoidD(3) [OF assms(1)] by (auto simp: case_prod_beta)
  have beat: "\<forall>x \<in> set b. from_worker names ?n (fst x # snd x)" if "beats (ap_id w) b" for b
    using that id by (auto simp: beats_def from_worker_def)
  from assms(4) obtain ns b where ms: "ms = ns @ b" "beats (ap_id w) b" and cases:
    "connects w = connects ?u \<and> ap_id w = ap_id ?u \<and> (ns = [] \<or> (\<exists>r. m = Some r \<and> length r = 3 \<and> ns = [(ap_id ?u, r)]))
      \<or> m = None \<and> connects w = Suc (connects ?u) \<and> ns = [(ap_id w, [PP_READY])]" unfolding goes_on_def by blast
  have views: "sent_clients peer_out t = sent_clients peer_out s" "pa_queue t = pa_queue s" "pa_front t = pa_front s"
    "sent_workers peer_out t = rest @ map (peer_out \<circ> map fst) (to_workers (pa_queue s))"
    "pa_back t = pa_back s @ map (\<lambda>x. fst x # snd x) ns @ map (\<lambda>x. fst x # snd x) b"
    using assms(7) ms(1) arrived by (simp_all add: sent_clients_def sent_workers_def)
  note b = beats_seat [OF ms(2)]
  from cases consider "connects w = connects ?u" "ns = []"
    | r where "connects w = connects ?u" "m = Some r" "length r = 3" "ns = [(ap_id ?u, r)]" "ap_id w = ap_id ?u"
    | "m = None" "connects w = Suc (connects ?u)" "ns = [(ap_id w, [PP_READY])]" by blast
  then show ?thesis
  proof cases
    case 1
    have "pa_seats peer_out t \<subseteq># pa_seats peer_out s + {#}" "pa_out peer_out t \<subseteq># pa_out peer_out s"
      using assms(6) 1(2) b by (auto simp: pa_seats_def pa_out_def views) (auto simp: sent_workers_def)
    then show ?thesis using identities_same [OF 1(1)] beat [OF ms(2)] ms(1) 1(2)
      by (intro worker_keeps [OF assms(1-3) ok _ assms(7) taken]) auto
  next
    case 2
    with assms(6) obtain xs ys where xs: "pa_to_workers s = xs @ (ap_id ?u, r) # ys" "rest = xs @ ys" by auto
    then have "(ap_id ?u, r) \<in> set (sent_workers peer_out s)" by (simp add: sent_workers_def)
    with assms(2) have "for_worker names ?n (ap_id ?u, r)" by (simp add: pa_inv_def pa_shapes_def)
    with 2(3) have r: "lazy_request names ?n r" by (auto simp: for_worker_def)
    then obtain c k where ck: "r = [c, [], decimal k]" by (auto simp: lazy_request_def)
    have "pa_seats peer_out t \<subseteq># pa_seats peer_out s + {#}" "pa_out peer_out t \<subseteq># pa_out peer_out s"
      using xs 2(4) b ck by (simp_all add: pa_seats_def pa_out_def views) (simp_all add: sent_workers_def takes_seat_def)
    moreover have "\<forall>x \<in> set ms. from_worker names ?n (fst x # snd x)"
      using beat [OF ms(2)] ms(1) 2(4,5) r id by (auto simp: from_worker_def)
    ultimately show ?thesis using identities_same [OF 2(1)]
      by (intro worker_keeps [OF assms(1-3) ok _ assms(7) taken]) auto
  next
    case 3
    have "pa_seats peer_out t \<subseteq># pa_seats peer_out s + {# ap_id w #}" "pa_out peer_out t \<subseteq># pa_out peer_out s"
      using assms(6) 3 b by (simp_all add: pa_seats_def pa_out_def views) (simp_all add: sent_workers_def takes_seat_def)
    moreover have "\<forall>x \<in> set ms. from_worker names ?n (fst x # snd x)"
      using beat [OF ms(2)] ms(1) 3(3) id by (auto simp: from_worker_def)
    ultimately show ?thesis using identities_Suc [OF 3(2) ok]
      by (intro worker_keeps [OF assms(1-3) ok _ assms(7) taken]) auto
  qed
qed

lemma hears_worker: "hears E m i v = Inr (w, ms) \<Longrightarrow> \<exists>v'. ap_worker w = Some v'"
  by (cases "pw_loop E [map_option deliver m] v") (auto simp: hears_def Let_def split: prod.splits)

lemma pa_step_inv:
  assumes "pa_step names envs clk req_in peer_in peer_out s t" "pa_inv names envs peer_out s"
    and "paranoid_setting names envs req_in peer_in peer_out"
  shows "pa_inv names envs peer_out t"
  using assms(1)
proof (cases rule: pa_step.cases)
  case (timeout i c over lp k ms)
  obtain req_out where law: "req_laws req_in req_out" using paranoidD(2) [OF assms(3)] by blast
  note client = clients_ok_timeout [OF paranoidD(1) [OF assms(3)] _ timeout(2-5)]
  have "client_ok (names i) (pc_lp c) (pc_socket c) False (pa_out peer_out s)"
    using clients_okD [OF _ timeout(2)] assms(2) timeout(3,4) by (fastforce simp: pa_inv_def)
  from client_ok_timeout [OF this namesD(4) [OF paranoidD(1) [OF assms(3)]] timeout(5)] have number: "sequence_nr lp = sequence_nr (pc_lp c)" by simp
  have sent: "sent_workers peer_out t = sent_workers peer_out s" "sent_clients peer_out t = sent_clients peer_out s"
    using timeout(1) by (simp_all add: sent_workers_def sent_clients_def)
  have "pa_out peer_out t = pa_out peer_out s + named (names i) ms"
    using out_requests [OF law] sent by (simp add: pa_out_def) (simp add: timeout(1) ac_simps)
  then have "clients_ok names (pa_clients t) (pa_out peer_out t)" using client assms(2) timeout(1) by (simp add: pa_inv_def)
  moreover have "pa_seats peer_out t = pa_seats peer_out s" using sent by (simp add: pa_seats_def) (simp add: timeout(1))
  moreover have "\<forall>m \<in> set (requests_of req_in (names i) ms). lazy_request names (length (pa_clients s)) m"
    using requests_shape [OF law polls_sent [OF timeout(5)] timeout(2)] by simp
  ultimately show ?thesis using assms(2) sent number timeout(1-3)
    by (auto simp: pa_inv_def pa_shapes_def pa_opened_def dest!: set_update)
next
  case (reply i c xs m ys u rest over lp k ms)
  obtain req_out where law: "req_laws req_in req_out" using paranoidD(2) [OF assms(3)] by blast
  have "(names i (pc_socket c), [] # m) \<in> set (sent_clients peer_out s)" using reply(5) by (simp add: sent_clients_def)
  with assms(2) have "for_client names (names i (pc_socket c), [] # m)" by (simp add: pa_inv_def pa_shapes_def)
  moreover have "names i (pc_socket c) \<noteq> []" by (rule namesD(1) [OF paranoidD(1) [OF assms(3)]])
  ultimately have seen: "\<not> hidden names" "m = [u]" using reply(6) by (auto simp: for_client_def)
  have sent: "sent_workers peer_out t = sent_workers peer_out s"
    "mset (sent_clients peer_out s) = add_mset (names i (pc_socket c), [[], u]) (mset (sent_clients peer_out t))"
    using reply(1,5) seen(2) by (simp_all add: sent_workers_def sent_clients_def)
  define out where "out = pa_out peer_out s - {# (names i (pc_socket c), u) #}"
  have one: "mset (map (\<lambda>x. (fst x, snd x ! 1)) (filter (\<lambda>x. length (snd x) = 2) (sent_clients peer_out s)))
      = add_mset (names i (pc_socket c), u) (mset (map (\<lambda>x. (fst x, snd x ! 1)) (filter (\<lambda>x. length (snd x) = 2) (sent_clients peer_out t))))"
    by (simp add: sent(2))
  have before: "pa_out peer_out s = add_mset (names i (pc_socket c), u) out" unfolding out_def pa_out_def one by simp
  have "pa_out peer_out t = out + named (names i) ms"
    unfolding out_def pa_out_def one sent(1) using out_requests [OF law] by (simp add: reply(1) ac_simps)
  moreover have "clients_ok names (pa_clients s) (add_mset (names i (pc_socket c), u) out)" using assms(2) before by (simp add: pa_inv_def)
  note client = clients_ok_reply [OF paranoidD(1) [OF assms(3)] this reply(2,3,7)]
  ultimately have "clients_ok names (pa_clients t) (pa_out peer_out t)" using client(1) reply(1) by simp
  moreover have "pa_seats peer_out t = pa_seats peer_out s" using sent(1) by (simp add: pa_seats_def) (simp add: reply(1))
  moreover have "\<forall>m \<in> set (requests_of req_in (names i) ms). lazy_request names (length (pa_clients s)) m"
    using requests_shape [OF law polls_sent [OF reply(7)] reply(2)] client(2) by simp
  moreover have "set (sent_clients peer_out t) \<subseteq> set (sent_clients peer_out s)"
    using arg_cong [OF sent(2), of set_mset] by auto
  ultimately show ?thesis using assms(2) sent(1) seen(1) reply(1)
    by (auto simp: pa_inv_def pa_shapes_def pa_opened_def)
next
  case (starts j w ms)
  from joins_outcome [OF starts(4)] have w: "worker_ok (envs j) w" "connects w = 1" "ms = [(ap_id w, [PP_READY])]" by simp_all
  obtain v where v: "ap_worker w = Some v" using w(2) by (cases "ap_worker w") (simp_all add: connects_def)
  have "connects (pa_workers s ! j) = 0" using starts(3) by (simp add: connects_def)
  then have "goes_on (envs j) None (pa_workers s ! j) w ms" using w by (simp add: goes_on_def beats_def)
  from worker_step_keeps [OF assms(3,2) starts(2) this v] show ?thesis using starts(1) by simp
next
  case (silent j u v w ms)
  have "worker_ok (envs j) u" using assms(2) silent(2,3) by (auto simp: pa_inv_def)
  from hears_outcome [OF this silent(5), of None] silent(6) have on: "goes_on (envs j) None u w ms" by auto
  obtain v' where v: "ap_worker w = Some v'" using hears_worker [OF silent(6)] by blast
  from worker_step_keeps [OF assms(3,2) silent(2) on [folded silent(3)] v] show ?thesis using silent(1) by simp
next
  case (message j u v xs m ys w ms)
  have u: "worker_ok (envs j) u" using assms(2) message(2,3) by (auto simp: pa_inv_def)
  have "(ap_id u, m) \<in> set (sent_workers peer_out s)" using message(6) by (simp add: sent_workers_def)
  with assms(2) have "for_worker names (length (pa_clients s)) (ap_id u, m)" by (simp add: pa_inv_def pa_shapes_def)
  then have "m = [PP_HEARTBEAT] \<or> (\<forall>d \<in> set m. \<not> is_uuid_part d) \<and> length m = 3"
    using lazy_request_plain [OF paranoidD(1) [OF assms(3)], of "length (pa_clients s)" m] by (auto simp: for_worker_def)
  with hears_outcome [OF u message(5), of "Some m"] message(7) have on: "goes_on (envs j) (Some m) u w ms" by auto
  obtain v' where v: "ap_worker w = Some v'" using hears_worker [OF message(7)] by blast
  from worker_step_keeps [OF assms(3,2) message(2) on [folded message(3)] v, of "xs @ ys"] show ?thesis
    using message(1,3,6) by blast
next
  case (turn mb bs mf fs q)
  with turn_outcome_paranoid [OF assms(3,2) turn(2,3), of clk] show ?thesis by auto
qed

interpretation paranoid: stepping "pa_step names envs clk req_in peer_in peer_out"
  "\<lambda>s. pa_inv names envs peer_out s \<and> paranoid_setting names envs req_in peer_in peer_out"
  by unfold_locales (blast intro: pa_step_inv)

lemma pa_start_inv:
  assumes "paranoid_setting names envs req_in peer_in peer_out"
  shows "pa_inv names envs peer_out (pa_start names clk req_in n workers)"
proof -
  let ?s = "pa_start names clk req_in n workers"
  obtain req_out where law: "req_laws req_in req_out" using paranoidD(2) [OF assms] by blast
  have q: "queue (pp_start clk) = []" "to_clients (pp_start clk) = []" "to_workers (pp_start clk) = []"
    by (simp_all add: pp_start_def pp_clock_def)
  have "pa_out peer_out ?s = mset (map (\<lambda>m. (m ! 0, m ! 2)) (first_requests names req_in n))"
    by (simp add: pa_out_def pa_start_def sent_workers_def sent_clients_def q)
  then have "clients_ok names (pa_clients ?s) (pa_out peer_out ?s)"
    using clients_ok_start [OF paranoidD(1) [OF assms] law] by (simp add: pa_start_def)
  moreover have "pa_shapes names peer_out ?s"
    using first_requests_shape [OF law] by (simp add: pa_shapes_def pa_start_def sent_workers_def sent_clients_def q)
  moreover have "pa_seats peer_out ?s = {#}" by (simp add: pa_seats_def pa_start_def sent_workers_def q)
  moreover obtain c where p: "lp_started = (c, 1, [(1, decimal 1)])" "sequence_nr c = 1" using lp_started_eq by blast
  then have "\<forall>c \<in> set (pa_clients ?s). sequence_nr (pc_lp c) = 1" by (simp add: pa_start_def clients_start_def p(1) del: decimal.simps)
  ultimately show ?thesis by (simp add: pa_inv_def) (simp add: pa_start_def worker_ok_def)
qed

text \<open>
  C38. In every run of clients, queue and workers, whatever the clocks say: a message that reaches
  the current socket of a client is the reply to the request that client waits for; the queue can
  take a turn on whatever it may read, its assertions never failing, and a worker can take whatever
  is sent to it; no identity waits twice in the queue, and each identity a worker has opened is at
  most once among those that wait, have announced themselves, have a request or have replied; a
  client that has not given up has one to three tries left.
\<close>

theorem paranoid_pirate_sound:
  assumes "paranoid_setting names envs req_in peer_in peer_out"
    and "(pa_step names envs clk req_in peer_in peer_out)\<^sup>*\<^sup>* (pa_start names clk req_in n workers) s"
  shows "(\<forall>i fs. i < length (pa_clients s) \<and> (names i (pc_socket (pa_clients s ! i)), fs) \<in> set (pa_to_clients s) \<longrightarrow>
      (\<exists>t c sent. fs = [[], t] \<and> polls_once (Some t) (pc_lp (pa_clients s ! i)) (pc_socket (pa_clients s ! i)) = (False, c, pc_socket (pa_clients s ! i), sent)
        \<and> sequence_nr c = Suc (sequence_nr (pc_lp (pa_clients s ! i)))))
    \<and> (\<forall>mb bs mf fs. picks (pa_back s) mb bs \<and> picks (pa_front s) mf fs \<and> (mf \<noteq> None \<longrightarrow> queue (pa_queue s) \<noteq> []) \<longrightarrow>
        (\<exists>q. pp_turn clk (map_option deliver mb, map_option deliver mf) (pa_queue s) = Inr q))
    \<and> (\<forall>j v m. j < length (pa_workers s) \<and> ap_worker (pa_workers s ! j) = Some v \<and> (ap_id (pa_workers s ! j), m) \<in> set (pa_to_workers s) \<longrightarrow>
        (\<exists>w. hears (envs j) (Some m) (ap_id (pa_workers s ! j)) v = Inr w))
    \<and> distinct (map identity (queue (pa_queue s)))
    \<and> mset (map identity (queue (pa_queue s))) + mset (map hd (filter takes_seat (pa_back s)))
        + mset (map fst (filter (\<lambda>x. length (snd x) = 3) (pa_to_workers s))) \<subseteq># pa_opened envs s
    \<and> (\<forall>c \<in> set (pa_clients s). pc_over c \<or> (1 \<le> retries_left (pc_lp c) \<and> retries_left (pc_lp c) \<le> 3))"
proof (intro conjI allI impI ballI)
  have inv: "pa_inv names envs peer_out s"
    using paranoid.run_inv [OF assms(2)] pa_start_inv [OF assms(1)] assms(1) by blast
  then have ok: "clients_ok names (pa_clients s) (pa_out peer_out s)" by (simp add: pa_inv_def)
  {
    fix i fs
    let ?n = "names i (pc_socket (pa_clients s ! i))"
    assume i: "i < length (pa_clients s) \<and> (?n, fs) \<in> set (pa_to_clients s)"
    then have sent: "(?n, fs) \<in> set (sent_clients peer_out s)" by (simp add: sent_clients_def)
    with inv have "for_client names (?n, fs)" by (simp add: pa_inv_def pa_shapes_def)
    moreover have "?n \<noteq> []" by (rule namesD(1) [OF paranoidD(1) [OF assms(1)]])
    ultimately obtain t where t: "fs = [[], decimal t]" by (auto simp: for_client_def)
    with sent have "(?n, decimal t) \<in># pa_out peer_out s" by (force simp: pa_out_def)
    with i t clients_ok_expected [OF ok] show "\<exists>t c sent. fs = [[], t]
        \<and> polls_once (Some t) (pc_lp (pa_clients s ! i)) (pc_socket (pa_clients s ! i)) = (False, c, pc_socket (pa_clients s ! i), sent)
        \<and> sequence_nr c = Suc (sequence_nr (pc_lp (pa_clients s ! i)))" by blast
  }
  {
    fix mb bs mf fs
    assume "picks (pa_back s) mb bs \<and> picks (pa_front s) mf fs \<and> (mf \<noteq> None \<longrightarrow> queue (pa_queue s) \<noteq> [])"
    then show "\<exists>q. pp_turn clk (map_option deliver mb, map_option deliver mf) (pa_queue s) = Inr q"
      using turn_outcome_paranoid [OF assms(1) inv] by blast
  }
  {
    fix j v m
    let ?u = "pa_workers s ! j"
    assume j: "j < length (pa_workers s) \<and> ap_worker ?u = Some v \<and> (ap_id ?u, m) \<in> set (pa_to_workers s)"
    then have "(ap_id ?u, m) \<in> set (sent_workers peer_out s)" by (simp add: sent_workers_def)
    with inv have "for_worker names (length (pa_clients s)) (ap_id ?u, m)" by (simp add: pa_inv_def pa_shapes_def)
    then have "m = [PP_HEARTBEAT] \<or> (\<forall>d \<in> set m. \<not> is_uuid_part d) \<and> length m = 3"
      using lazy_request_plain [OF paranoidD(1) [OF assms(1)], of "length (pa_clients s)" m] by (auto simp: for_worker_def)
    moreover have "worker_ok (envs j) ?u" using inv j by (simp add: pa_inv_def)
    ultimately show "\<exists>w. hears (envs j) (Some m) (ap_id ?u) v = Inr w" using hears_outcome [of "envs j" ?u v "Some m"] j by blast
  }
  show "distinct (map identity (queue (pa_queue s)))" using inv by (simp add: pa_inv_def pa_shapes_def)
  have "mset (map fst (filter (\<lambda>x. length (snd x) = 3) (pa_to_workers s)))
      \<subseteq># mset (map fst (filter (\<lambda>x. length (snd x) = 3) (sent_workers peer_out s)))" by (simp add: sent_workers_def)
  with inv show "mset (map identity (queue (pa_queue s))) + mset (map hd (filter takes_seat (pa_back s)))
        + mset (map fst (filter (\<lambda>x. length (snd x) = 3) (pa_to_workers s))) \<subseteq># pa_opened envs s"
    unfolding pa_inv_def pa_seats_def by (meson subset_mset.add_left_mono subset_mset.order_trans)
  show "\<And>c. c \<in> set (pa_clients s) \<Longrightarrow> pc_over c \<or> (1 \<le> retries_left (pc_lp c) \<and> retries_left (pc_lp c) \<le> 3)"
    using clients_ok_tries [OF ok] by blast
qed

text \<open>With the names libzmq makes, no client is ever answered.\<close>

text \<open>
  C39. If the names of the sockets of the clients begin with a zero byte and are no UUIDs of 17
  bytes, as libzmq makes them since version 3, no run of the Paranoid Pirate ever sends a message
  to one of these sockets, and no client gets past its first request: unwrap takes the name for the
  empty delimiter and drops it.
\<close>

theorem paranoid_pirate_mute:
  assumes "paranoid_setting names envs req_in peer_in peer_out" "\<forall>i k. hd (names i k) = 0 \<and> length (names i k) \<noteq> 17"
    and "(pa_step names envs clk req_in peer_in peer_out)\<^sup>*\<^sup>* (pa_start names clk req_in n workers) s"
  shows "(\<forall>c \<in> set (pa_clients s). sequence_nr (pc_lp c) = 1) \<and> (\<forall>x \<in> set (pa_to_clients s). \<forall>i k. fst x \<noteq> names i k)"
proof -
  have name: "names i k \<noteq> []" for i k by (rule namesD(1) [OF paranoidD(1) [OF assms(1)]])
  have "\<not> addressed (names i k)" for i k
    using name [of i k] assms(2) [rule_format, of i k] by (cases "names i k") (auto simp: addressed_def is_uuid_frame_def)
  then have hidden: "hidden names" by (simp add: hidden_def)
  have inv: "pa_inv names envs peer_out s"
    using paranoid.run_inv [OF assms(3)] pa_start_inv [OF assms(1)] assms(1) by blast
  have "fst x = []" if "x \<in> set (pa_to_clients s)" for x
  proof -
    have "for_client names x" using inv that by (simp add: pa_inv_def pa_shapes_def sent_clients_def)
    with hidden show ?thesis by (auto simp: for_client_def)
  qed
  then have "\<forall>x \<in> set (pa_to_clients s). \<forall>i k. fst x \<noteq> names i k" using name by metis
  with inv hidden show ?thesis by (simp add: pa_inv_def)
qed

subsection \<open>An instance\<close>

text \<open>One client and one worker, with clocks that stand still: a request goes to the worker and its reply to nobody.\<close>

definition still_clock :: "nat \<Rightarrow> timeval" where
  "still_clock n = \<lparr>tv_sec = 0, tv_usec = 0\<rparr>"

definition still_env :: pirate_env where
  "still_env = \<lparr>pe_clock = still_clock, pe_rand = (\<lambda>_. (1, 2)), pe_within5 = (\<lambda>_. 4)\<rparr>"

abbreviation some_step :: "paranoid_pirate \<Rightarrow> paranoid_pirate \<Rightarrow> bool" where
  "some_step \<equiv> pa_step some_names (\<lambda>_. still_env) still_clock (\<lambda>i fs. i # [] # fs) (#) (\<lambda>m. (hd m, tl m))"

abbreviation some_start :: paranoid_pirate where
  "some_start \<equiv> pa_start some_names still_clock (\<lambda>i fs. i # [] # fs) 1 1"

lemma still_setting: "paranoid_setting some_names (\<lambda>_. still_env) (\<lambda>i fs. i # [] # fs) (#) (\<lambda>m. (hd m, tl m))"
proof -
  have "req_laws (\<lambda>i fs. i # [] # fs) (\<lambda>fs. (hd fs, tl (tl fs)))" by (simp add: req_laws_def)
  then show ?thesis using some_names_ok(1) by (auto simp: paranoid_setting_def router_laws_def still_env_def)
qed

lemma still_rest:
  assumes "0 \<le> heartbeat_at q" "\<forall>x \<in> set (queue q). 0 \<le> expiry x"
  shows "bindE (pp_heartbeats still_clock q) (\<lambda>q. Inr (s_queue_purge still_clock q)) = Inr (q\<lparr>ticks := ticks q + 2\<rparr>)"
proof -
  have "purge_from 0 (queue q) = queue q" using assms(2) by (simp add: purge_from_filter)
  then show ?thesis using assms(1)
    by (simp add: pp_heartbeats_def pp_clock_def still_clock_def s_clock_def s_queue_purge_def Let_def)
qed

lemma still_turns:
  assumes "0 \<le> heartbeat_at q"
  shows "queue q = [] \<Longrightarrow> short w \<Longrightarrow> \<exists>u. pp_turn still_clock (Some (deliver [w, PP_READY]), None) q = Inr u \<and> heartbeat_at u = heartbeat_at q
      \<and> queue u = [\<lparr>identity = w, expiry = 3000\<rparr>] \<and> to_workers u = to_workers q \<and> to_clients u = to_clients q"
    and "queue q = [\<lparr>identity = w, expiry = 3000\<rparr>] \<Longrightarrow> short w \<Longrightarrow> \<forall>d \<in> set r. \<not> is_uuid_part d \<Longrightarrow> r \<noteq> [] \<Longrightarrow>
      \<exists>u. pp_turn still_clock (None, Some (deliver r)) q = Inr u \<and> heartbeat_at u = heartbeat_at q
      \<and> queue u = [] \<and> to_workers u = to_workers q @ [with_more (w # r)] \<and> to_clients u = to_clients q"
    and "queue q = [] \<Longrightarrow> short w \<Longrightarrow> c \<noteq> [] \<Longrightarrow> \<not> is_uuid_part c \<Longrightarrow> \<not> addressed c \<Longrightarrow>
      \<exists>u. pp_turn still_clock (Some (deliver [w, c, [], decimal n]), None) q = Inr u
      \<and> to_workers u = to_workers q \<and> to_clients u = to_clients q @ [with_more [[], decimal n]]"
proof -
  assume "queue q = []" "short w"
  then show "\<exists>u. pp_turn still_clock (Some (deliver [w, PP_READY]), None) q = Inr u \<and> heartbeat_at u = heartbeat_at q
      \<and> queue u = [\<lparr>identity = w, expiry = 3000\<rparr>] \<and> to_workers u = to_workers q \<and> to_clients u = to_clients q"
    using assms still_rest [of "s_worker_append still_clock w (s_worker_delete w q)"] queue_ready [of w still_clock q]
    by (simp add: pp_turn_def s_worker_append_def s_worker_delete_def pp_clock_def PP_INTERVAL_def PP_LIVENESS_def
        still_clock_def s_clock_def Let_def del: deliver.simps)
next
  assume q: "queue q = [\<lparr>identity = w, expiry = 3000\<rparr>]" "short w" "\<forall>d \<in> set r. \<not> is_uuid_part d" "r \<noteq> []"
  then show "\<exists>u. pp_turn still_clock (None, Some (deliver r)) q = Inr u \<and> heartbeat_at u = heartbeat_at q
      \<and> queue u = [] \<and> to_workers u = to_workers q @ [with_more (w # r)] \<and> to_clients u = to_clients q"
    using assms queue_request [OF q(1) _ q(3,4)] still_rest [of "q\<lparr>queue := [], to_workers := to_workers q @ [with_more (w # r)]\<rparr>"]
    by (simp add: pp_turn_def del: with_more.simps)
next
  assume q: "queue q = []" "short w" "c \<noteq> []" "\<not> is_uuid_part c" "\<not> addressed c"
  then show "\<exists>u. pp_turn still_clock (Some (deliver [w, c, [], decimal n]), None) q = Inr u
      \<and> to_workers u = to_workers q \<and> to_clients u = to_clients q @ [with_more [[], decimal n]]"
    using assms queue_reply [OF q(2,4), of still_clock n q]
      still_rest [of "s_worker_append still_clock w (q\<lparr>to_clients := to_clients q @ [with_more [[], decimal n]]\<rparr>)"]
    by (simp add: pp_turn_def s_worker_append_def pp_clock_def PP_INTERVAL_def PP_LIVENESS_def still_clock_def s_clock_def Let_def
        del: deliver.simps with_more.simps)
qed

lemma some_run:
  "\<exists>s. some_step\<^sup>*\<^sup>* some_start s \<and> pa_to_clients s = [([], [decimal 1])]"
proof -
  let ?name = "some_names 0 1"
  let ?r = "[?name, [], decimal 1]"
  obtain c where p: "lp_started = (c, 1, [(1, decimal 1)])" using lp_started_eq by blast
  have name: "?name \<noteq> []" "\<not> is_uuid_part ?name" "\<not> addressed ?name"
    by (simp_all add: some_names_def is_uuid_part_def addressed_def is_uuid_frame_def)
  have plain: "\<forall>d \<in> set ?r. \<not> is_uuid_part d" using name plain_decimal(1) by (simp add: is_uuid_part_def)
  have s0: "pa_front some_start = [?r]" "pa_back some_start = []" "pa_to_workers some_start = []" "pa_to_clients some_start = []"
    "queue (pa_queue some_start) = []" "to_clients (pa_queue some_start) = []" "to_workers (pa_queue some_start) = []"
    "0 \<le> heartbeat_at (pa_queue some_start)" "length (pa_workers some_start) = 1" "ap_worker (pa_workers some_start ! 0) = None"
    by (simp_all add: pa_start_def first_requests_def p requests_of_def pp_start_def pp_clock_def still_clock_def s_clock_def PP_INTERVAL_def)
  obtain w ms where j: "joins still_env = (w, ms)" by (cases "joins still_env")
  note w = joins_outcome [OF j]
  obtain v where v: "ap_worker w = Some v" using w by (cases "ap_worker w") (simp_all add: connects_def)
  have id: "short (ap_id w)" using worker_short [OF still_setting _ v] w by simp
  note step = pa_step.intros [where names = some_names and envs = "\<lambda>_. still_env" and clk = still_clock and req_in = "\<lambda>i fs. i # [] # fs"
      and peer_in = "(#)" and peer_out = "\<lambda>m. (hd m, tl m)"]
  define s where "s = some_start"
  note s = s0 [folded s_def]
  define s1 where "s1 = s\<lparr>pa_workers := (pa_workers s)[0 := w], pa_back := [[ap_id w, PP_READY]]\<rparr>"
  have step1: "some_step s s1"
    using step(3) [of 0 s w ms] s(2,9,10) j w by (simp add: s1_def)
  obtain q where q: "pp_turn still_clock (Some (deliver [ap_id w, PP_READY]), None) (pa_queue s1) = Inr q" "0 \<le> heartbeat_at q"
    "queue q = [\<lparr>identity = ap_id w, expiry = 3000\<rparr>]" "to_workers q = []" "to_clients q = []"
    using still_turns(1) [of "pa_queue s1" "ap_id w"] s id by (auto simp: s1_def)
  define s2 where "s2 = pa_route (\<lambda>m. (hd m, tl m)) (s1\<lparr>pa_queue := q, pa_back := [], pa_front := [?r]\<rparr>)"
  have "picks (pa_back s1) (Some [ap_id w, PP_READY]) []" "picks (pa_front s1) None [?r]"
    using one_read [of "[]" _ "[]"] none_read [of "[?r]"] s(1) by (simp_all add: s1_def)
  from step(6) [OF this] q(1) have step2: "some_step s1 s2" by (simp add: s2_def del: deliver.simps)
  have s2: "pa_queue s2 = q" "pa_back s2 = []" "pa_front s2 = [?r]" "pa_workers s2 = [w]" "pa_to_workers s2 = []" "pa_to_clients s2 = []"
    using q(4,5) s(3,4,9) by (auto simp: s2_def s1_def pa_route_def length_Suc_conv)
  obtain q' where q': "pp_turn still_clock (None, Some (deliver ?r)) q = Inr q'" "0 \<le> heartbeat_at q'"
    "queue q' = []" "to_workers q' = [with_more (ap_id w # ?r)]" "to_clients q' = []"
    using still_turns(2) [OF q(2,3) id plain] q(2,4,5) by auto
  define s3 where "s3 = pa_route (\<lambda>m. (hd m, tl m)) (s2\<lparr>pa_queue := q', pa_back := [], pa_front := []\<rparr>)"
  have "picks (pa_back s2) None []" "picks (pa_front s2) (Some ?r) []"
    using one_read [of "[]" ?r "[]"] none_read [of "[]"] by (simp_all add: s2)
  from step(6) [OF this] q'(1) have step3: "some_step s2 s3" using q(3) by (simp add: s3_def s2(1) del: deliver.simps)
  have s3: "pa_back s3 = []" "pa_front s3 = []" "pa_workers s3 = [w]" "pa_to_workers s3 = [(ap_id w, ?r)]" "pa_to_clients s3 = []"
    "queue (pa_queue s3) = []" "to_clients (pa_queue s3) = []" "to_workers (pa_queue s3) = []" "0 \<le> heartbeat_at (pa_queue s3)"
    using q' s2 by (simp_all add: s3_def pa_route_def del: with_more.simps)
  have w': "\<not> ap_crashed w" "v = pw_start still_env" using j v by (auto simp: joins_def Let_def split: prod.splits)
  have "zmsg_recv (deliver ?r) zmsg_new = Inr (True, ?r)"
    using name(2,3) plain_decimal(2) by (intro recv_same) (auto simp: is_uuid_frame_def addressed_def)
  moreover have "zmsg_send send_start_example ?r = Inr (with_more ?r, [])" by (rule send_example_plain [OF plain])
  ultimately obtain w2 where "hears still_env (Some ?r) (ap_id w) v = Inr (w2, [(ap_id w, ?r)])"
    by (simp add: w'(2) hears_def pw_message_def parts_def pw_request_def pw_start_def s_worker_socket_def pw_send_def pw_act_def pw_clock_def
        pw_heartbeat_def still_env_def still_clock_def s_clock_def PP_INTERVAL_def Let_def del: deliver.simps with_more.simps)
  moreover define s4 where "s4 = s3\<lparr>pa_workers := [w2], pa_to_workers := [], pa_back := [ap_id w # ?r]\<rparr>"
  ultimately have step4: "some_step s3 s4"
    using step(5) [of 0 s3 w v "[]" ?r "[]" w2 "[(ap_id w, ?r)]"] s3 v w'(1) by simp
  obtain q2 where q2: "pp_turn still_clock (Some (deliver (ap_id w # ?r)), None) (pa_queue s4) = Inr q2"
    "to_clients q2 = [with_more [[], decimal 1]]"
    using still_turns(3) [of "pa_queue s4" "ap_id w" ?name 1] s3 id name by (auto simp: s4_def)
  define s5 where "s5 = pa_route (\<lambda>m. (hd m, tl m)) (s4\<lparr>pa_queue := q2, pa_back := [], pa_front := []\<rparr>)"
  have "picks (pa_back s4) (Some (ap_id w # ?r)) []" "picks (pa_front s4) None []"
    using one_read [of "[]" "ap_id w # ?r" "[]"] none_read [of "[]"] s3(2) by (simp_all add: s4_def)
  from step(6) [OF this] q2(1) have step5: "some_step s4 s5" by (simp add: s5_def del: deliver.simps)
  have "pa_to_clients s5 = [([], [decimal 1])]" using q2(2) s3(5) by (simp add: s5_def s4_def pa_route_def)
  moreover have "some_step\<^sup>*\<^sup>* s s5" using step1 step2 step3 step4 step5 by (meson converse_rtranclp_into_rtranclp r_into_rtranclp)
  ultimately show ?thesis unfolding s_def by blast
qed

text \<open>The reply to the first request is on its way to nobody, and the client still waits for it.\<close>

lemma paranoid_pirate_mute_witness:
  "\<exists>s. some_step\<^sup>*\<^sup>* some_start s \<and> pa_to_clients s = [([], [decimal 1])] \<and> (\<forall>c \<in> set (pa_clients s). sequence_nr (pc_lp c) = 1)"
proof -
  obtain s where s: "some_step\<^sup>*\<^sup>* some_start s" "pa_to_clients s = [([], [decimal 1])]" using some_run by blast
  with paranoid_pirate_mute [OF still_setting _ s(1)] some_names_ok(2,3) show ?thesis by blast
qed

lemma paranoid_pirate_sound_witness:
  "\<exists>s q. some_step\<^sup>*\<^sup>* some_start s \<and> pa_to_clients s = [([], [decimal 1])] \<and> pp_turn still_clock (None, None) (pa_queue s) = Inr q"
proof -
  obtain s where s: "some_step\<^sup>*\<^sup>* some_start s" "pa_to_clients s = [([], [decimal 1])]" using some_run by blast
  have "picks (pa_back s) None (pa_back s)" "picks (pa_front s) None (pa_front s)" by (rule none_read)+
  with paranoid_pirate_sound [OF still_setting s(1)]
  have "\<exists>q. pp_turn still_clock (map_option deliver None, map_option deliver None) (pa_queue s) = Inr q" by blast
  with s show ?thesis by auto
qed

end
