(* ===== verification/Guide_Programs.thy ===== *)
theory Guide_Programs
  imports Interrupted Interleaving Dump Weather
begin

section \<open>Small programs of the guide\<close>

text \<open>
  Programs of \<open>Common/zmq/example\<close> that show one feature of libzmq each: \<open>identity.cpp\<close>, \<open>psenvpub.cpp\<close> with
  \<open>psenvsub.cpp\<close>, \<open>msreader.cpp\<close> and \<open>mspoller.cpp\<close>, and \<open>mtrelay.cpp\<close>.
\<close>

subsection \<open>Identities (identity.cpp)\<close>

definition anonymous_text :: bytes where "anonymous_text = bytes_of ''ROUTER uses a generated 5 byte identity''"
definition identified_text :: bytes where
  "identified_text = bytes_of ''ROUTER socket uses REQ'' @ [39] @ bytes_of ''s socket identity''"

text \<open>\<open>gen\<close> is the identity libzmq chooses.\<close>

definition identity_main :: "(bytes \<Rightarrow> bytes list \<Rightarrow> bytes list) \<Rightarrow> bytes \<Rightarrow> fault + bytes" where
  "identity_main link_in gen =
     bindE (s_dump False (with_more (link_in gen (map fst (s_send anonymous_text))))) (\<lambda>(t, hex, _).
     bindE (s_dump hex (with_more (link_in (bytes_of ''PEER2'') (map fst (s_send identified_text))))) (\<lambda>(u, _, _).
       Inr (t @ u)))"

definition dashes :: bytes where "dashes = replicate 40 (of_char (CHR ''-'')) @ [10]"

text \<open>
  libzmq's identities begin with a zero byte and are printed as numbers; from then on the sizes are hexadecimal: 39 and 40
  characters are announced as 027 and 028.
\<close>

theorem identity_prints:
  assumes "req_laws link_in link_out" "length gen = 5" "hd gen = 0"
  shows "identity_main link_in gen = Inr (
     dashes @ bytes_of ''[005]'' @ concat (map signed_hex gen) @ [10] @ bytes_of ''[000]'' @ [10] @ bytes_of ''[027]'' @ anonymous_text @ [10]
     @ dashes @ bytes_of ''[005]PEER2'' @ [10] @ bytes_of ''[000]'' @ [10] @ bytes_of ''[028]'' @ identified_text @ [10])"
proof -
  have "\<not> is_text gen" using assms(2,3) by (cases gen) (auto simp: is_text_def)
  moreover have "is_text anonymous_text" "is_text identified_text" "is_text []" "is_text (bytes_of ''PEER2'')"
    by (simp_all add: is_text_def anonymous_text_def identified_text_def bytes_of_def)
  moreover have "length anonymous_text = 39" "length identified_text = 40" "length (bytes_of ''PEER2'') = 5"
    by (simp_all add: anonymous_text_def identified_text_def bytes_of_def)
  moreover have "size_text False 5 = bytes_of ''005''" "size_text True 5 = bytes_of ''005''" "size_text True 0 = bytes_of ''000''"
    "size_text True 39 = bytes_of ''027''" "size_text True 40 = bytes_of ''028''"
    by (simp_all add: size_text_def zero_pad_def hex_with.simps decimal.simps hex_digit_def bytes_of_def numeral_2_eq_2)
  ultimately show ?thesis using assms(1,2)
    by (simp add: identity_main_def req_laws_def s_send_def s_dump_def dump_line_def base_after_def dashes_def)
      (simp add: bytes_of_def)
qed

lemma identity_prints_witness:
  "\<exists>t. identity_main (\<lambda>i fs. i # [] # fs) [0, 107, 139, 69, 103] = Inr t"
  using identity_prints [of "\<lambda>i fs. i # [] # fs" "\<lambda>fs. (hd fs, tl (tl fs))" "[0, 107, 139, 69, 103]"]
  by (auto simp: req_laws_def)

subsection \<open>Envelopes (psenvpub.cpp, psenvsub.cpp)\<close>

definition unwanted_text :: bytes where "unwanted_text = bytes_of ''We don'' @ [39] @ bytes_of ''t want to see this''"
definition wanted_text :: bytes where "wanted_text = bytes_of ''We would like to see this''"

text \<open>The two messages of a round of the publisher.\<close>

definition envelope_round :: "wire list" where
  "envelope_round =
     [s_sendmore (bytes_of ''A'') @ s_send unwanted_text, s_sendmore (bytes_of ''B'') @ s_send wanted_text]"

text \<open>What the subscriber prints of the frames that arrive.\<close>

fun envelope_loop :: "bytes list \<Rightarrow> bytes list" where
  "envelope_loop (address # contents # fs) =
     (bytes_of ''['' @ address @ bytes_of ''] '' @ contents @ [10]) # envelope_loop fs"
| "envelope_loop _ = []"

definition subscribed :: "(bytes \<Rightarrow> bytes \<Rightarrow> bool) \<Rightarrow> bytes \<Rightarrow> wire list \<Rightarrow> bytes list" where
  "subscribed matches f ms = concat (map (map fst) (filter (\<lambda>m. matches f (fst (hd m))) ms))"

lemma only_wanted_envelopes:
  assumes "prefix_subscription matches"
  shows "envelope_loop (subscribed matches (bytes_of ''B'') (concat (replicate n envelope_round)))
    = replicate n (bytes_of ''[B] '' @ wanted_text @ [10])"
proof -
  have "\<not> matches (bytes_of ''B'') (bytes_of ''A'')" "matches (bytes_of ''B'') (bytes_of ''B'')"
    using assms by (simp_all add: prefix_subscription_def bytes_of_def)
  then have "subscribed matches (bytes_of ''B'') (concat (replicate n envelope_round)) = concat (replicate n [bytes_of ''B'', wanted_text])"
    by (induction n) (simp_all add: subscribed_def envelope_round_def s_send_def s_sendmore_def)
  moreover have "envelope_loop (concat (replicate n [bytes_of ''B'', wanted_text])) = replicate n (bytes_of ''[B] '' @ wanted_text @ [10])"
    by (induction n) (simp_all add: bytes_of_def)
  ultimately show ?thesis by simp
qed

subsection \<open>Two sources (msreader.cpp, mspoller.cpp)\<close>

text \<open>What waits at the two sockets, and what was processed: a task or an update.\<close>

record two_sources =
  tasks :: "bytes list"
  updates :: "bytes list"
  processed :: "(bytes + bytes) list"

definition arrive :: "bytes list \<times> bytes list \<Rightarrow> two_sources \<Rightarrow> two_sources" where
  "arrive a s = s\<lparr>tasks := tasks s @ fst a, updates := updates s @ snd a\<rparr>"

definition take_task :: "two_sources \<Rightarrow> two_sources option" where
  "take_task s = (case tasks s of [] \<Rightarrow> None | m # ms \<Rightarrow> Some (s\<lparr>tasks := ms, processed := processed s @ [Inl m]\<rparr>))"

definition take_update :: "two_sources \<Rightarrow> two_sources option" where
  "take_update s = (case updates s of [] \<Rightarrow> None | m # ms \<Rightarrow> Some (s\<lparr>updates := ms, processed := processed s @ [Inr m]\<rparr>))"

text \<open>
  \<open>msreader\<close>: one call of \<open>recv\<close> that does not wait; the flag says which of the two loops the program is in. A call that
  finds nothing leaves the loop, with a sleep after the second.
\<close>

definition reader_call :: "bool \<times> two_sources \<Rightarrow> bool \<times> two_sources" where
  "reader_call s =
     (case s of
        (True, s) \<Rightarrow> (case take_task s of None \<Rightarrow> (False, s) | Some t \<Rightarrow> (True, t))
      | (False, s) \<Rightarrow> (case take_update s of None \<Rightarrow> (True, s) | Some t \<Rightarrow> (False, t)))"

definition reader_run :: "(bytes list \<times> bytes list) list \<Rightarrow> bool \<times> two_sources \<Rightarrow> bool \<times> two_sources" where
  "reader_run as s = fold (\<lambda>a (b, s). reader_call (b, arrive a s)) as s"

text \<open>\<open>mspoller\<close>: one round takes at most one message of each kind.\<close>

definition poller_round :: "two_sources \<Rightarrow> two_sources" where
  "poller_round s =
     (let task_in = tasks s \<noteq> []; update_in = updates s \<noteq> [];
          s = (if task_in then the (take_task s) else s)
      in if update_in then the (take_update s) else s)"

definition poller_run :: "(bytes list \<times> bytes list) list \<Rightarrow> two_sources \<Rightarrow> two_sources" where
  "poller_run as s = fold (\<lambda>a s. poller_round (arrive a s)) as s"

definition tasks_of :: "(bytes + bytes) list \<Rightarrow> bytes list" where
  "tasks_of ps = concat (map (\<lambda>p. case p of Inl m \<Rightarrow> [m] | Inr _ \<Rightarrow> []) ps)"

definition updates_of :: "(bytes + bytes) list \<Rightarrow> bytes list" where
  "updates_of ps = concat (map (\<lambda>p. case p of Inl _ \<Rightarrow> [] | Inr m \<Rightarrow> [m]) ps)"

lemmas source_defs = take_task_def take_update_def tasks_of_def updates_of_def arrive_def

text \<open>Whatever arrives when, both programs process everything once and in order.\<close>

definition all_tasks :: "two_sources \<Rightarrow> bytes list" where "all_tasks s = tasks_of (processed s) @ tasks s"
definition all_updates :: "two_sources \<Rightarrow> bytes list" where "all_updates s = updates_of (processed s) @ updates s"

lemma reader_keeps:
  "all_tasks (snd (reader_run as s)) = all_tasks (snd s) @ concat (map fst as)
   \<and> all_updates (snd (reader_run as s)) = all_updates (snd s) @ concat (map snd as)"
proof (induction as arbitrary: s)
  case (Cons a as)
  let ?t = "reader_call (fst s, arrive a (snd s))"
  have "all_tasks (snd ?t) = all_tasks (snd s) @ fst a \<and> all_updates (snd ?t) = all_updates (snd s) @ snd a"
    by (auto simp: reader_call_def source_defs all_tasks_def all_updates_def split: bool.splits list.splits)
  with Cons [of ?t] show ?case by (simp add: reader_run_def case_prod_beta)
qed (simp add: reader_run_def)

lemma poller_keeps:
  "all_tasks (poller_run as s) = all_tasks s @ concat (map fst as)
   \<and> all_updates (poller_run as s) = all_updates s @ concat (map snd as)"
proof (induction as arbitrary: s)
  case (Cons a as)
  let ?t = "poller_round (arrive a s)"
  have "all_tasks ?t = all_tasks s @ fst a \<and> all_updates ?t = all_updates s @ snd a"
    by (auto simp: poller_round_def source_defs all_tasks_def all_updates_def Let_def split: list.splits)
  with Cons [of ?t] show ?case by (simp add: poller_run_def)
qed (simp add: poller_run_def)

text \<open>As long as there is a task at every call, \<open>msreader\<close> looks at no update; \<open>mspoller\<close> takes one in each round.\<close>

lemma reader_starves:
  "\<forall>a \<in> set as. fst a \<noteq> [] \<Longrightarrow>
   fst (reader_run as (True, s)) \<and> updates_of (processed (snd (reader_run as (True, s)))) = updates_of (processed s)"
proof (induction as arbitrary: s)
  case (Cons a as)
  then obtain t where "reader_call (True, arrive a s) = (True, t)" "updates_of (processed t) = updates_of (processed s)"
    by (cases "tasks s @ fst a") (auto simp: reader_call_def source_defs)
  with Cons show ?case by (simp add: reader_run_def)
qed (simp add: reader_run_def)

lemma poller_goes_on:
  "length as \<le> length (updates s) \<Longrightarrow>
   length (updates_of (processed (poller_run as s))) = length (updates_of (processed s)) + length as"
proof (induction as arbitrary: s)
  case (Cons a as)
  let ?t = "poller_round (arrive a s)"
  from Cons.prems obtain u us where "updates s = u # us" by (cases "updates s") auto
  then have "length (updates ?t) = length (updates s) - 1 + length (snd a)"
    "length (updates_of (processed ?t)) = Suc (length (updates_of (processed s)))"
    by (auto simp: poller_round_def source_defs Let_def split: list.splits)
  with Cons.IH [of ?t] Cons.prems show ?case by (simp add: poller_run_def)
qed (simp add: poller_run_def)

theorem two_readers:
  assumes "s = \<lparr>tasks = [], updates = us, processed = []\<rparr>" "length as \<le> length us"
  shows "all_tasks (snd (reader_run as (True, s))) = all_tasks (poller_run as s)
    \<and> all_updates (snd (reader_run as (True, s))) = all_updates (poller_run as s)
    \<and> length (updates_of (processed (poller_run as s))) = length as
    \<and> ((\<forall>a \<in> set as. fst a \<noteq> []) \<longrightarrow> updates_of (processed (snd (reader_run as (True, s)))) = [])"
  using reader_keeps [of as "(True, s)"] poller_keeps [of as s] poller_goes_on [of as s] reader_starves [of as s] assms
  by (simp add: updates_of_def)

lemma two_readers_witness:
  "updates_of (processed (snd (reader_run [([[1]], []), ([[2]], [])] (True, \<lparr>tasks = [], updates = [[7], [8]], processed = []\<rparr>)))) = []
   \<and> length (updates_of (processed (poller_run [([[1]], []), ([[2]], [])] \<lparr>tasks = [], updates = [[7], [8]], processed = []\<rparr>))) = 2"
  using two_readers [OF refl, of "[([[1]], []), ([[2]], [])]" "[[7], [8]]"] by simp

subsection \<open>A relay of threads (mtrelay.cpp)\<close>

text \<open>
  The main thread binds its socket and starts the second step, which binds its own and starts the first; each step sends
  one empty message on. A step connects to a socket that must be bound. Numbers count what a thread has done.
\<close>

record thread_relay =
  main_at :: nat
  second_at :: "nat option"
  first_at :: "nat option"
  to_second :: "bytes list"
  to_main :: "bytes list"

definition relay_start :: thread_relay where
  "relay_start = \<lparr>main_at = 0, second_at = None, first_at = None, to_second = [], to_main = []\<rparr>"

definition bound_main :: "thread_relay \<Rightarrow> bool" where "bound_main s \<longleftrightarrow> 1 \<le> main_at s"
definition bound_second :: "thread_relay \<Rightarrow> bool" where "bound_second s \<longleftrightarrow> (\<exists>n. second_at s = Some n \<and> 1 \<le> n)"

inductive relay_step :: "thread_relay \<Rightarrow> thread_relay \<Rightarrow> bool" where
  binds_main: "main_at s = 0 \<Longrightarrow> relay_step s (s\<lparr>main_at := 1\<rparr>)"
| starts_second: "main_at s = 1 \<Longrightarrow> relay_step s (s\<lparr>main_at := 2, second_at := Some 0\<rparr>)"
| receives: "main_at s = 2 \<Longrightarrow> s_recv (to_main s) = Inr (m, ms) \<Longrightarrow> relay_step s (s\<lparr>main_at := 3, to_main := ms\<rparr>)"
| binds_second: "second_at s = Some 0 \<Longrightarrow> relay_step s (s\<lparr>second_at := Some 1\<rparr>)"
| starts_first: "second_at s = Some 1 \<Longrightarrow> relay_step s (s\<lparr>second_at := Some 2, first_at := Some 0\<rparr>)"
| receives_second: "second_at s = Some 2 \<Longrightarrow> s_recv (to_second s) = Inr (m, ms) \<Longrightarrow>
     relay_step s (s\<lparr>second_at := Some 3, to_second := ms\<rparr>)"
| signals_main: "second_at s = Some 3 \<Longrightarrow> bound_main s \<Longrightarrow>
     relay_step s (s\<lparr>second_at := Some 4, to_main := to_main s @ map fst (s_send [])\<rparr>)"
| signals_second: "first_at s = Some 0 \<Longrightarrow> bound_second s \<Longrightarrow>
     relay_step s (s\<lparr>first_at := Some 1, to_second := to_second s @ map fst (s_send [])\<rparr>)"

inductive_simps relay_step_iff: "relay_step s t"

text \<open>There is only one order.\<close>

definition relay_order :: "thread_relay list" where
  "relay_order = [relay_start,
     \<lparr>main_at = 1, second_at = None, first_at = None, to_second = [], to_main = []\<rparr>,
     \<lparr>main_at = 2, second_at = Some 0, first_at = None, to_second = [], to_main = []\<rparr>,
     \<lparr>main_at = 2, second_at = Some 1, first_at = None, to_second = [], to_main = []\<rparr>,
     \<lparr>main_at = 2, second_at = Some 2, first_at = Some 0, to_second = [], to_main = []\<rparr>,
     \<lparr>main_at = 2, second_at = Some 2, first_at = Some 1, to_second = [[]], to_main = []\<rparr>,
     \<lparr>main_at = 2, second_at = Some 3, first_at = Some 1, to_second = [], to_main = []\<rparr>,
     \<lparr>main_at = 2, second_at = Some 4, first_at = Some 1, to_second = [], to_main = [[]]\<rparr>,
     \<lparr>main_at = 3, second_at = Some 4, first_at = Some 1, to_second = [], to_main = []\<rparr>]"

lemma relay_steps: "\<forall>p \<in> set (zip (butlast relay_order) (tl relay_order)). \<forall>t. relay_step (fst p) t \<longleftrightarrow> t = snd p"
  by (auto simp: relay_order_def relay_start_def relay_step_iff bound_main_def bound_second_def s_send_def numeral_eq_Suc)

lemma relay_last: "\<not> relay_step (last relay_order) t"
  by (simp add: relay_order_def relay_step_iff bound_main_def bound_second_def)

lemma relay_step_nth:
  assumes "n < length relay_order"
  shows "relay_step (relay_order ! n) t \<longleftrightarrow> Suc n < length relay_order \<and> t = relay_order ! Suc n"
proof (cases "Suc n < length relay_order")
  case True
  then have "(relay_order ! n, relay_order ! Suc n) \<in> set (zip (butlast relay_order) (tl relay_order))"
    by (auto simp: set_zip nth_butlast nth_tl intro!: exI [of _ n])
  with relay_steps True show ?thesis by fastforce
next
  case False
  with assms have "relay_order ! n = last relay_order" by (metis Suc_lessI diff_Suc_1 last_conv_nth list.size(3) not_less_zero)
  with False relay_last show ?thesis by simp
qed

theorem relay_in_order:
  "(relay_step ^^ n) relay_start s \<longleftrightarrow> n < 9 \<and> s = relay_order ! n"
proof (induction n arbitrary: s)
  case (Suc n)
  have len: "length relay_order = 9" by (simp add: relay_order_def)
  have "(relay_step ^^ Suc n) relay_start s \<longleftrightarrow> n < 9 \<and> relay_step (relay_order ! n) s" using Suc.IH by auto
  with relay_step_nth [of n s] show ?case by (auto simp: len)
qed (auto simp: relay_order_def)

end
