(* ===== verification/Sctp_Notification.thy ===== *)
theory Sctp_Notification
  imports Sctp_Notify Dump
begin

section \<open>The printer of notifications in C++ (SctpNotification.cpp)\<close>

text \<open>
  \<open>SctpNotification::Print\<close> of \<open>LinuxSocket/sctp_socket/control_stream/SctpNotification.cpp\<close> (the same file is in
  \<open>terminate_association\<close>, \<open>thundering_herd/comm\<close> and \<open>sctp_proxy/comm\<close>), the successor of the printer in
  \<open>Sctp_Notify\<close>. Numbers are written with \<open>operator<<\<close>: identifiers of associations and the state of an address are signed.
  The two printers are compared by what can be read back from their output.
\<close>

subsection \<open>The functions\<close>

definition signed32 :: "nat \<Rightarrow> bytes \<Rightarrow> bytes" where
  "signed32 k v = dec_text (sint (le32_at k v))"

definition PrintAssocChange :: "bytes \<Rightarrow> bytes" where
  "PrintAssocChange v =
     bytes_of ''[Notification]: SCTP_ASSOC_CHANGE: '' @ assoc_state_text (sac_state v)
     @ bytes_of '' received with assoc id = '' @ signed32 16 v @ [10]"

definition PrintPeerAddrChange :: "(int \<Rightarrow> bytes \<Rightarrow> bytes) \<Rightarrow> bytes \<Rightarrow> bytes" where
  "PrintPeerAddrChange ntop v =
     (if spc_state v \<le> 5 then [] else bytes_of ''[Notification]: UNKNOWN state = '' @ signed32 136 v @ [10])
     @ bytes_of ''[Notification]: ip = ''
     @ (if uint (le16_at 8 v) = AF_INET then ntop AF_INET (take 4 (drop 12 v)) else ntop 10 (take 16 (drop 16 v)))
     @ [10] @ bytes_of ''[Notification]: SCTP_PEER_ADDR_CHANGE:  '' @ addr_state_text (spc_state v)
     @ bytes_of '' received with assoc id = '' @ signed32 144 v @ [10]"

definition PrintRemoteError :: "bytes \<Rightarrow> bytes" where
  "PrintRemoteError v =
     bytes_of ''[Notification]: SCTP_REMOTE_ERROR received with assoc id = '' @ signed32 12 v
     @ bytes_of '' ,error= '' @ dec_text (uint (le16_at 8 v)) @ [10]"

definition PrintSendFailed :: "bytes \<Rightarrow> bytes" where
  "PrintSendFailed v =
     bytes_of ''[Notification]: SCTP_SEND_FAILED received with assoc id = '' @ signed32 44 v
     @ bytes_of '' ,error = '' @ dec_text (uint (le32_at 8 v)) @ [10]"

definition PrintAdaptionIndication :: "bytes \<Rightarrow> bytes" where
  "PrintAdaptionIndication v =
     bytes_of ''[Notification]: SCTP_ADAPTION_INDICATION: '' @ dec_text (uint (le32_at 8 v)) @ [10]"

definition PrintPartialDeliveryEvent :: "bytes \<Rightarrow> bytes" where
  "PrintPartialDeliveryEvent v =
     (if le32_at 8 v = 0 then bytes_of ''[Notification]: SCPT_PARTIAL_DELIVERY_ABORTED!'' @ [10]
      else bytes_of ''[Notification]: Unkown SCPT_PARTIAL_DELIVERY_EVENT!'' @ [10])"

definition PrintShutDownEvent :: "bytes \<Rightarrow> bytes" where
  "PrintShutDownEvent v = bytes_of ''[Notification]: SCTP_SHUTDOWN_EVENT: assoc id = '' @ signed32 8 v @ [10]"

definition PrintAuthenticationIndication :: "bytes \<Rightarrow> bytes" where
  "PrintAuthenticationIndication v =
     bytes_of ''[Notification]: SCTP_AUTHENTICATION_INDICATION: assoc id = '' @ signed32 16 v @ [10]"

definition PrintSenderDryEvent :: "bytes \<Rightarrow> bytes" where
  "PrintSenderDryEvent v = bytes_of ''[Notification]: SCTP_SENDER_DRY_EVENT: assoc id = '' @ signed32 8 v @ [10]"

definition Print :: "(int \<Rightarrow> bytes \<Rightarrow> bytes) \<Rightarrow> bytes \<Rightarrow> bytes" where
  "Print ntop v =
     (if sn_type v = SCTP_ASSOC_CHANGE then PrintAssocChange v
      else if sn_type v = 0x8002 then PrintPeerAddrChange ntop v
      else if sn_type v = 0x8004 then PrintRemoteError v
      else if sn_type v = 0x8005 then PrintShutDownEvent v
      else if sn_type v = 0x8003 then PrintSendFailed v
      else if sn_type v = 0x8007 then PrintAdaptionIndication v
      else if sn_type v = 0x8006 then PrintPartialDeliveryEvent v
      else if sn_type v = 0x8008 then PrintAuthenticationIndication v
      else if sn_type v = 0x8009 then PrintSenderDryEvent v
      else bytes_of ''[Notification Err]: Unkown event type = '' @ dec_text (uint (sn_type v)) @ [10])"

subsection \<open>What is told of a notification\<close>

datatype told =
    Told_Assoc "16 word option" "32 word"
  | Told_Address "32 word" bytes "32 word"
  | Told_Error "32 word" "16 word"
  | Told_Failed "32 word" "32 word"
  | Told_Adaption "32 word"
  | Told_Partial bool
  | Told_Shutdown "32 word"
  | Told_Authentication "32 word"
  | Told_Dry "32 word"
  | Told_Unknown "16 word"

definition told_of :: "(int \<Rightarrow> bytes \<Rightarrow> bytes) \<Rightarrow> bytes \<Rightarrow> told" where
  "told_of ntop v =
     (if sn_type v = SCTP_ASSOC_CHANGE then Told_Assoc (if sac_state v \<le> 4 then Some (sac_state v) else None) (le32_at 16 v)
      else if sn_type v = 0x8002 then
        Told_Address (spc_state v)
          (if uint (le16_at 8 v) = AF_INET then ntop AF_INET (take 4 (drop 12 v)) else ntop 10 (take 16 (drop 16 v))) (le32_at 144 v)
      else if sn_type v = 0x8004 then Told_Error (le32_at 12 v) (le16_at 8 v)
      else if sn_type v = 0x8005 then Told_Shutdown (le32_at 8 v)
      else if sn_type v = 0x8003 then Told_Failed (le32_at 44 v) (le32_at 8 v)
      else if sn_type v = 0x8007 then Told_Adaption (le32_at 8 v)
      else if sn_type v = 0x8006 then Told_Partial (le32_at 8 v = 0)
      else if sn_type v = 0x8008 then Told_Authentication (le32_at 16 v)
      else if sn_type v = 0x8009 then Told_Dry (le32_at 8 v)
      else Told_Unknown (sn_type v))"

text \<open>How the two programs write it, with the way they write numbers.\<close>

definition hex_of :: "'a :: len word \<Rightarrow> bytes" where "hex_of w = hex_text (unat w)"
definition sdec_of :: "'a :: len word \<Rightarrow> bytes" where "sdec_of w = dec_text (sint w)"
definition udec_of :: "'a :: len word \<Rightarrow> bytes" where "udec_of w = dec_text (uint w)"

fun c_text :: "told \<Rightarrow> bytes" where
  "c_text (Told_Assoc st i) = bytes_of ''[Notification]: SCTP_ASSOC_CHANGE: '' @ quoted (assoc_state_text (case st of Some s \<Rightarrow> s | None \<Rightarrow> 5))
     @ bytes_of '' received with assoc id = 0x'' @ hex_of i @ [10]"
| "c_text (Told_Address st ip i) = (if st \<le> 5 then [] else bytes_of ''[Notification]: UNKNOWN state = 0x'' @ hex_of st @ [10])
     @ bytes_of ''[Notification]: ip = '' @ ip @ [10] @ bytes_of ''[Notification]: SCTP_PEER_ADDR_CHANGE: ''
     @ quoted (addr_state_text st) @ bytes_of '' received with assoc id = 0x'' @ hex_of i @ [10]"
| "c_text (Told_Error i e) = bytes_of ''[Notification]: SCTP_REMOTE_ERROR received with assoc id = 0x'' @ hex_of i
     @ bytes_of '' error= '' @ udec_of e @ bytes_of ''!'' @ [10]"
| "c_text (Told_Failed i e) = bytes_of ''[Notification]: SCTP_SEND_FAILED received with assoc id = 0x'' @ hex_of i
     @ bytes_of '' error = '' @ sdec_of e @ bytes_of '' !'' @ [10]"
| "c_text (Told_Adaption n) = bytes_of ''[Notification]: SCTP_ADAPTION_INDICATION: 0x'' @ hex_of n @ bytes_of '' received!'' @ [10]"
| "c_text (Told_Partial aborted) = (if aborted then bytes_of ''[Notification]: SCPT_PARTIAL_DELIVERY_ABORTED!''
     else bytes_of ''[Notification]: Unkown SCPT_PARTIAL_DELIVERY_EVENT!'')"
| "c_text (Told_Shutdown i) = bytes_of ''[Notification]: SCTP_SHUTDOWN_EVENT: assoc id = 0x'' @ hex_of i @ [10]"
| "c_text (Told_Authentication i) = bytes_of ''[Notification]: SCTP_AUTHENTICATION_INDICATION: assoc id = 0x'' @ hex_of i @ [10]"
| "c_text (Told_Dry i) = bytes_of ''[Notification]: SCTP_SENDER_DRY_EVENT: assoc id = 0x'' @ hex_of i @ [10]"
| "c_text (Told_Unknown n) = bytes_of ''[Notification Err]: Unkown event type = 0x'' @ hex_of n @ [10]"

fun cpp_text :: "told \<Rightarrow> bytes" where
  "cpp_text (Told_Assoc st i) = bytes_of ''[Notification]: SCTP_ASSOC_CHANGE: '' @ assoc_state_text (case st of Some s \<Rightarrow> s | None \<Rightarrow> 5)
     @ bytes_of '' received with assoc id = '' @ sdec_of i @ [10]"
| "cpp_text (Told_Address st ip i) = (if st \<le> 5 then [] else bytes_of ''[Notification]: UNKNOWN state = '' @ sdec_of st @ [10])
     @ bytes_of ''[Notification]: ip = '' @ ip @ [10] @ bytes_of ''[Notification]: SCTP_PEER_ADDR_CHANGE:  ''
     @ addr_state_text st @ bytes_of '' received with assoc id = '' @ sdec_of i @ [10]"
| "cpp_text (Told_Error i e) = bytes_of ''[Notification]: SCTP_REMOTE_ERROR received with assoc id = '' @ sdec_of i
     @ bytes_of '' ,error= '' @ udec_of e @ [10]"
| "cpp_text (Told_Failed i e) = bytes_of ''[Notification]: SCTP_SEND_FAILED received with assoc id = '' @ sdec_of i
     @ bytes_of '' ,error = '' @ udec_of e @ [10]"
| "cpp_text (Told_Adaption n) = bytes_of ''[Notification]: SCTP_ADAPTION_INDICATION: '' @ udec_of n @ [10]"
| "cpp_text (Told_Partial aborted) = (if aborted then bytes_of ''[Notification]: SCPT_PARTIAL_DELIVERY_ABORTED!'' @ [10]
     else bytes_of ''[Notification]: Unkown SCPT_PARTIAL_DELIVERY_EVENT!'' @ [10])"
| "cpp_text (Told_Shutdown i) = bytes_of ''[Notification]: SCTP_SHUTDOWN_EVENT: assoc id = '' @ sdec_of i @ [10]"
| "cpp_text (Told_Authentication i) = bytes_of ''[Notification]: SCTP_AUTHENTICATION_INDICATION: assoc id = '' @ sdec_of i @ [10]"
| "cpp_text (Told_Dry i) = bytes_of ''[Notification]: SCTP_SENDER_DRY_EVENT: assoc id = '' @ sdec_of i @ [10]"
| "cpp_text (Told_Unknown n) = bytes_of ''[Notification Err]: Unkown event type = '' @ udec_of n @ [10]"

lemmas c_defs = print_assoc_change_def print_peer_addr_change_def print_remote_error_def print_send_failed_def
  print_adaption_indication_def print_partial_delivery_event_def print_shutdown_event_def print_authentication_indication_def
  print_sender_dry_event_def hex32_def hex_of_def udec_of_def sdec_of_def spc_state_def

lemmas cpp_defs = PrintAssocChange_def PrintPeerAddrChange_def PrintRemoteError_def PrintSendFailed_def PrintAdaptionIndication_def
  PrintPartialDeliveryEvent_def PrintShutDownEvent_def PrintAuthenticationIndication_def PrintSenderDryEvent_def signed32_def
  udec_of_def sdec_of_def spc_state_def

lemma assoc_state_known: "assoc_state_text (case (if st \<le> 4 then Some st else None) of Some s \<Rightarrow> s | None \<Rightarrow> 5) = assoc_state_text st"
proof (cases "st \<le> 4")
  case False
  then have "st \<noteq> 0" "st \<noteq> 1" "st \<noteq> 2" "st \<noteq> 3" "st \<noteq> 4" by auto
  moreover have "(5 :: 16 word) \<noteq> 0" "(5 :: 16 word) \<noteq> 1" "(5 :: 16 word) \<noteq> 2" "(5 :: 16 word) \<noteq> 3" "(5 :: 16 word) \<noteq> 4" by simp_all
  ultimately show ?thesis
    unfolding assoc_state_text_def SCTP_COMM_UP_def SCTP_SHUTDOWN_COMP_def by (simp only: False if_False option.case)
qed (simp only: if_True option.case)

lemma c_text_told: "print_sctp_notification ntop v = c_text (told_of ntop v)"
  unfolding print_sctp_notification_def told_of_def if_distrib [of c_text] c_text.simps c_defs assoc_state_known ..

lemma cpp_text_told: "Print ntop v = cpp_text (told_of ntop v)"
  unfolding Print_def told_of_def if_distrib [of cpp_text] cpp_text.simps cpp_defs assoc_state_known ..

subsection \<open>Reading a number\<close>

lemma digit_plain: "is_digit c \<Longrightarrow> c \<notin> {10, 32, 33}"
  by (auto simp: is_digit_def)

lemma hex_text_chars: "c \<in> set (hex_text n) \<Longrightarrow> c \<notin> {10, 32}"
proof -
  assume "c \<in> set (hex_text n)"
  then obtain d where d: "d < 16" "c = hex_digit d" using hex_with_digits [of hex_digit n] by (auto simp only: hex_text_def image_iff lessThan_iff)
  have "\<forall>d \<in> set [0..<16]. hex_digit d \<notin> {10, 32}" by code_simp
  with d show ?thesis by simp
qed

lemma dec_text_chars: "c \<in> set (dec_text i) \<Longrightarrow> c \<notin> {10, 32, 33}"
proof -
  assume "c \<in> set (dec_text i)"
  then have "c = 45 \<or> is_digit c"
    using decimal_is_digits [of "nat i"] decimal_is_digits [of "nat (- i)"] unfolding dec_text_def by (cases "i < 0") auto
  then show ?thesis using digit_plain by fastforce
qed

lemma dec_text_inj: "dec_text i = dec_text j \<longleftrightarrow> i = j"
proof
  let ?read = "\<lambda>s. if hd s = 45 then - digits_value (tl s) else digits_value s"
  have "?read (dec_text k) = k" for k
  proof (cases "k < 0")
    case False
    have "hd (decimal (nat k)) \<noteq> 45" using decimal_is_digits [of "nat k"] decimal_no_space(2) [of "nat k"] by (cases "decimal (nat k)") auto
    with False show ?thesis by (simp add: dec_text_def digits_value_decimal)
  qed (simp add: dec_text_def digits_value_decimal)
  then show "dec_text i = dec_text j \<Longrightarrow> i = j" by metis
qed simp

lemma signed_word_eq_iff: "sint v = sint w \<longleftrightarrow> v = w"
  using signed_word_eqI by blast

lemma word_texts:
  "hex_of v = hex_of w \<longleftrightarrow> v = w" "sdec_of v = sdec_of w \<longleftrightarrow> v = w" "udec_of v = udec_of w \<longleftrightarrow> v = w"
proof -
  have "hex_text (unat v) = hex_text (unat w) \<longleftrightarrow> unat v = unat w" using hex_text_inj by metis
  then show "hex_of v = hex_of w \<longleftrightarrow> v = w" by (simp only: hex_of_def word_unat_eq_iff)
  show "udec_of v = udec_of w \<longleftrightarrow> v = w" by (simp only: udec_of_def dec_text_inj word_uint_eq_iff)
  show "sdec_of v = sdec_of w \<longleftrightarrow> v = w" unfolding sdec_of_def dec_text_inj by (rule signed_word_eq_iff)
qed

lemma read_word:
  assumes "c \<in> {10, 32}"
  shows "hex_of v @ c # t = hex_of w @ c # u \<longleftrightarrow> v = w \<and> t = u"
    and "sdec_of v @ c # t = sdec_of w @ c # u \<longleftrightarrow> v = w \<and> t = u"
    and "udec_of v @ c # t = udec_of w @ c # u \<longleftrightarrow> v = w \<and> t = u"
proof -
  have plain: "c \<notin> set (hex_of x)" "c \<notin> set (sdec_of x)" "c \<notin> set (udec_of x)" for x :: "'a word"
    using hex_text_chars [of c "unat x"] dec_text_chars [of c "sint x"] dec_text_chars [of c "uint x"] assms
    by (auto simp only: hex_of_def sdec_of_def udec_of_def)
  show "hex_of v @ c # t = hex_of w @ c # u \<longleftrightarrow> v = w \<and> t = u"
    using closed_unique [of "hex_of v" c t "hex_of w" u] plain(1) word_texts(1) by blast
  show "sdec_of v @ c # t = sdec_of w @ c # u \<longleftrightarrow> v = w \<and> t = u"
    using closed_unique [of "sdec_of v" c t "sdec_of w" u] plain(2) word_texts(2) by blast
  show "udec_of v @ c # t = udec_of w @ c # u \<longleftrightarrow> v = w \<and> t = u"
    using closed_unique [of "udec_of v" c t "udec_of w" u] plain(3) word_texts(3) by blast
qed

subsection \<open>Reading a notification\<close>

definition told_ok :: "told \<Rightarrow> bool" where
  "told_ok k = (case k of Told_Assoc (Some st) _ \<Rightarrow> st \<le> 4 | Told_Address _ ip _ \<Rightarrow> 10 \<notin> set ip | _ \<Rightarrow> True)"

definition state_nr :: "16 word option \<Rightarrow> 16 word" where
  "state_nr st = (case st of Some s \<Rightarrow> s | None \<Rightarrow> 5)"

lemma small_word16: "(w :: 16 word) \<le> 4 \<Longrightarrow> w \<in> {0, 1, 2, 3, 4}"
  by (auto simp: word_le_nat_alt word_unat_eq_iff)

lemma small_word32: "(w :: 32 word) \<le> 5 \<Longrightarrow> w \<in> {0, 1, 2, 3, 4, 5}"
  by (auto simp: word_le_nat_alt word_unat_eq_iff)

lemma assoc_states_apart:
  assumes "s \<in> {0, 1, 2, 3, 4, 5}" "t \<in> {0, 1, 2, 3, 4, 5}" "c \<in> {32, 39}"
    and "assoc_state_text s @ c # u = assoc_state_text t @ c # w"
  shows "s = t \<and> u = w"
  using assms by (auto simp: assoc_state_text_def SCTP_COMM_UP_def SCTP_SHUTDOWN_COMP_def bytes_of_def)

lemma addr_states_apart:
  assumes "s \<in> {0, 1, 2, 3, 4, 5}" "t \<in> {0, 1, 2, 3, 4, 5}" "c \<in> {32, 39}"
    and "addr_state_text s @ c # u = addr_state_text t @ c # w"
  shows "s = t \<and> u = w"
  using assms by (auto simp: addr_state_text_def bytes_of_def)

lemma state_nr_inj: "told_ok (Told_Assoc s i) \<Longrightarrow> told_ok (Told_Assoc r k) \<Longrightarrow> state_nr s = state_nr r \<Longrightarrow> s = r"
  by (auto simp: told_ok_def state_nr_def split: option.splits)

lemma state_nr_range: "told_ok (Told_Assoc r k) \<Longrightarrow> state_nr r \<in> {0, 1, 2, 3, 4, 5}"
  using small_word16 by (auto simp: told_ok_def state_nr_def split: option.splits)

lemma read_bang: "udec_of v @ bytes_of ''!'' @ t = udec_of w @ bytes_of ''!'' @ u \<longleftrightarrow> v = w \<and> t = u"
proof -
  have "33 \<notin> set (udec_of x)" for x :: "'a word" using dec_text_chars [of 33 "uint x"] by (auto simp only: udec_of_def)
  then show ?thesis using closed_unique [of "udec_of v" 33 t "udec_of w" u] word_texts(3) [of v w] by (auto simp: bytes_of_def)
qed

definition reads :: "(32 word \<Rightarrow> bytes) \<Rightarrow> bool" where
  "reads f \<longleftrightarrow> (\<forall>i k t u. f i @ 10 # t = f k @ 10 # u \<longrightarrow> i = k \<and> t = u)"

lemma hex_reads: "reads hex_of" and sdec_reads: "reads sdec_of"
  by (simp_all add: reads_def read_word)

lemma readsD: "reads f \<Longrightarrow> f i @ 10 # t = f k @ 10 # u \<Longrightarrow> i = k \<and> t = u"
  by (auto simp: reads_def)

text \<open>The lines of a state, with the character behind its text.\<close>

lemma assoc_line:
  assumes "reads f" "told_ok (Told_Assoc s i)" "told_ok (Told_Assoc r k)" "c \<in> {32, 39}"
    and "assoc_state_text (state_nr s) @ c # a @ f i @ 10 # u = assoc_state_text (state_nr r) @ c # a @ f k @ 10 # v"
  shows "s = r \<and> i = k"
  using assoc_states_apart [OF state_nr_range [OF assms(2)] state_nr_range [OF assms(3)] assms(4,5)]
    state_nr_inj [OF assms(2,3)] readsD [OF assms(1), of i u k v] by simp

lemma addr_line:
  assumes "reads f" "s \<le> 5" "r \<le> 5" "10 \<notin> set ip" "10 \<notin> set ip'" "c \<in> {32, 39}"
    and "ip @ 10 # p @ addr_state_text s @ c # a @ f i @ 10 # u = ip' @ 10 # p @ addr_state_text r @ c # a @ f k @ 10 # v"
  shows "s = r \<and> ip = ip' \<and> i = k"
proof -
  have "ip = ip'" "addr_state_text s @ c # a @ f i @ 10 # u = addr_state_text r @ c # a @ f k @ 10 # v"
    using closed_unique [OF assms(7,4,5)] by simp_all
  with addr_states_apart [OF small_word32 [OF assms(2)] small_word32 [OF assms(3)] assms(6) this(2)] readsD [OF assms(1), of i u k v]
  show ?thesis by simp
qed

lemma unknown_line:
  assumes "reads f" "10 \<notin> set ip" "10 \<notin> set ip'"
    and "f s @ 10 # q @ ip @ 10 # p @ addr_state_text s @ a @ f i @ 10 # u = f r @ 10 # q @ ip' @ 10 # p @ addr_state_text r @ a @ f k @ 10 # v"
  shows "s = r \<and> ip = ip' \<and> i = k"
proof -
  have s: "s = r" "ip @ 10 # p @ addr_state_text s @ a @ f i @ 10 # u = ip' @ 10 # p @ addr_state_text r @ a @ f k @ 10 # v"
    using readsD [OF assms(1,4)] by blast+
  from closed_unique [OF s(2) assms(2,3)] s(1) readsD [OF assms(1), of i u k v] show ?thesis by simp
qed

text \<open>The letters that tell the events apart; they are the same in both programs.\<close>

definition kind :: "bytes \<Rightarrow> nat" where
  "kind t = (if t ! 13 = 32 then 9 else if t ! 16 = 105 then 1 else if t ! 16 = 85 then (if t ! 17 = 78 then 1 else 5)
     else if t ! 18 = 80 then 5 else if t ! 21 = 65 then (if t ! 22 = 83 then 0 else if t ! 22 = 68 then 4 else 7)
     else if t ! 21 = 82 then 2 else if t ! 22 = 72 then 6 else if t ! 25 = 95 then 3 else 8)"

fun kind_of :: "told \<Rightarrow> nat" where
  "kind_of (Told_Assoc _ _) = 0"
| "kind_of (Told_Address _ _ _) = 1"
| "kind_of (Told_Error _ _) = 2"
| "kind_of (Told_Failed _ _) = 3"
| "kind_of (Told_Adaption _) = 4"
| "kind_of (Told_Partial _) = 5"
| "kind_of (Told_Shutdown _) = 6"
| "kind_of (Told_Authentication _) = 7"
| "kind_of (Told_Dry _) = 8"
| "kind_of (Told_Unknown _) = 9"

lemma kind_c_text: "kind (c_text k @ u) = kind_of k" and kind_cpp_text: "kind (cpp_text k @ u) = kind_of k"
  by (cases k; simp add: kind_def bytes_of_def split: if_splits)+

lemma bytes_of_blank: "bytes_of (CHR '' '' # cs) = 32 # bytes_of cs"
  by (simp add: bytes_of_def)

lemma partial_texts_apart:
  "bytes_of ''[Notification]: SCPT_PARTIAL_DELIVERY_ABORTED!'' @ t \<noteq> bytes_of ''[Notification]: Unkown SCPT_PARTIAL_DELIVERY_EVENT!'' @ u"
  by (simp add: bytes_of_def)

lemma c_first_unique:
  assumes "told_ok x" "told_ok y" "c_text x @ u = c_text y @ v"
  shows "x = y"
proof -
  let ?r = "bytes_of '' received with assoc id = 0x''"
  let ?p = "(bytes_of ''[Notification]: SCTP_PEER_ADDR_CHANGE: '' @ [39])"
  let ?i = "bytes_of ''[Notification]: ip = ''"
  have kinds: "kind_of x = kind_of y" using arg_cong [OF assms(3), of kind] by (simp only: kind_c_text)
  show ?thesis
  proof (cases x)
    case x: (Told_Assoc s i)
    show ?thesis
    proof (cases y)
      case y: (Told_Assoc r k)
      have "assoc_state_text (state_nr s) @ 39 # ?r @ hex_of i @ 10 # u
          = assoc_state_text (state_nr r) @ 39 # ?r @ hex_of k @ 10 # v"
        using assms(3) by (simp add: x y state_nr_def quoted_def)
      from assoc_line [OF hex_reads _ _ _ this] assms(1,2) show ?thesis by (simp add: x y)
    qed (use kinds x in simp_all)
  next
    case x: (Told_Address s ip i)
    show ?thesis
    proof (cases y)
      case y: (Told_Address r ip' k)
      show ?thesis
      proof (cases "s \<le> 5"; cases "r \<le> 5")
        assume known: "s \<le> 5" "r \<le> 5"
        have "ip @ 10 # ?p @ addr_state_text s @ 39 # ?r @ hex_of i @ 10 # u
          = ip' @ 10 # ?p @ addr_state_text r @ 39 # ?r @ hex_of k @ 10 # v"
          using assms(3) known by (simp add: x y quoted_def)
        from addr_line [OF hex_reads known _ _ _ this] assms(1,2) show ?thesis by (simp add: x y told_ok_def)
      next
        assume "\<not> s \<le> 5" "\<not> r \<le> 5"
        with assms(3) have "hex_of s @ 10 # ?i @ ip @ 10 # ?p @ addr_state_text s @ (39 # ?r) @ hex_of i @ 10 # u
            = hex_of r @ 10 # ?i @ ip' @ 10 # ?p @ addr_state_text r @ (39 # ?r) @ hex_of k @ 10 # v"
          by (simp add: x y quoted_def)
        from unknown_line [OF hex_reads _ _ this] assms(1,2) show ?thesis by (simp add: x y told_ok_def)
      qed (use assms(3) in \<open>simp_all add: x y bytes_of_def\<close>)
    qed (use kinds x in simp_all)
  qed (cases y; ((use kinds in \<open>simp; fail\<close>) |
      (use assms(3) in \<open>simp add: read_word read_bang bytes_of_blank partial_texts_apart partial_texts_apart [symmetric] split: if_splits\<close>)))+
qed

lemma cpp_first_unique:
  assumes "told_ok x" "told_ok y" "cpp_text x @ u = cpp_text y @ v"
  shows "x = y"
proof -
  let ?r = "bytes_of ''received with assoc id = ''"
  let ?p = "bytes_of ''[Notification]: SCTP_PEER_ADDR_CHANGE:  ''"
  let ?i = "bytes_of ''[Notification]: ip = ''"
  have kinds: "kind_of x = kind_of y" using arg_cong [OF assms(3), of kind] by (simp only: kind_cpp_text)
  show ?thesis
  proof (cases x)
    case x: (Told_Assoc s i)
    show ?thesis
    proof (cases y)
      case y: (Told_Assoc r k)
      have "assoc_state_text (state_nr s) @ 32 # ?r @ sdec_of i @ 10 # u
          = assoc_state_text (state_nr r) @ 32 # ?r @ sdec_of k @ 10 # v"
        using assms(3) by (simp add: x y state_nr_def bytes_of_blank)
      from assoc_line [OF sdec_reads _ _ _ this] assms(1,2) show ?thesis by (simp add: x y)
    qed (use kinds x in simp_all)
  next
    case x: (Told_Address s ip i)
    show ?thesis
    proof (cases y)
      case y: (Told_Address r ip' k)
      show ?thesis
      proof (cases "s \<le> 5"; cases "r \<le> 5")
        assume known: "s \<le> 5" "r \<le> 5"
        have "ip @ 10 # ?p @ addr_state_text s @ 32 # ?r @ sdec_of i @ 10 # u
          = ip' @ 10 # ?p @ addr_state_text r @ 32 # ?r @ sdec_of k @ 10 # v"
          using assms(3) known by (simp add: x y bytes_of_blank)
        from addr_line [OF sdec_reads known _ _ _ this] assms(1,2) show ?thesis by (simp add: x y told_ok_def)
      next
        assume "\<not> s \<le> 5" "\<not> r \<le> 5"
        with assms(3) have "sdec_of s @ 10 # ?i @ ip @ 10 # ?p @ addr_state_text s @ (32 # ?r) @ sdec_of i @ 10 # u
            = sdec_of r @ 10 # ?i @ ip' @ 10 # ?p @ addr_state_text r @ (32 # ?r) @ sdec_of k @ 10 # v"
          by (simp add: x y bytes_of_blank)
        from unknown_line [OF sdec_reads _ _ this] assms(1,2) show ?thesis by (simp add: x y told_ok_def)
      qed (use assms(3) in \<open>simp_all add: x y bytes_of_def\<close>)
    qed (use kinds x in simp_all)
  qed (cases y; ((use kinds in \<open>simp; fail\<close>) |
      (use assms(3) in \<open>simp add: read_word read_bang bytes_of_blank partial_texts_apart partial_texts_apart [symmetric] split: if_splits\<close>)))+
qed

lemma texts_ne: "c_text k \<noteq> []" "cpp_text k \<noteq> []"
  by (cases k; simp add: bytes_of_def)+

interpretation c_log: prefix_code "\<lambda>_ :: unit. c_text" "\<lambda>s _. s" told_ok
  by unfold_locales (auto simp: texts_ne intro: c_first_unique)

interpretation cpp_log: prefix_code "\<lambda>_ :: unit. cpp_text" "\<lambda>s _. s" told_ok
  by unfold_locales (auto simp: texts_ne intro: cpp_first_unique)

lemma told_of_ok: "\<forall>f a. 10 \<notin> set (ntop f a) \<Longrightarrow> told_ok (told_of ntop v)"
  by (simp add: told_of_def told_ok_def)

text \<open>
  What either program has printed of any number of notifications, one after the other, tells what each of them was.
\<close>

text \<open>
  C40. If the text of an address has no newline, two sequences of notifications are printed alike
  by SctpNotification::Print exactly if they are by the C program, and exactly if they agree in
  kind, state, address, association, error and number, event for event: what either has printed can
  be read back.
\<close>

theorem printed_logs_agree:
  assumes "\<forall>f a. 10 \<notin> set (ntop f a)"
  shows "(concat (map (Print ntop) vs) = concat (map (Print ntop) ws) \<longleftrightarrow> map (told_of ntop) vs = map (told_of ntop) ws)
    \<and> (concat (map (print_sctp_notification ntop) vs) = concat (map (print_sctp_notification ntop) ws)
      \<longleftrightarrow> map (told_of ntop) vs = map (told_of ntop) ws)"
proof -
  have ok: "\<forall>k \<in> set (map (told_of ntop) us). told_ok k" for us using told_of_ok [OF assms] by simp
  have c: "concat (map (print_sctp_notification ntop) us) = coded (\<lambda>_. c_text) (\<lambda>s _. s) () (map (told_of ntop) us)" for us
    unfolding coded_concat c_text_told by (simp only: map_map comp_def)
  have cpp: "concat (map (Print ntop) us) = coded (\<lambda>_. cpp_text) (\<lambda>s _. s) () (map (told_of ntop) us)" for us
    unfolding coded_concat cpp_text_told by (simp only: map_map comp_def)
  show ?thesis
    using cpp_log.coded_inj [OF _ ok ok, of "()" vs ws] c_log.coded_inj [OF _ ok ok, of "()" vs ws] by (auto simp only: c cpp)
qed

text \<open>Two notifications of a sender that is dry, of associations 1 and 2.\<close>

lemma printed_logs_agree_witness:
  "concat (map (Print (\<lambda>_ _. [49])) [[9, 128, 0, 0, 0, 0, 0, 0, 1, 0, 0, 0]])
     \<noteq> concat (map (Print (\<lambda>_ _. [49])) [[9, 128, 0, 0, 0, 0, 0, 0, 2, 0, 0, 0]])"
proof -
  have "told_of (\<lambda>_ _. [49]) [9, 128, 0, 0, 0, 0, 0, 0, i, 0, 0, 0] = Told_Dry (ucast i)" for i
    by (simp add: told_of_def sn_type_def le16_at_def le32_at_def of_le32_def SCTP_ASSOC_CHANGE_def)
  then have "map (told_of (\<lambda>_ _. [49])) [[9, 128, 0, 0, 0, 0, 0, 0, 1, 0, 0, 0]]
      \<noteq> map (told_of (\<lambda>_ _. [49])) [[9, 128, 0, 0, 0, 0, 0, 0, 2, 0, 0, 0]]" by simp
  moreover have "\<forall>f a. 10 \<notin> set ((\<lambda>_ _. [49]) (f :: int) (a :: bytes) :: bytes)" by simp
  ultimately show ?thesis using printed_logs_agree [of "\<lambda>_ _. [49]" "[[9, 128, 0, 0, 0, 0, 0, 0, 1, 0, 0, 0]]"
      "[[9, 128, 0, 0, 0, 0, 0, 0, 2, 0, 0, 0]]"] by metis
qed

end
