(* ===== verification/Thread_Output.thy ===== *)
theory Thread_Output
  imports Interleaving Prelude
begin

section \<open>Threads that print (multithread.cpp)\<close>

text \<open>
  The two classes of \<open>LinuxProgram/multi_thread/multithread.cpp\<close>, each with a thread of its own that is joined in the
  destructor. Each \<open>operator<<\<close> on \<open>std::cout\<close> is atomic, a line of several is not: the mutex is only taken by the threads.
\<close>

subsection \<open>What a thread does\<close>

datatype act = Say bytes | Sleep nat | Lock | Unlock | Key

definition newline :: bytes where "newline = [10]"

text \<open>The lambda of \<open>foo::foo\<close>, and what \<open>foo::\<sim>foo\<close> prints before it joins; the thread is always joinable.\<close>

definition foo_thread :: "bytes \<Rightarrow> act list" where
  "foo_thread this_id =
     [Say (bytes_of ''thread: sleep for 3s! ''), Say newline, Sleep 3, Lock, Say (bytes_of ''thread id = ''), Say this_id, Say newline, Unlock]"

definition foo_destructor :: "act list" where
  "foo_destructor = [Say (bytes_of ''destructor called''), Say newline, Say (bytes_of ''joinable''), Say newline]"

text \<open>\<open>thread_passparam\<close>: what the constructor prints before it starts the thread, and \<open>th_func\<close>, which gets a copy.\<close>

definition passparam_constructor :: "bytes \<Rightarrow> bytes list" where
  "passparam_constructor addr_num = [bytes_of ''main: Address of node: '', addr_num, newline]"

definition th_func :: "bytes \<Rightarrow> act list" where
  "th_func addr_i = [Lock, Say (bytes_of ''thread: Address of node: ''), Say addr_i, Say newline, Unlock]"

text \<open>\<open>main\<close> waits for a key, then leaves the scope of the object.\<close>

definition main_rest :: "act list" where "main_rest = [Key]"

subsection \<open>A thread beside its creator\<close>

record threads =
  thread_left :: "act list"
  creator_left :: "act list"
  mutex_held :: bool
  said :: "bytes list"
  joined :: bool

fun says :: "act list \<Rightarrow> bytes list" where
  "says [] = []"
| "says (Say t # as) = t # says as"
| "says (_ # as) = says as"

inductive threads_step :: "threads \<Rightarrow> threads \<Rightarrow> bool" where
  thread_says: "thread_left s = Say t # as \<Longrightarrow> threads_step s (s\<lparr>thread_left := as, said := said s @ [t]\<rparr>)"
| thread_sleeps: "thread_left s = Sleep n # as \<Longrightarrow> threads_step s (s\<lparr>thread_left := as\<rparr>)"
| thread_locks: "thread_left s = Lock # as \<Longrightarrow> \<not> mutex_held s \<Longrightarrow> threads_step s (s\<lparr>thread_left := as, mutex_held := True\<rparr>)"
| thread_unlocks: "thread_left s = Unlock # as \<Longrightarrow> threads_step s (s\<lparr>thread_left := as, mutex_held := False\<rparr>)"
| creator_says: "creator_left s = Say t # as \<Longrightarrow> threads_step s (s\<lparr>creator_left := as, said := said s @ [t]\<rparr>)"
| creator_key: "creator_left s = Key # as \<Longrightarrow> threads_step s (s\<lparr>creator_left := as\<rparr>)"
| joins: "creator_left s = [] \<Longrightarrow> thread_left s = [] \<Longrightarrow> \<not> joined s \<Longrightarrow> threads_step s (s\<lparr>joined := True\<rparr>)"

definition created :: "bytes list \<Rightarrow> act list \<Rightarrow> act list \<Rightarrow> threads" where
  "created before thread creator = \<lparr>thread_left = thread, creator_left = creator, mutex_held = False, said = before, joined = False\<rparr>"

text \<open>The thread takes the mutex when it is free and gives it back; the creator never takes it.\<close>

fun thread_fine :: "bool \<Rightarrow> act list \<Rightarrow> bool" where
  "thread_fine held [] \<longleftrightarrow> \<not> held"
| "thread_fine held (Lock # as) \<longleftrightarrow> \<not> held \<and> thread_fine True as"
| "thread_fine held (Unlock # as) \<longleftrightarrow> held \<and> thread_fine False as"
| "thread_fine held (Key # as) \<longleftrightarrow> False"
| "thread_fine held (_ # as) \<longleftrightarrow> thread_fine held as"

fun creator_fine :: "act list \<Rightarrow> bool" where
  "creator_fine [] \<longleftrightarrow> True"
| "creator_fine (Say t # as) \<longleftrightarrow> creator_fine as"
| "creator_fine (Key # as) \<longleftrightarrow> creator_fine as"
| "creator_fine (_ # as) \<longleftrightarrow> False"

subsection \<open>What is printed\<close>

definition outputs :: "threads \<Rightarrow> bytes list set" where
  "outputs s = (\<lambda>z. said s @ z) ` shuffles (says (thread_left s)) (says (creator_left s))"

definition threads_inv :: "bytes list set \<Rightarrow> threads \<Rightarrow> bool" where
  "threads_inv X s \<longleftrightarrow> thread_fine (mutex_held s) (thread_left s) \<and> creator_fine (creator_left s) \<and> outputs s \<subseteq> X
     \<and> (joined s \<longrightarrow> thread_left s = [] \<and> creator_left s = [])"

definition steps_left :: "threads \<Rightarrow> nat" where
  "steps_left s = length (thread_left s) + length (creator_left s) + of_bool (\<not> joined s)"

lemma creator_moves: "creator_left s = a # as \<Longrightarrow> creator_fine (creator_left s) \<Longrightarrow> \<exists>t. threads_step s t"
  by (cases a) (auto intro: creator_says creator_key)

lemma thread_moves: "thread_left s = a # as \<Longrightarrow> thread_fine (mutex_held s) (thread_left s) \<Longrightarrow> \<exists>t. threads_step s t"
  by (cases a) (auto intro: thread_says thread_sleeps thread_locks thread_unlocks)

lemma threads_stuck: "threads_inv X s \<Longrightarrow> \<nexists>t. threads_step s t \<Longrightarrow> joined s"
  using creator_moves thread_moves joins by (metis threads_inv_def neq_Nil_conv)

interpretation threads: settling threads_step "threads_inv X" steps_left joined
proof unfold_locales
  fix s t assume "threads_inv X s" "threads_step s t"
  from this(2,1) show "threads_inv X t"
    by (cases rule: threads_step.cases)
      (auto simp: threads_inv_def outputs_def image_subset_iff intro: Cons_in_shuffles_leftI Cons_in_shuffles_rightI)
next
  fix s t assume "threads_step s t"
  then show "steps_left t < steps_left s" by (cases rule: threads_step.cases) (auto simp: steps_left_def)
next
  fix s assume "threads_inv X s" "\<nexists>t. threads_step s t"
  then show "joined s" by (rule threads_stuck)
qed

text \<open>Every order of the pieces can be brought about: there is always a step towards it.\<close>

definition leads :: "bytes list \<Rightarrow> threads \<Rightarrow> bool" where
  "leads zs s \<longleftrightarrow> (\<exists>z \<in> shuffles (says (thread_left s)) (says (creator_left s)). said s @ z = zs) \<and> \<not> joined s"

lemma step_towards:
  assumes inv: "threads_inv X s" and leads: "leads zs s" and more: "thread_left s \<noteq> [] \<or> creator_left s \<noteq> []"
  shows "\<exists>u. threads_step s u \<and> leads zs u"
proof -
  from inv have fine: "thread_fine (mutex_held s) (thread_left s)" "creator_fine (creator_left s)" by (auto simp: threads_inv_def)
  from leads obtain z where z: "z \<in> shuffles (says (thread_left s)) (says (creator_left s))" "said s @ z = zs" "\<not> joined s"
    by (auto simp: leads_def)
  consider (key) bs where "creator_left s = Key # bs" | (quiet) a as where "thread_left s = a # as" "\<forall>t. a \<noteq> Say t"
    | (print) "\<nexists>bs. creator_left s = Key # bs" "\<nexists>a as. thread_left s = a # as \<and> (\<forall>t. a \<noteq> Say t)" by blast
  then show ?thesis
  proof cases
    case key
    with z creator_key [OF key] show ?thesis by (intro exI conjI) (auto simp: leads_def)
  next
    case quiet
    with z fine thread_sleeps [of s] thread_locks [of s] thread_unlocks [of s] show ?thesis
      by (cases a) (fastforce simp: leads_def)+
  next
    case print
    have thread: "?thesis" if "thread_left s = Say t # as" "z = t # z'" "z' \<in> shuffles (says as) (says (creator_left s))" for t as z'
      using that z thread_says [OF that(1)] by (intro exI conjI) (auto simp: leads_def)
    have creator: "?thesis" if "creator_left s = Say t # bs" "z = t # z'" "z' \<in> shuffles (says (thread_left s)) (says bs)" for t bs z'
      using that z creator_says [OF that(1)] by (intro exI conjI) (auto simp: leads_def)
    have t: "thread_left s = [] \<or> (\<exists>t as. thread_left s = Say t # as)" using print(2) by (metis neq_Nil_conv)
    have c: "creator_left s = [] \<or> (\<exists>t as. creator_left s = Say t # as)"
      using print(1) fine(2) by (cases "creator_left s" rule: creator_fine.cases) auto
    from t c show ?thesis using z(1) more thread creator by (elim disjE exE) (auto simp: image_iff)
  qed
qed

lemma every_order:
  "threads_inv X s \<Longrightarrow> leads zs s \<Longrightarrow> \<exists>t. threads_step\<^sup>*\<^sup>* s t \<and> joined t \<and> said t = zs"
proof (induction "steps_left s" arbitrary: s rule: less_induct)
  case less
  show ?case
  proof (cases "thread_left s = [] \<and> creator_left s = []")
    case True
    with less.prems joins [of s] show ?thesis by (intro exI [of _ "s\<lparr>joined := True\<rparr>"]) (auto simp: leads_def)
  next
    case False
    with less.prems step_towards obtain u where u: "threads_step s u" "leads zs u" by blast
    with less show ?thesis by (meson threads.step_inv threads.step_less converse_rtranclp_into_rtranclp)
  qed
qed

text \<open>What a program of this form can have printed when the thread has been joined.\<close>

lemma printed_orders:
  assumes fine: "thread_fine False thread" "creator_fine creator"
  shows "{said t |t. threads_step\<^sup>*\<^sup>* (created before thread creator) t \<and> joined t}
    = (\<lambda>z. before @ z) ` shuffles (says thread) (says creator)" (is "?L = ?R")
proof
  have inv: "threads_inv ?R (created before thread creator)" using fine by (simp add: threads_inv_def created_def outputs_def)
  show "?L \<subseteq> ?R"
  proof
    fix zs assume "zs \<in> ?L"
    then obtain t where "threads_step\<^sup>*\<^sup>* (created before thread creator) t" "joined t" "said t = zs" by blast
    with threads.run_inv [OF this(1) inv] show "zs \<in> ?R" by (auto simp: threads_inv_def outputs_def)
  qed
  show "?R \<subseteq> ?L"
  proof
    fix zs assume "zs \<in> ?R"
    then have "leads zs (created before thread creator)" by (auto simp: leads_def created_def)
    from every_order [OF inv this] show "zs \<in> ?L" by blast
  qed
qed

lemma threads_join:
  assumes "thread_fine False thread" "creator_fine creator"
  shows "\<exists>t. threads_step\<^sup>*\<^sup>* (created before thread creator) t \<and> (\<nexists>u. threads_step t u) \<and> joined t"
  by (rule threads.run_settles [of UNIV]) (use assms in \<open>simp add: threads_inv_def created_def\<close>)

text \<open>
  A \<open>foo\<close> that is destroyed at once: the four pieces of the destructor and the five of the thread come out in every
  order that keeps each one's own, so that a line of one can be cut by the other's although the thread holds the mutex.
\<close>

lemma foo_output:
  "{said t |t. threads_step\<^sup>*\<^sup>* (created [] (foo_thread i) foo_destructor) t \<and> joined t}
    = shuffles [bytes_of ''thread: sleep for 3s! '', newline, bytes_of ''thread id = '', i, newline]
        [bytes_of ''destructor called'', newline, bytes_of ''joinable'', newline]"
  by (subst printed_orders) (simp_all add: foo_thread_def foo_destructor_def del: shuffles.simps)

lemma comprehended: "{f t |t. P t \<and> Q t} = R \<Longrightarrow> z \<in> R \<Longrightarrow> \<exists>t. P t \<and> Q t \<and> f t = z"
  by blast

lemma foo_line_cut:
  "\<exists>t. threads_step\<^sup>*\<^sup>* (created [] (foo_thread i) foo_destructor) t \<and> joined t
    \<and> said t = [bytes_of ''thread: sleep for 3s! '', newline, bytes_of ''thread id = '', bytes_of ''destructor called'', i, newline, newline,
        bytes_of ''joinable'', newline]"
proof -
  have "[bytes_of ''thread: sleep for 3s! '', newline, bytes_of ''thread id = '', bytes_of ''destructor called'', i, newline, newline,
        bytes_of ''joinable'', newline] \<in> shuffles [bytes_of ''thread: sleep for 3s! '', newline, bytes_of ''thread id = '', i, newline]
        [bytes_of ''destructor called'', newline, bytes_of ''joinable'', newline]"
    by (rule Cons_in_shuffles_leftI, rule Cons_in_shuffles_leftI, rule Cons_in_shuffles_leftI, rule Cons_in_shuffles_rightI,
        rule Cons_in_shuffles_leftI, rule Cons_in_shuffles_leftI) (simp only: shuffles.simps singleton_iff)
  with foo_output [of i] show ?thesis by (rule comprehended)
qed

text \<open>The other class prints before it starts the thread and nothing after: one order, and the thread's copy has another address.\<close>

lemma passparam_output:
  "{said t |t. threads_step\<^sup>*\<^sup>* (created (passparam_constructor addr_num) (th_func addr_i) main_rest) t \<and> joined t}
    = {[bytes_of ''main: Address of node: '', addr_num, newline, bytes_of ''thread: Address of node: '', addr_i, newline]}"
  by (subst printed_orders) (simp_all add: th_func_def main_rest_def passparam_constructor_def)

end
