(* ===== verification/Spec2Isabelle.thy ===== *)
theory Spec2Isabelle
  imports Majordomo Broker_Fatal Herd_Examples Pirate_Worker Pirate_Client Load_Balancing Sctp_Chat Sctp_Text Sctp_Echo Task_Pipeline
    Boss_Workers Dump Async_Server Weather Suicidal_Snail Event_Counter Wait_Child MdClient2 Round_Trip Sync_Pub
    Lb_System Pass_Fd Load_Test Lazy_Pirate Udp_Ping Broker_Module Request_Reply Interrupted Simple_Pirate Paranoid_Pirate Guide_Programs
    Sctp_Notification Thread_Output
begin

text \<open>
  \<^bold>\<open>A verification of the message brokers and socket servers of EvanWorkspace\<close>

  The repository is a workspace of separate programs. Four groups of them are modelled here: the Majordomo
  broker over ZeroMQ (\<open>Common/zmq/officialMajordomo\<close>), the server of several processes over SCTP and
  UNIX domain sockets (\<open>LinuxSocket/sctp_socket/thundering_herd\<close>), the reliable request-reply
  programs of \<open>Common/zmq/example\<close> (pirate pattern and load balancing), and the servers and clients of
  \<open>LinuxSocket\<close> that came before the server of several processes. All paths are under \<open>src\<close>.

  \<^bold>\<open>How the code is read.\<close> Everything is a function. An operation that can end the process (an assertion, an
  exception, an exit, a dereferenced null pointer, an access out of bounds) returns a sum whose left side
  is that end: \<open>fault\<close> for Majordomo, \<open>halt\<close> for the socket server. State is passed
  explicitly, as records with the members of the classes. What the system, libzmq or a peer decides is an
  argument: the frames of an incoming message, the values of the clock, the results of system calls in the
  order of the calls (\<open>os_ret\<close>), what \<open>poll\<close> reports in each round, what is found in memory nobody has
  initialised. Loops that run until something arrives take the list of what arrives; the end of that list is waiting
  forever. Logging and console output have no effect in the model.

  \<^bold>\<open>Majordomo.\<close>
  \<^item> \<open>Prelude\<close>: bytes as 8-bit words, C strings, sums as results with \<open>bindE\<close>, \<open>forE\<close> and the weakest
    precondition \<open>wpE\<close>; the locales \<open>codec\<close> (a decoder undoes an encoder,
    and so it does on lists) and \<open>fallible_machine\<close> (a step that keeps an invariant has safe runs).
  \<^item> \<open>Digits\<close>: numbers as text, decimal and hexadecimal, and back; no two numbers have the same text.
  \<^item> \<open>Zmsg\<close>: the class \<open>zmsg\<close> of \<open>zmsg.hpp\<close>, a list of parts, with its codec for 17-byte identities and its
    self-test. Round trips of the codec and of a relayed message, exact conditions for its assertions.
    The start of the loop of \<open>send\<close> is a parameter, for the two copies of the file differ in it.
  \<^item> \<open>Mdp\<close>: \<open>mdp.h\<close>, \<open>s_clock\<close>, \<open>s_set_id\<close> and \<open>s_recv\<close> of \<open>zhelpers.hpp\<close>, what the two API classes share, and the
    relay of a message part by part.
  \<^item> \<open>Broker\<close>: \<open>mdbroker.cpp\<close>; \<open>worker\<close> and \<open>service\<close> objects live in a store, the broker holds references.
    \<open>Broker_Inv\<close> and \<open>Broker_Sound\<close>: the invariant (who waits is registered, attached to the service it waits
    for, and waits once) and its preservation by every operation, with the exact inputs that fault.
    \<open>Broker_Props\<close>, \<open>Broker_Run\<close>: what dispatching, purging, heartbeats and the mmi service do, and runs of
    the broker loop, with what goes over the wire for either start of \<open>send\<close>. \<open>Broker_Fatal\<close>: which messages end the
    process, exactly, in the states runs can reach. \<open>Broker_Examples\<close>: instances.
  \<^item> \<open>MdWorker\<close>, \<open>MdClient\<close>: \<open>mdwrkapi.hpp\<close> with \<open>mdworker.cpp\<close>, \<open>mdcliapi.hpp\<close> with \<open>mdclient.cpp\<close>.
    \<open>MdClient2\<close>: \<open>mdcliapi2.hpp\<close> with \<open>mdclient2.cpp\<close>, the client that does not wait, compared with the first.
  \<^item> \<open>Majordomo\<close>: client, broker and worker together: a request makes the round trip if every part is sent,
    and is dropped with the send loop of \<open>officialMajordomo\<close>.

  \<^bold>\<open>The socket server.\<close> A tester (\<open>loadAndTest\<close>) starts the server, which forks its workers and becomes the
  master. Workers announce themselves to the master over a domain socket; when all have, the master opens an
  SCTP port and tells the tester, which connects. The master passes every accepted connection to every
  worker. The order to stop goes from the tester to the master and on to the workers.
  \<^item> \<open>Posix\<close>: the ends and effects of a process, the answers of the system, integers in memory.
  \<^item> \<open>Iomux\<close>: \<open>comm/IoMultiplex.cpp\<close>. The locale \<open>event_registry\<close> is the contract between the event loop and
    its users, interpreted on \<open>register_fd\<close> and \<open>deregister_fd\<close> as \<open>mux\<close>; invariants of callbacks are
    invariants of rounds.
  \<^item> \<open>DomainSocket\<close>: \<open>include/common.hpp\<close> (the messages), \<open>include/DomainSocket.hpp\<close>, \<open>comm/DomainSocket.cpp\<close>.
    \<open>DomainEndpoints\<close>: the two classes that tie a domain socket to the event loop.
  \<^item> \<open>Sctp\<close>: \<open>comm/SctpSocket.cpp\<close>, \<open>include/SctpMessage.hpp\<close> and the two SCTP endpoints.
  \<^item> \<open>Herd_Master\<close>, \<open>Herd_Worker\<close>, \<open>Herd_Tester\<close>: \<open>master.cpp\<close>, \<open>worker.cpp\<close>, \<open>tester.cpp\<close> with
    \<open>loadAndTest.cpp\<close>; \<open>Herd_System\<close>: \<open>main.cpp\<close> and the three together; \<open>Herd_Examples\<close>: instances.

  \<^bold>\<open>The pirate programs.\<close> A queue stands between clients and workers, and gives each request to the ready
  worker that has waited longest; they share \<open>Zmsg\<close> with Majordomo.
  \<^item> \<open>Pirate_Queue\<close>: \<open>ppqueue.cpp\<close> (workers have heartbeats and expire) and \<open>spqueue.cpp\<close> (they do
    not). The locale \<open>worker_pool\<close> says what the operations of a pool promise, \<open>lru_broker\<close> what a broker
    over such a pool does with requests; both are interpreted on the two programs as \<open>pp\<close> and \<open>sp\<close>.
  \<^item> \<open>Pirate_Worker\<close>: \<open>ppworker.cpp\<close> (a silent queue is left, and reconnected to after a doubled interval)
    and \<open>spworker.cpp\<close>; a request through queue and worker and back.
  \<^item> \<open>Pirate_Client\<close>: \<open>lpclient.cpp\<close>, which polls, resends three times and then gives up.
  \<^item> \<open>Lru_Broker\<close>: \<open>lbbroker.cpp\<close> with what its client and worker threads send; the same locale as \<open>lb\<close>.
  \<^item> \<open>Load_Balancing\<close>: \<open>lbbroker2.cpp\<close>, the same broker over CZMQ, and an abstract load balancer. The locale
    \<open>balancing\<close> is the simulation both brokers satisfy (\<open>balanced\<close>, \<open>balanced2\<close>); the two programs do the same on
    the same traffic.
  \<^item> \<open>Lb_System\<close>: all threads of \<open>lbbroker.cpp\<close> side by side, interpreted as \<open>lbs\<close>: every client is replied to, and the
    process can end before the last one has printed its reply.
  \<^item> \<open>Lazy_Client\<close>, \<open>Lazy_Clients\<close>: what one such client, and any number of them, may rely on, whoever answers: sockets
    that are given up, and the numbers of the requests that are out there.
  \<^item> \<open>Simple_Pirate\<close>: clients, \<open>spqueue.cpp\<close> and \<open>spworker.cpp\<close> side by side, interpreted as \<open>simple\<close>; workers crash, clients
    lose patience, and still every reply that reaches an open socket is the one that is waited for.
  \<^item> \<open>Paranoid_Pirate\<close>: the same clients, \<open>ppqueue.cpp\<close> and \<open>ppworker.cpp\<close>, interpreted as \<open>paranoid\<close>, with workers that expire
    and come back under another identity; and why, with the socket names of today's libzmq, no client is answered.
  \<^item> \<open>Lazy_Pirate\<close>: \<open>lpserver.cpp\<close> side by side with the client of \<open>Pirate_Client\<close>, interpreted as \<open>lazy\<close>: whatever
    replies were lost with the sockets that were given up, one that arrives is the one that is waited for.
  \<^item> \<open>Request_Reply\<close>: \<open>rrclient.cpp\<close>, \<open>rrbroker.cpp\<close>, \<open>rrworker.cpp\<close>, \<open>mtserver.cpp\<close>, \<open>hwclient.cpp\<close>; any number of
    clients and workers around a broker, interpreted as \<open>rr\<close>: all requests are answered.

  \<^bold>\<open>Programs of threads and processes.\<close> Here the programs run side by side and any of them may take the next step.
  \<^item> \<open>Interleaving\<close>: the locales \<open>stepping\<close> (an invariant of a step relation) and \<open>settling\<close> (with a measure: runs are
    bounded, and end where nothing is left to do); what a program picks of the messages that wait.
  \<^item> \<open>Chance\<close>: the macro \<open>within\<close> of \<open>zhelpers.hpp\<close>, with its rounding to \<open>float\<close>.
  \<^item> \<open>Task_Pipeline\<close>: \<open>taskvent.cpp\<close>, \<open>taskwork.cpp\<close>, \<open>tasksink.cpp\<close> and their second versions; interpreted as \<open>pipe\<close>.
  \<^item> \<open>Boss_Workers\<close>: \<open>rtdealer.cpp\<close>, \<open>rtreq.cpp\<close> and \<open>router/src/zmqRouter.cpp\<close>; interpreted as \<open>office\<close> while the
    time runs and as \<open>overtime\<close> when it is over.
  \<^item> \<open>Dump\<close>: \<open>s_dump\<close> of \<open>zhelpers.hpp\<close> and \<open>zmsg::dump\<close>. The locale \<open>prefix_code\<close> is what makes a text that is read from
    left to right unambiguous; it is interpreted on the bytes and on the lines of both printers.
  \<^item> \<open>Async_Server\<close>: \<open>asyncsrv.cpp\<close>, its clients, proxy and workers; interpreted as \<open>async\<close>.
  \<^item> \<open>Round_Trip\<close>: \<open>tripping.cpp\<close>, client, broker and worker; interpreted as \<open>trips\<close>. \<open>Sync_Pub\<close>: \<open>syncpub.cpp\<close> and
    \<open>syncsub.cpp\<close>, with the subscription that travels beside the request, over a PUB socket that is a parameter;
    interpreted as \<open>synced\<close>.
  \<^item> \<open>Event_Counter\<close>: \<open>LinuxProgram/multi_thread/eventfd\<close>, parent and child on an eventfd; interpreted as \<open>counting\<close>.
    \<open>Wait_Child\<close>: \<open>LinuxProgram/multi_process/wait\<close>, for every end of the child, and without the output files.
  \<^item> \<open>Thread_Output\<close>: \<open>LinuxProgram/multi_thread/multithread.cpp\<close>, a thread beside its creator; interpreted as \<open>threads\<close>. What they
    can have printed is exactly the set of the shuffles of their pieces: the mutex does not keep the lines whole.
  \<^item> \<open>Pass_Fd\<close>: \<open>sctp_socket/pass_filedescriptor\<close>, two processes that pass a descriptor, call by call, with the tables of
    their descriptors, whatever call fails and whether or not the descriptor comes with its message; interpreted as \<open>passing\<close>.
  \<^item> \<open>Interrupted\<close>: sending and versions in \<open>zhelpers.hpp\<close>, and \<open>interrupt.cpp\<close>, whose signals may come at any moment,
    over a REP socket that is a parameter.
  \<^item> \<open>Guide_Programs\<close>: \<open>identity.cpp\<close>, \<open>psenvpub.cpp\<close> with \<open>psenvsub.cpp\<close>, \<open>msreader.cpp\<close> beside \<open>mspoller.cpp\<close>, which
    process the same messages but starve differently, and \<open>mtrelay.cpp\<close>, whose threads have only one order.
  \<^item> \<open>Load_Test\<close>: \<open>loadtest/src\<close>, what is sent and measured. \<open>Udp_Ping\<close>: \<open>udpping1.cpp\<close>, with the memory its buffers
    overrun. \<open>Broker_Module\<close>: \<open>brockerModule/src\<close>, whose messages are compared with those of \<open>Zmsg\<close>.
  \<^item> \<open>Weather\<close>: \<open>wuserver.cpp\<close>, \<open>wuclient.cpp\<close>, \<open>wuproxy.cpp\<close>. \<open>Suicidal_Snail\<close>: \<open>suisnail.cpp\<close> and \<open>s_sleep\<close>.

  \<^bold>\<open>The earlier socket programs.\<close>
  \<^item> \<open>Console\<close>: a keyboard that \<open>read\<close> and \<open>std::cin\<close> share, with the buffer of the
    latter.
  \<^item> \<open>Sctp_Chat\<close>: \<open>sctp_socket/control_stream\<close>, a chat server and client with an event loop that serves one
    descriptor a round, and the client of \<open>terminate_association\<close>: what is typed on one side is shown on the other;
    when the server ends; what starves, and what aborts the association.
  \<^item> \<open>Unix_Stream\<close>: \<open>unixDomainSocket/server.c\<close> and \<open>client.c\<close>. The locales \<open>descriptor_opener\<close> and
    \<open>error_reporter\<close> say what a function that opens a descriptor promises on success and on failure, interpreted as
    \<open>listening\<close>, \<open>accepting\<close> and \<open>connecting\<close>: no descriptor is lost.
  \<^item> \<open>Sctp_Text\<close>: \<open>sctp_socket/one_client_one_server\<close> and \<open>multi_client_one_server\<close>.
  \<^item> \<open>Sctp_Notification\<close>: the printer of \<open>control_stream/SctpNotification.cpp\<close>, compared with that of \<open>Sctp_Notify\<close> by what can
    be read back from a log; the locale \<open>prefix_code\<close> once more, as \<open>c_log\<close> and \<open>cpp_log\<close>.
  \<^item> \<open>Sctp_Notify\<close>, \<open>Sctp_Echo\<close>: the printer of notifications, the echo server and its client in
    \<open>sctp_socket/backup\<close>.

  \<^bold>\<open>Bounds.\<close> No fuel is used: recursion is over the messages, poll rounds or wait results of a run, or over
  the data. Counters of the protocol code are natural numbers or integers where the code uses \<open>int\<close>
  counters that cannot come near their bounds in the runs considered (\<open>retries_left\<close> of \<open>mdcliapi.hpp\<close>, given a negative
  number of retries, would after \<open>2\<^sup>3\<^sup>1\<close> polls); message identifiers, ports and flags are words of
  their width.

  \<^bold>\<open>Not modelled.\<close> The vendored libraries (spdlog, the ZeroMQ headers, Catch), files generated by CMake, the
  console output of the ZeroMQ programs and of the server of several processes (but for
  \<open>zmsg::dump\<close> and \<open>s_dump\<close>), the loggers, signals (but for \<open>interrupt.cpp\<close>; a write to a closed socket would raise SIGPIPE), the interleaving of the threads of
  \<open>lbbroker2.cpp\<close>, and copies: \<open>sctp_proxy\<close> repeats \<open>thundering_herd\<close>, \<open>io_multiplex\<close> repeats
  \<open>one_client_one_server\<close>. The manifest lists what else is left out.
\<close>

end
